(* ===== verification/Prelude.thy ===== *)
theory Prelude
  imports Main "HOL-Library.Word" "HOL-Library.Multiset"
begin

text \<open>
  What the components share: the names of the machine types, the conversions a C assignment
  makes when it stores a wide value in a narrow object, reads of a buffer that fail instead of
  returning an unspecified element, and generic lemmas on lists, heaps of linked nodes and words.

  Conventions of the whole development. A pointer is an \<open>addr option\<close> (\<open>None\<close> is \<open>NULL\<close>), a
  store is a partial map from addresses and \<open>None\<close> in it means not allocated. A C \<open>int\<close> is an
  \<open>int\<close>; where a value may leave the range of its C type the model applies \<open>s16\<close>, \<open>s32\<close> or a word
  type at the assignment, and where the code relies on a value staying in range this is proved.
  Byte buffers are lists of \<open>byte\<close>; an access outside the allocated bytes is an error value.
\<close>

unbundle bit_operations_syntax

section \<open>Machine types\<close>

type_synonym byte = "8 word"
type_synonym u16 = "16 word"
type_synonym u32 = "32 word"
type_synonym u64 = "64 word"
type_synonym addr = nat

text \<open>Storing an integer in an object of 16 or 32 signed bits (two's complement).\<close>

definition s16 :: "int \<Rightarrow> int" where
  "s16 x = sint (word_of_int x :: 16 word)"

definition s32 :: "int \<Rightarrow> int" where
  "s32 x = sint (word_of_int x :: 32 word)"

text \<open>The value of a byte read through an \<open>unsigned char\<close> and through a \<open>signed char\<close> pointer.\<close>

abbreviation ub :: "byte \<Rightarrow> int" where
  "ub b \<equiv> uint b"

abbreviation sb :: "byte \<Rightarrow> int" where
  "sb b \<equiv> sint b"

definition in_s16 :: "int \<Rightarrow> bool" where
  "in_s16 x \<longleftrightarrow> - 32768 \<le> x \<and> x \<le> 32767"

definition in_s32 :: "int \<Rightarrow> bool" where
  "in_s32 x \<longleftrightarrow> - 2147483648 \<le> x \<and> x \<le> 2147483647"

lemma in_s16_s16 [simp]: "in_s16 (s16 x)"
  using sint_range_size [of "word_of_int x :: 16 word"]
  by (simp add: s16_def in_s16_def word_size)

lemma s16_id [simp]: "in_s16 x \<Longrightarrow> s16 x = x"
  by (simp add: s16_def in_s16_def signed_of_int signed_take_bit_int_eq_self)

lemma in_s32_s32 [simp]: "in_s32 (s32 x)"
  using sint_range_size [of "word_of_int x :: 32 word"]
  by (simp add: s32_def in_s32_def word_size)

lemma s32_id [simp]: "in_s32 x \<Longrightarrow> s32 x = x"
  by (simp add: s32_def in_s32_def signed_of_int signed_take_bit_int_eq_self)

lemma in_s16_in_s32: "in_s16 x \<Longrightarrow> in_s32 x"
  by (simp add: in_s16_def in_s32_def)

lemma ub_bounds [simp]: "0 \<le> ub b" "ub b < 256" "ub b \<le> 255"
proof -
  have "ub b < 2 ^ 8" using uint_lt2p [of b] by simp
  then show "ub b < 256" "ub b \<le> 255" by simp_all
qed simp

lemma sb_bounds: "- 128 \<le> sb b" "sb b \<le> 127"
  using sint_range_size [of b] by (simp_all add: word_size)

section \<open>Lists\<close>

text \<open>Reading element \<open>i\<close> of a buffer; \<open>None\<close> is an access outside of it.\<close>

definition at :: "'a list \<Rightarrow> nat \<Rightarrow> 'a option" where
  "at xs i = (if i < length xs then Some (xs ! i) else None)"

lemma at_Some_iff: "at xs i = Some x \<longleftrightarrow> i < length xs \<and> xs ! i = x"
  by (auto simp: at_def)

lemma at_None_iff: "at xs i = None \<longleftrightarrow> length xs \<le> i"
  by (auto simp: at_def)

lemma at_Nil [simp]: "at [] i = None"
  by (simp add: at_def)

lemma at_Cons_0 [simp]: "at (x # xs) 0 = Some x"
  by (simp add: at_def)

lemma at_Cons_Suc [simp]: "at (x # xs) (Suc i) = at xs i"
  by (simp add: at_def)

lemma at_Cons_numeral [simp]: "at (x # xs) (numeral n) = at xs (pred_numeral n)"
  by (simp add: at_def numeral_eq_Suc)

lemma at_append_left [simp]: "i < length xs \<Longrightarrow> at (xs @ ys) i = at xs i"
  by (simp add: at_def nth_append)

lemma at_append_right [simp]: "at (xs @ ys) (length xs + i) = at ys i"
  by (simp add: at_def nth_append)

lemma at_append_length [simp]: "at (xs @ ys) (length xs) = at ys 0"
  using at_append_right [of xs ys 0] by simp

lemma at_append_length_Suc [simp]: "at (xs @ ys) (Suc (length xs + i)) = at ys (Suc i)"
  using at_append_right [of xs ys "Suc i"] by simp

lemma at_append_length_Suc0 [simp]: "at (xs @ ys) (Suc (length xs)) = at ys (Suc 0)"
  using at_append_right [of xs ys "Suc 0"] by simp

text \<open>Reading \<open>n\<close> elements from \<open>i\<close>, as \<open>memcpy\<close> does.\<close>

definition slice :: "'a list \<Rightarrow> nat \<Rightarrow> nat \<Rightarrow> 'a list option" where
  "slice xs i n = (if i + n \<le> length xs then Some (take n (drop i xs)) else None)"

lemma slice_append_prefix [simp]: "slice (xs @ ys @ zs) (length xs) (length ys) = Some ys"
  by (simp add: slice_def)

lemma slice_length: "slice xs i n = Some ys \<Longrightarrow> length ys = n"
  by (auto simp: slice_def split: if_splits)

text \<open>Overwriting from \<open>off\<close> on, as \<open>memcpy\<close> does into a buffer of fixed size.\<close>

definition put_bytes :: "'a list \<Rightarrow> nat \<Rightarrow> 'a list \<Rightarrow> 'a list option" where
  "put_bytes m off bs =
     (if off + length bs \<le> length m then Some (take off m @ bs @ drop (off + length bs) m) else None)"

lemma put_bytes_Some:
  "off + length bs \<le> length m \<Longrightarrow>
   put_bytes m off bs = Some (take off m @ bs @ drop (off + length bs) m)"
  by (simp add: put_bytes_def)

lemma last_append_single [simp]: "last (xs @ [x]) = x"
  by simp

section \<open>Results that may fail\<close>

text \<open>\<open>result_simps\<close> evaluates a sequence of fallible steps whose outcomes are known.\<close>

named_theorems result_simps

definition rbind :: "'e + 'a \<Rightarrow> ('a \<Rightarrow> 'e + 'b) \<Rightarrow> 'e + 'b" where
  "rbind r f = (case r of Inl e \<Rightarrow> Inl e | Inr x \<Rightarrow> f x)"

lemma rbind_simps [simp, result_simps]: "rbind (Inl e) f = Inl e" "rbind (Inr x) f = f x"
  by (simp_all add: rbind_def)

lemma rbind_Inr_iff: "rbind r f = Inr y \<longleftrightarrow> (\<exists>x. r = Inr x \<and> f x = Inr y)"
  by (cases r) auto

lemma rbind_cong [fundef_cong]:
  "r = r' \<Longrightarrow> (\<And>x. r' = Inr x \<Longrightarrow> f x = g x) \<Longrightarrow> rbind r f = rbind r' g"
  by (cases r') auto

text \<open>A read that must succeed: \<open>None\<close> becomes the given error.\<close>

definition need :: "'e \<Rightarrow> 'a option \<Rightarrow> 'e + 'a" where
  "need e r = (case r of None \<Rightarrow> Inl e | Some x \<Rightarrow> Inr x)"

lemma need_simps [simp, result_simps]: "need e None = Inl e" "need e (Some x) = Inr x"
  by (simp_all add: need_def)

section \<open>Big-endian and little-endian bytes\<close>

fun be_bytes :: "nat \<Rightarrow> nat \<Rightarrow> byte list" where
  "be_bytes 0 n = []"
| "be_bytes (Suc k) n = word_of_nat (n div 256 ^ k) # be_bytes k n"

fun le_bytes :: "nat \<Rightarrow> nat \<Rightarrow> byte list" where
  "le_bytes 0 n = []"
| "le_bytes (Suc k) n = word_of_nat n # le_bytes k (n div 256)"

lemma be_bytes_numeral:
  "be_bytes (numeral k) n = word_of_nat (n div 256 ^ pred_numeral k) # be_bytes (pred_numeral k) n"
  by (subst numeral_eq_Suc) (rule be_bytes.simps)

lemma le_bytes_numeral:
  "le_bytes (numeral k) n = word_of_nat n # le_bytes (pred_numeral k) (n div 256)"
  by (subst numeral_eq_Suc) (rule le_bytes.simps)

lemma length_be_bytes [simp]: "length (be_bytes k n) = k"
  by (induction k) auto

lemma length_le_bytes [simp]: "length (le_bytes k n) = k"
  by (induction k arbitrary: n) auto

lemma unat_byte_of_nat [simp]: "unat (word_of_nat n :: byte) = n mod 256"
  by (simp add: unsigned_of_nat take_bit_eq_mod)

lemma uint_byte_of_nat [simp]: "uint (word_of_nat n :: byte) = int n mod 256"
  by (simp add: unsigned_of_nat take_bit_eq_mod zmod_int)

text \<open>Big-endian bytes shifted into a 32-bit integer one after the other.\<close>

definition shift_in :: "u32 \<Rightarrow> byte \<Rightarrow> u32" where
  "shift_in acc b = push_bit 8 acc OR ucast b"

lemma shift_in_byte: "shift_in acc b = acc * 256 + ucast b"
proof -
  have "\<not> bit (push_bit 8 acc) n \<or> \<not> bit (ucast b :: u32) n" for n
    using bit_imp_le_length [of b n] by (auto simp: bit_push_bit_iff bit_ucast_iff)
  then have "push_bit 8 acc + (ucast b :: u32) = push_bit 8 acc OR ucast b"
    by (rule disjunctive_add)
  then show ?thesis by (simp add: shift_in_def push_bit_eq_mult)
qed

lemma ucast_byte_of_nat: "(ucast (word_of_nat m :: byte) :: u32) = word_of_nat (m mod 256)"
  by (simp add: unsigned_of_nat take_bit_eq_mod)

lemma foldl_be_bytes:
  "foldl shift_in acc (be_bytes k n) = acc * 256 ^ k + word_of_nat (n mod 256 ^ k)"
proof (induction k arbitrary: acc)
  case (Suc k)
  have "foldl shift_in acc (be_bytes (Suc k) n) =
      (acc * 256 + word_of_nat (n div 256 ^ k mod 256)) * 256 ^ k + word_of_nat (n mod 256 ^ k)"
    by (simp add: Suc.IH shift_in_byte ucast_byte_of_nat)
  also have "\<dots> = acc * 256 ^ Suc k + word_of_nat (256 ^ k * (n div 256 ^ k mod 256) + n mod 256 ^ k)"
    by (simp add: algebra_simps)
  also have "256 ^ k * (n div 256 ^ k mod 256) + n mod 256 ^ k = n mod 256 ^ Suc k"
    using mod_mult2_eq [of n "256 ^ k" 256] by (simp add: mult.commute)
  finally show ?case .
qed simp

lemma u32_wrap [simp]: "(4294967296 :: u32) = 0"
  by transfer simp

section \<open>Chains of linked nodes in a store\<close>

text \<open>
  \<open>chain f h p as\<close>: starting at pointer \<open>p\<close> in store \<open>h\<close> and following the link \<open>f\<close> of each node
  one passes exactly the addresses \<open>as\<close> and ends at \<open>NULL\<close>.
\<close>

primrec chain :: "('n \<Rightarrow> addr option) \<Rightarrow> (addr \<rightharpoonup> 'n) \<Rightarrow> addr option \<Rightarrow> addr list \<Rightarrow> bool" where
  "chain f h p [] \<longleftrightarrow> p = None"
| "chain f h p (a # as) \<longleftrightarrow> p = Some a \<and> (\<exists>nd. h a = Some nd \<and> chain f h (f nd) as)"

lemma chain_None [simp]: "chain f h None as \<longleftrightarrow> as = []"
  by (cases as) auto

lemma chain_Some:
  "chain f h (Some a) as \<longleftrightarrow> (\<exists>nd bs. as = a # bs \<and> h a = Some nd \<and> chain f h (f nd) bs)"
  by (cases as) auto

lemma chain_unique: "chain f h p as \<Longrightarrow> chain f h p bs \<Longrightarrow> as = bs"
  by (induction as arbitrary: p bs) (auto simp: chain_Some)

lemma chain_upd_notin:
  "a \<notin> set as \<Longrightarrow> chain f (h(a := v)) p as = chain f h p as"
  by (induction as arbitrary: p) auto

lemma chain_suffix: "chain f h p (as @ bs) \<Longrightarrow> \<exists>q. chain f h q bs"
  by (induction as arbitrary: p) auto

lemma chain_link_notin: "chain f h (f nd) as \<Longrightarrow> h a = Some nd \<Longrightarrow> a \<notin> set as"
proof
  assume c: "chain f h (f nd) as" and a: "h a = Some nd" and "a \<in> set as"
  then obtain xs ys where as: "as = xs @ a # ys" by (meson split_list)
  then obtain q where q: "chain f h q (a # ys)" using c chain_suffix by blast
  then have "chain f h (f nd) ys" using a by auto
  then have "ys = as" using c chain_unique by blast
  then show False using as by (metis length_append length_Cons less_add_Suc2 less_irrefl)
qed

lemma chain_distinct: "chain f h p as \<Longrightarrow> distinct as"
  by (induction as arbitrary: p) (auto dest: chain_link_notin)

lemma chain_dom: "chain f h p as \<Longrightarrow> a \<in> set as \<Longrightarrow> h a \<noteq> None"
  by (induction as arbitrary: p) auto

lemma chain_snoc:
  assumes "chain f h p (as @ [a])" "h a = Some nd" "b \<notin> set (as @ [a])"
    and "f nd' = Some b" "f new = None"
  shows "chain f (h(a := Some nd', b := Some new)) p (as @ [a, b])"
  using assms
proof (induction as arbitrary: p)
  case (Cons x xs)
  from Cons.prems obtain nx where x: "h x = Some nx" and c: "chain f h (f nx) (xs @ [a])"
    and p: "p = Some x" by auto
  then have "x \<noteq> a" using Cons.prems(1) chain_distinct by fastforce
  moreover have "x \<noteq> b" using Cons.prems(3) by auto
  moreover have "chain f (h(a := Some nd', b := Some new)) (f nx) (xs @ [a, b])"
    using c Cons.prems(2-5) by (intro Cons.IH) auto
  ultimately show ?case using x p by (simp add: fun_upd_def)
qed auto

text \<open>Following a chain for at most \<open>n\<close> links, executably.\<close>

fun walk :: "('n \<Rightarrow> addr option) \<Rightarrow> (addr \<rightharpoonup> 'n) \<Rightarrow> nat \<Rightarrow> addr option \<Rightarrow> addr list" where
  "walk f h 0 p = []"
| "walk f h (Suc n) None = []"
| "walk f h (Suc n) (Some a) =
     (case h a of None \<Rightarrow> [] | Some nd \<Rightarrow> a # walk f h n (f nd))"

lemma walk_chain: "chain f h p as \<Longrightarrow> length as = n \<Longrightarrow> walk f h n p = as"
  by (induction as arbitrary: p n) auto

end
