(* ===== verification/Fifo_Spec.thy ===== *)
theory Fifo_Spec
  imports Prelude
begin

text \<open>
  The contract of a first-in-first-out queue used by several threads, apart from any
  implementation: what each visible action does to the list of queued messages (\<open>fifo_spec\<close>), and
  the locale \<open>fifo_system\<close> of systems whose every step is such an action. It extends
  \<open>invariant_system\<close>, the systems that keep an invariant. The consequence
  \<open>run_fifo\<close> is the delivery guarantee of a whole execution. \<open>fifo_system\<close> is interpreted in
  \<open>Player_Queue\<close> and \<open>Display_Ring\<close>, \<open>invariant_system\<close> in \<open>Capture_Port\<close>,
  \<open>Streambox_Props\<close>, \<open>Streambox_Faults\<close>, \<open>Vk_Session\<close> and \<open>Vk_Props\<close>.
\<close>

datatype 'm fifo_label = Enq 'm | Deq 'm | Subst 'm | Clear | Silent

fun fifo_spec :: "'m list \<Rightarrow> 'm fifo_label \<Rightarrow> 'm list \<Rightarrow> bool" where
  "fifo_spec xs (Enq m) ys \<longleftrightarrow> ys = xs @ [m]"
| "fifo_spec xs (Deq m) ys \<longleftrightarrow> xs = m # ys"
| "fifo_spec xs (Subst m) ys \<longleftrightarrow> xs \<noteq> [] \<and> (ys = m # tl xs \<or> ys = xs)"
| "fifo_spec xs Clear ys \<longleftrightarrow> ys = []"
| "fifo_spec xs Silent ys \<longleftrightarrow> ys = xs"

fun enqs :: "'m fifo_label list \<Rightarrow> 'm list" where
  "enqs [] = []"
| "enqs (Enq m # ls) = m # enqs ls"
| "enqs (_ # ls) = enqs ls"

fun deqs :: "'m fifo_label list \<Rightarrow> 'm list" where
  "deqs [] = []"
| "deqs (Deq m # ls) = m # deqs ls"
| "deqs (_ # ls) = deqs ls"

fun plain :: "'m fifo_label \<Rightarrow> bool" where
  "plain (Enq m) = True"
| "plain (Deq m) = True"
| "plain Silent = True"
| "plain _ = False"

inductive lts_run :: "('s \<Rightarrow> 'l \<Rightarrow> 's \<Rightarrow> bool) \<Rightarrow> 's \<Rightarrow> 'l list \<Rightarrow> 's \<Rightarrow> bool"
  for step where
  run_nil: "lts_run step s [] s"
| run_step: "step s l t \<Longrightarrow> lts_run step t ls u \<Longrightarrow> lts_run step s (l # ls) u"

inductive_cases lts_run_NilE [elim!]: "lts_run step s [] t"
inductive_cases lts_run_ConsE: "lts_run step s (l # ls) t"

text \<open>A run whose labels all satisfy a condition is a run of the system restricted to it.\<close>

lemma lts_run_restrict:
  "lts_run step s ls t \<Longrightarrow> \<forall>l \<in> set ls. P l \<Longrightarrow> lts_run (\<lambda>s l t. step s l t \<and> P l) s ls t"
  by (induction rule: lts_run.induct) (auto intro: lts_run.intros)

locale invariant_system =
  fixes step :: "'s \<Rightarrow> 'l \<Rightarrow> 's \<Rightarrow> bool"
    and inv :: "'s \<Rightarrow> bool"
  assumes step_inv: "step s l t \<Longrightarrow> inv s \<Longrightarrow> inv t"
begin

lemma run_inv: "lts_run step s ls t \<Longrightarrow> inv s \<Longrightarrow> inv t"
  by (induction rule: lts_run.induct) (auto intro: step_inv)

end

locale fifo_system = invariant_system step inv
  for step :: "'s \<Rightarrow> 'm fifo_label \<Rightarrow> 's \<Rightarrow> bool"
    and inv :: "'s \<Rightarrow> bool" +
  fixes contents :: "'s \<Rightarrow> 'm list"
  assumes step_spec: "step s l t \<Longrightarrow> inv s \<Longrightarrow> fifo_spec (contents s) l (contents t)"
begin

lemma run_fifo:
  "lts_run step s ls t \<Longrightarrow> inv s \<Longrightarrow> list_all plain ls
    \<Longrightarrow> contents s @ enqs ls = deqs ls @ contents t"
proof (induction rule: lts_run.induct)
  case (run_step s l t ls u)
  then have IH: "contents t @ enqs ls = deqs ls @ contents u"
    and sp: "fifo_spec (contents s) l (contents t)" and pl: "plain l"
    by (auto intro: step_inv step_spec)
  then show ?case by (cases l) auto
qed simp

lemma run_delivered_prefix:
  assumes "lts_run step s ls t" "inv s" "list_all plain ls" "contents s = []"
  shows "deqs ls = take (length (deqs ls)) (enqs ls)"
    and "contents t = drop (length (deqs ls)) (enqs ls)"
  using run_fifo [OF assms(1-3)] assms(4) by simp_all

end

end
