(* ===== verification/Player_Queue.thy ===== *)
theory Player_Queue
  imports Fifo_Spec
begin

text \<open>
  The message queue of the player (\<open>gst-app/gst-app-0.11.0/amlplay/fsl_player_queue.c\<close>, with the
  message type of \<open>fsl_player_ui_message.c\<close>): a singly linked list of nodes with a head and a tail
  pointer, a length and a capacity, one mutex and two condition variables.

  The queue and everything it points to is one record. \<open>q_nodes\<close>, \<open>q_msgs\<close> and \<open>q_bodies\<close> are the
  allocated list nodes, messages and message bodies; reading a freed object is the fault
  \<open>UseAfterFree\<close>. What the code does between two points where it can lose the mutex is one function:
  a call runs until it returns, or until it waits on a condition variable (outcome \<open>Wait\<close>, mutex
  released), and \<open>queue_put_resume\<close>/\<open>queue_get_resume\<close> run the rest when the wait is over. The
  result of \<open>malloc\<close> and the return code of the timed wait are arguments. The interleaving of any
  number of threads is the step relation \<open>queue_step\<close>.

  Shown: the list invariant and its preservation, first-in-first-out delivery over all
  interleavings, capacity, the time-out branches, and what \<open>FSL_PLAYER_UI_MSG_REPLACE\<close> and a
  \<open>NULL\<close> message really do.
\<close>

section \<open>Data\<close>

datatype fsl_player_ui_msg_id =
    MSG_NONE | MSG_EOS | MSG_EXIT | MSG_INTERNAL_ERROR | MSG_FF | MSG_SF | MSG_PAUSE | MSG_RESUME
  | MSG_START_STOP | MSG_SEEK | MSG_SEL_AUDIO | MSG_SEL_SUBTITLE | MSG_TOGGLE_SUBTITLE
  | MSG_TOGGLE_PLAY_DIRECTION | MSG_TRICKMODE | MSG_VOLUME_ADD | MSG_VOLUME_DEC
  | MSG_GET_MEDIA_INFO | MSG_GET_PLAY_STATUS | MSG_TOGGLE_DISPLAY | MSG_TOGGLE_FULL_SCREEN
  | MSG_TOGGLE_DISPLAY_SIZE | MSG_ROTATE | MSG_TOGGLE_MUTE | MSG_TOGGLE_SKIP_FRAME | MSG_TEST
  | MSG_BUFFERING | MSG_REDIRECT

datatype fsl_player_ui_msg_put_method = PUT_NEW | REPLACE

datatype fsl_player_ret_val =
    FAILURE | SUCCESS | ERROR_BAD_PARAM | ERROR_NOT_SUPPORT | ERROR_DEVICE_UNAVAILABLE
  | ERROR_CANCELLED | ERROR_TIMEOUT

record fsl_player_ui_msg =
  msg_id :: fsl_player_ui_msg_id
  msg_body :: "addr option"

record node =
  node_next :: "addr option"
  node_priv :: addr

datatype cond = Cond_full | Cond_empty

record fsl_player_queue =
  q_klass :: bool
  q_mutex :: bool
  q_head :: "addr option"
  q_tail :: "addr option"
  q_len :: u32
  q_max_len :: u32
  q_nodes :: "addr \<rightharpoonup> node"
  q_msgs :: "addr \<rightharpoonup> fsl_player_ui_msg"
  q_bodies :: "addr set"
  q_signals :: "cond list"

datatype queue_fault = UseAfterFree | DoubleFree

datatype outcome = Ret fsl_player_ret_val | Wait cond | Blocked

section \<open>Operations\<close>

definition MAX_QUEUE_LEN :: u32 where
  "MAX_QUEUE_LEN = NOT 0"

abbreviation q_lock :: "fsl_player_queue \<Rightarrow> fsl_player_queue" where
  "q_lock q \<equiv> q\<lparr>q_mutex := True\<rparr>"

abbreviation q_unlock :: "fsl_player_queue \<Rightarrow> fsl_player_queue" where
  "q_unlock q \<equiv> q\<lparr>q_mutex := False\<rparr>"

abbreviation q_signal :: "cond \<Rightarrow> fsl_player_queue \<Rightarrow> fsl_player_queue" where
  "q_signal c q \<equiv> q\<lparr>q_signals := q_signals q @ [c]\<rparr>"

definition fsl_player_ui_msg_new_empty ::
    "fsl_player_ui_msg_id \<Rightarrow> addr option \<Rightarrow> fsl_player_queue \<Rightarrow> addr option \<times> fsl_player_queue" where
  "fsl_player_ui_msg_new_empty i mem q =
     (case mem of
        None \<Rightarrow> (None, q)
      | Some a \<Rightarrow> (Some a, q\<lparr>q_msgs := (q_msgs q)(a \<mapsto> \<lparr>msg_id = i, msg_body = None\<rparr>)\<rparr>))"

definition fsl_player_ui_msg_free ::
    "addr option \<Rightarrow> fsl_player_queue \<Rightarrow> queue_fault + (int \<times> fsl_player_queue)" where
  "fsl_player_ui_msg_free msg q =
     (case msg of
        None \<Rightarrow> Inr (0, q)
      | Some m \<Rightarrow>
          (case q_msgs q m of
             None \<Rightarrow> Inl UseAfterFree
           | Some d \<Rightarrow>
               (case msg_body d of
                  None \<Rightarrow> Inr (1, q\<lparr>q_msgs := (q_msgs q)(m := None)\<rparr>)
                | Some b \<Rightarrow>
                    if b \<in> q_bodies q
                    then Inr (1, q\<lparr>q_msgs := (q_msgs q)(m := None), q_bodies := q_bodies q - {b}\<rparr>)
                    else Inl DoubleFree)))"

text \<open>\<open>klass_mem\<close> is whether the allocation of the class table succeeds.\<close>

definition fsl_player_queue_inst_init ::
    "bool \<Rightarrow> fsl_player_queue \<Rightarrow> int \<times> fsl_player_queue" where
  "fsl_player_queue_inst_init klass_mem q =
     (let q' = q\<lparr>q_head := None, q_tail := None, q_len := 0, q_max_len := MAX_QUEUE_LEN,
                 q_mutex := False, q_klass := klass_mem\<rparr>
      in (if klass_mem then 0 else 1, q'))"

definition fsl_player_queue_config :: "u32 \<Rightarrow> fsl_player_queue \<Rightarrow> outcome \<times> fsl_player_queue" where
  "fsl_player_queue_config len q =
     (if q_mutex q then (Blocked, q)
      else if len \<noteq> 0 \<and> q_len q \<le> len then (Ret SUCCESS, q_unlock (q\<lparr>q_max_len := len\<rparr>))
      else (Ret SUCCESS, q_unlock q))"

definition fsl_player_queue_active :: "int \<Rightarrow> fsl_player_queue \<Rightarrow> outcome \<times> fsl_player_queue" where
  "fsl_player_queue_active active q =
     (if q_mutex q then (Blocked, q)
      else if active = 0 then (Ret SUCCESS, q_unlock (q_signal Cond_full (q_signal Cond_empty q)))
      else (Ret SUCCESS, q_unlock q))"

text \<open>Linking a new node behind the tail: the two pointer writes before \<open>tail\<close> and \<open>head\<close> change.\<close>

definition link_node ::
    "addr \<Rightarrow> addr \<Rightarrow> fsl_player_queue \<Rightarrow> queue_fault + fsl_player_queue" where
  "link_node a msg q =
     (let h = (q_nodes q)(a \<mapsto> \<lparr>node_next = None, node_priv = msg\<rparr>)
      in case q_tail q of
           None \<Rightarrow> Inr (q\<lparr>q_nodes := h\<rparr>)
         | Some t \<Rightarrow>
             (case h t of
                None \<Rightarrow> Inl UseAfterFree
              | Some nd \<Rightarrow> Inr (q\<lparr>q_nodes := h(t \<mapsto> nd\<lparr>node_next := Some a\<rparr>)\<rparr>)))"

text \<open>The code from the label \<open>QueuePutStart\<close> to the end of the function, mutex held.\<close>

definition queue_put_start ::
    "addr \<Rightarrow> int \<Rightarrow> addr option \<Rightarrow> fsl_player_queue \<Rightarrow> queue_fault + (outcome \<times> fsl_player_queue)" where
  "queue_put_start msg time_out mem q =
     (if q_len q < q_max_len q then
        (case mem of
           None \<Rightarrow> Inr (Ret FAILURE, q_unlock q)
         | Some a \<Rightarrow>
             (case link_node a msg q of
                Inl e \<Rightarrow> Inl e
              | Inr q1 \<Rightarrow>
                  (let q2 = q1\<lparr>q_tail := Some a,
                               q_head := (if q_head q1 = None then Some a else q_head q1),
                               q_len := q_len q1 + 1\<rparr>;
                       q3 = (if q_len q1 = 0 then q_signal Cond_full q2 else q2)
                   in Inr (Ret SUCCESS, q_unlock q3))))
      else if time_out = 0 then Inr (Ret ERROR_TIMEOUT, q_unlock q)
      else Inr (Wait Cond_empty, q_unlock q))"

definition fsl_player_queue_put ::
    "addr option \<Rightarrow> int \<Rightarrow> fsl_player_ui_msg_put_method \<Rightarrow> addr option \<Rightarrow> fsl_player_queue
      \<Rightarrow> queue_fault + (outcome \<times> fsl_player_queue)" where
  "fsl_player_queue_put msg time_out method mem q =
     (if q_mutex q then Inr (Blocked, q)
      else
        (let q = q_lock q
         in case msg of
              None \<Rightarrow> Inr (Ret FAILURE, q)
            | Some m \<Rightarrow>
                (if method = REPLACE \<and> q_head q \<noteq> None then
                   (let a = the (q_head q)
                    in case q_nodes q a of
                         None \<Rightarrow> Inl UseAfterFree
                       | Some nd \<Rightarrow>
                           (case (q_msgs q (node_priv nd), q_msgs q m) of
                              (Some d, Some e) \<Rightarrow>
                                (if msg_id d = msg_id e then
                                   (case fsl_player_ui_msg_free (Some (node_priv nd)) q of
                                      Inl f \<Rightarrow> Inl f
                                    | Inr (_, q1) \<Rightarrow>
                                        Inr (Ret SUCCESS, q_unlock
                                          (q1\<lparr>q_nodes := (q_nodes q1)(a \<mapsto> nd\<lparr>node_priv := m\<rparr>)\<rparr>)))
                                 else Inr (Ret SUCCESS, q_unlock q))
                            | _ \<Rightarrow> Inl UseAfterFree))
                 else queue_put_start m time_out mem q)))"

text \<open>After a wait: a forever wait restarts, a timed wait restarts only if it was signalled and
  there is room.\<close>

definition queue_put_resume ::
    "addr \<Rightarrow> int \<Rightarrow> int \<Rightarrow> addr option \<Rightarrow> fsl_player_queue
      \<Rightarrow> queue_fault + (outcome \<times> fsl_player_queue)" where
  "queue_put_resume msg time_out pthd_ret mem q =
     (if q_mutex q then Inr (Blocked, q)
      else if time_out < 0 \<or> (pthd_ret = 0 \<and> q_len q < q_max_len q)
      then queue_put_start msg time_out mem (q_lock q)
      else Inr (Ret ERROR_TIMEOUT, q_unlock (q_lock q)))"

text \<open>The code from the label \<open>QueueGetStart\<close> on, mutex held. The middle component is \<open>*msg\<close>.\<close>

definition queue_get_start ::
    "int \<Rightarrow> fsl_player_queue \<Rightarrow> queue_fault + (outcome \<times> addr option \<times> fsl_player_queue)" where
  "queue_get_start time_out q =
     (case q_head q of
        Some a \<Rightarrow>
          (case q_nodes q a of
             None \<Rightarrow> Inl UseAfterFree
           | Some nd \<Rightarrow>
               (let q1 = q\<lparr>q_head := node_next nd, q_len := q_len q - 1\<rparr>;
                    q2 = (if q_len q1 = 0 then q1\<lparr>q_tail := None\<rparr> else q1);
                    q3 = q2\<lparr>q_nodes := (q_nodes q2)(a := None)\<rparr>;
                    q4 = (if q_len q = q_max_len q then q_signal Cond_empty q3 else q3)
                in Inr (Ret SUCCESS, Some (node_priv nd), q_unlock q4)))
      | None \<Rightarrow>
          (if time_out = 0 then Inr (Ret ERROR_TIMEOUT, None, q_unlock q)
           else Inr (Wait Cond_full, None, q_unlock q)))"

definition fsl_player_queue_get ::
    "int \<Rightarrow> fsl_player_queue \<Rightarrow> queue_fault + (outcome \<times> addr option \<times> fsl_player_queue)" where
  "fsl_player_queue_get time_out q =
     (if q_mutex q then Inr (Blocked, None, q) else queue_get_start time_out (q_lock q))"

definition queue_get_resume ::
    "int \<Rightarrow> int \<Rightarrow> fsl_player_queue \<Rightarrow> queue_fault + (outcome \<times> addr option \<times> fsl_player_queue)" where
  "queue_get_resume time_out pthd_ret q =
     (if q_mutex q then Inr (Blocked, None, q)
      else if time_out < 0 \<or> (pthd_ret = 0 \<and> q_head q \<noteq> None)
      then queue_get_start time_out (q_lock q)
      else Inr (Ret ERROR_TIMEOUT, None, q_unlock (q_lock q)))"

text \<open>The loop of the flush frees node after node; on a cyclic list it would not return.\<close>

partial_function (option) flush_loop ::
    "(addr \<rightharpoonup> node) \<Rightarrow> addr option \<Rightarrow> (queue_fault + (addr \<rightharpoonup> node)) option" where
  "flush_loop h p =
     (case p of
        None \<Rightarrow> Some (Inr h)
      | Some a \<Rightarrow>
          (case h a of
             None \<Rightarrow> Some (Inl UseAfterFree)
           | Some nd \<Rightarrow> flush_loop (h(a := None)) (node_next nd)))"

definition fsl_player_queue_flush ::
    "fsl_player_queue \<Rightarrow> (queue_fault + (outcome \<times> fsl_player_queue)) option" where
  "fsl_player_queue_flush q =
     (if q_mutex q then Some (Inr (Blocked, q))
      else
        Option.bind (flush_loop (q_nodes q) (q_head q))
          (\<lambda>r. Some (case r of
             Inl e \<Rightarrow> Inl e
           | Inr h \<Rightarrow> Inr (Ret SUCCESS, q_unlock (q_signal Cond_empty
               (q\<lparr>q_nodes := h, q_len := 0, q_head := None, q_tail := None\<rparr>))))))"

definition fsl_player_queue_inst_deinit ::
    "fsl_player_queue \<Rightarrow> (queue_fault + (outcome \<times> fsl_player_queue)) option" where
  "fsl_player_queue_inst_deinit q =
     Option.bind (fsl_player_queue_flush q)
       (\<lambda>r. Some (case r of
          Inl e \<Rightarrow> Inl e
        | Inr (out, q') \<Rightarrow>
            (if out = Blocked then Inr (Blocked, q') else Inr (out, q'\<lparr>q_klass := False\<rparr>))))"

section \<open>The list behind the pointers\<close>

definition q_cells :: "fsl_player_queue \<Rightarrow> addr list" where
  "q_cells q = walk node_next (q_nodes q) (unat (q_len q)) (q_head q)"

definition q_contents :: "fsl_player_queue \<Rightarrow> addr list" where
  "q_contents q = map (\<lambda>a. node_priv (the (q_nodes q a))) (q_cells q)"

definition queue_wf :: "fsl_player_queue \<Rightarrow> bool" where
  "queue_wf q \<longleftrightarrow>
     chain node_next (q_nodes q) (q_head q) (q_cells q) \<and>
     length (q_cells q) = unat (q_len q) \<and>
     q_tail q = (if q_cells q = [] then None else Some (last (q_cells q))) \<and>
     q_len q \<le> q_max_len q"

definition fresh_node :: "addr option \<Rightarrow> fsl_player_queue \<Rightarrow> bool" where
  "fresh_node mem q \<longleftrightarrow> (\<forall>a. mem = Some a \<longrightarrow> q_nodes q a = None)"

lemma q_cells_eq:
  "chain node_next (q_nodes q) (q_head q) as \<Longrightarrow> length as = unat (q_len q) \<Longrightarrow> q_cells q = as"
  by (simp add: q_cells_def walk_chain)

lemma queue_wfI:
  assumes "chain node_next (q_nodes q) (q_head q) as" "length as = unat (q_len q)"
    and "q_tail q = (if as = [] then None else Some (last as))" "q_len q \<le> q_max_len q"
  shows "queue_wf q"
  using assms q_cells_eq [OF assms(1,2)] by (simp add: queue_wf_def)

lemma queue_wfE:
  assumes "queue_wf q"
  obtains as where "q_cells q = as" "chain node_next (q_nodes q) (q_head q) as"
    "length as = unat (q_len q)" "q_tail q = (if as = [] then None else Some (last as))"
    "q_len q \<le> q_max_len q" "distinct as"
  using assms chain_distinct by (auto simp: queue_wf_def)

lemma length_q_contents: "queue_wf q \<Longrightarrow> length (q_contents q) = unat (q_len q)"
  by (simp add: q_contents_def queue_wf_def)

lemma q_head_None_iff: "queue_wf q \<Longrightarrow> q_head q = None \<longleftrightarrow> q_contents q = []"
  by (cases "q_cells q") (auto simp: q_contents_def queue_wf_def)

lemma queue_wf_cong:
  assumes "q_nodes q' = q_nodes q" "q_head q' = q_head q" "q_tail q' = q_tail q"
    "q_len q' = q_len q" "q_max_len q' = q_max_len q"
  shows "queue_wf q' = queue_wf q" "q_contents q' = q_contents q"
  using assms by (simp_all add: queue_wf_def q_contents_def q_cells_def)

lemma queue_wf_mutex [simp]:
  "queue_wf (q\<lparr>q_mutex := b\<rparr>) = queue_wf q" "q_contents (q\<lparr>q_mutex := b\<rparr>) = q_contents q"
  by (rule queue_wf_cong; simp)+

lemma queue_wf_signals [simp]:
  "queue_wf (q\<lparr>q_signals := b\<rparr>) = queue_wf q" "q_contents (q\<lparr>q_signals := b\<rparr>) = q_contents q"
  by (rule queue_wf_cong; simp)+

section \<open>What each operation does to the list\<close>

lemma u32_inc: "(n :: u32) < m \<Longrightarrow> unat (n + 1) = Suc (unat n)"
  by unat_arith

lemma u32_inc_le: "(n :: u32) < m \<Longrightarrow> n + 1 \<le> m"
  by (rule inc_le)

lemma u32_dec: "(n :: u32) \<noteq> 0 \<Longrightarrow> unat (n - 1) = unat n - 1"
  by (rule unat_minus_one)

lemma link_node_chain:
  assumes wf: "queue_wf q" and fresh: "q_nodes q a = None"
  obtains h where "link_node a m q = Inr (q\<lparr>q_nodes := h\<rparr>)"
    and "chain node_next h (if q_head q = None then Some a else q_head q) (q_cells q @ [a])"
    and "map (\<lambda>x. node_priv (the (h x))) (q_cells q @ [a]) = q_contents q @ [m]"
proof -
  obtain as where as: "q_cells q = as" and ch: "chain node_next (q_nodes q) (q_head q) as"
    and tl: "q_tail q = (if as = [] then None else Some (last as))" and d: "distinct as"
    using wf by (rule queue_wfE)
  let ?new = "\<lparr>node_next = None, node_priv = m\<rparr>"
  show thesis
  proof (cases as rule: rev_cases)
    case Nil
    with that [of "(q_nodes q)(a \<mapsto> ?new)"] as ch tl show ?thesis
      by (simp add: link_node_def q_contents_def)
  next
    case (snoc bs t)
    then obtain nd where nd: "q_nodes q t = Some nd"
      using ch chain_dom [of node_next "q_nodes q" "q_head q" as t] by auto
    have na: "a \<notin> set as" using ch fresh chain_dom by fastforce
    then have ta: "t \<noteq> a" using snoc by auto
    let ?h = "(q_nodes q)(t \<mapsto> nd\<lparr>node_next := Some a\<rparr>, a \<mapsto> ?new)"
    have "chain node_next ?h (q_head q) (bs @ [t, a])"
      using ch snoc nd na by (intro chain_snoc [where nd = nd]) auto
    moreover have "q_head q \<noteq> None" using ch snoc by (cases bs) auto
    ultimately have c: "chain node_next ?h (if q_head q = None then Some a else q_head q) (as @ [a])"
      using snoc by auto
    have l: "link_node a m q = Inr (q\<lparr>q_nodes := ?h\<rparr>)"
      using tl snoc nd ta by (simp add: link_node_def fun_upd_twist)
    have "map (\<lambda>x. node_priv (the (?h x))) (as @ [a]) = q_contents q @ [m]"
      using as na nd by (auto simp: q_contents_def)
    with l c show ?thesis unfolding as [symmetric] by (rule that)
  qed
qed

lemma queue_put_start_room:
  assumes wf: "queue_wf q" and fresh: "q_nodes q a = None" and room: "q_len q < q_max_len q"
  obtains q' where "queue_put_start m t (Some a) q = Inr (Ret SUCCESS, q')"
    "queue_wf q'" "q_contents q' = q_contents q @ [m]" "\<not> q_mutex q'"
    "q_max_len q' = q_max_len q" "q_len q' = q_len q + 1"
    "q_signals q' = q_signals q @ (if q_contents q = [] then [Cond_full] else [])"
proof -
  obtain h where h: "link_node a m q = Inr (q\<lparr>q_nodes := h\<rparr>)"
    and ch: "chain node_next h (if q_head q = None then Some a else q_head q) (q_cells q @ [a])"
    and mp: "map (\<lambda>x. node_priv (the (h x))) (q_cells q @ [a]) = q_contents q @ [m]"
    using wf fresh by (rule link_node_chain)
  let ?q2 = "q\<lparr>q_nodes := h, q_tail := Some a,
      q_head := (if q_head q = None then Some a else q_head q), q_len := q_len q + 1\<rparr>"
  have len: "length (q_cells q @ [a]) = unat (q_len q + 1)"
    using wf u32_inc [OF room] by (simp add: queue_wf_def)
  have cells: "q_cells ?q2 = q_cells q @ [a]"
    using ch len by (intro q_cells_eq) simp_all
  have wf2: "queue_wf ?q2"
    using ch len u32_inc_le [OF room] by (intro queue_wfI [where as = "q_cells q @ [a]"]) simp_all
  have con: "q_contents ?q2 = q_contents q @ [m]"
    using cells mp by (simp add: q_contents_def)
  have e: "q_len q = 0 \<longleftrightarrow> q_contents q = []"
    using length_q_contents [OF wf] by (auto simp: unat_eq_0)
  let ?q3 = "if q_len q = 0 then q_signal Cond_full ?q2 else ?q2"
  have "queue_put_start m t (Some a) q = Inr (Ret SUCCESS, q_unlock ?q3)"
    using room h by (simp add: queue_put_start_def Let_def)
  then show thesis using wf2 con e by (intro that [of "q_unlock ?q3"]) simp_all
qed

lemma queue_put_start_cases:
  assumes wf: "queue_wf q" and fresh: "fresh_node mem q"
    and r: "queue_put_start m t mem q = r"
  obtains (room) q' where "r = Inr (Ret SUCCESS, q')" "queue_wf q'" "\<not> q_mutex q'"
      "q_contents q' = q_contents q @ [m]" "q_len q < q_max_len q"
    | (nomem) "r = Inr (Ret FAILURE, q_unlock q)" "mem = None" "q_len q < q_max_len q"
    | (full) out where "r = Inr (out, q_unlock q)" "q_len q = q_max_len q"
      "out = (if t = 0 then Ret ERROR_TIMEOUT else Wait Cond_empty)"
proof (cases "q_len q < q_max_len q")
  case True
  show ?thesis
  proof (cases mem)
    case None
    with True r show ?thesis by (intro nomem) (simp_all add: queue_put_start_def)
  next
    case (Some a)
    with fresh have "q_nodes q a = None" by (simp add: fresh_node_def)
    from queue_put_start_room [OF wf this True, of m t] Some r show ?thesis
      by (metis True room)
  qed
next
  case False
  with wf have "q_len q = q_max_len q" by (simp add: queue_wf_def)
  with r show ?thesis by (intro full [of "if t = 0 then Ret ERROR_TIMEOUT else Wait Cond_empty"])
      (auto simp: queue_put_start_def)
qed

lemma queue_get_start_nonempty:
  assumes wf: "queue_wf q" and ne: "q_contents q \<noteq> []"
  obtains q' where "queue_get_start t q = Inr (Ret SUCCESS, Some (hd (q_contents q)), q')"
    "queue_wf q'" "q_contents q' = tl (q_contents q)" "\<not> q_mutex q'"
    "q_max_len q' = q_max_len q" "q_len q' = q_len q - 1"
    "q_signals q' = q_signals q @ (if q_len q = q_max_len q then [Cond_empty] else [])"
proof -
  obtain as where as: "q_cells q = as" and ch: "chain node_next (q_nodes q) (q_head q) as"
    and ln: "length as = unat (q_len q)"
    and tl: "q_tail q = (if as = [] then None else Some (last as))"
    and le: "q_len q \<le> q_max_len q" and d: "distinct as"
    using wf by (rule queue_wfE)
  obtain a bs where ab: "as = a # bs" using ne as by (cases as) (auto simp: q_contents_def)
  obtain nd where nd: "q_nodes q a = Some nd" and hd: "q_head q = Some a"
    and cb: "chain node_next (q_nodes q) (node_next nd) bs" using ch ab by auto
  have na: "a \<notin> set bs" using d ab by simp
  have n0: "q_len q \<noteq> 0" using ln ab by auto
  have lb: "length bs = unat (q_len q - 1)" using ln ab u32_dec [OF n0] by simp
  have z: "q_len q - 1 = 0 \<longleftrightarrow> bs = []" using lb by (auto simp: unat_eq_0)
  define q3 where "q3 = q\<lparr>q_head := node_next nd, q_len := q_len q - 1,
      q_tail := (if q_len q - 1 = 0 then None else q_tail q), q_nodes := (q_nodes q)(a := None)\<rparr>"
  have q3 [simp]: "q_nodes q3 = (q_nodes q)(a := None)" "q_head q3 = node_next nd"
    "q_len q3 = q_len q - 1" "q_max_len q3 = q_max_len q" "q_signals q3 = q_signals q"
    "q_tail q3 = (if q_len q - 1 = 0 then None else q_tail q)"
    by (simp_all add: q3_def)
  have cb': "chain node_next (q_nodes q3) (q_head q3) bs"
    using cb na by (simp add: chain_upd_notin)
  have cells: "q_cells q3 = bs" using cb' lb by (intro q_cells_eq) simp_all
  have "q_len q - 1 \<le> q_max_len q"
    using le u32_dec [OF n0] by (simp add: word_le_nat_alt)
  then have wf3: "queue_wf q3"
    using cb' lb tl ab z by (intro queue_wfI [of q3 bs]) auto
  have con: "q_contents q3 = tl (q_contents q)"
    using cells as ab na by (auto simp: q_contents_def)
  have hdc: "hd (q_contents q) = node_priv nd" using as ab nd by (simp add: q_contents_def)
  let ?q4 = "if q_len q = q_max_len q then q_signal Cond_empty q3 else q3"
  have "queue_get_start t q = Inr (Ret SUCCESS, Some (node_priv nd), q_unlock ?q4)"
    using hd nd by (simp add: queue_get_start_def Let_def q3_def)
  then show thesis using wf3 con hdc by (intro that [of "q_unlock ?q4"]) simp_all
qed

lemma queue_get_start_empty:
  assumes "queue_wf q" "q_contents q = []"
  shows "queue_get_start t q =
    Inr (if t = 0 then Ret ERROR_TIMEOUT else Wait Cond_full, None, q_unlock q)"
  using assms q_head_None_iff [of q] by (simp add: queue_get_start_def)

lemma flush_loop_chain:
  "chain node_next h p as \<Longrightarrow> flush_loop h p = Some (Inr (h |` (- set as)))"
proof (induction as arbitrary: h p)
  case Nil
  then show ?case by (subst flush_loop.simps) (simp add: restrict_map_def)
next
  case (Cons a as)
  then obtain nd where nd: "h a = Some nd" "p = Some a" "chain node_next h (node_next nd) as"
    by auto
  then have "chain node_next (h(a := None)) (node_next nd) as"
    using chain_link_notin by (simp add: chain_upd_notin chain_link_notin)
  then have "flush_loop (h(a := None)) (node_next nd) = Some (Inr ((h(a := None)) |` (- set as)))"
    by (rule Cons.IH)
  moreover have "(h(a := None)) |` (- set as) = h |` (- set (a # as))"
    by (auto simp: restrict_map_def fun_eq_iff)
  ultimately show ?case using nd by (subst flush_loop.simps) simp
qed

lemma fsl_player_queue_flush_wf:
  assumes "queue_wf q" "\<not> q_mutex q"
  obtains q' where "fsl_player_queue_flush q = Some (Inr (Ret SUCCESS, q'))"
    "queue_wf q'" "q_contents q' = []" "\<not> q_mutex q'" "q_max_len q' = q_max_len q"
    "\<forall>a \<in> set (q_cells q). q_nodes q' a = None"
proof -
  let ?h = "q_nodes q |` (- set (q_cells q))"
  define q' where "q' = q_unlock (q_signal Cond_empty
    (q\<lparr>q_nodes := ?h, q_len := 0, q_head := None, q_tail := None\<rparr>))"
  have "fsl_player_queue_flush q = Some (Inr (Ret SUCCESS, q'))"
    using assms flush_loop_chain [of "q_nodes q" "q_head q" "q_cells q"]
    by (simp add: fsl_player_queue_flush_def queue_wf_def q'_def)
  moreover have "queue_wf q'" by (rule queue_wfI [where as = "[]"]) (simp_all add: q'_def)
  moreover have "q_contents q' = []" by (simp add: q_contents_def q_cells_def q'_def)
  ultimately show thesis by (rule that) (simp_all add: q'_def)
qed

lemma fsl_player_queue_config_wf:
  assumes "queue_wf q" "fsl_player_queue_config n q = (out, q')"
  shows "queue_wf q'" "q_contents q' = q_contents q"
  using assms
  by (auto simp: fsl_player_queue_config_def queue_wf_def q_contents_def q_cells_def
      split: if_splits)

lemma chain_same_links:
  assumes "chain f h p as" "h a = Some nd" "f nd' = f nd"
  shows "chain f (h(a \<mapsto> nd')) p as"
  using assms
proof (induction as arbitrary: p)
  case (Cons x xs)
  then show ?case by (cases "x = a") (auto simp del: fun_upd_apply simp: fun_upd_same fun_upd_other)
qed simp

text \<open>Overwriting the message pointer of the first node.\<close>

lemma replace_head_wf:
  assumes wf: "queue_wf q" and hd: "q_head q = Some a" and nd: "q_nodes q a = Some nd"
    and q': "q_nodes q' = (q_nodes q)(a \<mapsto> nd\<lparr>node_priv := m\<rparr>)" "q_head q' = q_head q"
      "q_tail q' = q_tail q" "q_len q' = q_len q" "q_max_len q' = q_max_len q"
  shows "queue_wf q'" "q_contents q' = m # tl (q_contents q)"
proof -
  obtain as where as: "q_cells q = as" and ch: "chain node_next (q_nodes q) (q_head q) as"
    and ln: "length as = unat (q_len q)"
    and tl: "q_tail q = (if as = [] then None else Some (last as))"
    and le: "q_len q \<le> q_max_len q" and d: "distinct as"
    using wf by (rule queue_wfE)
  from ch hd obtain xs where xs: "as = a # xs" by (auto simp: chain_Some)
  have c: "chain node_next (q_nodes q') (q_head q') as"
    unfolding q' using chain_same_links [OF ch nd, of "nd\<lparr>node_priv := m\<rparr>"] by simp
  show "queue_wf q'" using c ln tl le by (intro queue_wfI [OF c]) (simp_all add: q')
  have "q_cells q' = as" using c ln by (intro q_cells_eq) (simp_all add: q')
  then show "q_contents q' = m # tl (q_contents q)"
    using as xs d by (auto simp: q_contents_def q')
qed

section \<open>Interleavings of many threads\<close>

text \<open>
  A thread is either outside the queue or waits in a condition variable with the arguments of its
  call. Every section of code between two lock operations is one step. A waiting thread may resume
  at any time: after a signal, at its time-out, or spuriously.
\<close>

datatype waiter = PutWaiter addr int | GetWaiter int

record queue_sys =
  sys_q :: fsl_player_queue
  sys_wait :: "nat \<Rightarrow> waiter option"

definition put_label :: "addr \<Rightarrow> outcome \<Rightarrow> addr fifo_label" where
  "put_label m out = (if out = Ret SUCCESS then Enq m else Silent)"

definition get_label :: "outcome \<Rightarrow> addr option \<Rightarrow> addr fifo_label" where
  "get_label out msg =
     (case msg of Some m \<Rightarrow> (if out = Ret SUCCESS then Deq m else Silent) | None \<Rightarrow> Silent)"

definition wait_after :: "outcome \<Rightarrow> waiter \<Rightarrow> waiter option" where
  "wait_after out w = (case out of Wait c \<Rightarrow> Some w | _ \<Rightarrow> None)"

inductive queue_step :: "queue_sys \<Rightarrow> addr fifo_label \<Rightarrow> queue_sys \<Rightarrow> bool" where
  call_put: "sys_wait s t = None \<Longrightarrow> fresh_node mem (sys_q s) \<Longrightarrow>
    fsl_player_queue_put (Some m) tmo PUT_NEW mem (sys_q s) = Inr (out, q') \<Longrightarrow>
    queue_step s (put_label m out)
      \<lparr>sys_q = q', sys_wait = (sys_wait s)(t := wait_after out (PutWaiter m tmo))\<rparr>"
| call_replace: "sys_wait s t = None \<Longrightarrow> fresh_node mem (sys_q s) \<Longrightarrow>
    fsl_player_queue_put (Some m) tmo REPLACE mem (sys_q s) = Inr (out, q') \<Longrightarrow>
    queue_step s (if q_head (sys_q s) = None then put_label m out else Subst m)
      \<lparr>sys_q = q', sys_wait = (sys_wait s)(t := wait_after out (PutWaiter m tmo))\<rparr>"
| resume_put: "sys_wait s t = Some (PutWaiter m tmo) \<Longrightarrow> fresh_node mem (sys_q s) \<Longrightarrow>
    queue_put_resume m tmo pthd_ret mem (sys_q s) = Inr (out, q') \<Longrightarrow>
    queue_step s (put_label m out)
      \<lparr>sys_q = q', sys_wait = (sys_wait s)(t := wait_after out (PutWaiter m tmo))\<rparr>"
| call_get: "sys_wait s t = None \<Longrightarrow>
    fsl_player_queue_get tmo (sys_q s) = Inr (out, msg, q') \<Longrightarrow>
    queue_step s (get_label out msg)
      \<lparr>sys_q = q', sys_wait = (sys_wait s)(t := wait_after out (GetWaiter tmo))\<rparr>"
| resume_get: "sys_wait s t = Some (GetWaiter tmo) \<Longrightarrow>
    queue_get_resume tmo pthd_ret (sys_q s) = Inr (out, msg, q') \<Longrightarrow>
    queue_step s (get_label out msg)
      \<lparr>sys_q = q', sys_wait = (sys_wait s)(t := wait_after out (GetWaiter tmo))\<rparr>"
| call_flush: "fsl_player_queue_flush (sys_q s) = Some (Inr (out, q')) \<Longrightarrow>
    queue_step s Clear (s\<lparr>sys_q := q'\<rparr>)"
| call_config: "fsl_player_queue_config n (sys_q s) = (out, q') \<Longrightarrow>
    queue_step s Silent (s\<lparr>sys_q := q'\<rparr>)"
| call_active: "fsl_player_queue_active n (sys_q s) = (out, q') \<Longrightarrow>
    queue_step s Silent (s\<lparr>sys_q := q'\<rparr>)"

definition sys_inv :: "queue_sys \<Rightarrow> bool" where
  "sys_inv s \<longleftrightarrow> queue_wf (sys_q s) \<and> \<not> q_mutex (sys_q s)"

definition sys_contents :: "queue_sys \<Rightarrow> addr list" where
  "sys_contents s = q_contents (sys_q s)"

lemma fresh_node_lock [simp]: "fresh_node mem (q\<lparr>q_mutex := b\<rparr>) = fresh_node mem q"
  by (simp add: fresh_node_def)

lemma put_start_step:
  assumes "queue_wf q" "fresh_node mem q" "queue_put_start m t mem q = Inr (out, q')"
  shows "queue_wf q' \<and> \<not> q_mutex q' \<and> fifo_spec (q_contents q) (put_label m out) (q_contents q')"
  using queue_put_start_cases [OF assms] by cases (use assms(1) in \<open>auto simp: put_label_def\<close>)

lemma get_start_step:
  assumes "queue_wf q" "queue_get_start t q = Inr (out, msg, q')"
  shows "queue_wf q' \<and> \<not> q_mutex q' \<and> fifo_spec (q_contents q) (get_label out msg) (q_contents q')"
proof (cases "q_contents q = []")
  case True
  with queue_get_start_empty [OF assms(1) True, of t] assms show ?thesis
    by (auto simp: get_label_def)
next
  case False
  then obtain q1 where "queue_get_start t q = Inr (Ret SUCCESS, Some (hd (q_contents q)), q1)"
    "queue_wf q1" "q_contents q1 = tl (q_contents q)" "\<not> q_mutex q1"
    using queue_get_start_nonempty [OF assms(1)] by metis
  with assms(2) False show ?thesis by (auto simp: get_label_def)
qed

lemma put_new_step:
  assumes "queue_wf q" "\<not> q_mutex q" "fresh_node mem q"
    and "fsl_player_queue_put (Some m) t PUT_NEW mem q = Inr (out, q')"
  shows "queue_wf q' \<and> \<not> q_mutex q' \<and> fifo_spec (q_contents q) (put_label m out) (q_contents q')"
  using put_start_step [of "q_lock q" mem m t out q'] assms
  by (simp add: fsl_player_queue_put_def Let_def)

lemma put_resume_step:
  assumes "queue_wf q" "\<not> q_mutex q" "fresh_node mem q"
    and "queue_put_resume m t r mem q = Inr (out, q')"
  shows "queue_wf q' \<and> \<not> q_mutex q' \<and> fifo_spec (q_contents q) (put_label m out) (q_contents q')"
  using put_start_step [of "q_lock q" mem m t out q'] assms
  by (auto simp: queue_put_resume_def put_label_def split: if_splits)

lemma get_step:
  assumes "queue_wf q" "\<not> q_mutex q" "fsl_player_queue_get t q = Inr (out, msg, q')"
  shows "queue_wf q' \<and> \<not> q_mutex q' \<and> fifo_spec (q_contents q) (get_label out msg) (q_contents q')"
  using get_start_step [of "q_lock q" t out msg q'] assms by (simp add: fsl_player_queue_get_def)

lemma get_resume_step:
  assumes "queue_wf q" "\<not> q_mutex q" "queue_get_resume t r q = Inr (out, msg, q')"
  shows "queue_wf q' \<and> \<not> q_mutex q' \<and> fifo_spec (q_contents q) (get_label out msg) (q_contents q')"
  using get_start_step [of "q_lock q" t out msg q'] assms
  by (auto simp: queue_get_resume_def get_label_def split: if_splits)

lemma replace_nonempty:
  assumes wf: "queue_wf q" and m: "\<not> q_mutex q" and ne: "q_head q \<noteq> None"
    and r: "fsl_player_queue_put (Some m) t REPLACE mem q = Inr (out, q')"
  shows "queue_wf q' \<and> \<not> q_mutex q' \<and> out = Ret SUCCESS \<and>
    (q_contents q' = m # tl (q_contents q) \<or> q_contents q' = q_contents q)"
proof -
  obtain a where a: "q_head q = Some a" using ne by auto
  then obtain nd where nd: "q_nodes q a = Some nd"
    using r m by (cases "q_nodes q a") (auto simp: fsl_player_queue_put_def)
  obtain d e where d: "q_msgs q (node_priv nd) = Some d" and e: "q_msgs q m = Some e"
    using r m a nd
    by (cases "q_msgs q (node_priv nd)"; cases "q_msgs q m") (auto simp: fsl_player_queue_put_def)
  show ?thesis
  proof (cases "msg_id d = msg_id e")
    case False
    then have "q' = q_unlock (q_lock q) \<and> out = Ret SUCCESS"
      using r m a nd d e by (simp add: fsl_player_queue_put_def)
    then show ?thesis using wf by simp
  next
    case True
    then have "q_nodes q' = (q_nodes q)(a \<mapsto> nd\<lparr>node_priv := m\<rparr>) \<and> q_head q' = q_head q \<and>
        q_tail q' = q_tail q \<and> q_len q' = q_len q \<and> q_max_len q' = q_max_len q \<and>
        \<not> q_mutex q' \<and> out = Ret SUCCESS"
      using r m a nd d e
      by (cases "msg_body d")
         (auto simp: fsl_player_queue_put_def fsl_player_ui_msg_free_def Let_def split: if_splits)
    then show ?thesis using replace_head_wf [OF wf a nd, of q' m] by blast
  qed
qed

lemma replace_empty:
  "q_head q = None \<Longrightarrow>
    fsl_player_queue_put (Some m) t REPLACE mem q = fsl_player_queue_put (Some m) t PUT_NEW mem q"
  by (simp add: fsl_player_queue_put_def)

lemma replace_step:
  assumes "queue_wf q" "\<not> q_mutex q" "fresh_node mem q"
    and "fsl_player_queue_put (Some m) t REPLACE mem q = Inr (out, q')"
  shows "queue_wf q' \<and> \<not> q_mutex q' \<and> fifo_spec (q_contents q)
    (if q_head q = None then put_label m out else Subst m) (q_contents q')"
proof (cases "q_head q = None")
  case True
  then have "fsl_player_queue_put (Some m) t PUT_NEW mem q = Inr (out, q')"
    using assms(4) replace_empty [of q m t mem] by simp
  from put_new_step [OF assms(1-3) this] show ?thesis using True by (simp only: if_True simp_thms)
next
  case False
  then have "q_contents q \<noteq> []" using q_head_None_iff [OF assms(1)] by simp
  then show ?thesis using replace_nonempty [OF assms(1,2) False assms(4)] False
    by (simp only: if_False fifo_spec.simps simp_thms)
qed

lemma flush_step:
  assumes "queue_wf q" "\<not> q_mutex q" "fsl_player_queue_flush q = Some (Inr (out, q'))"
  shows "queue_wf q' \<and> \<not> q_mutex q' \<and> q_contents q' = []"
  using fsl_player_queue_flush_wf [OF assms(1,2)] assms(3) by fastforce

lemma config_step:
  assumes "queue_wf q" "\<not> q_mutex q" "fsl_player_queue_config n q = (out, q')"
  shows "queue_wf q' \<and> \<not> q_mutex q' \<and> q_contents q' = q_contents q"
proof -
  have "\<not> q_mutex q'" using assms(2,3) by (auto simp: fsl_player_queue_config_def split: if_splits)
  with fsl_player_queue_config_wf [OF assms(1,3)] show ?thesis by simp
qed

lemma active_step:
  assumes "queue_wf q" "\<not> q_mutex q" "fsl_player_queue_active n q = (out, q')"
  shows "queue_wf q' \<and> \<not> q_mutex q' \<and> q_contents q' = q_contents q"
  using assms by (auto simp: fsl_player_queue_active_def split: if_splits)

lemma queue_step_simulates:
  assumes "queue_step s l t" "sys_inv s"
  shows "sys_inv t \<and> fifo_spec (sys_contents s) l (sys_contents t)"
  using assms
proof cases
  case (call_put tid mem m tmo out q')
  with put_new_step [of "sys_q s" mem m tmo out q'] assms(2) show ?thesis
    by (simp add: sys_inv_def sys_contents_def)
next
  case (call_replace tid mem m tmo out q')
  then show ?thesis using replace_step [of "sys_q s" mem m tmo out q'] assms(2)
    by (simp only: sys_inv_def sys_contents_def queue_sys.simps) blast
next
  case (resume_put tid m tmo mem ret out q')
  with put_resume_step [of "sys_q s" mem m tmo ret out q'] assms(2) show ?thesis
    by (simp add: sys_inv_def sys_contents_def)
next
  case (call_get tid tmo out msg q')
  with get_step [of "sys_q s" tmo out msg q'] assms(2) show ?thesis
    by (simp add: sys_inv_def sys_contents_def)
next
  case (resume_get tid tmo ret out msg q')
  with get_resume_step [of "sys_q s" tmo ret out msg q'] assms(2) show ?thesis
    by (simp add: sys_inv_def sys_contents_def)
next
  case (call_flush out q')
  with flush_step [of "sys_q s" out q'] assms(2) show ?thesis
    by (simp add: sys_inv_def sys_contents_def)
next
  case (call_config n out q')
  with config_step [of "sys_q s" n out q'] assms(2) show ?thesis
    by (simp add: sys_inv_def sys_contents_def)
next
  case (call_active n out q')
  with active_step [of "sys_q s" n out q'] assms(2) show ?thesis
    by (simp add: sys_inv_def sys_contents_def)
qed

interpretation pq: fifo_system queue_step sys_inv sys_contents
  by unfold_locales (simp_all add: queue_step_simulates)

section \<open>Properties\<close>

text \<open>A queue as \<open>fsl_player_queue_inst_init\<close> leaves it, over empty stores.\<close>

definition fresh_queue :: fsl_player_queue where
  "fresh_queue = snd (fsl_player_queue_inst_init True
     \<lparr>q_klass = False, q_mutex = False, q_head = None, q_tail = None, q_len = 0, q_max_len = 0,
      q_nodes = Map.empty, q_msgs = Map.empty, q_bodies = {}, q_signals = []\<rparr>)"

lemma fresh_queue_simps [simp]:
  "q_head fresh_queue = None" "q_tail fresh_queue = None" "q_len fresh_queue = 0"
  "q_max_len fresh_queue = MAX_QUEUE_LEN" "q_mutex fresh_queue = False"
  "q_nodes fresh_queue = Map.empty" "q_signals fresh_queue = []"
  by (simp_all add: fresh_queue_def fsl_player_queue_inst_init_def)

lemma fresh_queue_wf [simp]: "queue_wf fresh_queue" "q_contents fresh_queue = []"
  by (auto intro!: queue_wfI [where as = "[]"] simp: q_contents_def q_cells_def)

text \<open>C1: First in, first out, for any number of threads. In every interleaving of put (with
  PUT_NEW), get, config and active calls by any threads, with waits, time-outs and spurious
  wake-ups, starting from an empty queue: the messages handed to getters are, in order, a prefix of
  the messages whose put returned success; the rest is exactly what the queue still holds; and the
  linked list stays well formed with the mutex free between sections.\<close>

theorem queue_fifo_delivery:
  assumes "lts_run queue_step s ls t" "list_all plain ls"
    and "queue_wf (sys_q s)" "\<not> q_mutex (sys_q s)" "q_contents (sys_q s) = []"
  shows "deqs ls = take (length (deqs ls)) (enqs ls) \<and>
    q_contents (sys_q t) = drop (length (deqs ls)) (enqs ls) \<and>
    queue_wf (sys_q t) \<and> \<not> q_mutex (sys_q t)"
proof -
  have inv: "sys_inv s" using assms(3,4) by (simp add: sys_inv_def)
  have "sys_inv t" using pq.run_inv [OF assms(1) inv] .
  then show ?thesis
    using pq.run_delivered_prefix [OF assms(1) inv assms(2)] assms(5)
    by (simp add: sys_inv_def sys_contents_def)
qed

text \<open>The run of the example: thread 0 puts message 100 and then 101, thread 1 gets one.\<close>

definition ex_q1 :: fsl_player_queue where
  "ex_q1 = fresh_queue\<lparr>q_nodes := [1 \<mapsto> \<lparr>node_next = None, node_priv = 100\<rparr>], q_tail := Some 1,
     q_head := Some 1, q_len := 1, q_signals := [Cond_full]\<rparr>"

definition ex_q2 :: fsl_player_queue where
  "ex_q2 = ex_q1\<lparr>q_nodes := [2 \<mapsto> \<lparr>node_next = None, node_priv = 101\<rparr>,
     1 \<mapsto> \<lparr>node_next = Some 2, node_priv = 100\<rparr>], q_tail := Some 2, q_len := 2\<rparr>"

definition ex_q3 :: fsl_player_queue where
  "ex_q3 = ex_q2\<lparr>q_nodes := [2 \<mapsto> \<lparr>node_next = None, node_priv = 101\<rparr>], q_head := Some 2,
     q_len := 1\<rparr>"

lemma fresh_queue_eq:
  "fresh_queue = \<lparr>q_klass = True, q_mutex = False, q_head = None, q_tail = None, q_len = 0,
     q_max_len = MAX_QUEUE_LEN, q_nodes = Map.empty, q_msgs = Map.empty, q_bodies = {},
     q_signals = []\<rparr>"
  by (simp add: fresh_queue_def fsl_player_queue_inst_init_def)

lemma MAX_QUEUE_LEN_eq: "MAX_QUEUE_LEN = 4294967295"
  by (simp add: MAX_QUEUE_LEN_def)

lemmas ex_queue_simps =
  ex_q1_def ex_q2_def ex_q3_def fresh_queue_eq MAX_QUEUE_LEN_eq fsl_player_queue_put_def
  queue_put_start_def link_node_def fsl_player_queue_get_def queue_get_start_def Let_def

lemma ex_put1: "fsl_player_queue_put (Some 100) 0 PUT_NEW (Some 1) fresh_queue = Inr (Ret SUCCESS, ex_q1)"
  by (simp add: ex_queue_simps)

lemma ex_put2: "fsl_player_queue_put (Some 101) 0 PUT_NEW (Some 2) ex_q1 = Inr (Ret SUCCESS, ex_q2)"
  by (simp add: ex_queue_simps)

lemma ex_get: "fsl_player_queue_get 0 ex_q2 = Inr (Ret SUCCESS, Some 100, ex_q3)"
  by (simp add: ex_queue_simps fun_eq_iff)

lemma ex_run:
  "lts_run queue_step \<lparr>sys_q = fresh_queue, sys_wait = Map.empty\<rparr> [Enq 100, Enq 101, Deq 100]
     \<lparr>sys_q = ex_q3, sys_wait = Map.empty\<rparr>"
proof -
  have "queue_step \<lparr>sys_q = fresh_queue, sys_wait = Map.empty\<rparr> (Enq 100)
      \<lparr>sys_q = ex_q1, sys_wait = Map.empty\<rparr>"
    using call_put [of "\<lparr>sys_q = fresh_queue, sys_wait = Map.empty\<rparr>" 0 "Some 1" 100 0 _ ex_q1] ex_put1
    by (simp add: fresh_node_def put_label_def wait_after_def)
  moreover have "queue_step \<lparr>sys_q = ex_q1, sys_wait = Map.empty\<rparr> (Enq 101)
      \<lparr>sys_q = ex_q2, sys_wait = Map.empty\<rparr>"
    using call_put [of "\<lparr>sys_q = ex_q1, sys_wait = Map.empty\<rparr>" 0 "Some 2" 101 0 _ ex_q2] ex_put2
    by (simp add: fresh_node_def put_label_def wait_after_def ex_q1_def)
  moreover have "queue_step \<lparr>sys_q = ex_q2, sys_wait = Map.empty\<rparr> (Deq 100)
      \<lparr>sys_q = ex_q3, sys_wait = Map.empty\<rparr>"
    using call_get [of "\<lparr>sys_q = ex_q2, sys_wait = Map.empty\<rparr>" 1 0 _ "Some 100" ex_q3] ex_get
    by (simp add: get_label_def wait_after_def)
  ultimately show ?thesis by (blast intro: lts_run.intros)
qed

theorem queue_fifo_delivery_witness:
  "[100] = take 1 [100, 101 :: addr] \<and> q_contents ex_q3 = [101]"
  using queue_fifo_delivery [OF ex_run] by simp

text \<open>A put with method PUT_NEW, branch by branch. With room and memory it appends the message,
  returns success and signals the getters exactly when the queue was empty; without memory it
  returns failure and with a full queue it returns a time-out (time-out argument 0) or waits for
  room, in both cases without changing the queue. It never touches freed memory and always leaves
  the mutex free.\<close>

theorem queue_put_spec:
  assumes "queue_wf q" "\<not> q_mutex q" "fresh_node mem q"
  shows "\<exists>out q'. fsl_player_queue_put (Some m) t PUT_NEW mem q = Inr (out, q') \<and>
    queue_wf q' \<and> \<not> q_mutex q' \<and> q_max_len q' = q_max_len q \<and>
    (if q_len q = q_max_len q
     then out = (if t = 0 then Ret ERROR_TIMEOUT else Wait Cond_empty) \<and> q' = q
     else if mem = None then out = Ret FAILURE \<and> q' = q
     else out = Ret SUCCESS \<and> q_contents q' = q_contents q @ [m] \<and> q_len q' = q_len q + 1 \<and>
       q_signals q' = q_signals q @ (if q_contents q = [] then [Cond_full] else []))"
proof -
  have u: "fsl_player_queue_put (Some m) t PUT_NEW mem q = queue_put_start m t mem (q_lock q)"
    using assms(2) by (simp add: fsl_player_queue_put_def)
  have id: "q_unlock (q_lock q) = q" using assms(2) by simp
  show ?thesis
  proof (cases "q_len q < q_max_len q \<and> mem \<noteq> None")
    case True
    then obtain a where a: "mem = Some a" "q_nodes q a = None" using assms(3) by (auto simp: fresh_node_def)
    have "queue_wf (q_lock q)" "q_nodes (q_lock q) a = None" "q_len (q_lock q) < q_max_len (q_lock q)"
      using assms(1) a True by simp_all
    then obtain q' where "queue_put_start m t (Some a) (q_lock q) = Inr (Ret SUCCESS, q')"
      "queue_wf q'" "q_contents q' = q_contents (q_lock q) @ [m]" "\<not> q_mutex q'"
      "q_max_len q' = q_max_len (q_lock q)" "q_len q' = q_len (q_lock q) + 1"
      "q_signals q' = q_signals (q_lock q) @ (if q_contents (q_lock q) = [] then [Cond_full] else [])"
      by (rule queue_put_start_room)
    then show ?thesis unfolding u using a True by auto
  next
    case False
    have le: "q_len q \<le> q_max_len q" using assms(1) by (simp add: queue_wf_def)
    show ?thesis unfolding u using False le id assms(1,2)
      by (cases mem) (auto simp: queue_put_start_def)
  qed
qed

theorem queue_put_spec_witness:
  "\<exists>q'. fsl_player_queue_put (Some 7) 0 PUT_NEW (Some 3) fresh_queue = Inr (Ret SUCCESS, q') \<and>
    q_contents q' = [7] \<and> q_signals q' = [Cond_full]"
  using queue_put_spec [of fresh_queue "Some 3" 7 0]
  by (auto simp: fresh_node_def MAX_QUEUE_LEN_def)

text \<open>A get, branch by branch. From a non-empty queue it returns success and the oldest message,
  removes exactly that one and signals the putters exactly when the queue was full; from an empty
  queue it returns a time-out (argument 0) or waits, without a message and without changing the
  queue. It never touches freed memory and always leaves the mutex free.\<close>

theorem queue_get_spec:
  assumes "queue_wf q" "\<not> q_mutex q"
  shows "\<exists>out msg q'. fsl_player_queue_get t q = Inr (out, msg, q') \<and> queue_wf q' \<and> \<not> q_mutex q' \<and>
    (case q_contents q of
       [] \<Rightarrow> msg = None \<and> q' = q \<and> out = (if t = 0 then Ret ERROR_TIMEOUT else Wait Cond_full)
     | m # ms \<Rightarrow> out = Ret SUCCESS \<and> msg = Some m \<and> q_contents q' = ms \<and> q_len q' = q_len q - 1 \<and>
         q_signals q' = q_signals q @ (if q_len q = q_max_len q then [Cond_empty] else []))"
proof -
  have u: "fsl_player_queue_get t q = queue_get_start t (q_lock q)"
    using assms(2) by (simp add: fsl_player_queue_get_def)
  show ?thesis
  proof (cases "q_contents q")
    case Nil
    then show ?thesis unfolding u using assms queue_get_start_empty [of "q_lock q" t] by simp
  next
    case (Cons m ms)
    then have "queue_wf (q_lock q)" "q_contents (q_lock q) \<noteq> []" using assms by simp_all
    then obtain q' where "queue_get_start t (q_lock q) = Inr (Ret SUCCESS, Some (hd (q_contents (q_lock q))), q')"
      "queue_wf q'" "q_contents q' = tl (q_contents (q_lock q))" "\<not> q_mutex q'"
      "q_max_len q' = q_max_len (q_lock q)" "q_len q' = q_len (q_lock q) - 1"
      "q_signals q' = q_signals (q_lock q) @ (if q_len (q_lock q) = q_max_len (q_lock q) then [Cond_empty] else [])"
      by (rule queue_get_start_nonempty)
    then show ?thesis unfolding u using Cons by simp
  qed
qed

lemma ex_q2_wf: "queue_wf ex_q2" "q_contents ex_q2 = [100, 101]" "\<not> q_mutex ex_q2"
proof -
  have c: "chain node_next (q_nodes ex_q2) (q_head ex_q2) [1, 2]"
    and l: "length [1, 2 :: addr] = unat (q_len ex_q2)"
    by (simp_all add: ex_q2_def ex_q1_def)
  show "queue_wf ex_q2"
    using c l by (rule queue_wfI) (simp_all add: ex_q2_def ex_q1_def MAX_QUEUE_LEN_eq)
  show "q_contents ex_q2 = [100, 101]"
    using q_cells_eq [OF c l] by (simp add: q_contents_def ex_q2_def)
  show "\<not> q_mutex ex_q2" by (simp add: ex_q2_def ex_q1_def)
qed

theorem queue_get_spec_witness:
  "\<exists>q'. fsl_player_queue_get 0 ex_q2 = Inr (Ret SUCCESS, Some 100, q') \<and> q_contents q' = [101]"
  using queue_get_spec [of ex_q2 0] ex_q2_wf by auto

text \<open>The flush returns (its loop terminates on every well-formed queue), frees every node of
  the list, leaves an empty well-formed queue with the mutex free, keeps the capacity and signals
  the putters.\<close>

theorem queue_flush_spec:
  assumes "queue_wf q" "\<not> q_mutex q"
  shows "\<exists>q'. fsl_player_queue_flush q = Some (Inr (Ret SUCCESS, q')) \<and> queue_wf q' \<and>
    q_contents q' = [] \<and> \<not> q_mutex q' \<and> q_max_len q' = q_max_len q \<and>
    (\<forall>a \<in> set (q_cells q). q_nodes q' a = None)"
  using fsl_player_queue_flush_wf [OF assms] by metis

theorem queue_flush_spec_witness:
  "\<exists>q'. fsl_player_queue_flush ex_q2 = Some (Inr (Ret SUCCESS, q')) \<and> q_contents q' = []"
  using queue_flush_spec [of ex_q2] ex_q2_wf by auto

text \<open>Method REPLACE looks at the first node only. When the queue is not empty and its first
  message has another id than the new one, the call returns success although the new message is
  neither stored nor freed: the queue and the message store are unchanged, even if a later node
  holds a message of that id.\<close>

theorem queue_replace_drops:
  assumes "\<not> q_mutex q" "q_head q = Some a" "q_nodes q a = Some nd"
    and "q_msgs q (node_priv nd) = Some d" "q_msgs q m = Some e" "msg_id d \<noteq> msg_id e"
  shows "fsl_player_queue_put (Some m) t REPLACE mem q = Inr (Ret SUCCESS, q)"
  using assms by (simp add: fsl_player_queue_put_def)

definition ex_q2_msgs :: fsl_player_queue where
  "ex_q2_msgs = ex_q2\<lparr>q_msgs := [100 \<mapsto> \<lparr>msg_id = MSG_EOS, msg_body = None\<rparr>,
     101 \<mapsto> \<lparr>msg_id = MSG_BUFFERING, msg_body = None\<rparr>,
     102 \<mapsto> \<lparr>msg_id = MSG_BUFFERING, msg_body = None\<rparr>]\<rparr>"

theorem queue_replace_drops_witness:
  "fsl_player_queue_put (Some 102) (-1) REPLACE (Some 9) ex_q2_msgs = Inr (Ret SUCCESS, ex_q2_msgs) \<and>
    q_nodes ex_q2_msgs 2 = Some \<lparr>node_next = None, node_priv = 101\<rparr> \<and>
    map_option msg_id (q_msgs ex_q2_msgs 101) = Some MSG_BUFFERING"
  using queue_replace_drops [of ex_q2_msgs 1 "\<lparr>node_next = Some 2, node_priv = 100\<rparr>"
      "\<lparr>msg_id = MSG_EOS, msg_body = None\<rparr>" 102 "\<lparr>msg_id = MSG_BUFFERING, msg_body = None\<rparr>" "-1" "Some 9"]
  by (simp add: ex_q2_msgs_def ex_q2_def ex_q1_def fresh_queue_eq)

text \<open>A put of a \<open>NULL\<close> message returns failure with the mutex still held, so that every later
  put, get, flush, config or resumed wait on this queue blocks for ever.\<close>

theorem queue_null_put_deadlock:
  assumes "\<not> q_mutex q"
  shows "\<exists>q'. fsl_player_queue_put None t method mem q = Inr (Ret FAILURE, q') \<and>
    (\<forall>m t' me mem'. fsl_player_queue_put m t' me mem' q' = Inr (Blocked, q')) \<and>
    (\<forall>t'. fsl_player_queue_get t' q' = Inr (Blocked, None, q')) \<and>
    (\<forall>m t' r mem'. queue_put_resume m t' r mem' q' = Inr (Blocked, q')) \<and>
    (\<forall>t' r. queue_get_resume t' r q' = Inr (Blocked, None, q')) \<and>
    (\<forall>n. fsl_player_queue_config n q' = (Blocked, q')) \<and>
    fsl_player_queue_flush q' = Some (Inr (Blocked, q'))"
  using assms
  by (intro exI [of _ "q_lock q"])
     (simp add: fsl_player_queue_put_def fsl_player_queue_get_def queue_put_resume_def
        queue_get_resume_def fsl_player_queue_config_def fsl_player_queue_flush_def)

theorem queue_null_put_deadlock_witness:
  "\<exists>q'. fsl_player_queue_put None 0 PUT_NEW None fresh_queue = Inr (Ret FAILURE, q') \<and>
    fsl_player_queue_get 0 q' = Inr (Blocked, None, q')"
  using queue_null_put_deadlock [of fresh_queue 0 PUT_NEW None] by auto

end
