(* ===== verification/Annexb_Demux.thy ===== *)
theory Annexb_Demux
  imports Prelude
begin

text \<open>
  The demultiplexer of the decoder test (\<open>v4l2-uvm-test/src/demux.c\<close>): the decoder configuration
  records of MP4 files (avcC and hvcC) are turned into Annex B headers, and each H.264/H.265 packet,
  a sequence of length-prefixed NAL units, into start codes and units, handed piece by piece to the
  callback \<open>dec_cb->write\<close>.

  A buffer is the list of the bytes that may be read (for \<open>extradata\<close> this includes the padding
  behind \<open>size\<close>); a read outside is the fault \<open>ReadOOB\<close>, a write beyond the 4096 bytes of an
  allocated header is \<open>WriteOOB\<close>. The calls of the callback are collected in lists. What FFmpeg
  computes (\<open>av_rescale_q\<close>) is a function argument. The loop over the units of a packet is a
  \<open>partial_function\<close>: \<open>None\<close> is not returning.

  Shown: the output is the Annex B form of the input for 4-byte lengths, for every packet and every
  configuration record of the usual shape; and where the code departs from that.
\<close>

datatype dmx_fault = ReadOOB | WriteOOB

definition s_nal_3 :: "byte list" where "s_nal_3 = [0, 0, 1]"
definition s_nal_4 :: "byte list" where "s_nal_4 = [0, 0, 0, 1]"

definition HEADER_BUF :: nat where "HEADER_BUF = 4096"

text \<open>\<open>memcpy(*o_data + cur_size, ...)\<close>: \<open>out\<close> are the bytes written so far.\<close>

definition emit :: "byte list \<Rightarrow> byte list \<Rightarrow> dmx_fault + byte list" where
  "emit out bs = (if length out + length bs \<le> HEADER_BUF then Inr (out @ bs) else Inl WriteOOB)"

abbreviation rd :: "byte list \<Rightarrow> nat \<Rightarrow> dmx_fault + byte" where
  "rd data i \<equiv> need ReadOOB (at data i)"

definition word_be :: "byte list \<Rightarrow> nat \<Rightarrow> dmx_fault + nat" where
  "word_be data p = rbind (rd data p) (\<lambda>a. rbind (rd data (p + 1)) (\<lambda>b.
     Inr (unat a * 256 + unat b)))"

text \<open>The start code the code chooses for a length size; \<open>None\<close> is \<open>goto err_exit\<close>.\<close>

definition start_code :: "nat \<Rightarrow> byte list option" where
  "start_code nal_size =
     (if nal_size = 3 then Some s_nal_3 else if nal_size = 4 then Some s_nal_4 else None)"

text \<open>The result of a header parser: the return code and, on success, the output bytes, the length
  sz and whether the stream is raw Annex B.\<close>

record header =
  h_data :: "byte list"
  h_nal_size :: nat
  h_raw :: bool

datatype parse_result = ParseError int | ParseOk header

section \<open>H.264: avcC\<close>

text \<open>The loop that copies \<open>cnt\<close> length-prefixed units from \<open>p\<close>; \<open>Inr None\<close> is \<open>goto err_exit\<close>.\<close>

fun copy_units :: "byte list \<Rightarrow> nat \<Rightarrow> nat \<Rightarrow> nat \<Rightarrow> byte list \<Rightarrow> dmx_fault + (nat \<times> byte list) option" where
  "copy_units data sz 0 p out = Inr (Some (p, out))"
| "copy_units data sz (Suc cnt) p out =
     rbind (word_be data p) (\<lambda>nalsize.
       (if int nalsize > int sz - int (p + 2) then Inr None
        else rbind (need ReadOOB (slice data (p + 2) nalsize)) (\<lambda>bs.
               rbind (emit out bs) (\<lambda>out'. copy_units data sz cnt (p + 2 + nalsize) out'))))"

text \<open>One group of parameter sets: its start code, if there are any, and then the units.\<close>

definition copy_group ::
    "byte list \<Rightarrow> nat \<Rightarrow> nat \<Rightarrow> nat \<Rightarrow> nat \<Rightarrow> byte list \<Rightarrow> dmx_fault + (nat \<times> byte list) option" where
  "copy_group data sz nal_size cnt p out =
     (if cnt = 0 then copy_units data sz cnt p out
      else case start_code nal_size of
             None \<Rightarrow> Inr None
           | Some sc \<Rightarrow> rbind (emit out sc) (\<lambda>out'. copy_units data sz cnt p out'))"

definition h264_raw_header :: "byte list \<Rightarrow> nat \<Rightarrow> nat \<Rightarrow> dmx_fault + parse_result" where
  "h264_raw_header data sz nal_size =
     rbind (need ReadOOB (slice data 0 sz)) (\<lambda>bs. rbind (emit [] bs) (\<lambda>out.
       Inr (ParseOk \<lparr>h_data = out, h_nal_size = nal_size, h_raw = True\<rparr>)))"

definition h264_avcC :: "byte list \<Rightarrow> nat \<Rightarrow> dmx_fault + parse_result" where
  "h264_avcC data sz =
     rbind (rd data 4) (\<lambda>d4. rbind (rd data 5) (\<lambda>d5.
       let nal_size = unat (d4 AND 3) + 1 in
       rbind (copy_group data sz nal_size (unat (d5 AND 31)) 6 []) (\<lambda>r.
         case r of None \<Rightarrow> Inr (ParseError (-2))
         | Some (p, out) \<Rightarrow>
             rbind (rd data p) (\<lambda>c.
               rbind (copy_group data sz nal_size (unat c) (p + 1) out) (\<lambda>r'.
                 case r' of None \<Rightarrow> Inr (ParseError (-2))
                 | Some (p', out') \<Rightarrow>
                     Inr (ParseOk \<lparr>h_data = out', h_nal_size = nal_size, h_raw = False\<rparr>))))))"

text \<open>\<open>mem\<close> is whether the allocation of the output buffer succeeds.\<close>

definition h264_header_parse ::
    "byte list option \<Rightarrow> int \<Rightarrow> bool \<Rightarrow> dmx_fault + parse_result" where
  "h264_header_parse data sz mem =
     (case data of None \<Rightarrow> Inr (ParseError (-1))
      | Some d \<Rightarrow>
        (if sz \<le> 0 then Inr (ParseError (-1))
         else rbind (rd d 0) (\<lambda>d0.
           if d0 \<noteq> 1 then
             (if sz < 7 then Inr (ParseError (-1))
              else rbind (rd d 1) (\<lambda>d1. rbind (rd d 2) (\<lambda>d2.
                rbind (rd d 3) (\<lambda>d3. rbind (rd d 4) (\<lambda>d4.
                  if d0 = 0 \<and> d1 = 0 \<and> d2 = 1 then
                    (if mem then h264_raw_header d (nat sz) 3 else Inr (ParseError (-1)))
                  else if d0 = 0 \<and> d1 = 0 \<and> d3 = 0 \<and> d4 = 1 then
                    (if mem then h264_raw_header d (nat sz) 4 else Inr (ParseError (-1)))
                  else Inr (ParseError (-1)))))))
           else if sz < 7 then Inr (ParseError (-1))
           else if \<not> mem then Inr (ParseError (-1))
           else h264_avcC d (nat sz))))"

section \<open>H.265: hvcC\<close>

definition HEVC_NAL_VPS :: byte where "HEVC_NAL_VPS = 32"
definition HEVC_NAL_SPS :: byte where "HEVC_NAL_SPS = 33"
definition HEVC_NAL_PPS :: byte where "HEVC_NAL_PPS = 34"

definition is_param_set :: "byte \<Rightarrow> bool" where
  "is_param_set t \<longleftrightarrow> t = HEVC_NAL_VPS \<or> t = HEVC_NAL_SPS \<or> t = HEVC_NAL_PPS"

text \<open>The inner loop over the \<open>numNalus\<close> units of one array.\<close>

fun hevc_units :: "byte list \<Rightarrow> nat \<Rightarrow> byte \<Rightarrow> nat \<Rightarrow> nat \<Rightarrow> byte list
    \<Rightarrow> dmx_fault + (nat \<times> byte list) option" where
  "hevc_units data nal_size nal_type 0 p out = Inr (Some (p, out))"
| "hevc_units data nal_size nal_type (Suc n) p out =
     rbind (word_be data p) (\<lambda>nalsize.
       (if is_param_set nal_type then
          (case start_code nal_size of
             None \<Rightarrow> Inr None
           | Some sc \<Rightarrow>
               rbind (emit out sc) (\<lambda>out1.
                 rbind (need ReadOOB (slice data (p + 2) nalsize)) (\<lambda>bs.
                   rbind (emit out1 bs) (\<lambda>out2.
                     hevc_units data nal_size nal_type n (p + 2 + nalsize) out2))))
        else hevc_units data nal_size nal_type n (p + 2 + nalsize) out))"

fun hevc_arrays :: "byte list \<Rightarrow> nat \<Rightarrow> nat \<Rightarrow> nat \<Rightarrow> byte list
    \<Rightarrow> dmx_fault + (nat \<times> byte list) option" where
  "hevc_arrays data nal_size 0 p out = Inr (Some (p, out))"
| "hevc_arrays data nal_size (Suc n) p out =
     rbind (rd data p) (\<lambda>t. rbind (word_be data (p + 1)) (\<lambda>numNalus.
       rbind (hevc_units data nal_size (t AND 63) numNalus (p + 3) out) (\<lambda>r.
         case r of None \<Rightarrow> Inr None
         | Some (p', out') \<Rightarrow> hevc_arrays data nal_size n p' out')))"

definition h265_header_parse ::
    "byte list option \<Rightarrow> int \<Rightarrow> bool \<Rightarrow> dmx_fault + parse_result" where
  "h265_header_parse data sz mem =
     (case data of None \<Rightarrow> Inr (ParseError (-1))
      | Some d \<Rightarrow>
        (if sz \<le> 0 then Inr (ParseError (-1))
         else if sz < 7 then Inr (ParseError (-1))
         else if \<not> mem then Inr (ParseError (-1))
         else rbind (rd d 0) (\<lambda>d0. rbind (rd d 1) (\<lambda>d1. rbind (rd d 2) (\<lambda>d2. rbind (rd d 3) (\<lambda>d3.
           if (d0 = 0 \<and> d1 = 0 \<and> d2 = 1) \<or> (d0 = 0 \<and> d1 = 0 \<and> d2 = 0 \<and> d3 = 1)
           then Inr (ParseOk \<lparr>h_data = [], h_nal_size = 4, h_raw = True\<rparr>)
           else
             rbind (rd d 21) (\<lambda>l. rbind (rd d 22) (\<lambda>na.
               let nal_size = unat (l AND 3) + 1 in
               rbind (hevc_arrays d nal_size (unat na) 23 []) (\<lambda>r.
                 case r of None \<Rightarrow> Inr (ParseError (-2))
                 | Some (p, out) \<Rightarrow>
                     Inr (ParseOk \<lparr>h_data = out, h_nal_size = nal_size, h_raw = False\<rparr>))))))))))"

section \<open>Packets\<close>

text \<open>Reading a length: \<open>nalu_size = (nalu_size << 8) | *p++\<close> on a 32-bit int.\<close>

fun read_length :: "byte list \<Rightarrow> nat \<Rightarrow> nat \<Rightarrow> u32 \<Rightarrow> dmx_fault + u32" where
  "read_length data 0 p acc = Inr acc"
| "read_length data (Suc k) p acc =
     rbind (rd data p) (\<lambda>b. read_length data k (p + 1) (push_bit 8 acc OR ucast b))"

definition insert_nal :: "nat \<Rightarrow> byte list" where
  "insert_nal nal_size = (if nal_size = 3 then s_nal_3 else s_nal_4)"

text \<open>\<open>nalu_size\<close> lives outside the loop; it is not cleared between two units. A negative size, or
  one that runs over the packet, makes the callback read outside of it.\<close>

partial_function (option) nal_loop ::
    "byte list \<Rightarrow> nat \<Rightarrow> int \<Rightarrow> nat \<Rightarrow> u32 \<Rightarrow> int \<Rightarrow> byte list list \<Rightarrow> (dmx_fault + byte list list) option" where
  "nal_loop data nal_size sz p nalu_size processed ws =
     (if processed < sz then
        (case read_length data nal_size p nalu_size of
           Inl e \<Rightarrow> Some (Inl e)
         | Inr n \<Rightarrow>
             (if sint n < 0 then Some (Inl ReadOOB)
              else
                (case slice data (p + nal_size) (unat n) of
                   None \<Rightarrow> Some (Inl ReadOOB)
                 | Some bs \<Rightarrow>
                     nal_loop data nal_size sz (p + nal_size + unat n) n
                       (processed + int nal_size + sint n)
                       (ws @ [insert_nal nal_size, bs]))))
      else Some (Inr ws))"

record av_packet =
  pkt_data :: "byte list"
  pkt_stream_index :: int
  pkt_pts :: "int option"
  pkt_duration :: int
  pkt_key :: bool

record dmx =
  video_stream_idx :: int
  codec_h2645 :: bool
  raw_stream :: bool
  keyframe_seen :: bool
  nal_size :: nat
  video_frame_count :: int
  fake_pts :: int

record dmx_out =
  writes :: "byte list list"
  frame_done :: "int option"

definition packet_pts :: "(int \<Rightarrow> int) \<Rightarrow> av_packet \<Rightarrow> dmx \<Rightarrow> int" where
  "packet_pts rescale pkt s =
     (case pkt_pts pkt of Some t \<Rightarrow> rescale t | None \<Rightarrow> fake_pts s + rescale (pkt_duration pkt))"

definition demux_packet ::
    "(int \<Rightarrow> int) \<Rightarrow> av_packet \<Rightarrow> dmx \<Rightarrow> (dmx_fault + (int \<times> dmx_out \<times> dmx)) option" where
  "demux_packet rescale pkt s =
     (let sz = int (length (pkt_data pkt)) in
      if pkt_stream_index pkt \<noteq> video_stream_idx s
      then Some (Inr (sz, \<lparr>writes = [], frame_done = None\<rparr>, s))
      else
        (let pts_us = packet_pts rescale pkt s;
             s1 = s\<lparr>fake_pts := pts_us, video_frame_count := video_frame_count s + 1\<rparr> in
         if codec_h2645 s then
           (let ws = (if raw_stream s then [pkt_data pkt] else []);
                processed = (if raw_stream s then sz else 0) in
            if \<not> keyframe_seen s \<and> \<not> pkt_key pkt
            then Some (Inr (sz, \<lparr>writes = ws, frame_done = None\<rparr>, s1))
            else
              (let s2 = s1\<lparr>keyframe_seen := True\<rparr> in
               Option.bind (nal_loop (pkt_data pkt) (nal_size s) sz 0 0 processed ws)
                 (\<lambda>r. Some (case r of Inl e \<Rightarrow> Inl e
                    | Inr ws' \<Rightarrow> Inr (sz, \<lparr>writes = ws', frame_done = Some pts_us\<rparr>, s2)))))
         else Some (Inr (sz, \<lparr>writes = [pkt_data pkt], frame_done = Some pts_us\<rparr>, s1))))"

text \<open>The codec dispatch of \<open>demux_init\<close> on the configuration record of the stream, after the
  format was accepted: return code (0, 5 or 6), what is written to the decoder and the new state.\<close>

datatype av_codec = H264 | H265 | MPEG2 | VP9 | AV1 | MJPEG | OtherCodec

definition demux_init_header ::
    "av_codec \<Rightarrow> byte list \<Rightarrow> int \<Rightarrow> bool \<Rightarrow> dmx \<Rightarrow> dmx_fault + (int \<times> byte list list \<times> dmx)" where
  "demux_init_header codec extradata extradata_size mem s =
     (if codec = OtherCodec then Inr (3, [], s)
      else if codec = H264 \<and> extradata_size \<noteq> 0 then
        rbind (h264_header_parse (Some extradata) extradata_size mem) (\<lambda>r.
          case r of ParseError e \<Rightarrow> Inr (5, [], s)
          | ParseOk h \<Rightarrow> Inr (0, [h_data h],
              s\<lparr>nal_size := h_nal_size h, raw_stream := raw_stream s \<or> h_raw h\<rparr>))
      else if codec = H265 \<and> extradata_size \<noteq> 0 then
        rbind (h265_header_parse (Some extradata) extradata_size mem) (\<lambda>r.
          case r of ParseError e \<Rightarrow> Inr (6, [], s)
          | ParseOk h \<Rightarrow> Inr (0, if h_data h = [] then [] else [h_data h],
              s\<lparr>nal_size := h_nal_size h, raw_stream := raw_stream s \<or> h_raw h\<rparr>))
      else if extradata_size \<noteq> 0 then
        rbind (need ReadOOB (slice extradata 0 (nat extradata_size))) (\<lambda>bs. Inr (0, [bs], s))
      else Inr (0, [], s))"

text \<open>The reader thread over the packets of the file; the flag with each packet is the value of
  \<open>thread_quit\<close> seen after it was read. The flag of the result is whether \<open>eos\<close> was reported, \<open>quit\<close>
  is the value of \<open>thread_quit\<close> at the end of the file.\<close>

fun dmx_thread_func ::
    "(int \<Rightarrow> int) \<Rightarrow> (av_packet \<times> bool) list \<Rightarrow> bool \<Rightarrow> dmx \<Rightarrow> dmx_out list
      \<Rightarrow> (dmx_fault + (dmx_out list \<times> bool \<times> dmx)) option" where
  "dmx_thread_func rescale [] quit s outs = Some (Inr (outs, \<not> quit, s))"
| "dmx_thread_func rescale ((pkt, True) # ps) quit s outs = Some (Inr (outs, False, s))"
| "dmx_thread_func rescale ((pkt, False) # ps) quit s outs =
     Option.bind (demux_packet rescale pkt s)
       (\<lambda>r. case r of Inl e \<Rightarrow> Some (Inl e)
          | Inr (n, out, s') \<Rightarrow> dmx_thread_func rescale ps quit s' (outs @ [out]))"

section \<open>Length-prefixed units\<close>

definition prefixed :: "nat \<Rightarrow> byte list list \<Rightarrow> byte list" where
  "prefixed k us = concat (map (\<lambda>u. be_bytes k (length u) @ u) us)"

definition annexb_writes :: "byte list \<Rightarrow> byte list list \<Rightarrow> byte list list" where
  "annexb_writes sc us = concat (map (\<lambda>u. [sc, u]) us)"

lemma prefixed_simps [simp]:
  "prefixed k [] = []" "prefixed k (u # us) = be_bytes k (length u) @ u @ prefixed k us"
  by (simp_all add: prefixed_def)

lemma annexb_writes_simps [simp]:
  "annexb_writes sc [] = []" "annexb_writes sc (u # us) = sc # u # annexb_writes sc us"
  by (simp_all add: annexb_writes_def)

lemma read_length_bytes:
  "read_length (pre @ bs @ post) (length bs) (length pre) acc = Inr (foldl shift_in acc bs)"
proof (induction bs arbitrary: pre acc)
  case (Cons b bs)
  have "read_length (pre @ (b # bs) @ post) (length (b # bs)) (length pre) acc =
      read_length ((pre @ [b]) @ bs @ post) (length bs) (length (pre @ [b])) (shift_in acc b)"
    by (simp add: shift_in_def)
  then show ?case using Cons.IH [of "pre @ [b]" "shift_in acc b"] by simp
qed simp

lemma read_length_be:
  "read_length (pre @ be_bytes k n @ post) k (length pre) acc =
     Inr (acc * 256 ^ k + word_of_nat (n mod 256 ^ k))"
  using read_length_bytes [of pre "be_bytes k n" post acc] by (simp add: foldl_be_bytes)

text \<open>One turn of the packet loop.\<close>

lemma nal_loop_unit:
  assumes n: "acc * 256 ^ k + word_of_nat (length u mod 256 ^ k) = (word_of_nat (length u) :: u32)"
    and small: "length u < 2 ^ 31" and lt: "processed < sz"
  shows "nal_loop (pre @ be_bytes k (length u) @ u @ post) k sz (length pre) acc processed ws =
    nal_loop (pre @ be_bytes k (length u) @ u @ post) k sz (length (pre @ be_bytes k (length u) @ u))
      (word_of_nat (length u)) (processed + int k + int (length u)) (ws @ [insert_nal k, u])"
proof -
  have u: "unat (word_of_nat (length u) :: u32) = length u"
    using small by (simp add: unsigned_of_nat take_bit_nat_eq_self)
  have s: "sint (word_of_nat (length u) :: u32) = int (length u)"
    using small by (simp add: signed_of_nat signed_take_bit_int_eq_self)
  have sl: "slice (pre @ be_bytes k (length u) @ u @ post) (length pre + k) (length u) = Some u"
    using slice_append_prefix [of "pre @ be_bytes k (length u)" u post] by simp
  show ?thesis
    using lt read_length_be [of pre k "length u" "u @ post" acc] n
    by (subst nal_loop.simps) (simp add: u s sl add.assoc)
qed

lemma nal_loop_prefixed4:
  assumes "list_all (\<lambda>u. length u < 2 ^ 31) us"
  shows "nal_loop (pre @ prefixed 4 us) 4 (int (length (pre @ prefixed 4 us))) (length pre) acc
    (int (length pre)) ws = Some (Inr (ws @ annexb_writes s_nal_4 us))"
  using assms
proof (induction us arbitrary: pre acc ws)
  case Nil
  then show ?case by (subst nal_loop.simps) simp
next
  case (Cons u us)
  let ?d = "pre @ be_bytes 4 (length u) @ u @ prefixed 4 us"
  have z: "acc * 256 ^ 4 + word_of_nat (length u mod 256 ^ 4) = (word_of_nat (length u) :: u32)"
    using Cons.prems by simp
  have "nal_loop ?d 4 (int (length ?d)) (length pre) acc (int (length pre)) ws =
      nal_loop ?d 4 (int (length ?d)) (length (pre @ be_bytes 4 (length u) @ u)) (word_of_nat (length u))
        (int (length pre) + int 4 + int (length u)) (ws @ [insert_nal 4, u])"
    using Cons.prems by (intro nal_loop_unit [OF z]) simp_all
  also have "\<dots> = Some (Inr (ws @ annexb_writes s_nal_4 (u # us)))"
    using Cons.IH [of "pre @ be_bytes 4 (length u) @ u" "word_of_nat (length u)" "ws @ [insert_nal 4, u]"]
      Cons.prems by (simp add: insert_nal_def algebra_simps)
  finally show ?case by simp
qed

text \<open>With 3-byte lengths the second unit's length gets the low byte of the first one's on top.\<close>

lemma nal_loop_prefixed3_second:
  assumes a: "length a < 2 ^ 24" "length a mod 256 \<noteq> 0"
    and total: "length (prefixed 3 (a # b # us)) < 2 ^ 24"
  shows "nal_loop (prefixed 3 (a # b # us)) 3 (int (length (prefixed 3 (a # b # us)))) 0 0 0 [] =
    Some (Inl ReadOOB)"
proof -
  let ?d = "prefixed 3 (a # b # us)"
  let ?pre = "be_bytes 3 (length a) @ a"
  let ?n = "word_of_nat (length a) * 256 ^ 3 + word_of_nat (length b mod 256 ^ 3) :: u32"
  have lb: "length b < 2 ^ 24" using total by simp
  have z: "0 * 256 ^ 3 + word_of_nat (length a mod 256 ^ 3) = (word_of_nat (length a) :: u32)"
    using a(1) by simp
  have "nal_loop ?d 3 (int (length ?d)) 0 0 0 [] =
      nal_loop ?d 3 (int (length ?d)) (length ?pre) (word_of_nat (length a))
        (3 + int (length a)) [insert_nal 3, a]"
    using nal_loop_unit [OF z, of 0 "int (length ?d)" "[]" "be_bytes 3 (length b) @ b @ prefixed 3 us" "[]"]
      a(1) by simp
  also have "\<dots> = Some (Inl ReadOOB)"
  proof -
    have rl: "read_length ?d 3 (length ?pre) (word_of_nat (length a)) = Inr ?n"
      using read_length_be [of ?pre 3 "length b" "b @ prefixed 3 us" "word_of_nat (length a)"] by simp
    have n: "?n = word_of_nat (length a * 2 ^ 24 + length b)"
      using lb by simp
    have un: "unat ?n = (length a * 2 ^ 24 + length b) mod 2 ^ 32"
      unfolding n by (simp add: unsigned_of_nat take_bit_eq_mod del: of_nat_add of_nat_mult)
    have "(length a * 2 ^ 24 + length b) mod 2 ^ 32 = (length a mod 256) * 2 ^ 24 + length b"
    proof -
      have "(length a * 2 ^ 24 + length b) mod (2 ^ 24 * 256) =
          2 ^ 24 * ((length a * 2 ^ 24 + length b) div 2 ^ 24 mod 256) +
          (length a * 2 ^ 24 + length b) mod 2 ^ 24"
        by (rule mod_mult2_eq)
      then show ?thesis using lb by simp
    qed
    then have big: "unat ?n \<ge> 2 ^ 24" using un a(2) by simp
    have "slice ?d (length ?pre + 3) (unat ?n) = None"
      using big total by (simp add: slice_def)
    then show ?thesis
      using rl by (subst nal_loop.simps) simp
  qed
  finally show ?thesis .
qed

lemma nal_loop_zero:
  assumes "processed < sz" "p \<le> length data"
  shows "nal_loop data 0 sz p 0 processed ws = None"
proof (rule ccontr)
  assume "nal_loop data 0 sz p 0 processed ws \<noteq> None"
  then obtain r where ret: "nal_loop data 0 sz p 0 processed ws = Some r" by blast
  have "\<not> ((0::nat) = 0 \<and> (0::u32) = 0 \<and> processed < sz \<and> p \<le> length data)"
  proof (rule nal_loop.raw_induct [where
        P = "\<lambda>data k sz p n processed ws r. \<not> (k = 0 \<and> n = 0 \<and> processed < sz \<and> p \<le> length data)",
        OF _ ret])
    fix f data k sz p n processed ws r
    assume IH: "\<And>data k sz p n processed ws r. f data k sz p n processed ws = Some r
        \<Longrightarrow> \<not> (k = 0 \<and> n = 0 \<and> processed < sz \<and> p \<le> length data)"
      and eq: "(if processed < sz then
        (case read_length data k p n of
           Inl e \<Rightarrow> Some (Inl e)
         | Inr n \<Rightarrow>
             (if sint n < 0 then Some (Inl ReadOOB)
              else
                (case slice data (p + k) (unat n) of
                   None \<Rightarrow> Some (Inl ReadOOB)
                 | Some bs \<Rightarrow>
                     f data k sz (p + k + unat n) n (processed + int k + sint n)
                       (ws @ [insert_nal k, bs]))))
        else Some (Inr ws)) = Some r"
    show "\<not> (k = 0 \<and> n = 0 \<and> processed < sz \<and> p \<le> length data)"
    proof
      assume z: "k = 0 \<and> n = 0 \<and> processed < sz \<and> p \<le> length data"
      with eq have "f data 0 sz p 0 processed (ws @ [insert_nal 0, []]) = Some r"
        by (simp add: slice_def)
      with IH z show False by blast
    qed
  qed
  then show False using assms by simp
qed

section \<open>Parameter sets\<close>

lemma word_be_be:
  assumes "n < 65536"
  shows "word_be (pre @ be_bytes 2 n @ post) (length pre) = Inr n"
proof -
  have "n div 256 mod 256 * 256 + n mod 256 = n" using assms by simp
  then show ?thesis by (simp add: word_be_def numeral_2_eq_2)
qed

lemma slice_unit:
  "slice (pre @ be_bytes 2 (length u) @ u @ post) (length pre + 2) (length u) = Some u"
  using slice_append_prefix [of "pre @ be_bytes 2 (length u)" u post] by simp

lemma copy_units_prefixed:
  assumes "list_all (\<lambda>u. length u < 65536) us"
    and "length pre + length (prefixed 2 us) \<le> sz" "length out + length (concat us) \<le> HEADER_BUF"
  shows "copy_units (pre @ prefixed 2 us @ post) sz (length us) (length pre) out =
    Inr (Some (length pre + length (prefixed 2 us), out @ concat us))"
  using assms
proof (induction us arbitrary: pre out)
  case (Cons u us)
  let ?d = "pre @ be_bytes 2 (length u) @ u @ prefixed 2 us @ post"
  have w: "word_be ?d (length pre) = Inr (length u)"
    using word_be_be [of "length u" pre "u @ prefixed 2 us @ post"] Cons.prems by simp
  have sl: "slice ?d (length pre + 2) (length u) = Some u"
    using slice_unit [of pre u "prefixed 2 us @ post"] by simp
  have "copy_units ?d sz (length us) (length (pre @ be_bytes 2 (length u) @ u)) (out @ u) =
      Inr (Some (length (pre @ be_bytes 2 (length u) @ u) + length (prefixed 2 us), (out @ u) @ concat us))"
    using Cons.IH [of "pre @ be_bytes 2 (length u) @ u" "out @ u"] Cons.prems by simp
  then show ?case using w sl Cons.prems by (simp add: emit_def add.assoc)
qed simp

lemma copy_group_prefixed:
  assumes "list_all (\<lambda>u. length u < 65536) us" "start_code k = Some sc"
    and "length pre + length (prefixed 2 us) \<le> sz"
    and "length out + length sc + length (concat us) \<le> HEADER_BUF"
  shows "copy_group (pre @ prefixed 2 us @ post) sz k (length us) (length pre) out =
    Inr (Some (length pre + length (prefixed 2 us), out @ (if us = [] then [] else sc) @ concat us))"
  using assms copy_units_prefixed [of us pre sz "out @ sc" post]
  by (cases us) (simp_all add: copy_group_def emit_def)

lemma hevc_units_prefixed:
  assumes "list_all (\<lambda>u. length u < 65536) us" "start_code k = Some sc" "is_param_set t"
    and "length out + length (concat (annexb_writes sc us)) \<le> HEADER_BUF"
  shows "hevc_units (pre @ prefixed 2 us @ post) k t (length us) (length pre) out =
    Inr (Some (length pre + length (prefixed 2 us), out @ concat (annexb_writes sc us)))"
  using assms
proof (induction us arbitrary: pre out)
  case (Cons u us)
  let ?d = "pre @ be_bytes 2 (length u) @ u @ prefixed 2 us @ post"
  have w: "word_be ?d (length pre) = Inr (length u)"
    using word_be_be [of "length u" pre "u @ prefixed 2 us @ post"] Cons.prems by simp
  have sl: "slice ?d (length pre + 2) (length u) = Some u"
    using slice_unit [of pre u "prefixed 2 us @ post"] by simp
  have "hevc_units ?d k t (length us) (length (pre @ be_bytes 2 (length u) @ u)) (out @ sc @ u) =
      Inr (Some (length (pre @ be_bytes 2 (length u) @ u) + length (prefixed 2 us),
        (out @ sc @ u) @ concat (annexb_writes sc us)))"
    using Cons.IH [of "out @ sc @ u" "pre @ be_bytes 2 (length u) @ u"] Cons.prems by simp
  then show ?case using w sl Cons.prems by (simp add: emit_def add.assoc)
qed simp

text \<open>Units of other types are passed over, without even reading them.\<close>

lemma hevc_units_skipped:
  assumes "list_all (\<lambda>u. length u < 65536) us" "\<not> is_param_set t"
  shows "hevc_units (pre @ prefixed 2 us @ post) k t (length us) (length pre) out =
    Inr (Some (length pre + length (prefixed 2 us), out))"
  using assms
proof (induction us arbitrary: pre)
  case (Cons u us)
  have w: "word_be (pre @ be_bytes 2 (length u) @ u @ prefixed 2 us @ post) (length pre) = Inr (length u)"
    using word_be_be [of "length u" pre "u @ prefixed 2 us @ post"] Cons.prems by simp
  then show ?case
    using Cons.IH [of "pre @ be_bytes 2 (length u) @ u"] Cons.prems by (simp add: add.assoc)
qed simp

text \<open>The arrays of an hvcC record: type byte, number of units, units.\<close>

definition hevc_array :: "byte \<times> byte list list \<Rightarrow> byte list" where
  "hevc_array a = fst a # be_bytes 2 (length (snd a)) @ prefixed 2 (snd a)"

definition param_units :: "(byte \<times> byte list list) list \<Rightarrow> byte list list" where
  "param_units as = concat (map (\<lambda>a. if is_param_set (fst a AND 63) then snd a else []) as)"

definition hevc_array_ok :: "byte \<times> byte list list \<Rightarrow> bool" where
  "hevc_array_ok a \<longleftrightarrow> length (snd a) < 65536 \<and> list_all (\<lambda>u. length u < 65536) (snd a)"

lemma annexb_writes_append: "annexb_writes sc (us @ vs) = annexb_writes sc us @ annexb_writes sc vs"
  by (simp add: annexb_writes_def)

lemma hevc_array_Pair: "hevc_array (t, us) = t # be_bytes 2 (length us) @ prefixed 2 us"
  by (simp add: hevc_array_def)

lemma hevc_arrays_param_units:
  assumes "list_all hevc_array_ok as" "start_code k = Some sc"
    and "length out + length (concat (annexb_writes sc (param_units as))) \<le> HEADER_BUF"
  shows "hevc_arrays (pre @ concat (map hevc_array as) @ post) k (length as) (length pre) out =
    Inr (Some (length pre + length (concat (map hevc_array as)),
      out @ concat (annexb_writes sc (param_units as))))"
  using assms
proof (induction as arbitrary: pre out)
  case (Cons a as)
  obtain t us where a: "a = (t, us)" by (cases a)
  let ?rest = "concat (map hevc_array as) @ post"
  let ?d = "pre @ hevc_array a @ ?rest"
  let ?new = "if is_param_set (t AND 63) then concat (annexb_writes sc us) else []"
  let ?hd = "pre @ [t] @ be_bytes 2 (length us)"
  have ok: "length us < 65536" "list_all (\<lambda>u. length u < 65536) us" "list_all hevc_array_ok as"
    using Cons.prems(1) a by (simp_all add: hevc_array_ok_def [of "(t, us)"])
  have b: "rd ?d (length pre) = Inr t" by (simp add: a hevc_array_Pair)
  have w: "word_be ?d (length pre + 1) = Inr (length us)"
    using word_be_be [OF ok(1), of "pre @ [t]" "prefixed 2 us @ ?rest"] by (simp add: a hevc_array_Pair)
  have room: "length (out @ ?new) + length (concat (annexb_writes sc (param_units as))) \<le> HEADER_BUF"
    using Cons.prems(3) by (simp add: a param_units_def annexb_writes_append split: if_splits)
  have u: "hevc_units ?d k (t AND 63) (length us) (length ?hd) out =
      Inr (Some (length ?hd + length (prefixed 2 us), out @ ?new))"
  proof (cases "is_param_set (t AND 63)")
    case True
    with room have "length out + length (concat (annexb_writes sc us)) \<le> HEADER_BUF" by simp
    from hevc_units_prefixed [OF ok(2) Cons.prems(2) True this, of ?hd ?rest] True show ?thesis
      by (simp add: a hevc_array_Pair)
  next
    case False
    from hevc_units_skipped [OF ok(2) False, of ?hd ?rest k out] False show ?thesis
      by (simp add: a hevc_array_Pair)
  qed
  have r: "hevc_arrays ?d k (length as) (length (?hd @ prefixed 2 us)) (out @ ?new) =
      Inr (Some (length (?hd @ prefixed 2 us) + length (concat (map hevc_array as)),
        (out @ ?new) @ concat (annexb_writes sc (param_units as))))"
    using Cons.IH [OF ok(3) Cons.prems(2) room, of "?hd @ prefixed 2 us"] by (simp add: a hevc_array_Pair)
  have h3: "length ?hd = length pre + 3" by simp
  have c: "concat (annexb_writes sc (param_units (a # as))) =
      ?new @ concat (annexb_writes sc (param_units as))"
    by (simp add: a param_units_def annexb_writes_append)
  have h4: "length (?hd @ prefixed 2 us) = length pre + 3 + length (prefixed 2 us)" by simp
  have "hevc_arrays ?d k (length (a # as)) (length pre) out =
      hevc_arrays ?d k (length as) (length pre + 3 + length (prefixed 2 us)) (out @ ?new)"
    using b w u [unfolded h3] by simp
  with r [unfolded h4] show ?case unfolding c by (simp add: a hevc_array_Pair)
qed (simp add: param_units_def)

text \<open>A packet of units with 4-byte lengths.\<close>

lemma demux_packet_units:
  assumes "pkt_stream_index pkt = video_stream_idx s" "codec_h2645 s" "\<not> raw_stream s"
    and "nal_size s = 4" "keyframe_seen s \<or> pkt_key pkt"
    and "pkt_data pkt = prefixed 4 us" "list_all (\<lambda>u. length u < 2 ^ 31) us"
  shows "demux_packet rescale pkt s = Some (Inr (int (length (prefixed 4 us)),
    \<lparr>writes = annexb_writes s_nal_4 us, frame_done = Some (packet_pts rescale pkt s)\<rparr>,
    s\<lparr>fake_pts := packet_pts rescale pkt s, video_frame_count := video_frame_count s + 1,
      keyframe_seen := True\<rparr>))"
  using assms nal_loop_prefixed4 [OF assms(7), of "[]" 0 "[]"]
  by (auto simp: demux_packet_def Let_def)

section \<open>Properties\<close>

text \<open>C10: Packet conversion with 4-byte lengths. For every video packet of an H.264/H.265 stream
  with \<open>nal_size\<close> 4 whose payload is any sequence of units, each behind its 4-byte big-endian
  length, and which is a key frame or comes after one, \<open>demux_packet\<close> returns, writes exactly
  one 4-byte start code and the unit for every unit, in order, reports the frame with its time
  stamp and remembers the key frame.\<close>

theorem demux_packet_annexb:
  assumes "pkt_stream_index pkt = video_stream_idx s" "codec_h2645 s" "\<not> raw_stream s"
    and "nal_size s = 4" "keyframe_seen s \<or> pkt_key pkt"
    and "pkt_data pkt = prefixed 4 us" "list_all (\<lambda>u. length u < 2 ^ 31) us"
  shows "demux_packet rescale pkt s = Some (Inr (int (length (prefixed 4 us)),
    \<lparr>writes = annexb_writes s_nal_4 us, frame_done = Some (packet_pts rescale pkt s)\<rparr>,
    s\<lparr>fake_pts := packet_pts rescale pkt s, video_frame_count := video_frame_count s + 1,
      keyframe_seen := True\<rparr>))"
  by (rule demux_packet_units [OF assms])

definition ex_dmx :: dmx where
  "ex_dmx = \<lparr>video_stream_idx = 0, codec_h2645 = True, raw_stream = False, keyframe_seen = False,
     nal_size = 4, video_frame_count = 0, fake_pts = 0\<rparr>"

definition ex_pkt :: "byte list \<Rightarrow> av_packet" where
  "ex_pkt d = \<lparr>pkt_data = d, pkt_stream_index = 0, pkt_pts = Some 7, pkt_duration = 1, pkt_key = True\<rparr>"

theorem demux_packet_annexb_witness:
  "\<exists>s'. demux_packet id (ex_pkt [0, 0, 0, 2, 0x65, 0x88, 0, 0, 0, 1, 0x41]) ex_dmx =
    Some (Inr (11, \<lparr>writes = [[0, 0, 0, 1], [0x65, 0x88], [0, 0, 0, 1], [0x41]], frame_done = Some 7\<rparr>, s'))"
  using demux_packet_annexb [of "ex_pkt [0, 0, 0, 2, 0x65, 0x88, 0, 0, 0, 1, 0x41]" ex_dmx
      "[[0x65, 0x88], [0x41]]" id]
  by (simp add: ex_pkt_def ex_dmx_def packet_pts_def s_nal_4_def be_bytes_numeral)

text \<open>Packet conversion with 3-byte lengths fails on the second unit. Because \<open>nalu_size\<close> is not
  cleared, the low byte of the first length ends up in bits 24 to 31 of the second: whenever the
  first length is not a multiple of 256 (and the packet is shorter than 16 MiB), a well-formed packet
  of two or more units makes the code hand the callback a range outside the packet.\<close>

theorem demux_packet_len3_overrun:
  assumes "pkt_stream_index pkt = video_stream_idx s" "codec_h2645 s" "\<not> raw_stream s"
    and "nal_size s = 3" "keyframe_seen s \<or> pkt_key pkt"
    and "pkt_data pkt = prefixed 3 (a # b # us)" "length (prefixed 3 (a # b # us)) < 2 ^ 24"
    and "length a mod 256 \<noteq> 0"
  shows "demux_packet rescale pkt s = Some (Inl ReadOOB)"
proof -
  have "length a < 2 ^ 24" using assms(7) by simp
  with assms nal_loop_prefixed3_second [of a b us] show ?thesis
    by (auto simp: demux_packet_def Let_def)
qed

theorem demux_packet_len3_overrun_witness:
  "demux_packet id (ex_pkt [0, 0, 2, 0x65, 0x88, 0, 0, 1, 0x41]) (ex_dmx\<lparr>nal_size := 3\<rparr>) =
    Some (Inl ReadOOB)"
  using demux_packet_len3_overrun [of "ex_pkt [0, 0, 2, 0x65, 0x88, 0, 0, 1, 0x41]"
      "ex_dmx\<lparr>nal_size := 3\<rparr>" "[0x65, 0x88]" "[0x41]" "[]" id]
  by (simp add: ex_pkt_def ex_dmx_def be_bytes_numeral)

text \<open>An H.264/H.265 stream without a configuration record keeps \<open>nal_size\<close> 0 (no header parser
  runs), and then the first accepted non-empty packet is never finished: \<open>demux_packet\<close> does not
  return.\<close>

theorem demux_no_extradata_hangs:
  assumes "codec = H264 \<or> codec = H265" "demux_init_header codec extra 0 mem s = Inr (0, ws, s')"
    and "nal_size s = 0" "\<not> raw_stream s" "codec_h2645 s"
    and "pkt_stream_index pkt = video_stream_idx s" "pkt_key pkt" "pkt_data pkt \<noteq> []"
  shows "ws = [] \<and> demux_packet rescale pkt s' = None"
proof -
  have "ws = []" "s' = s" using assms(1,2) by (auto simp: demux_init_header_def)
  then show ?thesis using assms nal_loop_zero [of 0 "int (length (pkt_data pkt))" 0 "pkt_data pkt" "[]"]
    by (auto simp: demux_packet_def Let_def)
qed

theorem demux_no_extradata_hangs_witness:
  "demux_packet id (ex_pkt [1]) (ex_dmx\<lparr>nal_size := 0\<rparr>) = None"
  using demux_no_extradata_hangs [of H264 "[]" True "ex_dmx\<lparr>nal_size := 0\<rparr>" "[]" "ex_dmx\<lparr>nal_size := 0\<rparr>"
      "ex_pkt [1]" id]
  by (simp add: demux_init_header_def ex_dmx_def ex_pkt_def)

text \<open>An avcC record: version 1, profile bytes, length size, number of SPS, SPS, number of PPS, PPS.\<close>

definition avcC_record :: "byte list \<Rightarrow> byte \<Rightarrow> byte \<Rightarrow> byte list list \<Rightarrow> byte list list \<Rightarrow> byte list" where
  "avcC_record prof d4 d5 spss ppss =
     [1] @ prof @ [d4, d5] @ prefixed 2 spss @ [word_of_nat (length ppss)] @ prefixed 2 ppss"

lemma h264_avcC_record:
  assumes prof: "length prof = 3" and k: "unat (d4 AND 3) + 1 = k" "start_code k = Some sc"
    and n: "unat (d5 AND 31) = length spss" "length ppss < 256"
    and u: "list_all (\<lambda>u. length u < 65536) spss" "list_all (\<lambda>u. length u < 65536) ppss"
    and room: "2 * length sc + length (concat spss) + length (concat ppss) \<le> HEADER_BUF"
  shows "h264_avcC (avcC_record prof d4 d5 spss ppss @ pad) (length (avcC_record prof d4 d5 spss ppss)) =
    Inr (ParseOk \<lparr>h_data = (if spss = [] then [] else sc) @ concat spss @
      (if ppss = [] then [] else sc) @ concat ppss, h_nal_size = k, h_raw = False\<rparr>)"
proof -
  let ?pre = "[1] @ prof @ [d4, d5]"
  let ?c = "word_of_nat (length ppss) :: byte"
  let ?mid = "?pre @ prefixed 2 spss @ [?c]"
  let ?d = "avcC_record prof d4 d5 spss ppss @ pad"
  let ?sz = "length (avcC_record prof d4 d5 spss ppss)"
  let ?o = "(if spss = [] then [] else sc) @ concat spss"
  obtain a b c where p: "prof = [a, b, c]"
    using prof by (auto simp: length_Suc_conv numeral_3_eq_3)
  have r4: "rd ?d 4 = Inr d4" and r5: "rd ?d 5 = Inr d5" by (simp_all add: avcC_record_def p)
  have d1: "?d = ?pre @ prefixed 2 spss @ ([?c] @ prefixed 2 ppss @ pad)"
    and d2: "?d = ?mid @ prefixed 2 ppss @ pad"
    and d3: "?d = (?pre @ prefixed 2 spss) @ [?c] @ prefixed 2 ppss @ pad"
    by (simp_all add: avcC_record_def)
  have lp: "length ?pre = 6" and lm: "length ?mid = 6 + length (prefixed 2 spss) + 1"
    and lc: "length (?pre @ prefixed 2 spss) = 6 + length (prefixed 2 spss)"
    using prof by simp_all
  have "copy_group ?d ?sz k (length spss) (length ?pre) [] =
      Inr (Some (length ?pre + length (prefixed 2 spss), [] @ ?o))"
    unfolding d1 using u(1) k(2) room by (intro copy_group_prefixed) (simp_all add: avcC_record_def)
  then have g1: "copy_group ?d ?sz k (length spss) 6 [] = Inr (Some (6 + length (prefixed 2 spss), ?o))"
    by (simp only: lp append_Nil)
  have "at ?d (length (?pre @ prefixed 2 spss)) = Some ?c"
    unfolding d3 by (subst at_append_length) simp
  then have rc: "rd ?d (6 + length (prefixed 2 spss)) = Inr ?c"
    by (simp only: lc result_simps)
  have "copy_group ?d ?sz k (length ppss) (length ?mid) ?o =
      Inr (Some (length ?mid + length (prefixed 2 ppss),
        ?o @ (if ppss = [] then [] else sc) @ concat ppss))"
    unfolding d2 using u(2) k(2) room by (intro copy_group_prefixed) (simp_all add: avcC_record_def)
  then have g2: "copy_group ?d ?sz k (length ppss) (6 + length (prefixed 2 spss) + 1) ?o =
      Inr (Some (6 + length (prefixed 2 spss) + 1 + length (prefixed 2 ppss),
        ?o @ (if ppss = [] then [] else sc) @ concat ppss))"
    by (simp only: lm)
  have "unat ?c = length ppss" using n(2) by simp
  then show ?thesis
    unfolding h264_avcC_def r4 r5 Let_def result_simps k(1) n(1) g1 option.case prod.case rc
    by (simp only: g2 result_simps option.case prod.case append_assoc)
qed

text \<open>C27: H.264 configuration records. For every avcC record with length size 3 or 4, any SPS and PPS
  units whose output fits the 4096-byte buffer, and any padding, the parser succeeds with exactly:
  one start code and the SPS, one start code and the PPS, the record's length size, and the stream
  not raw. There is one start code per group, not per unit.\<close>

theorem h264_header_parse_avcC:
  assumes "length prof = 3" "unat (d4 AND 3) + 1 = k" "start_code k = Some sc"
    and "unat (d5 AND 31) = length spss" "length ppss < 256"
    and "list_all (\<lambda>u. length u < 65536) spss" "list_all (\<lambda>u. length u < 65536) ppss"
    and "2 * length sc + length (concat spss) + length (concat ppss) \<le> HEADER_BUF"
  shows "h264_header_parse (Some (avcC_record prof d4 d5 spss ppss @ pad))
      (int (length (avcC_record prof d4 d5 spss ppss))) True =
    Inr (ParseOk \<lparr>h_data = (if spss = [] then [] else sc) @ concat spss @
      (if ppss = [] then [] else sc) @ concat ppss, h_nal_size = k, h_raw = False\<rparr>)"
proof -
  let ?r = "avcC_record prof d4 d5 spss ppss"
  have l: "7 \<le> length ?r" using assms(1) by (simp add: avcC_record_def)
  have d0: "rd (?r @ pad) 0 = Inr 1" by (simp add: avcC_record_def)
  have sz: "\<not> int (length ?r) \<le> 0" "\<not> int (length ?r) < 7" using l by linarith+
  show ?thesis
    unfolding h264_header_parse_def option.case d0 result_simps
    by (simp only: sz if_False not_True_eq_False simp_thms nat_int h264_avcC_record [OF assms, of pad])
qed

theorem h264_header_parse_avcC_witness:
  "h264_header_parse (Some [1, 0x64, 0, 0x1F, 0xFF, 0xE1, 0, 2, 0x67, 0x64, 1, 0, 1, 0x68, 0, 0]) 14 True =
    Inr (ParseOk \<lparr>h_data = [0, 0, 0, 1, 0x67, 0x64, 0, 0, 0, 1, 0x68], h_nal_size = 4, h_raw = False\<rparr>)"
  using h264_header_parse_avcC [of "[0x64, 0, 0x1F]" "0xFF" 4 s_nal_4 "0xE1" "[[0x67, 0x64]]" "[[0x68]]" "[0, 0]"]
  by (simp add: avcC_record_def start_code_def s_nal_4_def be_bytes_numeral HEADER_BUF_def)

text \<open>A raw Annex B header that begins with the usual 4-byte start code 00 00 00 01 is refused with
  -1, whatever follows: the test for it looks at bytes 3 and 4, where the start code ends at byte 3.\<close>

theorem h264_raw_start_code_refused:
  "h264_header_parse (Some (0 # 0 # 0 # 1 # d)) (int (length (0 # 0 # 0 # 1 # d))) True =
    Inr (ParseError (-1))"
  by (cases d) (simp_all add: h264_header_parse_def)

text \<open>C29: H.265 configuration records. For every hvcC record with length size 3 or 4 (byte 21) and any
  arrays of units whose parameter sets fit the 4096-byte buffer, the parser succeeds with exactly a
  start code and the unit for every VPS, SPS and PPS unit, in the order of the record, and nothing of
  the other arrays.\<close>

theorem h265_header_parse_hvcC:
  assumes "length hdr = 21" "\<not> (hdr ! 0 = 0 \<and> hdr ! 1 = 0 \<and> hdr ! 2 \<le> 1)"
    and "unat (l AND 3) + 1 = k" "start_code k = Some sc" "length as < 256" "list_all hevc_array_ok as"
    and "length (concat (annexb_writes sc (param_units as))) \<le> HEADER_BUF"
  shows "h265_header_parse
      (Some (hdr @ [l, word_of_nat (length as)] @ concat (map hevc_array as) @ pad))
      (int (length (hdr @ [l, word_of_nat (length as)] @ concat (map hevc_array as)))) True =
    Inr (ParseOk \<lparr>h_data = concat (annexb_writes sc (param_units as)), h_nal_size = k, h_raw = False\<rparr>)"
proof -
  let ?n = "word_of_nat (length as) :: byte"
  let ?pre = "hdr @ [l, ?n]"
  let ?d = "hdr @ [l, ?n] @ concat (map hevc_array as) @ pad"
  have r: "rd ?d i = Inr (hdr ! i)" if "i < 21" for i
    using that assms(1) by (simp add: at_def nth_append)
  have r21: "rd ?d 21 = Inr l" "rd ?d 22 = Inr ?n"
    using assms(1) by (simp_all add: at_def nth_append)
  have lp: "length ?pre = 23" using assms(1) by simp
  have "hevc_arrays (?pre @ concat (map hevc_array as) @ pad) k (length as) (length ?pre) [] =
      Inr (Some (length ?pre + length (concat (map hevc_array as)),
        [] @ concat (annexb_writes sc (param_units as))))"
    using assms(4,6,7) by (intro hevc_arrays_param_units) simp_all
  then have a: "hevc_arrays ?d k (length as) 23 [] =
      Inr (Some (23 + length (concat (map hevc_array as)), concat (annexb_writes sc (param_units as))))"
    by (simp only: lp append_Nil append_assoc)
  have n: "unat ?n = length as" using assms(5) by simp
  have raw: "\<not> ((hdr ! 0 = 0 \<and> hdr ! 1 = 0 \<and> hdr ! 2 = 1) \<or>
      (hdr ! 0 = 0 \<and> hdr ! 1 = 0 \<and> hdr ! 2 = 0 \<and> hdr ! 3 = 1))"
    using assms(2) by auto
  have sz: "\<not> int (length (hdr @ [l, ?n] @ concat (map hevc_array as))) \<le> 0"
    "\<not> int (length (hdr @ [l, ?n] @ concat (map hevc_array as))) < 7" using assms(1) by simp_all
  have r0: "rd ?d 0 = Inr (hdr ! 0)" "rd ?d 1 = Inr (hdr ! 1)" "rd ?d 2 = Inr (hdr ! 2)"
    "rd ?d 3 = Inr (hdr ! 3)" by (rule r; simp)+
  show ?thesis
    unfolding h265_header_parse_def option.case r0 result_simps r21 Let_def assms(3) n a prod.case
    by (simp only: sz raw if_False not_True_eq_False)
qed

theorem h265_header_parse_hvcC_witness:
  "h265_header_parse
     (Some (replicate 21 7 @ [0xFF, 2, 0xA0, 0, 1, 0, 2, 0x40, 1, 0x27, 0, 1, 0, 1, 9])) 36 True =
   Inr (ParseOk \<lparr>h_data = [0, 0, 0, 1, 0x40, 1], h_nal_size = 4, h_raw = False\<rparr>)"
  using h265_header_parse_hvcC [of "replicate 21 7" "0xFF" 4 s_nal_4 "[(0xA0, [[0x40, 1]]), (0x27, [[9]])]" "[]"]
  by (simp add: start_code_def s_nal_4_def hevc_array_ok_def hevc_array_Pair param_units_def
      is_param_set_def HEVC_NAL_VPS_def HEVC_NAL_SPS_def HEVC_NAL_PPS_def be_bytes_numeral HEADER_BUF_def)

end
