(* ===== verification/Vp9_Frames.thy ===== *)
theory Vp9_Frames
  imports Prelude
begin

text \<open>
  VP9 superframes of the V4L2 decoder client (\<open>v4l2-uvm-test/src/vp9.c\<close> and the copy to secure
  memory in \<open>v4l2_dec_frame_done\<close>, \<open>v4l2-dec.c\<close>): splitting a superframe by the index at its end,
  the 16-byte header the firmware wants before each frame, and the loop that lays the frames out
  in secure memory from the last one to the first.

  The C \<open>int\<close>s of the splitter (\<open>frame_size\<close>, \<open>total_size\<close>) are compared with the unsigned
  \<open>data_size\<close>, so they are kept as 32-bit words: a comparison with 0 reads them signed, the
  comparison with the limit reads them unsigned. Secure memory is an opaque service; the model
  records the fill requests sent to it.
\<close>

section \<open>The superframe splitter\<close>

datatype vp9_fault = Read_out_of_bounds

record vp9_superframe_split =
  data :: "byte list option"
  data_size :: u32
  nb_frames :: int
  frames_size :: u32
  next_frame :: int
  next_frame_offset :: u32
  prefix_size :: int
  sizes :: "u32 list"

text \<open>\<open>for (j = 0; j < length_size; j++) frame_size |= s->data[idx++] << (j * 8);\<close>\<close>

primrec read_frame_size ::
    "byte list \<Rightarrow> nat \<Rightarrow> nat \<Rightarrow> nat \<Rightarrow> u32 \<Rightarrow> vp9_fault + u32 \<times> nat" where
  "read_frame_size d 0 j idx fs = Inr (fs, idx)"
| "read_frame_size d (Suc n) j idx fs =
     rbind (need Read_out_of_bounds (at d idx))
       (\<lambda>b. read_frame_size d n (Suc j) (Suc idx) (fs OR push_bit (j * 8) (ucast b)))"

text \<open>
  The loop over the frames of the index. The first component of the result tells whether the loop
  ran to its end; \<open>False\<close> is \<open>goto fail\<close>, which leaves the sizes written so far.
\<close>

primrec split_loop ::
    "byte list \<Rightarrow> nat \<Rightarrow> u32 \<Rightarrow> nat \<Rightarrow> nat \<Rightarrow> nat \<Rightarrow> u32 \<Rightarrow> u32 list \<Rightarrow>
     vp9_fault + bool \<times> u32 \<times> u32 list" where
  "split_loop d lsz lim 0 i idx tot szs = Inr (True, tot, szs)"
| "split_loop d lsz lim (Suc n) i idx tot szs =
     rbind (read_frame_size d lsz 0 idx 0)
       (\<lambda>(fs, idx'). let tot' = tot + fs in
          if sint fs < 0 \<or> lim < tot' then Inr (False, tot', szs)
          else split_loop d lsz lim n (Suc i) idx' tot' (szs[i := fs]))"

definition vp9_superframe_split_filter ::
    "vp9_superframe_split \<Rightarrow> vp9_fault + int \<times> vp9_superframe_split" where
  "vp9_superframe_split_filter s =
     (case data s of None \<Rightarrow> Inr (- 1, s)
      | Some d \<Rightarrow>
        rbind (need Read_out_of_bounds (at d (unat (data_size s - 1))))
          (\<lambda>marker.
            if marker AND 0xe0 = 0xc0 then
              let length_size = 1 + unat (drop_bit 3 marker AND 3);
                  nb = 1 + unat (marker AND 7);
                  idx_size = 2 + nb * length_size in
              if idx_size \<le> unat (data_size s) then
                rbind (need Read_out_of_bounds (at d (unat (data_size s - of_nat idx_size))))
                  (\<lambda>m. if m = marker then
                     if sint (data_size s + 1 - of_nat idx_size) < 0 then Inl Read_out_of_bounds
                     else rbind (split_loop d length_size (data_size s - of_nat idx_size) nb 0
                              (unat (data_size s + 1 - of_nat idx_size)) 0 (sizes s))
                       (\<lambda>(ok, tot, szs).
                          if ok then Inr (0, s\<lparr>sizes := szs, nb_frames := int nb,
                            frames_size := tot, next_frame := 0, next_frame_offset := 0\<rparr>)
                          else Inr (- 1, s\<lparr>sizes := szs\<rparr>))
                   else Inr (0, s))
              else Inr (0, s)
            else Inr (0, s\<lparr>nb_frames := 1, sizes := (sizes s)[0 := data_size s],
                           frames_size := data_size s\<rparr>)))"

text \<open>\<open>fill_vp9_header\<close>: the 16 bytes written for a frame of \<open>len\<close> bytes.\<close>

definition fill_vp9_header :: "u32 \<Rightarrow> byte list" where
  "fill_vp9_header len = (let l = len + 4 in
     [ucast (drop_bit 24 l), ucast (drop_bit 16 l), ucast (drop_bit 8 l), ucast l,
      ucast (drop_bit 24 l) XOR 0xff, ucast (drop_bit 16 l) XOR 0xff,
      ucast (drop_bit 8 l) XOR 0xff, ucast l XOR 0xff,
      0, 0, 0, 1, 0x41, 0x4d, 0x4c, 0x56])"

section \<open>The copy to secure memory\<close>

text \<open>
  One request to \<open>secmem_fill\<close>: the offset in the secure buffer and the bytes. The loop runs from
  the last frame down; \<open>offset\<close> and \<open>stream_offset\<close> are C \<open>int\<close>s from which an unsigned size is
  subtracted, so they are words.
\<close>

type_synonym fill = "u32 \<times> byte list"

primrec secure_loop ::
    "byte list \<Rightarrow> u32 list \<Rightarrow> nat \<Rightarrow> u32 \<Rightarrow> u32 \<Rightarrow> fill list \<Rightarrow> vp9_fault + fill list" where
  "secure_loop es szs 0 off soff acc = Inr acc"
| "secure_loop es szs (Suc i) off soff acc =
     rbind (need Read_out_of_bounds (at szs i))
       (\<lambda>sub. let off' = off - sub; soff' = soff - sub in
          rbind (need Read_out_of_bounds (slice es (unat soff') (unat sub)))
            (\<lambda>body. secure_loop es szs i (off' - 16) soff'
                      (acc @ [(off', body), (off' - 16, fill_vp9_header sub)])))"

definition secure_frame_size :: "vp9_superframe_split \<Rightarrow> u32" where
  "secure_frame_size s = frames_size s + word_of_int (nb_frames s * 16)"

definition secure_copy :: "byte list \<Rightarrow> vp9_superframe_split \<Rightarrow> vp9_fault + fill list" where
  "secure_copy es s =
     secure_loop es (sizes s) (nat (nb_frames s)) (secure_frame_size s) (frames_size s) []"

text \<open>What a sequence of fill requests leaves in a buffer: each overwrites its range.\<close>

definition overwrite :: "byte list \<Rightarrow> fill \<Rightarrow> byte list" where
  "overwrite m f = take (unat (fst f)) m @ snd f @ drop (unat (fst f) + length (snd f)) m"

definition fills_inside :: "nat \<Rightarrow> fill list \<Rightarrow> bool" where
  "fills_inside n fl \<longleftrightarrow> (\<forall>(off, bs) \<in> set fl. unat off + length bs \<le> n)"

section \<open>Reading the index\<close>

lemma or_byte_take_bit:
  "take_bit (j * 8) (of_nat n :: u32) OR
     push_bit (j * 8) (ucast (word_of_nat (n div 256 ^ j) :: byte)) =
   take_bit (Suc j * 8) (of_nat n)"
proof -
  have "(256::nat) ^ j = (2 ^ 8) ^ j" by simp
  also have "\<dots> = 2 ^ (j * 8)" by (simp only: power_mult [symmetric] mult.commute)
  finally have p: "(256::nat) ^ j = 2 ^ (j * 8)" .
  show ?thesis
    by (rule bit_eqI)
       (auto simp: p bit_simps simp flip: drop_bit_eq_div)
qed

lemma read_frame_size_le:
  "drop idx d = le_bytes k (n div 256 ^ j) @ rest \<Longrightarrow>
   read_frame_size d k j idx (take_bit (j * 8) (of_nat n)) =
     Inr (take_bit ((j + k) * 8) (of_nat n), idx + k)"
proof (induction k arbitrary: idx j)
  case (Suc k)
  have "at d idx = Some (word_of_nat (n div 256 ^ j))"
    using Suc.prems by (simp add: at_def) (metis drop_eq_Nil list.distinct(1) linorder_not_less nth_via_drop)
  moreover have "drop (Suc idx) d = le_bytes k (n div 256 ^ Suc j) @ rest"
    using Suc.prems by (simp add: drop_Suc tl_drop flip: drop_Suc)
       (metis drop_Suc list.sel(3) tl_drop div_mult2_eq mult.commute)
  ultimately show ?case
    using Suc.IH [of "Suc idx" "Suc j"]
    by (simp only: read_frame_size.simps result_simps or_byte_take_bit)
       (simp add: algebra_simps)
qed simp

lemma take_bit_of_nat_self: "n < 256 ^ L \<Longrightarrow> L \<le> 4 \<Longrightarrow> take_bit (L * 8) (of_nat n :: u32) = of_nat n"
proof -
  assume "n < 256 ^ L"
  moreover have "(256::nat) ^ L = (2 ^ 8) ^ L" by simp
  then have "(256::nat) ^ L = 2 ^ (L * 8)" by (simp only: power_mult [symmetric] mult.commute)
  ultimately have "take_bit (L * 8) n = n" by (simp add: take_bit_nat_eq_self)
  then show ?thesis by (metis take_bit_of_nat)
qed

lemma sint_of_nat_u32: "n < 2147483648 \<Longrightarrow> sint (of_nat n :: u32) = int n"
  by (simp add: signed_of_nat signed_take_bit_int_eq_self)

lemma unat_of_nat_u32 [simp]: "n < 4294967296 \<Longrightarrow> unat (of_nat n :: u32) = n"
  by (simp add: unsigned_of_nat take_bit_nat_eq_self)

lemma split_loop_sizes:
  assumes "drop idx d = concat (map (le_bytes L) ns) @ rest" "L \<le> 4"
    and "\<forall>n \<in> set ns. n < 256 ^ L" "t + sum_list ns \<le> l" "l < 2147483648"
    and "i + length ns \<le> length szs"
  shows "split_loop d L (of_nat l) (length ns) i idx (of_nat t) szs =
    Inr (True, of_nat (t + sum_list ns), take i szs @ map of_nat ns @ drop (i + length ns) szs)"
  using assms
proof (induction ns arbitrary: idx t i szs)
  case (Cons n ns)
  have "drop idx d = le_bytes L (n div 256 ^ 0) @ concat (map (le_bytes L) ns) @ rest"
    using Cons.prems(1) by simp
  from read_frame_size_le [OF this]
  have r: "read_frame_size d L 0 idx 0 = Inr (of_nat n, idx + L)"
    using Cons.prems(2,3) by (simp add: take_bit_of_nat_self)
  have d: "drop (idx + L) d = concat (map (le_bytes L) ns) @ rest"
    using Cons.prems(1) by (simp add: add.commute flip: drop_drop)
  have ok: "\<not> sint (of_nat n :: u32) < 0" "\<not> (of_nat l :: u32) < of_nat t + of_nat n"
    using Cons.prems(4,5)
    by (simp_all add: sint_of_nat_u32 word_less_nat_alt flip: of_nat_add)
  have u: "take (Suc i) (szs[i := x]) = take i szs @ [x]" for x :: u32
    using Cons.prems(6) by (simp add: take_Suc_conv_app_nth)
  have "split_loop d L (of_nat l) (length ns) (Suc i) (idx + L) (of_nat (t + n)) (szs[i := of_nat n]) =
    Inr (True, of_nat (t + n + sum_list ns),
      take (Suc i) (szs[i := of_nat n]) @ map of_nat ns @ drop (Suc i + length ns) (szs[i := of_nat n]))"
    using Cons.prems d by (intro Cons.IH) auto
  then show ?case using r ok u by (simp add: Let_def ac_simps drop_update_cancel)
qed simp

section \<open>Properties\<close>

text \<open>A superframe: the frames, then the index between two copies of its marker byte.\<close>

definition superframe_marker :: "nat \<Rightarrow> nat \<Rightarrow> byte" where
  "superframe_marker L n = 0xc0 OR push_bit 3 (of_nat (L - 1)) OR of_nat (n - 1)"

definition superframe :: "nat \<Rightarrow> byte list list \<Rightarrow> byte list" where
  "superframe L fs = concat fs @ [superframe_marker L (length fs)] @
     concat (map (le_bytes L) (map length fs)) @ [superframe_marker L (length fs)]"

lemma superframe_marker_fields:
  assumes "1 \<le> L" "L \<le> 4" "1 \<le> n" "n \<le> 8"
  shows "superframe_marker L n AND 0xe0 = 0xc0"
    and "1 + unat (drop_bit 3 (superframe_marker L n) AND 3) = L"
    and "1 + unat (superframe_marker L n AND 7) = n"
proof -
  have "L \<in> {1, 2, 3, 4}" "n \<in> {1, 2, 3, 4, 5, 6, 7, 8}" using assms by auto
  then show "superframe_marker L n AND 0xe0 = 0xc0"
    and "1 + unat (drop_bit 3 (superframe_marker L n) AND 3) = L"
    and "1 + unat (superframe_marker L n AND 7) = n"
    by (auto simp: superframe_marker_def)
qed

lemma length_index: "length (concat (map (le_bytes L) ns)) = length ns * L"
  by (induction ns) auto

lemma length_superframe:
  "length (superframe L fs) = length (concat fs) + (2 + length fs * L)"
  by (simp add: superframe_def length_index del: map_map)

lemma vp9_split_superframe:
  assumes d: "data s = Some (superframe L fs @ rest)" "data_size s = of_nat (length (superframe L fs))"
    and b: "length (superframe L fs) < 2147483648" "1 \<le> L" "L \<le> 4" "1 \<le> length fs" "length fs \<le> 8"
    and f: "\<forall>f \<in> set fs. length f < 256 ^ L" and z: "length (sizes s) = 8"
  shows "\<exists>s'. vp9_superframe_split_filter s = Inr (0, s') \<and> nb_frames s' = int (length fs) \<and>
     frames_size s' = of_nat (length (concat fs)) \<and>
     take (length fs) (sizes s') = map (\<lambda>f. of_nat (length f)) fs"
proof -
  define N where "N = length (superframe L fs)"
  define K where "K = 2 + length fs * L"
  define T where "T = length (concat fs)"
  let ?m = "superframe_marker L (length fs)"
  let ?ix = "concat (map (le_bytes L) (map length fs))"
  note m = superframe_marker_fields [OF b(2-5)]
  have N: "N = T + K" "N < 2147483648" "data_size s = of_nat N"
    using d b by (simp_all add: N_def K_def T_def length_superframe)
  have dd: "superframe L fs @ rest = concat fs @ ?m # ?ix @ ?m # rest" by (simp add: superframe_def)
  have "data_size s - 1 = of_nat (T + Suc (length fs * L))" using N K_def by simp
  moreover have "T + Suc (length fs * L) < 4294967296" using N K_def by simp
  moreover have "length ?ix = length fs * L" by (simp add: length_index del: map_map)
  ultimately have i1: "unat (data_size s - 1) = T + Suc (length ?ix)"
    by (simp only: unat_of_nat_u32)
  have i2: "data_size s - of_nat K = of_nat T" using N by simp
  have i3: "data_size s + 1 - of_nat K = of_nat (Suc T)" using N by simp
  have a1: "at (superframe L fs @ rest) (unat (data_size s - 1)) = Some ?m"
    by (simp add: i1 dd T_def)
  have "T < 4294967296" using N by simp
  then have a2: "at (superframe L fs @ rest) (unat (of_nat T :: u32)) = Some ?m"
    by (simp only: unat_of_nat_u32) (simp add: dd T_def)
  have dr: "drop (Suc T) (superframe L fs @ rest) = ?ix @ ?m # rest" by (simp add: dd T_def)
  have sp: "split_loop (superframe L fs @ rest) L (of_nat T) (length (map length fs)) 0 (Suc T) (of_nat 0) (sizes s) =
     Inr (True, of_nat (0 + sum_list (map length fs)),
       take 0 (sizes s) @ map of_nat (map length fs) @ drop (0 + length (map length fs)) (sizes s))"
    using b f z N by (intro split_loop_sizes [OF dr]) (auto simp: T_def length_concat)
  have "unat (data_size s) = N" unfolding N(3) using N(2) by (intro unat_of_nat_u32) simp
  then have k: "K \<le> unat (data_size s)" using N(1) by simp
  have T: "Suc T < 2147483648" using N K_def by simp
  have nn: "\<not> sint (of_nat (Suc T) :: u32) < 0" "unat (of_nat (Suc T) :: u32) = Suc T"
    using sint_of_nat_u32 [OF T] unat_of_nat_u32 [of "Suc T"] T by linarith+
  have sp': "split_loop (superframe L fs @ rest) L (of_nat T) (length fs) 0 (Suc T) 0 (sizes s) =
     Inr (True, of_nat T, map (\<lambda>f. of_nat (length f)) fs @ drop (length fs) (sizes s))"
    using sp by (simp add: T_def length_concat o_def)
  show ?thesis
    unfolding vp9_superframe_split_filter_def
    by (simp only: d(1) option.case a1 a2 result_simps m if_True Let_def k K_def [symmetric]
          i2 i3 nn if_False sp' prod.case) (simp add: T_def)
qed

lemma sint_nonneg_unat: "\<not> sint (w :: u32) < 0 \<Longrightarrow> unat w < 2147483648"
proof -
  assume "\<not> sint w < 0"
  moreover have "sint w < 2147483648" using sint_range_size [of w] by (simp add: word_size)
  moreover have "uint w = take_bit 32 (sint w)" using uint_sint [of w] by simp
  ultimately have "uint w < 2147483648" by (simp add: take_bit_int_eq_self)
  then show ?thesis unfolding unat_eq_nat_uint by linarith
qed

lemma split_loop_sound:
  "split_loop d L lim n i idx tot szs = Inr (True, tot', szs') \<Longrightarrow> unat lim < 2147483648 \<Longrightarrow>
   tot \<le> lim \<Longrightarrow> i + n \<le> length szs \<Longrightarrow>
   tot' \<le> lim \<and> length szs' = length szs \<and> take i szs' = take i szs \<and>
   unat tot' = unat tot + sum_list (map unat (take n (drop i szs')))"
proof (induction n arbitrary: i idx tot szs)
  case (Suc n)
  then obtain fs idx' where r: "read_frame_size d L 0 idx 0 = Inr (fs, idx')"
    and ok: "\<not> sint fs < 0" "\<not> lim < tot + fs"
    and s: "split_loop d L lim n (Suc i) idx' (tot + fs) (szs[i := fs]) = Inr (True, tot', szs')"
    by (auto simp: rbind_Inr_iff Let_def split: if_splits)
  have "tot' \<le> lim \<and> length szs' = length szs \<and>
     take (Suc i) szs' = take (Suc i) (szs[i := fs]) \<and>
     unat tot' = unat (tot + fs) + sum_list (map unat (take n (drop (Suc i) szs')))"
    using Suc.IH [OF s] Suc.prems ok by simp
  moreover have "unat (tot + fs) = unat tot + unat fs"
    using sint_nonneg_unat [OF ok(1)] Suc.prems(2,3)
    by (intro unat_add_lem [THEN iffD1]) (simp add: word_le_nat_alt)
  moreover have "take (Suc n) (drop i szs') = szs' ! i # take n (drop (Suc i) szs')"
    using calculation(1) Suc.prems(4) by (simp flip: Cons_nth_drop_Suc)
  moreover have "szs' ! i = fs \<and> take i szs' = take i szs"
  proof -
    have "take (Suc i) szs' = take i szs @ [fs]" "i < length szs" "length szs' = length szs"
      using calculation(1) Suc.prems(4) by (auto simp: take_Suc_conv_app_nth)
    then show ?thesis by (simp add: take_Suc_conv_app_nth)
  qed
  ultimately show ?case by simp
qed simp



text \<open>
  a packet whose last byte looks like a superframe marker but that carries no index (too short,
  or no marker where the index would start) is reported as success with no output field written,
  although it is one plain frame; the caller then works with whatever the structure held before.
\<close>

theorem vp9_missing_index_unset:
  assumes "data s = Some d" "length d = unat (data_size s)" "d \<noteq> []"
    and "last d AND 0xe0 = 0xc0"
    and "idx_size = 2 + (1 + unat (last d AND 7)) * (1 + unat (drop_bit 3 (last d) AND 3))"
    and "length d < idx_size \<or> d ! (length d - idx_size) \<noteq> last d"
  shows "vp9_superframe_split_filter s = Inr (0, s)"
proof -
  have "0 < length d" using assms(3) by simp
  then have l: "unat (data_size s - 1) = length d - 1"
    using assms(2) by (metis One_nat_def Suc_leI unat_1 unat_sub word_le_nat_alt)
  then have a: "at d (unat (data_size s - 1)) = Some (last d)"
    using assms(3) by (simp add: at_def last_conv_nth)
  show ?thesis
  proof (cases "idx_size \<le> length d")
    case True
    have "unat (data_size s) < 4294967296" using unsigned_less [of "data_size s"] by simp
    then have "unat (of_nat idx_size :: u32) = idx_size" using True assms(2) by simp
    then have "unat (data_size s - of_nat idx_size) = length d - idx_size"
      using True assms(2) by (simp add: unat_sub word_le_nat_alt)
    then have "at d (unat (data_size s - of_nat idx_size)) = Some (d ! (length d - idx_size))"
      using assms(3,5) by (simp add: at_def)
    then show ?thesis
      using assms True a unfolding vp9_superframe_split_filter_def Let_def by simp
  next
    case False
    then show ?thesis
      using assms a unfolding vp9_superframe_split_filter_def Let_def by simp
  qed
qed

theorem vp9_missing_index_unset_witness:
  "let s = \<lparr>data = Some [1, 2, 0xc0], data_size = 3, nb_frames = - 7, frames_size = 99,
       next_frame = 0, next_frame_offset = 0, prefix_size = 0, sizes = replicate 8 5\<rparr>
   in vp9_superframe_split_filter s = Inr (0, s) \<and> nb_frames s = - 7"
  unfolding Let_def
  by (subst vp9_missing_index_unset [of _ "[1, 2, 0xc0]" 3]) simp_all

section \<open>The layout in secure memory\<close>

text \<open>
  What the firmware expects for each frame: the length plus 4 in big-endian, its complement, a
  start code and the letters AMLV, then the frame.
\<close>

definition aml_frame :: "byte list \<Rightarrow> byte list" where
  "aml_frame f = be_bytes 4 (length f + 4) @ map (NOT) (be_bytes 4 (length f + 4)) @
     [0, 0, 0, 1, 0x41, 0x4d, 0x4c, 0x56] @ f"

lemma ucast_drop_bit_of_nat: "ucast (drop_bit k (of_nat n :: u32)) = (of_nat (take_bit 32 n div 2 ^ k) :: byte)"
  by (rule bit_eqI) (auto simp: bit_simps simp flip: drop_bit_eq_div)

lemma fill_vp9_header_be:
  "n + 4 < 4294967296 \<Longrightarrow> fill_vp9_header (of_nat n) @ f =
     be_bytes 4 (n + 4) @ map (NOT) (be_bytes 4 (n + 4)) @ [0, 0, 0, 1, 0x41, 0x4d, 0x4c, 0x56] @ f"
proof -
  assume n: "n + 4 < 4294967296"
  have l: "of_nat n + 4 = (of_nat (n + 4) :: u32)" by simp
  have x: "b XOR 0xff = NOT b" for b :: byte
  proof -
    have "(0xff :: byte) = - 1" by transfer simp
    then show ?thesis by (simp only: bit.xor_one_right)
  qed
  have t: "take_bit 32 (n + 4) = n + 4" using n by (simp add: take_bit_nat_eq_self)
  have z: "ucast (of_nat (n + 4) :: u32) = (of_nat (n + 4) :: byte)"
    using ucast_drop_bit_of_nat [of 0 "n + 4"] t by simp
  show ?thesis
    unfolding fill_vp9_header_def Let_def l x
    by (simp only: ucast_drop_bit_of_nat t z) (simp add: be_bytes_numeral)
qed

lemma length_fill_vp9_header [simp]: "length (fill_vp9_header n) = 16"
  by (simp add: fill_vp9_header_def Let_def)

lemma length_aml_frame: "length (aml_frame f) = length f + 16"
  by (simp add: aml_frame_def)

lemma aml_frame_header:
  "length f + 4 < 4294967296 \<Longrightarrow> fill_vp9_header (of_nat (length f)) @ f = aml_frame f"
  by (simp add: fill_vp9_header_be aml_frame_def)

lemma sum_list_lengths_snoc:
  "length (concat (map aml_frame fs)) = length (concat fs) + 16 * length fs"
  by (induction fs) (simp_all add: length_aml_frame)

lemma overwrite_of_nat:
  "n < 4294967296 \<Longrightarrow> overwrite m (of_nat n, bs) = take n m @ bs @ drop (n + length bs) m"
  by (simp add: overwrite_def)

lemma overwrite_header_body:
  assumes "B = A + length h" "B + length f \<le> length m" "B < 4294967296"
  shows "overwrite (overwrite m (of_nat B, f)) (of_nat A, h) = take A m @ h @ f @ drop (B + length f) m"
proof -
  have "overwrite m (of_nat B, f) = take B m @ f @ drop (B + length f) m"
    by (rule overwrite_of_nat) (rule assms(3))
  moreover have "overwrite m' (of_nat A, h) = take A m' @ h @ drop (A + length h) m'" for m'
    using assms by (intro overwrite_of_nat) simp
  ultimately show ?thesis using assms(1,2) by (simp add: min_def)
qed

lemma secure_loop_layout:
  assumes "take (length fs) szs = map (\<lambda>f. of_nat (length f)) fs"
    and "es = concat fs @ rest" "length (concat (map aml_frame fs)) < 4294967296"
  shows "\<exists>fl. secure_loop es szs (length fs) (of_nat (length (concat (map aml_frame fs))))
             (of_nat (length (concat fs))) acc = Inr (acc @ fl) \<and>
     fills_inside (length (concat (map aml_frame fs))) fl \<and>
     (\<forall>m. length (concat (map aml_frame fs)) \<le> length m \<longrightarrow>
        foldl overwrite m fl =
          concat (map aml_frame fs) @ drop (length (concat (map aml_frame fs))) m)"
  using assms
proof (induction fs arbitrary: rest acc rule: rev_induct)
  case Nil
  then show ?case by (simp add: fills_inside_def)
next
  case (snoc f fs)
  define T where "T = length (concat fs)"
  define A where "A = length (concat (map aml_frame fs))"
  let ?h = "fill_vp9_header (of_nat (length f))"
  let ?w = "[(of_nat (A + 16), f), (of_nat A, ?h)] :: fill list"
  have b: "A + 16 + length f < 4294967296" "T + length f < 4294967296"
    using snoc.prems(3) by (simp_all add: A_def T_def length_aml_frame sum_list_lengths_snoc)
  have sz: "at szs (length fs) = Some (of_nat (length f))"
  proof -
    have "length fs < length szs"
      using arg_cong [OF snoc.prems(1), of length] by simp
    moreover have "take (Suc (length fs)) szs ! length fs = of_nat (length f)"
      by (subst snoc.prems(1) [simplified]) (simp add: nth_append)
    ultimately show ?thesis by (simp add: at_def)
  qed
  have tk: "take (length fs) szs = map (\<lambda>f. of_nat (length f)) fs"
    using arg_cong [OF snoc.prems(1), of "take (length fs)"] by simp
  have body: "slice es (unat (of_nat T :: u32)) (unat (of_nat (length f) :: u32)) = Some f"
    using snoc.prems(2) b by (simp add: T_def)
  obtain fl where fl: "secure_loop es szs (length fs) (of_nat A) (of_nat T) (acc @ ?w) = Inr ((acc @ ?w) @ fl)"
    "fills_inside A fl" "\<And>m. A \<le> length m \<Longrightarrow> foldl overwrite m fl = concat (map aml_frame fs) @ drop A m"
    using snoc.IH [OF tk, of "f @ rest" "acc @ ?w"] snoc.prems(2) b unfolding A_def T_def by auto
  have st: "secure_loop es szs (length (fs @ [f])) (of_nat (A + 16 + length f)) (of_nat (T + length f)) acc =
     Inr (acc @ ?w @ fl)"
    using fl(1) sz body by (simp add: Let_def)
  have "foldl overwrite m (?w @ fl) = concat (map aml_frame (fs @ [f])) @ drop (A + 16 + length f) m"
    if "A + 16 + length f \<le> length m" for m
  proof -
    have "overwrite (overwrite m (of_nat (A + 16), f)) (of_nat A, ?h) =
        take A m @ ?h @ f @ drop (A + 16 + length f) m"
      using that b(1) by (intro overwrite_header_body) simp_all
    moreover have "?h @ f = aml_frame f" using b(1) by (intro aml_frame_header) simp
    ultimately show ?thesis using that fl(3)
      by (simp only: foldl_append foldl_Cons foldl_Nil) (simp flip: append_assoc)
  qed
  moreover have "fills_inside (A + 16 + length f) (?w @ fl)"
  proof -
    have u: "unat (of_nat (A + 16) :: u32) = A + 16" "unat (of_nat A :: u32) = A"
      by (rule unat_of_nat_u32, use b(1) in simp)+
    show ?thesis using fl(2) unfolding fills_inside_def
      by (auto simp only: u set_append Un_iff list.set insert_iff empty_iff prod.inject
            length_fill_vp9_header case_prod_conv split: prod.splits)
  qed
  moreover have "length (concat (map aml_frame (fs @ [f]))) = A + 16 + length f"
    by (simp add: A_def length_aml_frame)
  moreover have "length (concat (fs @ [f])) = T + length f" by (simp add: T_def)
  ultimately show ?case using st
    by (intro exI [of _ "?w @ fl"]) (simp only:, simp)
qed

lemma vp9_secure_layout:
  assumes n: "nb_frames s = int (length fs)" and t: "frames_size s = of_nat (length (concat fs))"
    and z: "take (length fs) (sizes s) = map (\<lambda>f. of_nat (length f)) fs"
    and e: "es = concat fs @ rest" and b: "length (concat (map aml_frame fs)) < 4294967296"
  shows "\<exists>fl. secure_copy es s = Inr fl \<and>
     unat (secure_frame_size s) = length (concat (map aml_frame fs)) \<and>
     fills_inside (unat (secure_frame_size s)) fl \<and>
     (\<forall>m. length m = unat (secure_frame_size s) \<longrightarrow>
        foldl overwrite m fl = concat (map aml_frame fs))"
proof -
  define A where "A = length (concat (map aml_frame fs))"
  have "secure_frame_size s = of_nat (length (concat fs) + length fs * 16)"
    by (simp add: secure_frame_size_def t n)
  also have "\<dots> = of_nat A" by (simp only: A_def sum_list_lengths_snoc mult.commute)
  finally have a: "secure_frame_size s = of_nat A" .
  then have "unat (secure_frame_size s) = A" using b by (simp add: A_def)
  moreover have "secure_copy es s =
      secure_loop es (sizes s) (length fs) (of_nat A) (of_nat (length (concat fs))) []"
    by (simp only: secure_copy_def a n t nat_int)
  ultimately show ?thesis
    using secure_loop_layout [OF z e b, of "[]"] unfolding A_def by auto
qed

end
