(* ===== verification/Es_Output.thy ===== *)
theory Es_Output
  imports Vp9_Frames "HOL-Library.Signed_Division"
begin

text \<open>
  The output port of the V4L2 decoder client (\<open>v4l2-uvm-test/src/v4l2-dec.c\<close>): choosing a free
  buffer, appending elementary-stream bytes to it, handing a finished frame to the driver and
  taking the buffer back when the driver returns it.

  \<open>cur_output_index\<close>, the buffers and the counters are one record. The bytes of a frame live in
  the mapped plane (memory-mapped mode) or in the shared staging buffer \<open>es_buf\<close> (DMA-buf mode,
  where they are copied to secure memory when the frame is done). Waiting for a buffer is a list of
  wake-ups: what the decoder thread left in \<open>quit_thread\<close> and in the buffers each time the condition
  was signalled. Answers of the kernel and of the secure-memory service are arguments.
\<close>

section \<open>State\<close>

datatype v4l2_memory = V4L2_MEMORY_MMAP | V4L2_MEMORY_DMABUF

record frame_buffer =
  queued :: bool
  used :: u32
  vaddr :: "byte list"
  smem :: "fill list option"
  plane_length :: u32
  bytesused :: u32
  timestamp :: "int \<times> int"

record out_port =
  buf :: "frame_buffer list"
  is_vp9 :: bool
  sInMemMode :: v4l2_memory
  es_buf :: "byte list"
  cur_output_index :: int
  quit_thread :: bool
  d_o_push_num :: int
  d_o_rec_num :: int
  get_1st_data :: bool
  secmem_live :: int

definition ES_BUF_SIZE :: nat where
  "ES_BUF_SIZE = 4 * 1024 * 1024"

definition DMX_SECOND :: int where
  "DMX_SECOND = 1000000"

section \<open>Operations\<close>

text \<open>The scan of \<open>get_free_output_buf\<close>: the first buffer that is not queued, or \<open>buf_num\<close>.\<close>

primrec first_free :: "frame_buffer list \<Rightarrow> nat" where
  "first_free [] = 0"
| "first_free (b # bs) = (if queued b then Suc (first_free bs) else 0)"

text \<open>
  \<open>get_free_output_buf\<close> with the wake-ups it sees. \<open>None\<close>: still waiting when they are used up.
  The second component is what the buffers are when it returns.
\<close>

fun get_free_output_buf ::
    "frame_buffer list \<Rightarrow> (bool \<times> frame_buffer list) list \<Rightarrow> (int \<times> frame_buffer list) option" where
  "get_free_output_buf bs ws =
     (if first_free bs < length bs then Some (int (first_free bs), bs)
      else case ws of [] \<Rightarrow> None
           | (quit, bs') # ws' \<Rightarrow> if quit then Some (- 1, bs') else get_free_output_buf bs' ws')"

definition upd_buf :: "nat \<Rightarrow> (frame_buffer \<Rightarrow> frame_buffer) \<Rightarrow> out_port \<Rightarrow> out_port" where
  "upd_buf i f p = p\<lparr>buf := (buf p)[i := f (buf p ! i)]\<rparr>"

text \<open>The part of \<open>v4l2_dec_write_es\<close> after a buffer has been chosen.\<close>

definition write_es_to :: "nat \<Rightarrow> byte list \<Rightarrow> out_port \<Rightarrow> vp9_fault + int \<times> out_port" where
  "write_es_to i bs p =
     rbind (need Read_out_of_bounds (at (buf p) i))
       (\<lambda>b. if (sInMemMode p = V4L2_MEMORY_MMAP \<and> plane_length b < used b + of_nat (length bs)) \<or>
               (sInMemMode p = V4L2_MEMORY_DMABUF \<and> of_nat ES_BUF_SIZE < used b + of_nat (length bs))
            then Inr (0, p)
            else if sInMemMode p = V4L2_MEMORY_MMAP then
              rbind (need Read_out_of_bounds (put_bytes (vaddr b) (unat (used b)) bs))
                (\<lambda>m. Inr (int (length bs),
                   upd_buf i (\<lambda>b. b\<lparr>vaddr := m, used := used b + of_nat (length bs)\<rparr>) p))
            else
              rbind (need Read_out_of_bounds (put_bytes (es_buf p) (unat (used b)) bs))
                (\<lambda>m. Inr (int (length bs),
                   upd_buf i (\<lambda>b. b\<lparr>used := used b + of_nat (length bs)\<rparr>) (p\<lparr>es_buf := m\<rparr>))))"

definition v4l2_dec_write_es ::
    "(bool \<times> frame_buffer list) list \<Rightarrow> byte list \<Rightarrow> out_port \<Rightarrow>
     (vp9_fault + int \<times> out_port) option" where
  "v4l2_dec_write_es ws bs p =
     (case (if cur_output_index p = - 1 then get_free_output_buf (buf p) ws
            else Some (cur_output_index p, buf p)) of
        None \<Rightarrow> None
      | Some (i, bufs) \<Rightarrow>
          let p' = p\<lparr>cur_output_index := i, buf := bufs\<rparr> in
          if i < 0 then Some (Inr (0, p')) else Some (write_es_to (nat i) bs p'))"

text \<open>
  The secure-memory part of \<open>v4l2_dec_frame_done\<close>: it returns early when the splitter or the
  allocation fails, otherwise it has sent the fill requests to a secure buffer of the given size.
  \<open>s0\<close> is the content of the local structure \<open>s\<close> before the splitter runs: the code does not
  initialise it.
\<close>

datatype secure_result = Split_failed | Alloc_failed | Filled "fill list" u32

definition secure_frame ::
    "vp9_superframe_split \<Rightarrow> bool \<Rightarrow> out_port \<Rightarrow> frame_buffer \<Rightarrow> vp9_fault + secure_result" where
  "secure_frame s0 alloc_ok p b =
     (if is_vp9 p then
        rbind (vp9_superframe_split_filter (s0\<lparr>data := Some (es_buf p), data_size := used b\<rparr>))
          (\<lambda>(ret, s). if ret \<noteq> 0 then Inr Split_failed
             else if \<not> alloc_ok then Inr Alloc_failed
             else rbind (secure_copy (es_buf p) s) (\<lambda>fl. Inr (Filled fl (secure_frame_size s))))
      else if \<not> alloc_ok then Inr Alloc_failed
      else rbind (need Read_out_of_bounds (slice (es_buf p) 0 (unat (used b))))
             (\<lambda>bs. Inr (Filled [(0, bs)] (used b))))"

text \<open>
  The end of \<open>v4l2_dec_frame_done\<close>: time stamp, \<open>queued\<close>, \<open>VIDIOC_QBUF\<close> and, when it succeeds, the
  release of the current buffer. \<open>handle_first_frame\<close> sets up the capture port and does not touch
  this state.
\<close>

definition queue_output :: "int \<Rightarrow> int \<Rightarrow> nat \<Rightarrow> out_port \<Rightarrow> int \<times> out_port" where
  "queue_output qbuf_ret pts i p =
     (let p1 = upd_buf i (\<lambda>b. b\<lparr>bytesused := used b,
                 timestamp := (pts sdiv DMX_SECOND, pts smod DMX_SECOND), queued := True\<rparr>) p
      in if qbuf_ret \<noteq> 0 then (0, p1)
         else (qbuf_ret, p1\<lparr>d_o_push_num := d_o_push_num p1 + 1, cur_output_index := - 1,
                            get_1st_data := True\<rparr>))"

definition v4l2_dec_frame_done ::
    "vp9_superframe_split \<Rightarrow> bool \<Rightarrow> int \<Rightarrow> int \<Rightarrow> out_port \<Rightarrow> vp9_fault + int \<times> out_port" where
  "v4l2_dec_frame_done s0 alloc_ok qbuf_ret pts p =
     (if quit_thread p then Inr (0, p)
      else if cur_output_index p < 0 \<or> int (length (buf p)) \<le> cur_output_index p then Inr (0, p)
      else let i = nat (cur_output_index p) in
        if sInMemMode p = V4L2_MEMORY_DMABUF then
          rbind (secure_frame s0 alloc_ok p (buf p ! i))
            (\<lambda>r. case r of Split_failed \<Rightarrow> Inr (0, p)
               | Alloc_failed \<Rightarrow> Inr (0, upd_buf i (\<lambda>b. b\<lparr>smem := None\<rparr>) p)
               | Filled fl sz \<Rightarrow> Inr (queue_output qbuf_ret pts i
                   (upd_buf i (\<lambda>b. b\<lparr>smem := Some fl, plane_length := sz\<rparr>)
                      (p\<lparr>secmem_live := secmem_live p + 1\<rparr>))))
        else Inr (queue_output qbuf_ret pts i p))"

text \<open>The output half of \<open>dec_thread_func\<close>: the driver returns buffer \<open>i\<close> (\<open>VIDIOC_DQBUF\<close>).\<close>

definition dqueue_output :: "nat \<Rightarrow> out_port \<Rightarrow> out_port" where
  "dqueue_output i p =
     (let p1 = upd_buf i (\<lambda>b. b\<lparr>queued := False, used := 0\<rparr>) p
      in p1\<lparr>d_o_rec_num := d_o_rec_num p1 + 1,
             secmem_live := (if sInMemMode p1 = V4L2_MEMORY_DMABUF then secmem_live p1 - 1
                             else secmem_live p1)\<rparr>)"

section \<open>The staged bytes\<close>

text \<open>Where the bytes of buffer \<open>b\<close> are collected, how many fit, and those collected so far.\<close>

definition es_store :: "out_port \<Rightarrow> frame_buffer \<Rightarrow> byte list" where
  "es_store p b = (if sInMemMode p = V4L2_MEMORY_MMAP then vaddr b else es_buf p)"

definition es_cap :: "out_port \<Rightarrow> frame_buffer \<Rightarrow> nat" where
  "es_cap p b = (if sInMemMode p = V4L2_MEMORY_MMAP then unat (plane_length b) else ES_BUF_SIZE)"

definition staged :: "out_port \<Rightarrow> nat \<Rightarrow> byte list" where
  "staged p i = take (unat (used (buf p ! i))) (es_store p (buf p ! i))"

definition buf_wf :: "out_port \<Rightarrow> frame_buffer \<Rightarrow> bool" where
  "buf_wf p b \<longleftrightarrow> length (es_store p b) = es_cap p b \<and> es_cap p b < 2147483648 \<and>
     unat (used b) \<le> es_cap p b"

definition es_wf :: "out_port \<Rightarrow> bool" where
  "es_wf p \<longleftrightarrow> (cur_output_index p = - 1 \<or>
     0 \<le> cur_output_index p \<and> cur_output_index p < int (length (buf p))) \<and>
     (\<forall>b \<in> set (buf p). buf_wf p b)"

lemma es_wf_buf: "es_wf p \<Longrightarrow> i < length (buf p) \<Longrightarrow> buf_wf p (buf p ! i)"
  by (simp add: es_wf_def)

lemma used_add:
  assumes "buf_wf p b" "n < 2147483648"
  shows "unat (used b + of_nat n) = unat (used b) + n"
proof -
  have u: "unat (of_nat n :: u32) = n" using assms(2) by simp
  have "unat (used b) + unat (of_nat n :: u32) < 2 ^ 32"
    unfolding u using assms by (simp add: buf_wf_def)
  then show ?thesis using u by (subst unat_add_lem [THEN iffD1]) simp_all
qed

text \<open>Appending to the staged bytes of one buffer, in both memory modes.\<close>

lemma write_es_to_spec:
  assumes w: "es_wf p" and i: "i < length (buf p)" and n: "length bs < 2147483648"
  defines "b \<equiv> buf p ! i"
  shows "unat (used b) + length bs \<le> es_cap p b \<Longrightarrow>
      \<exists>p'. write_es_to i bs p = Inr (int (length bs), p') \<and> es_wf p' \<and>
        staged p' i = staged p i @ bs \<and> used (buf p' ! i) = used b + of_nat (length bs) \<and>
        es_cap p' (buf p' ! i) = es_cap p b \<and> sInMemMode p' = sInMemMode p \<and>
        quit_thread p' = quit_thread p \<and> is_vp9 p' = is_vp9 p \<and>
        cur_output_index p' = cur_output_index p \<and> length (buf p') = length (buf p)"
    and "es_cap p b < unat (used b) + length bs \<Longrightarrow> write_es_to i bs p = Inr (0, p)"
proof -
  have wf: "buf_wf p b" using es_wf_buf [OF w i] by (simp add: b_def)
  note u = used_add [OF wf n]
  have big: "(sInMemMode p = V4L2_MEMORY_MMAP \<and> plane_length b < used b + of_nat (length bs) \<or>
      sInMemMode p = V4L2_MEMORY_DMABUF \<and> of_nat ES_BUF_SIZE < used b + of_nat (length bs)) \<longleftrightarrow>
      es_cap p b < unat (used b) + length bs"
    by (cases "sInMemMode p") (simp_all add: es_cap_def word_less_nat_alt u ES_BUF_SIZE_def)
  show "write_es_to i bs p = Inr (0, p)" if "es_cap p b < unat (used b) + length bs"
    using that big i by (simp add: write_es_to_def at_def b_def)
  assume fit: "unat (used b) + length bs \<le> es_cap p b"
  then have nb: "\<not> es_cap p b < unat (used b) + length bs" by simp
  have l: "unat (used b) + length bs \<le> length (es_store p b)" using fit wf by (simp add: buf_wf_def)
  define m where "m = take (unat (used b)) (es_store p b) @ bs @
      drop (unat (used b) + length bs) (es_store p b)"
  have lm: "length m = length (es_store p b)" using l by (simp add: m_def)
  have tm: "take (unat (used b) + length bs) m = take (unat (used b)) (es_store p b) @ bs"
    using l by (simp add: m_def)
  show "\<exists>p'. write_es_to i bs p = Inr (int (length bs), p') \<and> es_wf p' \<and>
        staged p' i = staged p i @ bs \<and> used (buf p' ! i) = used b + of_nat (length bs) \<and>
        es_cap p' (buf p' ! i) = es_cap p b \<and> sInMemMode p' = sInMemMode p \<and>
        quit_thread p' = quit_thread p \<and> is_vp9 p' = is_vp9 p \<and>
        cur_output_index p' = cur_output_index p \<and> length (buf p') = length (buf p)"
  proof (cases "sInMemMode p")
    case V4L2_MEMORY_MMAP
    define p' where "p' = upd_buf i (\<lambda>b. b\<lparr>vaddr := m, used := used b + of_nat (length bs)\<rparr>) p"
    have st: "es_store p b = vaddr b" by (simp add: es_store_def V4L2_MEMORY_MMAP)
    have "write_es_to i bs p = Inr (int (length bs), p')"
      using nb big i l V4L2_MEMORY_MMAP
      by (simp add: write_es_to_def at_def b_def [symmetric] put_bytes_Some m_def p'_def st)
    moreover have "es_wf p'"
      using w wf fit u lm i V4L2_MEMORY_MMAP
      by (auto simp: es_wf_def buf_wf_def p'_def upd_buf_def es_store_def es_cap_def b_def
            dest!: set_update_subset_insert [THEN subsetD])
    ultimately show ?thesis
      using i tm u V4L2_MEMORY_MMAP
      by (intro exI [of _ p'])
         (simp add: p'_def upd_buf_def staged_def es_store_def es_cap_def b_def)
  next
    case V4L2_MEMORY_DMABUF
    define p' where "p' = upd_buf i (\<lambda>b. b\<lparr>used := used b + of_nat (length bs)\<rparr>) (p\<lparr>es_buf := m\<rparr>)"
    have st: "es_store p b = es_buf p" by (simp add: es_store_def V4L2_MEMORY_DMABUF)
    have "write_es_to i bs p = Inr (int (length bs), p')"
      using nb big i l V4L2_MEMORY_DMABUF
      by (simp add: write_es_to_def at_def b_def [symmetric] put_bytes_Some m_def p'_def st)
    moreover have "es_wf p'"
      using w wf fit u lm i V4L2_MEMORY_DMABUF
      by (auto simp: es_wf_def buf_wf_def p'_def upd_buf_def es_store_def es_cap_def b_def
            dest!: set_update_subset_insert [THEN subsetD])
    ultimately show ?thesis
      using i tm u V4L2_MEMORY_DMABUF
      by (intro exI [of _ p'])
         (simp add: p'_def upd_buf_def staged_def es_store_def es_cap_def b_def)
  qed
qed

section \<open>Properties\<close>

text \<open>The buffer the next write goes to, when one is chosen or free.\<close>

definition es_target :: "out_port \<Rightarrow> nat" where
  "es_target p = (if cur_output_index p = - 1 then first_free (buf p) else nat (cur_output_index p))"

lemma first_free_not_queued: "first_free bs < length bs \<Longrightarrow> \<not> queued (bs ! first_free bs)"
  by (induction bs) auto

lemma write_es_target:
  assumes "es_wf p" "es_target p < length (buf p)"
  shows "v4l2_dec_write_es ws bs p =
     Some (write_es_to (es_target p) bs (p\<lparr>cur_output_index := int (es_target p)\<rparr>))"
  using assms by (auto simp: v4l2_dec_write_es_def es_target_def es_wf_def Let_def)

lemma es_wf_choose: "es_wf p \<Longrightarrow> i < length (buf p) \<Longrightarrow> es_wf (p\<lparr>cur_output_index := int i\<rparr>)"
proof -
  assume w: "es_wf p" "i < length (buf p)"
  have "buf_wf (p\<lparr>cur_output_index := int i\<rparr>) b = buf_wf p b" for b
    by (simp add: buf_wf_def es_store_def es_cap_def)
  then show ?thesis using w by (simp add: es_wf_def)
qed

text \<open>
  with a buffer chosen or free, a write of elementary-stream bytes either fits, and then it
  returns its size and the frame being collected is the old one followed by exactly these bytes, or
  does not fit, and then it returns 0 and the collected frame is unchanged. It never writes outside
  the plane or the staging buffer, the wrap-around of the size check included, and keeps the
  port well-formed.
\<close>

theorem es_write_appends:
  assumes w: "es_wf p" and i: "es_target p < length (buf p)" and n: "length bs < 2147483648"
  shows "\<exists>r p'. v4l2_dec_write_es ws bs p = Some (Inr (r, p')) \<and> es_wf p' \<and>
    cur_output_index p' = int (es_target p) \<and>
    (if unat (used (buf p ! es_target p)) + length bs \<le> es_cap p (buf p ! es_target p)
     then r = int (length bs) \<and> staged p' (es_target p) = staged p (es_target p) @ bs
     else r = 0 \<and> staged p' (es_target p) = staged p (es_target p))"
proof -
  let ?i = "es_target p" let ?q = "p\<lparr>cur_output_index := int (es_target p)\<rparr>"
  have w': "es_wf ?q" "?i < length (buf ?q)" using es_wf_choose [OF w i] i by simp_all
  have e: "es_cap ?q b = es_cap p b" "staged ?q j = staged p j" for b j
    by (simp_all add: es_cap_def staged_def es_store_def)
  show ?thesis
  proof (cases "unat (used (buf p ! ?i)) + length bs \<le> es_cap p (buf p ! ?i)")
    case True
    then obtain p' where "write_es_to ?i bs ?q = Inr (int (length bs), p')" "es_wf p'"
      "staged p' ?i = staged p ?i @ bs" "cur_output_index p' = int ?i"
      using write_es_to_spec(1) [OF w' n] by (auto simp: e)
    then show ?thesis using True write_es_target [OF w i] by simp
  next
    case False
    then have "write_es_to ?i bs ?q = Inr (0, ?q)"
      using write_es_to_spec(2) [OF w' n] by (auto simp: e)
    then show ?thesis using False write_es_target [OF w i] w'(1) by (simp add: e)
  qed
qed

definition demo_buffer :: frame_buffer where
  "demo_buffer = \<lparr>queued = False, used = 0, vaddr = replicate 8 0, smem = None, plane_length = 8,
     bytesused = 0, timestamp = (0, 0)\<rparr>"

definition demo_port :: out_port where
  "demo_port = \<lparr>buf = [demo_buffer\<lparr>queued := True\<rparr>, demo_buffer], is_vp9 = False,
     sInMemMode = V4L2_MEMORY_MMAP, es_buf = [], cur_output_index = - 1, quit_thread = False,
     d_o_push_num = 0, d_o_rec_num = 0, get_1st_data = False, secmem_live = 0\<rparr>"

lemma demo_port_facts:
  "es_wf demo_port" "es_target demo_port = Suc 0" "length (buf demo_port) = 2"
  "buf demo_port ! Suc 0 = demo_buffer" "es_cap demo_port demo_buffer = 8" "used demo_buffer = 0"
  "staged demo_port (Suc 0) = []"
  by (simp_all add: demo_port_def demo_buffer_def es_wf_def buf_wf_def es_store_def es_cap_def
        es_target_def staged_def)

theorem es_write_appends_witness:
  "\<exists>p'. v4l2_dec_write_es [] [1, 2, 3] demo_port = Some (Inr (3, p')) \<and> staged p' 1 = [1, 2, 3]"
  using es_write_appends [of demo_port "[1, 2, 3]" "[]"] by (auto simp: demo_port_facts)

text \<open>Writing the pieces of one frame in order; \<open>None\<close> when a piece was refused.\<close>

primrec es_writes :: "byte list list \<Rightarrow> out_port \<Rightarrow> out_port option" where
  "es_writes [] p = Some p"
| "es_writes (c # cs) p =
     (case v4l2_dec_write_es [] c p of
        Some (Inr (r, p')) \<Rightarrow> if r = int (length c) then es_writes cs p' else None
      | _ \<Rightarrow> None)"

lemma es_writes_staged:
  assumes "es_wf p" "es_target p < length (buf p)" "i = es_target p"
    and "unat (used (buf p ! i)) + length (concat cs) \<le> es_cap p (buf p ! i)"
  shows "\<exists>p'. es_writes cs p = Some p' \<and> es_wf p' \<and> length (buf p') = length (buf p) \<and>
     (cs \<noteq> [] \<longrightarrow> cur_output_index p' = int i) \<and> sInMemMode p' = sInMemMode p \<and>
     quit_thread p' = quit_thread p \<and> is_vp9 p' = is_vp9 p \<and> staged p' i = staged p i @ concat cs \<and>
     used (buf p' ! i) = used (buf p ! i) + of_nat (length (concat cs))"
  using assms
proof (induction cs arbitrary: p)
  case (Cons c cs)
  let ?q = "p\<lparr>cur_output_index := int i\<rparr>"
  have q: "es_wf ?q" "i < length (buf ?q)"
    using es_wf_choose [OF Cons.prems(1,2)] Cons.prems(2,3) by simp_all
  have e: "es_cap ?q b = es_cap p b" "staged ?q j = staged p j" for b j
    by (simp_all add: es_cap_def staged_def es_store_def)
  have wf: "buf_wf p (buf p ! i)" using es_wf_buf Cons.prems(1-3) by simp
  have n: "length c < 2147483648" using Cons.prems(4) wf by (simp add: buf_wf_def)
  obtain p1 where p1: "write_es_to i c ?q = Inr (int (length c), p1)" "es_wf p1"
    "staged p1 i = staged p i @ c" "used (buf p1 ! i) = used (buf p ! i) + of_nat (length c)"
    "es_cap p1 (buf p1 ! i) = es_cap p (buf p ! i)" "sInMemMode p1 = sInMemMode p"
    "quit_thread p1 = quit_thread p" "is_vp9 p1 = is_vp9 p" "cur_output_index p1 = int i"
    "length (buf p1) = length (buf p)"
    using write_es_to_spec(1) [OF q n] Cons.prems(4) by (auto simp: e)
  have t: "es_target p1 = i" using p1(9) by (simp add: es_target_def)
  have u: "unat (used (buf p1 ! i)) = unat (used (buf p ! i)) + length c"
    using used_add [OF wf n] p1(4) by simp
  obtain p' where "es_writes cs p1 = Some p'" "es_wf p'" "length (buf p') = length (buf p1)"
    "cs \<noteq> [] \<longrightarrow> cur_output_index p' = int i" "sInMemMode p' = sInMemMode p1"
    "quit_thread p' = quit_thread p1" "is_vp9 p' = is_vp9 p1" "staged p' i = staged p1 i @ concat cs"
    "used (buf p' ! i) = used (buf p1 ! i) + of_nat (length (concat cs))"
    using Cons.IH [of p1] p1 t u Cons.prems(2-4) by auto
  moreover have "cs = [] \<Longrightarrow> p' = p1" using calculation(1) by simp
  ultimately show ?case
    using write_es_target [OF Cons.prems(1,2), of "[]" c] p1 Cons.prems(3) by auto
qed simp

lemma queue_output_ok:
  fixes pts :: int
  assumes "i < length (buf p)"
  defines "p' \<equiv> snd (queue_output 0 pts i p)"
  shows "queue_output 0 pts i p = (0, p')" "cur_output_index p' = - 1" "queued (buf p' ! i)"
    "bytesused (buf p' ! i) = used (buf p ! i)" "vaddr (buf p' ! i) = vaddr (buf p ! i)"
    "smem (buf p' ! i) = smem (buf p ! i)" "plane_length (buf p' ! i) = plane_length (buf p ! i)"
    "j \<noteq> i \<Longrightarrow> buf p' ! j = buf p ! j"
  using assms(1) by (simp_all add: p'_def queue_output_def Let_def upd_buf_def)

text \<open>
  Memory-mapped mode, one frame from its pieces to the driver. Starting with no buffer chosen
  and a free one at hand, writing pieces that fit and then finishing the frame queues that buffer
  with exactly the concatenation of the pieces as its payload and its length as \<open>bytesused\<close>, and no
  buffer is chosen afterwards.
\<close>

theorem es_frame_submitted:
  assumes w: "es_wf p" and c: "cur_output_index p = - 1" and i: "first_free (buf p) < length (buf p)"
    and m: "sInMemMode p = V4L2_MEMORY_MMAP" and q: "\<not> quit_thread p"
    and u: "used (buf p ! first_free (buf p)) = 0" and cs: "cs \<noteq> []"
    and fit: "length (concat cs) \<le> unat (plane_length (buf p ! first_free (buf p)))"
  shows "\<exists>p1 p2. es_writes cs p = Some p1 \<and>
     v4l2_dec_frame_done s0 alloc_ok 0 pts p1 = Inr (0, p2) \<and> cur_output_index p2 = - 1 \<and>
     (let b = buf p2 ! first_free (buf p) in queued b \<and>
        unat (bytesused b) = length (concat cs) \<and> take (unat (bytesused b)) (vaddr b) = concat cs)"
proof -
  let ?i = "first_free (buf p)"
  have t: "es_target p = ?i" using c by (simp add: es_target_def)
  have b: "buf_wf p (buf p ! ?i)" using es_wf_buf [OF w i] .
  obtain p1 where p1: "es_writes cs p = Some p1" "length (buf p1) = length (buf p)"
    "cur_output_index p1 = int ?i" "sInMemMode p1 = V4L2_MEMORY_MMAP" "\<not> quit_thread p1"
    "staged p1 ?i = concat cs" "used (buf p1 ! ?i) = of_nat (length (concat cs))"
  proof -
    have "unat (used (buf p ! ?i)) + length (concat cs) \<le> es_cap p (buf p ! ?i)"
      using fit u m by (simp add: es_cap_def)
    from es_writes_staged [OF w _ t [symmetric] this] i t obtain p' where
      "es_writes cs p = Some p'" "length (buf p') = length (buf p)"
      "cs \<noteq> [] \<longrightarrow> cur_output_index p' = int ?i" "sInMemMode p' = sInMemMode p"
      "quit_thread p' = quit_thread p" "staged p' ?i = staged p ?i @ concat cs"
      "used (buf p' ! ?i) = used (buf p ! ?i) + of_nat (length (concat cs))" by metis
    moreover have "staged p ?i = []" using u by (simp add: staged_def)
    ultimately show thesis using that [of p'] m q cs u by simp
  qed
  let ?p2 = "snd (queue_output 0 pts ?i p1)"
  have i1: "?i < length (buf p1)" using p1(2) i by simp
  have "length (concat cs) < 4294967296"
    using fit b m by (simp add: buf_wf_def es_cap_def)
  then have l: "unat (of_nat (length (concat cs)) :: u32) = length (concat cs)"
    by (rule unat_of_nat_u32)
  have "v4l2_dec_frame_done s0 alloc_ok 0 pts p1 = Inr (0, ?p2)"
    using p1 i1 queue_output_ok(1) [OF i1, of pts] by (simp add: v4l2_dec_frame_done_def)
  moreover have "take (length (concat cs)) (vaddr (buf p1 ! ?i)) = concat cs"
    using p1(4,6,7) l by (simp add: staged_def es_store_def)
  ultimately show ?thesis
    using p1(1,7) queue_output_ok(2-5) [OF i1, of pts] l
    by (intro exI [of _ p1] exI [of _ ?p2]) (simp add: Let_def)
qed

definition demo_split :: vp9_superframe_split where
  "demo_split = \<lparr>data = None, data_size = 0, nb_frames = 0, frames_size = 0, next_frame = 0,
     next_frame_offset = 0, prefix_size = 0, sizes = replicate 8 0\<rparr>"

theorem es_frame_submitted_witness:
  "\<exists>p1 p2. es_writes [[1, 2], [3, 4, 5]] demo_port = Some p1 \<and>
     v4l2_dec_frame_done demo_split True 0 40000 p1 = Inr (0, p2) \<and> queued (buf p2 ! 1)"
proof -
  have f: "first_free (buf demo_port) = Suc 0" "cur_output_index demo_port = - 1"
    "sInMemMode demo_port = V4L2_MEMORY_MMAP" "\<not> quit_thread demo_port" "plane_length demo_buffer = 8"
    by (simp_all add: demo_port_def demo_buffer_def)
  show ?thesis
    using es_frame_submitted [of demo_port "[[1, 2], [3, 4, 5]]" demo_split True 40000]
    by (auto simp: demo_port_facts f Let_def)
qed

text \<open>
  C26: secure mode, VP9. When the staged bytes are a well-formed superframe, finishing the frame
  queues a secure buffer whose requested size is that of the frames with their headers and whose
  fill requests stay inside it and leave there, for every frame in order, its 16-byte header
  (big-endian length plus 4, complement, start code, AMLV) followed by the frame; the index at the
  end of the superframe is not copied.
\<close>

theorem es_vp9_secure_frame:
  assumes i: "i < length (buf p)" "cur_output_index p = int i" and q: "\<not> quit_thread p"
    and m: "sInMemMode p = V4L2_MEMORY_DMABUF" "is_vp9 p"
    and e: "es_buf p = superframe L fs @ rest" "used (buf p ! i) = of_nat (length (superframe L fs))"
    and b: "length (superframe L fs) < 2147483648" "1 \<le> L" "L \<le> 4" "1 \<le> length fs" "length fs \<le> 8"
    and f: "\<forall>f \<in> set fs. length f < 256 ^ L" and z: "length (sizes s0) = 8"
  shows "\<exists>p' fl. v4l2_dec_frame_done s0 True 0 pts p = Inr (0, p') \<and> cur_output_index p' = - 1 \<and>
     queued (buf p' ! i) \<and> smem (buf p' ! i) = Some fl \<and>
     unat (plane_length (buf p' ! i)) = length (concat (map aml_frame fs)) \<and>
     fills_inside (unat (plane_length (buf p' ! i))) fl \<and>
     (\<forall>mem. length mem = unat (plane_length (buf p' ! i)) \<longrightarrow>
        foldl overwrite mem fl = concat (map aml_frame fs))"
proof -
  let ?s = "s0\<lparr>data := Some (es_buf p), data_size := used (buf p ! i)\<rparr>"
  obtain s' where s': "vp9_superframe_split_filter ?s = Inr (0, s')"
    "nb_frames s' = int (length fs)" "frames_size s' = of_nat (length (concat fs))"
    "take (length fs) (sizes s') = map (\<lambda>f. of_nat (length f)) fs"
    using vp9_split_superframe [of ?s L fs rest] e b f z by auto
  have "length (concat fs) + 16 * length fs < 4294967296"
    using b(1,5) by (simp add: length_superframe)
  then have lt: "length (concat (map aml_frame fs)) < 4294967296"
    by (simp add: sum_list_lengths_snoc)
  have es: "es_buf p = concat fs @ drop (length (concat fs)) (es_buf p)"
    using e(1) by (simp add: superframe_def)
  obtain fl where fl: "secure_copy (es_buf p) s' = Inr fl"
    "unat (secure_frame_size s') = length (concat (map aml_frame fs))"
    "fills_inside (unat (secure_frame_size s')) fl"
    "\<forall>m. length m = unat (secure_frame_size s') \<longrightarrow> foldl overwrite m fl = concat (map aml_frame fs)"
    using vp9_secure_layout [OF s'(2-4) es lt] by auto
  have sf: "secure_frame s0 True p (buf p ! i) = Inr (Filled fl (secure_frame_size s'))"
    using s'(1) fl(1) m by (simp add: secure_frame_def)
  define p1 where "p1 = upd_buf i (\<lambda>b. b\<lparr>smem := Some fl, plane_length := secure_frame_size s'\<rparr>)
     (p\<lparr>secmem_live := secmem_live p + 1\<rparr>)"
  have i1: "i < length (buf p1)" using i by (simp add: p1_def upd_buf_def)
  have p1: "smem (buf p1 ! i) = Some fl" "plane_length (buf p1 ! i) = secure_frame_size s'"
    using i by (simp_all add: p1_def upd_buf_def)
  have "v4l2_dec_frame_done s0 True 0 pts p = Inr (0, snd (queue_output 0 pts i p1))"
    using queue_output_ok(1) [OF i1, of pts] i q m sf
    by (simp add: v4l2_dec_frame_done_def p1_def)
  then show ?thesis
    using queue_output_ok(2,3,6,7) [OF i1, of pts] p1 fl by auto
qed

definition demo_secure_port :: out_port where
  "demo_secure_port = demo_port\<lparr>sInMemMode := V4L2_MEMORY_DMABUF, is_vp9 := True, cur_output_index := 1,
     buf := [demo_buffer, demo_buffer\<lparr>used := 6\<rparr>],
     es_buf := superframe 1 [[1, 2], []] @ [0, 0]\<rparr>"

theorem es_vp9_secure_frame_witness:
  "\<exists>p' fl. v4l2_dec_frame_done demo_split True 0 40000 demo_secure_port = Inr (0, p') \<and>
     smem (buf p' ! 1) = Some fl \<and>
     foldl overwrite (replicate 34 0) fl = aml_frame [1, 2] @ aml_frame []"
proof -
  have "\<exists>p' fl. v4l2_dec_frame_done demo_split True 0 40000 demo_secure_port = Inr (0, p') \<and>
     cur_output_index p' = - 1 \<and> queued (buf p' ! 1) \<and> smem (buf p' ! 1) = Some fl \<and>
     unat (plane_length (buf p' ! 1)) = length (concat (map aml_frame [[1, 2], []])) \<and>
     fills_inside (unat (plane_length (buf p' ! 1))) fl \<and>
     (\<forall>mem. length mem = unat (plane_length (buf p' ! 1)) \<longrightarrow>
        foldl overwrite mem fl = concat (map aml_frame [[1, 2], []]))"
    by (rule es_vp9_secure_frame [of 1 demo_secure_port 1 "[[1, 2], []]" "[0, 0]"])
       (simp_all add: demo_secure_port_def demo_port_def demo_split_def length_superframe)
  then show ?thesis by (auto simp: length_aml_frame)
qed

text \<open>
  when the splitter refuses a staged VP9 frame, \<open>v4l2_dec_frame_done\<close> returns 0, the value it
  also returns on success, and keeps the buffer chosen with the refused bytes in it: the next frame
  is appended to them.
\<close>

theorem es_split_failure_kept:
  assumes "0 \<le> cur_output_index p" "nat (cur_output_index p) < length (buf p)" "\<not> quit_thread p"
    and "sInMemMode p = V4L2_MEMORY_DMABUF" "is_vp9 p"
    and "vp9_superframe_split_filter (s0\<lparr>data := Some (es_buf p),
           data_size := used (buf p ! nat (cur_output_index p))\<rparr>) = Inr (ret, s)" "ret \<noteq> 0"
    and "es_wf p" "length bs < 2147483648"
    and "unat (used (buf p ! nat (cur_output_index p))) + length bs \<le> ES_BUF_SIZE"
  shows "v4l2_dec_frame_done s0 alloc_ok qbuf_ret pts p = Inr (0, p) \<and>
    (\<exists>p'. v4l2_dec_write_es ws bs p = Some (Inr (int (length bs), p')) \<and>
       staged p' (nat (cur_output_index p)) = staged p (nat (cur_output_index p)) @ bs)"
proof
  have t: "es_target p = nat (cur_output_index p)" using assms(1) by (simp add: es_target_def)
  have c: "p\<lparr>cur_output_index := int (es_target p)\<rparr> = p" using t assms(1) by simp
  have "unat (used (buf p ! es_target p)) + length bs \<le> es_cap p (buf p ! es_target p)"
    using assms(4,10) t by (simp add: es_cap_def)
  then show "\<exists>p'. v4l2_dec_write_es ws bs p = Some (Inr (int (length bs), p')) \<and>
       staged p' (nat (cur_output_index p)) = staged p (nat (cur_output_index p)) @ bs"
    using write_es_to_spec(1) [OF assms(8), of "es_target p" bs] assms(2,9)
      write_es_target [OF assms(8), of ws bs] c t by auto
qed (use assms in \<open>simp add: v4l2_dec_frame_done_def secure_frame_def\<close>)

definition demo_bad_port :: out_port where
  "demo_bad_port = demo_secure_port\<lparr>buf := [demo_buffer, demo_buffer\<lparr>used := 3\<rparr>],
     es_buf := [0xc0, 9, 0xc0] @ replicate (ES_BUF_SIZE - 3) 0\<rparr>"

lemma demo_bad_split:
  "vp9_superframe_split_filter (demo_split\<lparr>data := Some ([0xc0, 9, 0xc0] @ r), data_size := 3\<rparr>) =
     Inr (- 1, demo_split\<lparr>data := Some ([0xc0, 9, 0xc0] @ r), data_size := 3\<rparr>)"
  by (simp add: vp9_superframe_split_filter_def demo_split_def Let_def)

lemma demo_bad_port_facts:
  "cur_output_index demo_bad_port = 1" "length (buf demo_bad_port) = 2" "\<not> quit_thread demo_bad_port"
  "sInMemMode demo_bad_port = V4L2_MEMORY_DMABUF" "is_vp9 demo_bad_port"
  "es_buf demo_bad_port = [0xc0, 9, 0xc0] @ replicate (ES_BUF_SIZE - 3) 0"
  "used (buf demo_bad_port ! Suc 0) = 3" "es_wf demo_bad_port"
  by (simp_all add: demo_bad_port_def demo_secure_port_def demo_port_def es_wf_def buf_wf_def
        es_store_def es_cap_def ES_BUF_SIZE_def demo_buffer_def)

theorem es_split_failure_kept_witness:
  "v4l2_dec_frame_done demo_split True 0 0 demo_bad_port = Inr (0, demo_bad_port) \<and>
    (\<exists>p'. v4l2_dec_write_es [] [7] demo_bad_port = Some (Inr (1, p')) \<and>
       staged p' 1 = staged demo_bad_port 1 @ [7])"
  using es_split_failure_kept [of demo_bad_port demo_split "- 1" _ "[7]" True 0 0 "[]"]
    demo_bad_split
  by (simp add: demo_bad_port_facts ES_BUF_SIZE_def)

end
