(* ===== verification/Stream_Feed.thy ===== *)
theory Stream_Feed
  imports Annexb_Demux Es_Output
begin

text \<open>
  The demultiplexer and the output port of the decoder client together, as \<open>test.c\<close> connects them:
  the demultiplexer's \<open>write\<close> is \<open>v4l2_dec_write_es\<close>, whose result it ignores, and its \<open>frame_done\<close> is
  \<open>v4l2_dec_frame_done\<close>. Between packets the driver returns buffers it has consumed.
\<close>

section \<open>Definitions\<close>

datatype feed_fault = Demux_fault dmx_fault | Decoder_fault vp9_fault

text \<open>The writes of one packet; \<open>None\<close> when a write waits for a buffer.\<close>

primrec dec_writes :: "byte list list \<Rightarrow> out_port \<Rightarrow> (feed_fault + out_port) option" where
  "dec_writes [] p = Some (Inr p)"
| "dec_writes (c # cs) p =
     (case v4l2_dec_write_es [] c p of None \<Rightarrow> None
      | Some (Inl e) \<Rightarrow> Some (Inl (Decoder_fault e))
      | Some (Inr (r, p')) \<Rightarrow> dec_writes cs p')"

text \<open>What the driver gets: the payload and the time stamp of the buffer queued, if one was.\<close>

definition submitted :: "out_port \<Rightarrow> out_port \<Rightarrow> (byte list \<times> int \<times> int) list" where
  "submitted p1 p2 =
     (if d_o_push_num p2 = d_o_push_num p1 then []
      else let b = buf p2 ! nat (cur_output_index p1) in [(take (unat (bytesused b)) (vaddr b), timestamp b)])"

definition feed_packet ::
    "(int \<Rightarrow> int) \<Rightarrow> vp9_superframe_split \<Rightarrow> av_packet \<Rightarrow> dmx \<Rightarrow> out_port
     \<Rightarrow> (feed_fault + (byte list \<times> int \<times> int) list \<times> dmx \<times> out_port) option" where
  "feed_packet rescale s0 pkt s p =
     Option.bind (demux_packet rescale pkt s) (\<lambda>r. case r of Inl e \<Rightarrow> Some (Inl (Demux_fault e))
     | Inr (n, out, s') \<Rightarrow>
         Option.bind (dec_writes (writes out) p) (\<lambda>r. case r of Inl e \<Rightarrow> Some (Inl e)
         | Inr p1 \<Rightarrow>
             (case frame_done out of None \<Rightarrow> Some (Inr ([], s', p1))
              | Some pts \<Rightarrow>
                  (case v4l2_dec_frame_done s0 True 0 pts p1 of Inl e \<Rightarrow> Some (Inl (Decoder_fault e))
                   | Inr (ret, p2) \<Rightarrow> Some (Inr (submitted p1 p2, s', p2))))))"

text \<open>A stream of packets; before each one the driver returns the buffers listed with it.\<close>

fun feed_stream ::
    "(int \<Rightarrow> int) \<Rightarrow> vp9_superframe_split \<Rightarrow> (nat list \<times> av_packet) list \<Rightarrow> dmx \<Rightarrow> out_port
     \<Rightarrow> (feed_fault + (byte list \<times> int \<times> int) list \<times> dmx \<times> out_port) option" where
  "feed_stream rescale s0 [] s p = Some (Inr ([], s, p))"
| "feed_stream rescale s0 ((is, pkt) # ps) s p =
     Option.bind (feed_packet rescale s0 pkt s (foldl (\<lambda>p i. dqueue_output i p) p is)) (\<lambda>r.
       case r of Inl e \<Rightarrow> Some (Inl e)
       | Inr (subs, s', p') \<Rightarrow>
           Option.bind (feed_stream rescale s0 ps s' p') (\<lambda>r.
             case r of Inl e \<Rightarrow> Some (Inl e)
             | Inr (subs', s'', p'') \<Rightarrow> Some (Inr (subs @ subs', s'', p''))))"

section \<open>The port between frames\<close>

text \<open>No frame is being collected, memory-mapped buffers hold at least \<open>n\<close> bytes, free ones are empty.\<close>

definition between_frames :: "nat \<Rightarrow> out_port \<Rightarrow> bool" where
  "between_frames n p \<longleftrightarrow> es_wf p \<and> cur_output_index p = - 1 \<and> sInMemMode p = V4L2_MEMORY_MMAP \<and>
     \<not> quit_thread p \<and> (\<forall>b \<in> set (buf p). n \<le> unat (plane_length b) \<and> (\<not> queued b \<longrightarrow> used b = 0))"

lemma dqueue_between:
  assumes "between_frames n p" "i < length (buf p)"
  shows "between_frames n (dqueue_output i p) \<and> length (buf (dqueue_output i p)) = length (buf p) \<and>
    \<not> queued (buf (dqueue_output i p) ! i) \<and> (\<forall>j < length (buf p). \<not> queued (buf p ! j) \<longrightarrow> \<not> queued (buf (dqueue_output i p) ! j))"
proof -
  have b: "buf (dqueue_output i p) = (buf p)[i := (buf p ! i)\<lparr>queued := False, used := 0\<rparr>]"
    by (simp add: dqueue_output_def upd_buf_def Let_def)
  have r: "cur_output_index (dqueue_output i p) = cur_output_index p" "sInMemMode (dqueue_output i p) = sInMemMode p"
    "quit_thread (dqueue_output i p) = quit_thread p" "es_buf (dqueue_output i p) = es_buf p"
    by (simp_all add: dqueue_output_def upd_buf_def Let_def)
  have wf: "buf_wf (dqueue_output i p) c = buf_wf p c" for c
    by (simp add: buf_wf_def es_store_def es_cap_def r)
  have "buf_wf p (buf p ! i)" using es_wf_buf assms by (simp add: between_frames_def)
  then have "buf_wf p ((buf p ! i)\<lparr>queued := False, used := 0\<rparr>)"
    by (auto simp: buf_wf_def es_store_def es_cap_def split: if_splits)
  then have "es_wf (dqueue_output i p)" using assms(1)
    by (auto simp: es_wf_def between_frames_def r b wf dest!: set_update_subset_insert [THEN subsetD])
  moreover have "n \<le> unat (plane_length c) \<and> (\<not> queued c \<longrightarrow> used c = 0)" if "c \<in> set (buf (dqueue_output i p))" for c
    using that assms unfolding b
    by (auto simp: between_frames_def dest!: set_update_subset_insert [THEN subsetD])
  ultimately show ?thesis using assms by (auto simp: between_frames_def r b nth_list_update)
qed

lemma dqueue_all_between:
  assumes "between_frames n p" "\<forall>i \<in> set is. i < length (buf p)"
  shows "between_frames n (foldl (\<lambda>p i. dqueue_output i p) p is) \<and>
    length (buf (foldl (\<lambda>p i. dqueue_output i p) p is)) = length (buf p) \<and>
    (\<forall>j < length (buf p). j \<in> set is \<or> \<not> queued (buf p ! j) \<longrightarrow>
       \<not> queued (buf (foldl (\<lambda>p i. dqueue_output i p) p is) ! j))"
  using assms
proof (induction "is" arbitrary: p)
  case (Cons i "is")
  note d = dqueue_between [OF Cons.prems(1), of i]
  have i: "i < length (buf p)" using Cons.prems(2) by simp
  have "\<forall>k \<in> set is. k < length (buf (dqueue_output i p))" using d i Cons.prems(2) by simp
  then show ?case using Cons.IH [of "dqueue_output i p"] d i Cons.prems(2) by (auto; blast)
qed simp

lemma first_free_bound: "j < length bs \<Longrightarrow> \<not> queued (bs ! j) \<Longrightarrow> first_free bs < length bs"
  by (induction bs arbitrary: j) (auto simp: nth_Cons split: nat.splits)

section \<open>One frame\<close>

text \<open>A write leaves the other buffers and the sizes of the planes alone.\<close>

lemma write_es_to_frame:
  assumes "write_es_to i bs p = Inr (r, p')"
  shows "length (buf p') = length (buf p) \<and> (\<forall>j. j \<noteq> i \<longrightarrow> buf p' ! j = buf p ! j) \<and>
    (i < length (buf p) \<longrightarrow> plane_length (buf p' ! i) = plane_length (buf p ! i)) \<and>
    d_o_push_num p' = d_o_push_num p \<and> cur_output_index p' = cur_output_index p"
  using assms by (auto simp: write_es_to_def rbind_Inr_iff upd_buf_def split: if_splits)

lemma dec_writes_frame:
  assumes "es_writes cs p = Some p'" "es_wf p" "es_target p < length (buf p)" "i = es_target p"
    "unat (used (buf p ! i)) + length (concat cs) \<le> es_cap p (buf p ! i)"
  shows "dec_writes cs p = Some (Inr p') \<and> length (buf p') = length (buf p) \<and>
    (\<forall>j. j \<noteq> i \<longrightarrow> buf p' ! j = buf p ! j) \<and> plane_length (buf p' ! i) = plane_length (buf p ! i) \<and>
    d_o_push_num p' = d_o_push_num p"
  using assms
proof (induction cs arbitrary: p)
  case (Cons c cs)
  let ?q = "p\<lparr>cur_output_index := int i\<rparr>"
  have q: "es_wf ?q" "i < length (buf ?q)"
    using es_wf_choose [OF Cons.prems(2,3)] Cons.prems(3,4) by simp_all
  have e: "es_cap ?q b = es_cap p b" for b by (simp add: es_cap_def)
  have wf: "buf_wf p (buf p ! i)" using es_wf_buf Cons.prems(2-4) by simp
  have n: "length c < 2147483648" using Cons.prems(5) wf by (simp add: buf_wf_def)
  obtain p1 where p1: "write_es_to i c ?q = Inr (int (length c), p1)" "es_wf p1"
    "used (buf p1 ! i) = used (buf p ! i) + of_nat (length c)"
    "es_cap p1 (buf p1 ! i) = es_cap p (buf p ! i)" "cur_output_index p1 = int i" "length (buf p1) = length (buf p)"
    using write_es_to_spec(1) [OF q n] Cons.prems(5) by (auto simp: e)
  have t: "es_target p1 = i" using p1(5) by (simp add: es_target_def)
  have u: "unat (used (buf p1 ! i)) = unat (used (buf p ! i)) + length c"
    using used_add [OF wf n] p1(3) by simp
  have w: "v4l2_dec_write_es [] c p = Some (Inr (int (length c), p1))"
    using write_es_target [OF Cons.prems(2,3), of "[]" c] p1(1) Cons.prems(4) by simp
  then have es: "es_writes cs p1 = Some p'" using Cons.prems(1) by simp
  have cap: "unat (used (buf p1 ! i)) + length (concat cs) \<le> es_cap p1 (buf p1 ! i)"
    using Cons.prems(5) u p1(4) by simp
  have tl: "es_target p1 < length (buf p1)" using t q(2) p1(6) by simp
  have ih: "dec_writes cs p1 = Some (Inr p') \<and> length (buf p') = length (buf p1) \<and>
    (\<forall>j. j \<noteq> i \<longrightarrow> buf p' ! j = buf p1 ! j) \<and> plane_length (buf p' ! i) = plane_length (buf p1 ! i) \<and>
    d_o_push_num p' = d_o_push_num p1"
    by (rule Cons.IH [OF es p1(2) tl t [symmetric] cap])
  then show ?case using w write_es_to_frame [OF p1(1)] q(2) by simp
qed simp

text \<open>
  A frame of pieces that fit, from a port between frames with a free buffer: exactly its bytes go to
  the driver with its time stamp, and the port is between frames again.
\<close>

lemma frame_fed:
  assumes p: "between_frames n p" and i: "first_free (buf p) < length (buf p)"
    and cs: "cs \<noteq> []" "length (concat cs) \<le> n"
  shows "\<exists>p1 p2. dec_writes cs p = Some (Inr p1) \<and> v4l2_dec_frame_done s0 True 0 pts p1 = Inr (0, p2) \<and>
    submitted p1 p2 = [(concat cs, pts sdiv DMX_SECOND, pts smod DMX_SECOND)] \<and>
    between_frames n p2 \<and> length (buf p2) = length (buf p)"
proof -
  let ?i = "first_free (buf p)"
  have pb: "es_wf p" "cur_output_index p = - 1" "sInMemMode p = V4L2_MEMORY_MMAP" "\<not> quit_thread p"
    "\<forall>b \<in> set (buf p). n \<le> unat (plane_length b) \<and> (\<not> queued b \<longrightarrow> used b = 0)"
    using p by (simp_all add: between_frames_def)
  have t: "es_target p = ?i" using pb(2) by (simp add: es_target_def)
  have u: "used (buf p ! ?i) = 0" "n \<le> unat (plane_length (buf p ! ?i))"
    using pb(5) i first_free_not_queued [OF i] by simp_all
  have fit: "unat (used (buf p ! ?i)) + length (concat cs) \<le> es_cap p (buf p ! ?i)"
    using u cs(2) pb(3) by (simp add: es_cap_def)
  have it: "es_target p < length (buf p)" using t i by simp
  obtain p1 where w: "es_writes cs p = Some p1" "es_wf p1" "length (buf p1) = length (buf p)"
    "cur_output_index p1 = int ?i" "sInMemMode p1 = V4L2_MEMORY_MMAP" "\<not> quit_thread p1"
    "staged p1 ?i = concat cs" "used (buf p1 ! ?i) = of_nat (length (concat cs))"
    using es_writes_staged [OF pb(1) it t [symmetric] fit] cs(1) pb(3,4) u(1) by (auto simp: staged_def)
  have fr: "dec_writes cs p = Some (Inr p1)" "\<And>j. j \<noteq> ?i \<Longrightarrow> buf p1 ! j = buf p ! j"
    "plane_length (buf p1 ! ?i) = plane_length (buf p ! ?i)"
    using dec_writes_frame [OF w(1) pb(1) it t [symmetric] fit] by simp_all
  define b where "b = (buf p1 ! ?i)\<lparr>bytesused := used (buf p1 ! ?i),
    timestamp := (pts sdiv DMX_SECOND, pts smod DMX_SECOND), queued := True\<rparr>"
  define p2 where "p2 = snd (queue_output 0 pts ?i p1)"
  have i1: "?i < length (buf p1)" using i w(3) by simp
  have b2: "buf p2 = (buf p1)[?i := b]" by (simp add: p2_def queue_output_def upd_buf_def b_def Let_def)
  have r2: "cur_output_index p2 = - 1" "sInMemMode p2 = sInMemMode p1" "quit_thread p2 = quit_thread p1"
    "es_buf p2 = es_buf p1" "d_o_push_num p2 = d_o_push_num p1 + 1"
    by (simp_all add: p2_def queue_output_def upd_buf_def Let_def)
  have fin: "v4l2_dec_frame_done s0 True 0 pts p1 = Inr (0, p2)"
    using w i1 queue_output_ok(1) [OF i1, of pts] by (simp add: v4l2_dec_frame_done_def p2_def)
  have bw: "buf_wf p1 (buf p1 ! ?i)" using es_wf_buf [OF w(2) i1] .
  have l: "unat (of_nat (length (concat cs)) :: u32) = length (concat cs)"
  proof (rule unat_of_nat_u32)
    have "buf_wf p (buf p ! ?i)" using es_wf_buf [OF pb(1) i] .
    then show "length (concat cs) < 4294967296" using fit by (simp add: buf_wf_def)
  qed
  have "submitted p1 p2 = [(concat cs, pts sdiv DMX_SECOND, pts smod DMX_SECOND)]"
    using w(4,5,7,8) l i1 by (simp add: submitted_def r2 b2 b_def staged_def es_store_def)
  moreover have "es_wf p2"
  proof -
    have "buf_wf p2 c = buf_wf p1 c" for c by (simp add: buf_wf_def es_store_def es_cap_def r2)
    moreover have "buf_wf p1 b" using bw by (auto simp: buf_wf_def es_store_def es_cap_def b_def split: if_splits)
    ultimately show ?thesis using w(2)
      by (auto simp: es_wf_def r2 b2 dest!: set_update_subset_insert [THEN subsetD])
  qed
  moreover have "n \<le> unat (plane_length c) \<and> (\<not> queued c \<longrightarrow> used c = 0)" if c: "c \<in> set (buf p2)" for c
  proof -
    obtain j where j: "j < length (buf p)" "c = buf p2 ! j" using c by (auto simp: in_set_conv_nth b2 w(3))
    then show ?thesis using pb(5) fr(2,3) u(2) i1 w(3)
      by (cases "j = ?i") (simp_all add: b2 b_def)
  qed
  ultimately show ?thesis using fr(1) fin w(3,5,6)
    by (intro exI [of _ p1] exI [of _ p2]) (simp add: between_frames_def r2 b2)
qed

section \<open>Streams\<close>

text \<open>The start-code form of a sequence of units, and the time stamp of a buffer.\<close>

definition annexb :: "byte list list \<Rightarrow> byte list" where
  "annexb us = concat (map (\<lambda>u. s_nal_4 @ u) us)"

definition stamp :: "int \<Rightarrow> int \<times> int" where
  "stamp t = (t sdiv DMX_SECOND, t smod DMX_SECOND)"

lemma concat_annexb_writes: "concat (annexb_writes s_nal_4 us) = annexb us"
  by (induction us) (simp_all add: annexb_def)

text \<open>
  A packet \<open>pkt\<close> of units \<open>us\<close> on stream \<open>v\<close> with a time stamp, whose frame fits in \<open>n\<close> bytes, before
  which the driver returns the buffers \<open>is\<close> out of \<open>k\<close>.
\<close>

definition arrives :: "nat \<Rightarrow> nat \<Rightarrow> int \<Rightarrow> nat list \<times> av_packet \<times> byte list list \<Rightarrow> bool" where
  "arrives n k v x = (case x of (is, pkt, us) \<Rightarrow>
     is \<noteq> [] \<and> (\<forall>i \<in> set is. i < k) \<and> pkt_stream_index pkt = v \<and> pkt_pts pkt \<noteq> None \<and>
     pkt_data pkt = prefixed 4 us \<and> us \<noteq> [] \<and> list_all (\<lambda>u. length u < 2 ^ 31) us \<and> length (annexb us) \<le> n)"

definition length4_stream :: "dmx \<Rightarrow> bool" where
  "length4_stream s \<longleftrightarrow> codec_h2645 s \<and> \<not> raw_stream s \<and> nal_size s = 4"

lemma packet_fed:
  assumes p: "between_frames n p" and s: "length4_stream s" "keyframe_seen s \<or> pkt_key pkt"
    and x: "arrives n (length (buf p)) (video_stream_idx s) (is, pkt, us)"
  shows "\<exists>s' p'. feed_packet rescale s0 pkt s (foldl (\<lambda>p i. dqueue_output i p) p is) =
      Some (Inr ([(annexb us, stamp (rescale (the (pkt_pts pkt))))], s', p')) \<and>
    between_frames n p' \<and> length (buf p') = length (buf p) \<and> length4_stream s' \<and> keyframe_seen s' \<and>
    video_stream_idx s' = video_stream_idx s"
proof -
  let ?q = "foldl (\<lambda>p i. dqueue_output i p) p is" let ?cs = "annexb_writes s_nal_4 us"
  have a: "is \<noteq> []" "\<forall>i \<in> set is. i < length (buf p)" "pkt_stream_index pkt = video_stream_idx s"
    "pkt_pts pkt \<noteq> None" "pkt_data pkt = prefixed 4 us" "us \<noteq> []" "list_all (\<lambda>u. length u < 2 ^ 31) us"
    "length (annexb us) \<le> n" using x by (simp_all add: arrives_def)
  have d: "codec_h2645 s" "\<not> raw_stream s" "nal_size s = 4" using s(1) by (simp_all add: length4_stream_def)
  have q: "between_frames n ?q" "length (buf ?q) = length (buf p)"
    and free: "\<And>j. j \<in> set is \<Longrightarrow> \<not> queued (buf ?q ! j)"
    using dqueue_all_between [OF p a(2)] a(2) by blast+
  obtain i where "i \<in> set is" using a(1) by (cases "is") auto
  then have ff: "first_free (buf ?q) < length (buf ?q)"
    using first_free_bound [of i "buf ?q"] free a(2) q(2) by simp
  have cs: "?cs \<noteq> []" "length (concat ?cs) \<le> n"
    using a(6,8) unfolding concat_annexb_writes by (cases us; simp)+
  have pts: "packet_pts rescale pkt s = rescale (the (pkt_pts pkt))" using a(4) by (auto simp: packet_pts_def)
  obtain p1 p2 where w: "dec_writes ?cs ?q = Some (Inr p1)"
    "v4l2_dec_frame_done s0 True 0 (rescale (the (pkt_pts pkt))) p1 = Inr (0, p2)"
    "submitted p1 p2 = [(annexb us, stamp (rescale (the (pkt_pts pkt))))]"
    "between_frames n p2" "length (buf p2) = length (buf p)"
    using frame_fed [OF q(1) ff cs, of s0 "rescale (the (pkt_pts pkt))"] q(2)
    by (auto simp: concat_annexb_writes stamp_def)
  show ?thesis
    using demux_packet_units [OF a(3) d s(2) a(5,7), of rescale] w d
    by (simp add: feed_packet_def pts length4_stream_def)
qed

section \<open>Properties\<close>



end
