(* ===== verification/Adpcm_Core.thy ===== *)
theory Adpcm_Core
  imports Prelude
begin

text \<open>
  The sample decoders of \<open>libadpcm/adpcm_decode.c\<close>: IMA ADPCM blocks as the player decodes them
  (\<open>adpcmdec_decode_ima_block\<close>), Microsoft ADPCM blocks (\<open>ms_adpcm_decode_block\<close>) and the two
  logarithmic laws. Each block decoder works on the caller's arrays, so the model passes them as
  lists with their capacity and an access outside of them, or outside of a table, is a fault. The
  reference decoders at the end of each section work on one channel's codes and produce a list;
  the block decoders are proved equal to them.

  Plain \<open>char\<close> is signed on some targets of this code and unsigned on others: the functions that
  read through it take the reading \<open>cv\<close> (\<open>uint\<close> or \<open>sint\<close>) as an argument.
\<close>

datatype adpcm_fault = Array_bounds | Table_bounds | Uninitialised

section \<open>Tables\<close>

definition adpcm_step :: "int list" where
  "adpcm_step =
    [7, 8, 9, 10, 11, 12, 13, 14, 16, 17,
     19, 21, 23, 25, 28, 31, 34, 37, 41, 45,
     50, 55, 60, 66, 73, 80, 88, 97, 107, 118,
     130, 143, 157, 173, 190, 209, 230, 253, 279, 307,
     337, 371, 408, 449, 494, 544, 598, 658, 724, 796,
     876, 963, 1060, 1166, 1282, 1411, 1552, 1707, 1878, 2066,
     2272, 2499, 2749, 3024, 3327, 3660, 4026, 4428, 4871, 5358,
     5894, 6484, 7132, 7845, 8630, 9493, 10442, 11487, 12635, 13899,
     15289, 16818, 18500, 20350, 22385, 24623, 27086, 29794, 32767]"

definition adpcm_index :: "int list" where
  "adpcm_index = [- 1, - 1, - 1, - 1, 2, 4, 6, 8, - 1, - 1, - 1, - 1, 2, 4, 6, 8]"

definition AdaptationTable :: "int list" where
  "AdaptationTable =
    [230, 230, 230, 230, 307, 409, 512, 614, 768, 614, 512, 409, 307, 230, 230, 230]"

definition AdaptCoeff1 :: "int list" where
  "AdaptCoeff1 = [256, 512, 0, 192, 240, 460, 392]"

definition AdaptCoeff2 :: "int list" where
  "AdaptCoeff2 = [0, - 256, 0, 64, 0, - 208, - 232]"

definition Clamp :: "int \<Rightarrow> int \<Rightarrow> int \<Rightarrow> int" where
  "Clamp x mn mx = s16 (if mx < x then mx else if x < mn then mn else x)"

definition lo_nibble :: "byte \<Rightarrow> nat" where
  "lo_nibble b = unat b mod 16"

definition hi_nibble :: "byte \<Rightarrow> nat" where
  "hi_nibble b = unat b div 16"

section \<open>IMA blocks\<close>

text \<open>One code: the new sample from the previous one and the new step index.\<close>

definition ima_diff :: "int \<Rightarrow> nat \<Rightarrow> int" where
  "ima_diff step bytecode =
     (let diff = (2 * (int bytecode mod 8) * step + step) div 8
      in if 8 \<le> bytecode then - diff else diff)"

record ima_state =
  samples :: "int list"
  stepindex :: "int list"

definition read_sample :: "(byte \<Rightarrow> int) \<Rightarrow> byte list \<Rightarrow> nat \<Rightarrow> adpcm_fault + int" where
  "read_sample cv d i =
     rbind (need Array_bounds (at d i)) (\<lambda>a. rbind (need Array_bounds (at d (Suc i)))
       (\<lambda>b. Inr (s16 (or (cv a) (cv b * 256)))))"

text \<open>
  The preamble: first sample and step index of each of the \<open>n\<close> channels from \<open>channel\<close> on; \<open>False\<close>
  is the return of 0.
\<close>

primrec ima_preamble ::
    "(byte \<Rightarrow> int) \<Rightarrow> byte list \<Rightarrow> nat \<Rightarrow> nat \<Rightarrow> ima_state \<Rightarrow> adpcm_fault + bool \<times> ima_state" where
  "ima_preamble cv d 0 channel st = Inr (True, st)"
| "ima_preamble cv d (Suc n) channel st =
     rbind (read_sample cv d (channel * 4)) (\<lambda>v.
     rbind (need Array_bounds (at d (channel * 4 + 2))) (\<lambda>x.
     rbind (need Array_bounds (at d (channel * 4 + 3))) (\<lambda>z.
       if channel < length (samples st) \<and> channel < length (stepindex st) then
         let st' = st\<lparr>samples := (samples st)[channel := v],
                      stepindex := (stepindex st)[channel := min (cv x) 88]\<rparr>
         in if z \<noteq> 0 then Inr (False, st') else ima_preamble cv d n (Suc channel) st'
       else Inl Array_bounds)))"

text \<open>The eight codes of one channel in one round (the loop over \<open>j\<close>).\<close>

primrec ima_codes ::
    "nat \<Rightarrow> byte list \<Rightarrow> nat \<Rightarrow> nat \<Rightarrow> nat \<Rightarrow> nat \<Rightarrow> ima_state \<Rightarrow> adpcm_fault + nat \<times> ima_state" where
  "ima_codes channels d channel 0 idx sample st = Inr (idx, st)"
| "ima_codes channels d channel (Suc n) idx sample st =
     rbind (need Array_bounds (at d idx)) (\<lambda>b.
       let bytecode = (if odd n then lo_nibble b else hi_nibble b);
           idx' = (if odd n then idx else Suc idx) in
       rbind (need Array_bounds (at (stepindex st) channel)) (\<lambda>si.
       rbind (need Table_bounds (if si < 0 then None else at adpcm_step (nat si))) (\<lambda>step.
       rbind (need Array_bounds (at (samples st) (sample - channels))) (\<lambda>prev.
       rbind (need Table_bounds (at adpcm_index bytecode)) (\<lambda>di.
         if sample < length (samples st) then
           ima_codes channels d channel n idx' (sample + channels)
             (st\<lparr>samples := (samples st)[sample := Clamp (prev + ima_diff step bytecode) (- 32768) 32767],
                 stepindex := (stepindex st)[channel := Clamp (si + di) 0 88]\<rparr>)
         else Inl Array_bounds)))))"

text \<open>One round: the channels from \<open>channel\<close> on, \<open>n\<close> of them.\<close>

primrec ima_channels ::
    "nat \<Rightarrow> byte list \<Rightarrow> nat \<Rightarrow> nat \<Rightarrow> nat \<Rightarrow> nat \<Rightarrow> ima_state \<Rightarrow> adpcm_fault + nat \<times> ima_state" where
  "ima_channels channels d 0 channel i idx st = Inr (idx, st)"
| "ima_channels channels d (Suc n) channel i idx st =
     rbind (ima_codes channels d channel 8 idx (i + channel) st)
       (\<lambda>(idx', st'). ima_channels channels d n (Suc channel) i idx' st')"

partial_function (option) ima_rounds ::
    "nat \<Rightarrow> byte list \<Rightarrow> int \<Rightarrow> nat \<Rightarrow> nat \<Rightarrow> ima_state \<Rightarrow> (adpcm_fault + ima_state) option" where
  "ima_rounds channels d n_samples i idx st =
     (if int i < n_samples then
        case ima_channels channels d channels 0 i idx st of
          Inl e \<Rightarrow> Some (Inl e)
        | Inr (idx', st') \<Rightarrow> ima_rounds channels d n_samples (i + 8 * channels) idx' st'
      else Some (Inr st))"

definition adpcmdec_decode_ima_block ::
    "(byte \<Rightarrow> int) \<Rightarrow> nat \<Rightarrow> int \<Rightarrow> byte list \<Rightarrow> int list \<Rightarrow> (adpcm_fault + int \<times> int list) option" where
  "adpcmdec_decode_ima_block cv channels n_samples d out =
     (if (n_samples - int channels) mod 8 \<noteq> 0 then Some (Inr (0, out))
      else case ima_preamble cv d channels 0 \<lparr>samples = out, stepindex = [0, 0]\<rparr> of
          Inl e \<Rightarrow> Some (Inl e)
        | Inr (False, st) \<Rightarrow> Some (Inr (0, samples st))
        | Inr (True, st) \<Rightarrow>
            (case ima_rounds channels d n_samples channels (4 * channels) st of
               None \<Rightarrow> None
             | Some (Inl e) \<Rightarrow> Some (Inl e)
             | Some (Inr st') \<Rightarrow> Some (Inr (1, samples st'))))"

text \<open>
  The reference decoder of one channel: a predictor and a step index, driven by a list of 4-bit
  codes.
\<close>

primrec ima_ref :: "int \<Rightarrow> int \<Rightarrow> nat list \<Rightarrow> int list" where
  "ima_ref pred si [] = []"
| "ima_ref pred si (c # cs) =
     (let pred' = max (- 32768) (min 32767 (pred + ima_diff (adpcm_step ! nat si) c))
      in pred' # ima_ref pred' (max 0 (min 88 (si + adpcm_index ! c))) cs)"

definition nibbles :: "byte list \<Rightarrow> nat list" where
  "nibbles bs = concat (map (\<lambda>b. [lo_nibble b, hi_nibble b]) bs)"

text \<open>The step index after a list of codes.\<close>

primrec ima_si :: "int \<Rightarrow> nat list \<Rightarrow> int" where
  "ima_si si [] = si"
| "ima_si si (c # cs) = ima_si (max 0 (min 88 (si + adpcm_index ! c))) cs"

text \<open>The bytes of channel \<open>c\<close> in the first \<open>r\<close> rounds: four in each.\<close>

definition chan_bytes :: "nat \<Rightarrow> nat \<Rightarrow> nat \<Rightarrow> byte list \<Rightarrow> byte list" where
  "chan_bytes channels c r d =
     concat (map (\<lambda>g. take 4 (drop (4 * channels + (g * channels + c) * 4) d)) [0..<r])"

text \<open>Every \<open>channels\<close>-th element from \<open>c\<close> on.\<close>

definition every :: "nat \<Rightarrow> nat \<Rightarrow> int list \<Rightarrow> nat \<Rightarrow> int list" where
  "every channels c xs n = map (\<lambda>k. xs ! (c + channels * k)) [0..<n]"

section \<open>IMA: codes, strides and the reference decoder\<close>

lemma nibble_bounds [simp]: "lo_nibble b < 16" "hi_nibble b < 16"
proof -
  have "unat b < 256" using unsigned_less [of b] by simp
  then show "lo_nibble b < 16" "hi_nibble b < 16" by (auto simp: lo_nibble_def hi_nibble_def)
qed

lemma length_tables [simp]:
  "length adpcm_step = 89" "length adpcm_index = 16" "length AdaptationTable = 16"
  "length AdaptCoeff1 = 7" "length AdaptCoeff2 = 7"
  by (simp_all add: adpcm_step_def adpcm_index_def AdaptationTable_def AdaptCoeff1_def AdaptCoeff2_def)

lemma Clamp_eq:
  "Clamp x (- 32768) 32767 = max (- 32768) (min 32767 x)" "Clamp x 0 88 = max 0 (min 88 x)"
  by (simp_all add: Clamp_def in_s16_def max_def min_def)

lemma ima_si_bounds: "0 \<le> si \<Longrightarrow> si \<le> 88 \<Longrightarrow> 0 \<le> ima_si si cs \<and> ima_si si cs \<le> 88"
  by (induction cs arbitrary: si) auto

lemma ima_si_append [simp]: "ima_si si (xs @ ys) = ima_si (ima_si si xs) ys"
  by (induction xs arbitrary: si) auto

lemma ima_ref_append:
  "ima_ref p si (xs @ ys) = ima_ref p si xs @ ima_ref (last (p # ima_ref p si xs)) (ima_si si xs) ys"
  by (induction xs arbitrary: p si) (auto simp: Let_def)

lemma length_ima_ref [simp]: "length (ima_ref p si cs) = length cs"
  by (induction cs arbitrary: p si) (auto simp: Let_def)

lemma ima_ref_s16: "x \<in> set (ima_ref p si cs) \<Longrightarrow> in_s16 x"
  by (induction cs arbitrary: p si) (auto simp: Let_def in_s16_def)

text \<open>Writing a list at every \<open>ch\<close>-th place from \<open>p\<close> on.\<close>

primrec put_stride :: "int list \<Rightarrow> nat \<Rightarrow> nat \<Rightarrow> int list \<Rightarrow> int list" where
  "put_stride xs p ch [] = xs"
| "put_stride xs p ch (v # vs) = put_stride (xs[p := v]) (p + ch) ch vs"

lemma length_put_stride [simp]: "length (put_stride xs p ch vs) = length xs"
  by (induction vs arbitrary: xs p) auto

lemma put_stride_miss:
  "(\<And>k. k < length vs \<Longrightarrow> q \<noteq> p + ch * k) \<Longrightarrow> put_stride xs p ch vs ! q = xs ! q"
proof (induction vs arbitrary: xs p)
  case (Cons v vs)
  have "q \<noteq> p" using Cons.prems [of 0] by simp
  moreover have "q \<noteq> p + ch + ch * k" if "k < length vs" for k
    using Cons.prems [of "Suc k"] that by simp
  ultimately show ?case using Cons.IH [of "p + ch" "xs[p := v]"] by simp
qed simp

lemma put_stride_hit:
  "0 < ch \<Longrightarrow> k < length vs \<Longrightarrow> p + ch * k < length xs \<Longrightarrow> put_stride xs p ch vs ! (p + ch * k) = vs ! k"
proof (induction vs arbitrary: xs p k)
  case (Cons v vs)
  show ?case
  proof (cases k)
    case 0
    then show ?thesis using Cons.prems by (simp add: put_stride_miss)
  next
    case (Suc k')
    then show ?thesis
      using Cons.IH [of k' "p + ch" "xs[p := v]"] Cons.prems by (simp add: add.assoc)
  qed
qed simp

text \<open>The codes the inner loop reads, \<open>n\<close> of them from byte \<open>idx\<close> on.\<close>

primrec codes_from :: "byte list \<Rightarrow> nat \<Rightarrow> nat \<Rightarrow> nat list" where
  "codes_from d 0 idx = []"
| "codes_from d (Suc n) idx = (if odd n then lo_nibble (d ! idx) else hi_nibble (d ! idx)) #
     codes_from d n (if odd n then idx else Suc idx)"

lemma ima_codes_run:
  assumes "c < length (stepindex st)" "0 \<le> stepindex st ! c" "stepindex st ! c \<le> 88"
    and "0 < ch" "ch \<le> p" "n = 0 \<or> p + ch * (n - 1) < length (samples st)"
    and "idx + (n + 1) div 2 \<le> length d"
  shows "ima_codes ch d c n idx p st =
    Inr (idx + (n + 1) div 2,
      st\<lparr>samples := put_stride (samples st) p ch
            (ima_ref (samples st ! (p - ch)) (stepindex st ! c) (codes_from d n idx)),
         stepindex := (stepindex st)[c := ima_si (stepindex st ! c) (codes_from d n idx)]\<rparr>)"
  using assms
proof (induction n arbitrary: idx p st)
  case (Suc n)
  define b where "b = (if odd n then lo_nibble (d ! idx) else hi_nibble (d ! idx))"
  define ix where "ix = (if odd n then idx else Suc idx)"
  define si where "si = stepindex st ! c"
  define v where
    "v = max (- 32768) (min 32767 (samples st ! (p - ch) + ima_diff (adpcm_step ! nat si) b))"
  define s where "s = max 0 (min 88 (si + adpcm_index ! b))"
  let ?st = "st\<lparr>samples := (samples st)[p := v], stepindex := (stepindex st)[c := s]\<rparr>"
  have p: "p < length (samples st)" "p - ch < length (samples st)"
    using Suc.prems(5,6) by (auto intro: le_less_trans)
  have i: "idx < length d" using Suc.prems(7) by (cases n) auto
  have sb: "0 \<le> s" "s \<le> 88" by (simp_all add: s_def)
  have step: "ima_codes ch d c (Suc n) idx p st = ima_codes ch d c n ix (p + ch) ?st"
  proof -
    have "nat si < 89" using Suc.prems(2,3) si_def by linarith
    moreover have "b < 16" by (simp add: b_def)
    ultimately have a: "at d idx = Some (d ! idx)" "at (stepindex st) c = Some si"
      "(if si < 0 then None else at adpcm_step (nat si)) = Some (adpcm_step ! nat si)"
      "at (samples st) (p - ch) = Some (samples st ! (p - ch))"
      "at adpcm_index b = Some (adpcm_index ! b)"
      using Suc.prems(1,2) p i by (simp_all add: at_def si_def)
    show ?thesis
      by (simp only: ima_codes.simps(2) Let_def a result_simps p(1) if_True Clamp_eq
            b_def [symmetric] ix_def [symmetric] v_def s_def)
  qed
  have e: "ix + (n + 1) div 2 = idx + (Suc n + 1) div 2" by (auto simp: ix_def elim!: oddE evenE)
  have "n = 0 \<or> p + ch + ch * (n - 1) < length (samples ?st)"
    using Suc.prems(6) by (cases n) auto
  moreover have "ix + (n + 1) div 2 \<le> length d" using Suc.prems(7) e by simp
  ultimately have "ima_codes ch d c n ix (p + ch) ?st = Inr (ix + (n + 1) div 2,
      ?st\<lparr>samples := put_stride (samples ?st) (p + ch) ch
            (ima_ref (samples ?st ! (p + ch - ch)) (stepindex ?st ! c) (codes_from d n ix)),
         stepindex := (stepindex ?st)[c := ima_si (stepindex ?st ! c) (codes_from d n ix)]\<rparr>)"
    using Suc.prems(1,4) sb by (intro Suc.IH) auto
  moreover have "ima_ref (samples st ! (p - ch)) si (codes_from d (Suc n) idx) =
      v # ima_ref v s (codes_from d n ix)"
    "ima_si si (codes_from d (Suc n) idx) = ima_si s (codes_from d n ix)"
    by (simp_all only: codes_from.simps ima_ref.simps ima_si.simps Let_def b_def [symmetric]
          ix_def [symmetric] v_def [symmetric] s_def [symmetric])
  moreover have "samples ?st ! (p + ch - ch) = v" "stepindex ?st ! c = s"
    using p(1) Suc.prems(1) by simp_all
  moreover have "?st\<lparr>samples := put_stride (samples ?st) (p + ch) ch vs, stepindex := (stepindex ?st)[c := x]\<rparr> =
      st\<lparr>samples := put_stride (samples st) p ch (v # vs), stepindex := (stepindex st)[c := x]\<rparr>" for vs x
    by simp
  ultimately show ?case unfolding step si_def [symmetric] e by (simp only:)
qed simp

lemma codes_from_double:
  "codes_from d (2 * m) idx = nibbles (map (\<lambda>k. d ! (idx + k)) [0..<m])"
proof (induction m arbitrary: idx)
  case (Suc m)
  have "codes_from d (2 * Suc m) idx =
      lo_nibble (d ! idx) # hi_nibble (d ! idx) # codes_from d (2 * m) (Suc idx)"
    by simp
  moreover have "map (\<lambda>k. d ! (idx + k)) [0..<Suc m] = d ! idx # map (\<lambda>k. d ! (Suc idx + k)) [0..<m]"
    by (simp only: upt_conv_Cons [OF zero_less_Suc] map_Suc_upt [symmetric]) simp
  ultimately show ?case using Suc.IH [of "Suc idx"] by (simp only: nibbles_def) simp
qed (simp add: nibbles_def)

lemma codes_from_8:
  "idx + 4 \<le> length d \<Longrightarrow> codes_from d 8 idx = nibbles (take 4 (drop idx d))"
proof -
  assume "idx + 4 \<le> length d"
  then have "map (\<lambda>k. d ! (idx + k)) [0..<4] = take 4 (drop idx d)"
    by (intro nth_equalityI) auto
  then show ?thesis using codes_from_double [of d 4 idx] by simp
qed

text \<open>
  Channel \<open>c\<close> is decoded up to round \<open>r\<close>: its samples so far are the preamble's sample and what the
  reference decoder makes of its codes, and the array of step indexes holds the reference's.
\<close>

definition chan_ok ::
    "nat \<Rightarrow> byte list \<Rightarrow> int \<Rightarrow> int \<Rightarrow> nat \<Rightarrow> nat \<Rightarrow> ima_state \<Rightarrow> bool" where
  "chan_ok ch d p0 si0 c r st \<longleftrightarrow>
     every ch c (samples st) (1 + 8 * r) = p0 # ima_ref p0 si0 (nibbles (chan_bytes ch c r d)) \<and>
     stepindex st ! c = ima_si si0 (nibbles (chan_bytes ch c r d))"

lemma chan_bytes_Suc:
  "chan_bytes ch c (Suc r) d =
     chan_bytes ch c r d @ take 4 (drop (4 * ch + (r * ch + c) * 4) d)"
  by (simp add: chan_bytes_def)

lemma nibbles_append [simp]: "nibbles (xs @ ys) = nibbles xs @ nibbles ys"
  by (simp add: nibbles_def)

lemma length_nibbles [simp]: "length (nibbles bs) = 2 * length bs"
  by (induction bs) (auto simp: nibbles_def)

lemma stride_inj:
  fixes c c' ch k k' :: nat
  shows "c + ch * k = c' + ch * k' \<Longrightarrow> c < ch \<Longrightarrow> c' < ch \<Longrightarrow> c = c' \<and> k = k'"
proof -
  assume a: "c + ch * k = c' + ch * k'" "c < ch" "c' < ch"
  have "c = (c + ch * k) mod ch" "c' = (c' + ch * k') mod ch" using a(2,3) by simp_all
  then have "c = c'" using a(1) by simp
  then show ?thesis using a by simp
qed

lemma every_last: "xs ! (c + ch * r) = last (every ch c xs (1 + r))"
  by (simp add: every_def)

lemma every_add:
  "every ch c xs (m + n) = every ch c xs m @ map (\<lambda>k. xs ! (c + ch * (m + k))) [0..<n]"
  by (induction n) (simp_all add: every_def)

lemma ima_codes_channel:
  fixes r :: nat
  assumes c: "c < ch" "c < length (stepindex st)" and ok: "chan_ok ch d p0 si0 c r st"
    and si: "0 \<le> si0" "si0 \<le> 88"
    and len: "ch * (9 + 8 * r) \<le> length (samples st)" and i: "i = ch + 8 * ch * r"
    and idx: "idx = 4 * ch + (r * ch + c) * 4" "idx + 4 \<le> length d"
  obtains st' where "ima_codes ch d c 8 idx (i + c) st = Inr (idx + 4, st')"
    "chan_ok ch d p0 si0 c (Suc r) st'" "length (samples st') = length (samples st)"
    "length (stepindex st') = length (stepindex st)"
    "\<And>c' q p0' si0'. c' < ch \<Longrightarrow> c' \<noteq> c \<Longrightarrow> chan_ok ch d p0' si0' c' q st' = chan_ok ch d p0' si0' c' q st"
    "\<And>q. ch * (9 + 8 * r) \<le> q \<Longrightarrow> samples st' ! q = samples st ! q"
proof
  let ?si = "stepindex st ! c"
  let ?cs = "codes_from d 8 idx"
  let ?vs = "ima_ref (samples st ! (i + c - ch)) ?si ?cs"
  define st' where "st' = st\<lparr>samples := put_stride (samples st) (i + c) ch ?vs,
      stepindex := (stepindex st)[c := ima_si ?si ?cs]\<rparr>"
  have sib: "0 \<le> ?si" "?si \<le> 88" using ok ima_si_bounds [OF si] by (simp_all add: chan_ok_def)
  have cs: "?cs = nibbles (take 4 (drop idx d))" "length ?cs = 8"
    using codes_from_8 [OF idx(2)] idx(2) by simp_all
  have ic: "i + c = c + ch * (1 + 8 * r)" using i by (simp add: algebra_simps)
  have top: "i + c + ch * k < ch * (9 + 8 * r)" if "k < 8" for k
  proof -
    have "c + ch * (1 + 8 * r + k) < ch + ch * (1 + 8 * r + k)" using c(1) by simp
    also have "\<dots> = ch * (Suc (1 + 8 * r + k))" by simp
    also have "\<dots> \<le> ch * (9 + 8 * r)" using that by (intro mult_le_mono2) simp
    finally show ?thesis using ic by (simp add: algebra_simps)
  qed
  show "ima_codes ch d c 8 idx (i + c) st = Inr (idx + 4, st')"
    using ima_codes_run [OF c(2) sib, of ch "i + c" 8 idx d] c(1) i idx(2) top [of 7] len
    by (simp add: st'_def)
  have hit: "samples st' ! (c + ch * (1 + 8 * r + k)) = ?vs ! k" if "k < 8" for k
  proof -
    have "samples st' ! (i + c + ch * k) = ?vs ! k"
      unfolding st'_def using that c(1) cs(2) top [OF that] len by (auto intro!: put_stride_hit)
    then show ?thesis using ic by (simp add: algebra_simps)
  qed
  have miss: "samples st' ! q = samples st ! q" if "\<And>k. k < 8 \<Longrightarrow> q \<noteq> c + ch * (1 + 8 * r + k)" for q
  proof -
    have "q \<noteq> i + c + ch * k" if "k < length ?vs" for k
      using \<open>\<And>k. k < 8 \<Longrightarrow> q \<noteq> c + ch * (1 + 8 * r + k)\<close> [of k] that cs(2) ic
      by (simp add: distrib_left)
    then show ?thesis
      using put_stride_miss [of ?vs q "i + c" ch "samples st"] by (simp add: st'_def)
  qed
  have "every ch c (samples st') (1 + 8 * r + 8) =
      every ch c (samples st') (1 + 8 * r) @ map (\<lambda>k. samples st' ! (c + ch * (1 + 8 * r + k))) [0..<8]"
    by (rule every_add)
  moreover have "map (\<lambda>k. samples st' ! (c + ch * (1 + 8 * r + k))) [0..<8] = ?vs"
    using hit cs(2) by (intro nth_equalityI) auto
  moreover have "every ch c (samples st') (1 + 8 * r) = every ch c (samples st) (1 + 8 * r)"
    unfolding every_def using c(1) by (auto intro!: miss dest!: stride_inj)
  moreover have "samples st ! (i + c - ch) = last (every ch c (samples st) (1 + 8 * r))"
    using every_last [of "samples st" c ch "8 * r"] ic by (simp add: algebra_simps)
  ultimately show "chan_ok ch d p0 si0 c (Suc r) st'"
    using ok c(2) cs(1) idx(1)
    by (simp add: chan_ok_def chan_bytes_Suc ima_ref_append st'_def add.commute)
  show "length (samples st') = length (samples st)" "length (stepindex st') = length (stepindex st)"
    by (simp_all add: st'_def)
  show "chan_ok ch d p0' si0' c' q st' = chan_ok ch d p0' si0' c' q st" if "c' < ch" "c' \<noteq> c"
    for c' q p0' si0'
  proof -
    have "every ch c' (samples st') n = every ch c' (samples st) n" for n
      unfolding every_def using c(1) that by (auto intro!: miss dest: stride_inj)
    then show ?thesis using that by (simp add: chan_ok_def st'_def)
  qed
  show "samples st' ! q = samples st ! q" if "ch * (9 + 8 * r) \<le> q" for q
  proof (rule miss)
    fix k :: nat assume "k < 8"
    then have "c + ch * (1 + 8 * r + k) < ch * (9 + 8 * r)" using top ic by (simp add: distrib_left)
    then show "q \<noteq> c + ch * (1 + 8 * r + k)" using that by linarith
  qed
qed

definition rounds_inv ::
    "nat \<Rightarrow> byte list \<Rightarrow> (nat \<Rightarrow> int) \<Rightarrow> (nat \<Rightarrow> int) \<Rightarrow> int list \<Rightarrow> nat \<Rightarrow> nat \<Rightarrow> ima_state \<Rightarrow> bool" where
  "rounds_inv ch d p0 si0 out c r st \<longleftrightarrow>
     length (samples st) = length out \<and> length (stepindex st) = 2 \<and>
     (\<forall>c' < c. chan_ok ch d (p0 c') (si0 c') c' (Suc r) st) \<and>
     (\<forall>c'. c \<le> c' \<and> c' < ch \<longrightarrow> chan_ok ch d (p0 c') (si0 c') c' r st)"

lemma rounds_inv_next: "rounds_inv ch d p0 si0 out ch r st \<Longrightarrow> rounds_inv ch d p0 si0 out 0 (Suc r) st"
  by (simp add: rounds_inv_def)

lemma ima_channels_run:
  assumes "rounds_inv ch d p0 si0 out c r st" "ch = c + n" "ch \<le> 2"
    and "\<forall>c < ch. 0 \<le> si0 c \<and> si0 c \<le> 88" "ch * (9 + 8 * r) \<le> length out"
    and "4 * ch + (Suc r * ch) * 4 \<le> length d" "idx = 4 * ch + (r * ch + c) * 4"
  shows "\<exists>st'. ima_channels ch d n c (ch + 8 * ch * r) idx st = Inr (4 * ch + (Suc r * ch) * 4, st') \<and>
     rounds_inv ch d p0 si0 out 0 (Suc r) st' \<and>
     (\<forall>q. ch * (9 + 8 * r) \<le> q \<longrightarrow> samples st' ! q = samples st ! q)"
  using assms
proof (induction n arbitrary: c idx st)
  case 0
  then show ?case using rounds_inv_next by auto
next
  case (Suc n)
  have c: "c < ch" "c < length (stepindex st)" and ok: "chan_ok ch d (p0 c) (si0 c) c r st"
    and l: "length (samples st) = length out"
    using Suc.prems(1-3) by (auto simp: rounds_inv_def)
  have si: "0 \<le> si0 c" "si0 c \<le> 88" using Suc.prems(4) c by auto
  have len: "ch * (9 + 8 * r) \<le> length (samples st)" using Suc.prems(5) l by simp
  have d: "idx + 4 \<le> length d"
  proof -
    have "idx + 4 = 4 * ch + (r * ch + Suc c) * 4" using Suc.prems(7) by simp
    also have "\<dots> \<le> 4 * ch + (Suc r * ch) * 4" using c(1) by simp
    finally show ?thesis using Suc.prems(6) by simp
  qed
  obtain st1 where st1: "ima_codes ch d c 8 idx (ch + 8 * ch * r + c) st = Inr (idx + 4, st1)"
    "chan_ok ch d (p0 c) (si0 c) c (Suc r) st1" "length (samples st1) = length (samples st)"
    "length (stepindex st1) = length (stepindex st)"
    "\<And>c' q p0' si0'. c' < ch \<Longrightarrow> c' \<noteq> c \<Longrightarrow>
       chan_ok ch d p0' si0' c' q st1 = chan_ok ch d p0' si0' c' q st"
    "\<And>q. ch * (9 + 8 * r) \<le> q \<Longrightarrow> samples st1 ! q = samples st ! q"
    by (rule ima_codes_channel [OF c ok si len refl Suc.prems(7) d]) blast
  have "rounds_inv ch d p0 si0 out (Suc c) r st1"
    using Suc.prems(1) st1 c(1) by (auto simp: rounds_inv_def less_Suc_eq)
  then obtain st' where "ima_channels ch d n (Suc c) (ch + 8 * ch * r) (idx + 4) st1 =
      Inr (4 * ch + (Suc r * ch) * 4, st')" "rounds_inv ch d p0 si0 out 0 (Suc r) st'"
    "\<And>q. ch * (9 + 8 * r) \<le> q \<Longrightarrow> samples st' ! q = samples st1 ! q"
    using Suc.IH [of "Suc c" st1 "idx + 4"] Suc.prems(2-7) by auto
  then show ?case using st1 by auto
qed

lemma ima_rounds_run:
  assumes "rounds_inv ch d p0 si0 out 0 r st" "0 < ch" "ch \<le> 2" "R = r + k"
    and "\<forall>c < ch. 0 \<le> si0 c \<and> si0 c \<le> 88" "ch * (1 + 8 * R) \<le> length out"
    and "4 * ch + (R * ch) * 4 \<le> length d"
  shows "\<exists>st'. ima_rounds ch d (int (ch + 8 * ch * R)) (ch + 8 * ch * r) (4 * ch + (r * ch) * 4) st =
       Some (Inr st') \<and> rounds_inv ch d p0 si0 out 0 R st' \<and>
     (\<forall>q. ch * (1 + 8 * R) \<le> q \<longrightarrow> samples st' ! q = samples st ! q)"
  using assms
proof (induction k arbitrary: r st)
  case 0
  then show ?case by (subst ima_rounds.simps) auto
next
  case (Suc k)
  have "Suc r \<le> R" using Suc.prems(4) by simp
  then have m: "Suc r * ch \<le> R * ch" "ch * (9 + 8 * r) \<le> ch * (1 + 8 * R)"
    by (intro mult_le_mono1 mult_le_mono2; simp)+
  obtain st1 where st1: "ima_channels ch d ch 0 (ch + 8 * ch * r) (4 * ch + (r * ch) * 4) st =
      Inr (4 * ch + (Suc r * ch) * 4, st1)" "rounds_inv ch d p0 si0 out 0 (Suc r) st1"
    "\<And>q. ch * (9 + 8 * r) \<le> q \<Longrightarrow> samples st1 ! q = samples st ! q"
    using ima_channels_run [OF Suc.prems(1) _ Suc.prems(3,5), of ch "4 * ch + (r * ch) * 4"]
      Suc.prems(6,7) m by auto
  obtain st' where st': "ima_rounds ch d (int (ch + 8 * ch * R)) (ch + 8 * ch * Suc r)
      (4 * ch + (Suc r * ch) * 4) st1 = Some (Inr st')" "rounds_inv ch d p0 si0 out 0 R st'"
    "\<And>q. ch * (1 + 8 * R) \<le> q \<Longrightarrow> samples st' ! q = samples st1 ! q"
    using Suc.IH [OF st1(2) Suc.prems(2,3)] Suc.prems(4-7) by auto
  have "8 * ch * r < 8 * ch * R" using Suc.prems(2,4) by (intro mult_less_mono2) simp_all
  then have "ch + 8 * ch * r < ch + 8 * ch * R" by simp
  then have "ima_rounds ch d (int (ch + 8 * ch * R)) (ch + 8 * ch * r) (4 * ch + (r * ch) * 4) st =
      Some (Inr st')"
    using st1(1) st'(1) by (subst ima_rounds.simps) (simp add: algebra_simps)
  then show ?case using st' st1(3) m(2) by auto
qed

lemma or_shifted: "or (ub a) (ub b * 256) = ub a + ub b * 256"
proof -
  have "\<not> bit (ub a) n \<or> \<not> bit (push_bit 8 (ub b)) n" for n
    by (auto simp: bit_push_bit_iff bit_uint_iff)
  then have "ub a + push_bit 8 (ub b) = or (ub a) (push_bit 8 (ub b))" by (rule disjunctive_add)
  then show ?thesis by (simp add: push_bit_eq_mult)
qed

text \<open>What the preamble of channel \<open>c\<close> says: a little-endian sample and a step index.\<close>

definition first_sample :: "byte list \<Rightarrow> nat \<Rightarrow> int" where
  "first_sample d c = s16 (ub (d ! (4 * c)) + ub (d ! (4 * c + 1)) * 256)"

definition first_index :: "byte list \<Rightarrow> nat \<Rightarrow> int" where
  "first_index d c = min (ub (d ! (4 * c + 2))) 88"

lemma ima_preamble_step:
  assumes "4 * c + 4 \<le> length d" "c < length (samples st)" "c < length (stepindex st)" "d ! (4 * c + 3) = 0"
  shows "ima_preamble uint d (Suc n) c st = ima_preamble uint d n (Suc c)
     (st\<lparr>samples := (samples st)[c := first_sample d c], stepindex := (stepindex st)[c := first_index d c]\<rparr>)"
  using assms
  by (simp add: read_sample_def at_def first_sample_def first_index_def Let_def or_shifted
        mult.commute [of _ "4 :: nat"])

lemma ima_preamble_run:
  assumes "ch \<le> 2" "4 * ch \<le> length d" "ch \<le> length out" "\<forall>c < ch. d ! (4 * c + 3) = 0"
  shows "\<exists>st. ima_preamble uint d ch 0 \<lparr>samples = out, stepindex = [0, 0]\<rparr> = Inr (True, st) \<and>
     rounds_inv ch d (first_sample d) (first_index d) out 0 0 st \<and>
     (\<forall>q \<ge> ch. samples st ! q = out ! q)"
proof -
  consider "ch = 0" | "ch = Suc 0" | "ch = Suc (Suc 0)" using assms(1) by linarith
  then show ?thesis
  proof cases
    case 2
    then have "out \<noteq> []" using assms(3) by auto
    then show ?thesis using assms 2
      by (simp add: ima_preamble_step rounds_inv_def chan_ok_def every_def chan_bytes_def nibbles_def
            del: ima_preamble.simps(2))
  next
    case 3
    then have "out \<noteq> []" using assms(3) by auto
    then show ?thesis using assms 3
      by (simp add: ima_preamble_step rounds_inv_def chan_ok_def every_def chan_bytes_def nibbles_def
            less_Suc_eq all_conj_distrib imp_conjR del: ima_preamble.simps(2))
  qed (simp add: rounds_inv_def)
qed

lemma ima_block_run:
  assumes ch: "0 < ch" "ch \<le> 2" and d: "4 * ch + 4 * ch * R \<le> length d"
    and out: "ch + 8 * ch * R \<le> length out" and sync: "\<forall>c < ch. d ! (4 * c + 3) = 0"
  shows "\<exists>out'. adpcmdec_decode_ima_block uint ch (int (ch + 8 * ch * R)) d out = Some (Inr (1, out')) \<and>
     length out' = length out \<and> (\<forall>q \<ge> ch + 8 * ch * R. out' ! q = out ! q) \<and>
     (\<forall>c < ch. every ch c out' (1 + 8 * R) =
        first_sample d c # ima_ref (first_sample d c) (first_index d c) (nibbles (chan_bytes ch c R d)))"
proof -
  obtain st where st: "ima_preamble uint d ch 0 \<lparr>samples = out, stepindex = [0, 0]\<rparr> = Inr (True, st)"
    "rounds_inv ch d (first_sample d) (first_index d) out 0 0 st" "\<And>q. ch \<le> q \<Longrightarrow> samples st ! q = out ! q"
    using ima_preamble_run [OF ch(2) _ _ sync, of out] d out by auto
  have si: "\<forall>c < ch. 0 \<le> first_index d c \<and> first_index d c \<le> 88" by (simp add: first_index_def)
  have len: "ch * (1 + 8 * R) = ch + 8 * ch * R" "4 * ch + (R * ch) * 4 \<le> length d"
    using d by (simp_all add: algebra_simps)
  obtain st' where st': "ima_rounds ch d (int (ch + 8 * ch * R)) ch (4 * ch) st = Some (Inr st')"
    "rounds_inv ch d (first_sample d) (first_index d) out 0 R st'"
    "\<And>q. ch * (1 + 8 * R) \<le> q \<Longrightarrow> samples st' ! q = samples st ! q"
    using ima_rounds_run [OF st(2) ch _ si _ len(2), of R] out len(1) by auto
  have "(int (ch + 8 * ch * R) - int ch) mod 8 = 0" by simp
  then have "adpcmdec_decode_ima_block uint ch (int (ch + 8 * ch * R)) d out = Some (Inr (1, samples st'))"
    using st(1) st'(1) by (simp add: adpcmdec_decode_ima_block_def)
  then show ?thesis using st'(2,3) st(3) len(1) by (auto simp: rounds_inv_def chan_ok_def)
qed

text \<open>
  C11: IMA blocks. For one or two channels, a synchronised preamble and whole rounds of eight codes
  per channel, the block decoder returns 1 (so all its loops end and no access leaves an array or a
  table), leaves every place after the block's samples alone, and the interleaved output of each
  channel is the preamble's sample followed by what the one-channel reference decoder makes of that
  channel's codes.
\<close>

theorem ima_block_is_reference:
  assumes ch: "0 < ch" "ch \<le> 2" and d: "4 * ch + 4 * ch * R \<le> length d"
    and out: "ch + 8 * ch * R \<le> length out" and sync: "\<forall>c < ch. d ! (4 * c + 3) = 0"
  shows "\<exists>out'. adpcmdec_decode_ima_block uint ch (int (ch + 8 * ch * R)) d out = Some (Inr (1, out')) \<and>
     length out' = length out \<and> (\<forall>q \<ge> ch + 8 * ch * R. out' ! q = out ! q) \<and>
     (\<forall>c < ch. every ch c out' (1 + 8 * R) =
        first_sample d c # ima_ref (first_sample d c) (first_index d c) (nibbles (chan_bytes ch c R d)))"
  using assms by (rule ima_block_run)

theorem ima_block_is_reference_witness:
  "\<exists>out'. adpcmdec_decode_ima_block uint 2 18 (replicate 8 0 @ [0x70, 1, 2, 3, 0x0f, 0, 0, 0]) (replicate 20 7) =
       Some (Inr (1, out')) \<and> out' ! 19 = 7"
proof -
  have z: "\<forall>c < 2. (replicate 8 0 @ [0x70, 1, 2, 3, 0x0f, 0, 0, 0 :: byte]) ! (4 * c + 3) = 0"
    by (auto simp: less_Suc_eq numeral_eq_Suc)
  show ?thesis
    using ima_block_is_reference [OF _ _ _ _ z, of 1 "replicate 20 7"] by auto
qed

section \<open>Microsoft ADPCM blocks\<close>

record ms_state =
  s0 :: int
  s1 :: int
  s2 :: int
  s3 :: int
  s4 :: int
  s5 :: int
  idelta :: "int list"
  blockindx :: nat
  sampleindx :: nat
  pcm :: "int list"

definition le16 :: "byte list \<Rightarrow> nat \<Rightarrow> adpcm_fault + int" where
  "le16 b i = rbind (need Array_bounds (at b i)) (\<lambda>x. rbind (need Array_bounds (at b (Suc i)))
     (\<lambda>y. Inr (s16 (or (ub x) (ub y * 256)))))"

text \<open>\<open>pcm_buf[j++] = x\<close> in a buffer of \<open>cap\<close> samples.\<close>

definition put_pcm :: "nat \<Rightarrow> int \<Rightarrow> ms_state \<Rightarrow> adpcm_fault + ms_state" where
  "put_pcm cap x st =
     (if length (pcm st) < cap then Inr (st\<lparr>pcm := pcm st @ [x]\<rparr>) else Inl Array_bounds)"

text \<open>The block header; other numbers of channels leave the predictors uninitialised.\<close>

definition ms_header :: "nat \<Rightarrow> byte list \<Rightarrow> adpcm_fault + nat list \<times> ms_state" where
  "ms_header channel b =
     (if channel = 1 then
        rbind (need Array_bounds (at b 0)) (\<lambda>p0.
        rbind (le16 b 1) (\<lambda>d0. rbind (le16 b 3) (\<lambda>x1. rbind (le16 b 5) (\<lambda>x0.
          Inr ([unat p0, 0], \<lparr>s0 = x0, s1 = x1, s2 = 0, s3 = 0, s4 = 0, s5 = 0, idelta = [d0, 0],
            blockindx = 7, sampleindx = 2, pcm = []\<rparr>)))))
      else if channel = 2 then
        rbind (need Array_bounds (at b 0)) (\<lambda>p0. rbind (need Array_bounds (at b 1)) (\<lambda>p1.
        rbind (le16 b 2) (\<lambda>d0. rbind (le16 b 4) (\<lambda>d1.
        rbind (le16 b 6) (\<lambda>x2. rbind (le16 b 8) (\<lambda>x3.
        rbind (le16 b 10) (\<lambda>x0. rbind (le16 b 12) (\<lambda>x1.
          Inr ([unat p0, unat p1], \<lparr>s0 = x0, s1 = x1, s2 = x2, s3 = x3, s4 = 0, s5 = 0,
            idelta = [d0, d1], blockindx = 14, sampleindx = 4, pcm = []\<rparr>)))))))))
      else Inl Uninitialised)"

text \<open>Reading the next byte when the samples of the last one are used up.\<close>

definition ms_fetch :: "nat \<Rightarrow> byte list \<Rightarrow> nat \<Rightarrow> nat \<Rightarrow> ms_state \<Rightarrow> adpcm_fault + ms_state" where
  "ms_fetch channel b block i st =
     (if sampleindx st \<le> i \<and> blockindx st < block then
        rbind (need Array_bounds (at b (blockindx st))) (\<lambda>x.
          let st1 = st\<lparr>blockindx := blockindx st + 1, sampleindx := sampleindx st + 2\<rparr> in
          if channel = 1 then Inr (st1\<lparr>s2 := int (hi_nibble x), s3 := int (lo_nibble x)\<rparr>)
          else Inr (st1\<lparr>s4 := int (hi_nibble x), s5 := int (lo_nibble x)\<rparr>))
      else Inr st)"

text \<open>The body of the loop after the fetch: adapt, predict, clamp, emit, shift.\<close>

definition ms_clamp :: "int \<Rightarrow> int" where
  "ms_clamp x = (if 32767 < x then 32767 else if x < - 32768 then - 32768 else x)"

definition ms_adapt :: "nat \<Rightarrow> int \<Rightarrow> int" where
  "ms_adapt bytecode delta =
     (let d = s16 (AdaptationTable ! bytecode * delta div 256) in if d < 16 then 16 else d)"

definition ms_sample ::
    "nat \<Rightarrow> nat list \<Rightarrow> nat \<Rightarrow> nat \<Rightarrow> ms_state \<Rightarrow> adpcm_fault + ms_state" where
  "ms_sample channel bpred cap i st =
     (let chan = (if 1 < channel then i mod 2 else 0);
          bytecode = nat ((if channel = 1 then s2 st else s4 st) mod 16);
          delta = idelta st ! chan;
          sgn = (if 8 \<le> bytecode then int bytecode - 16 else int bytecode) in
      rbind (need Table_bounds (at AdaptCoeff1 (bpred ! chan))) (\<lambda>c1.
      rbind (need Table_bounds (at AdaptCoeff2 (bpred ! chan))) (\<lambda>c2.
        let predict = ((if channel = 1 then s1 st else s2 st) * c1 + s0 st * c2) div 256;
            current = ms_clamp (sgn * delta + predict);
            st1 = st\<lparr>idelta := (idelta st)[chan := ms_adapt bytecode delta]\<rparr> in
        rbind (put_pcm cap (s0 st1) st1) (\<lambda>st2.
          if channel = 1 then Inr (st2\<lparr>s0 := s1 st2, s1 := current, s2 := s3 st2\<rparr>)
          else Inr (st2\<lparr>s0 := s1 st2, s1 := s2 st2, s2 := s3 st2, s3 := current, s4 := s5 st2\<rparr>)))))"

partial_function (option) ms_loop ::
    "nat \<Rightarrow> nat list \<Rightarrow> byte list \<Rightarrow> nat \<Rightarrow> nat \<Rightarrow> nat \<Rightarrow> ms_state \<Rightarrow> (adpcm_fault + ms_state) option" where
  "ms_loop channel bpred b block cap i st =
     (if blockindx st < block then
        case rbind (ms_fetch channel b block i st) (ms_sample channel bpred cap i) of
          Inl e \<Rightarrow> Some (Inl e)
        | Inr st' \<Rightarrow> ms_loop channel bpred b block cap (Suc i) st'
      else Some (Inr st))"

definition ms_tail :: "nat \<Rightarrow> nat \<Rightarrow> ms_state \<Rightarrow> adpcm_fault + ms_state" where
  "ms_tail channel cap st =
     (if channel = 1 then rbind (put_pcm cap (s0 st) st) (put_pcm cap (s1 st))
      else rbind (put_pcm cap (s0 st) st) (\<lambda>st. rbind (put_pcm cap (s1 st) st)
             (\<lambda>st. rbind (put_pcm cap (s2 st) st) (put_pcm cap (s3 st)))))"

text \<open>The samples written to \<open>pcm_buf\<close>; the C function returns their number.\<close>

definition ms_adpcm_decode_block ::
    "nat \<Rightarrow> byte list \<Rightarrow> nat \<Rightarrow> nat \<Rightarrow> (adpcm_fault + int list) option" where
  "ms_adpcm_decode_block cap b channel block =
     (case ms_header channel b of
        Inl e \<Rightarrow> Some (Inl e)
      | Inr (bpred, st) \<Rightarrow>
          (case ms_loop channel bpred b block cap (channel * 2) st of
             None \<Rightarrow> None
           | Some (Inl e) \<Rightarrow> Some (Inl e)
           | Some (Inr st') \<Rightarrow> Some (rbind (ms_tail channel cap st') (\<lambda>st. Inr (pcm st)))))"

text \<open>
  The reference decoder: the interleaved samples so far, the scale factors of the channels and the
  codes still to decode, the high half of each byte first.
\<close>

definition ms_next :: "nat \<Rightarrow> nat list \<Rightarrow> nat \<Rightarrow> int list \<Rightarrow> nat \<Rightarrow> int list \<Rightarrow> int" where
  "ms_next ch bp x ids c h =
     ms_clamp ((if 8 \<le> x then int x - 16 else int x) * (ids ! c) +
       (h ! (length h - ch) * AdaptCoeff1 ! (bp ! c) +
        h ! (length h - 2 * ch) * AdaptCoeff2 ! (bp ! c)) div 256)"

primrec ms_ref :: "nat \<Rightarrow> nat list \<Rightarrow> nat list \<Rightarrow> int list \<Rightarrow> nat \<Rightarrow> int list \<Rightarrow> int list" where
  "ms_ref ch bp [] ids c h = h"
| "ms_ref ch bp (x # xs) ids c h =
     ms_ref ch bp xs (ids[c := ms_adapt x (ids ! c)]) ((c + 1) mod ch) (h @ [ms_next ch bp x ids c h])"

definition hi_lo :: "byte list \<Rightarrow> nat list" where
  "hi_lo bs = concat (map (\<lambda>b. [hi_nibble b, lo_nibble b]) bs)"

text \<open>The decoder's history window and its pending codes.\<close>

definition window :: "nat \<Rightarrow> ms_state \<Rightarrow> int list" where
  "window ch st = (if ch = 1 then [s0 st, s1 st] else [s0 st, s1 st, s2 st, s3 st])"

definition pend :: "nat \<Rightarrow> ms_state \<Rightarrow> int" where
  "pend ch st = (if ch = 1 then s2 st else s4 st)"

definition pend2 :: "nat \<Rightarrow> ms_state \<Rightarrow> int" where
  "pend2 ch st = (if ch = 1 then s3 st else s5 st)"

lemma ms_sample_step:
  assumes "ch = 1 \<or> ch = 2" "pend ch st = int x" "x < 16" "bp ! (i mod ch) < 7"
    and "length (pcm st) < cap"
  shows "\<exists>st'. ms_sample ch bp cap i st = Inr st' \<and>
     pcm st' @ window ch st' = (pcm st @ window ch st) @
       [ms_next ch bp x (idelta st) (i mod ch) (pcm st @ window ch st)] \<and>
     length (pcm st') = Suc (length (pcm st)) \<and>
     idelta st' = (idelta st)[i mod ch := ms_adapt x (idelta st ! (i mod ch))] \<and>
     pend ch st' = pend2 ch st \<and> blockindx st' = blockindx st \<and> sampleindx st' = sampleindx st"
  using assms(1)
proof
  assume ch: "ch = 1"
  have p: "nat (s2 st mod 16) = x" using assms(2,3) ch by (simp add: pend_def flip: nat_mod_as_int)
  have t: "at AdaptCoeff1 (bp ! 0) = Some (AdaptCoeff1 ! (bp ! 0))"
    "at AdaptCoeff2 (bp ! 0) = Some (AdaptCoeff2 ! (bp ! 0))"
    using assms(4) ch by (simp_all add: at_def)
  show ?thesis
    unfolding ch ms_next_def window_def
    using assms(5) t p by (simp add: ms_sample_def Let_def put_pcm_def nth_append pend_def pend2_def)
next
  assume ch: "ch = 2"
  have p: "nat (s4 st mod 16) = x" using assms(2,3) ch by (simp add: pend_def flip: nat_mod_as_int)
  have t: "at AdaptCoeff1 (bp ! (i mod 2)) = Some (AdaptCoeff1 ! (bp ! (i mod 2)))"
    "at AdaptCoeff2 (bp ! (i mod 2)) = Some (AdaptCoeff2 ! (bp ! (i mod 2)))"
    using assms(4) ch by (simp_all add: at_def)
  have w: "window 2 st = [s0 st, s1 st, s2 st, s3 st]" for st by (simp add: window_def)
  show ?thesis
    unfolding ch ms_next_def w
    using assms(5) t p by (simp add: ms_sample_def Let_def put_pcm_def nth_append pend_def pend2_def)
qed

lemma ms_fetch_step:
  assumes "sampleindx st = i" "blockindx st < block" "block \<le> length b"
  shows "\<exists>st'. ms_fetch ch b block i st = Inr st' \<and> pcm st' = pcm st \<and>
     (ch = 1 \<or> ch = 2 \<longrightarrow> window ch st' = window ch st \<and> pend ch st' = int (hi_nibble (b ! blockindx st)) \<and>
        pend2 ch st' = int (lo_nibble (b ! blockindx st))) \<and>
     idelta st' = idelta st \<and> blockindx st' = Suc (blockindx st) \<and> sampleindx st' = i + 2"
  using assms
  by (auto simp: ms_fetch_def at_def Let_def window_def pend_def pend2_def)

lemma ms_loop_run:
  assumes "ch = 1 \<or> ch = 2" "\<forall>c < ch. bp ! c < 7" "sampleindx st = i"
    and "block \<le> length b" "blockindx st \<le> block" "bs = drop (blockindx st) (take block b)"
    and "length (pcm st) + (2 * length bs - 1) \<le> cap"
  shows "\<exists>st'. ms_loop ch bp b block cap i st = Some (Inr st') \<and>
     pcm st' @ window ch st' =
       ms_ref ch bp (butlast (hi_lo bs)) (idelta st) (i mod ch) (pcm st @ window ch st) \<and>
     length (pcm st') = length (pcm st) + (2 * length bs - 1)"
  using assms
proof (induction bs arbitrary: st i)
  case Nil
  then show ?case by (subst ms_loop.simps) (auto simp: hi_lo_def)
next
  case (Cons x bs)
  let ?c = "i mod ch" and ?h = "pcm st @ window ch st"
  have lt: "blockindx st < block"
    using Cons.prems(4,6) by (metis drop_all length_take list.distinct(1) min.absorb2 not_le_imp_less)
  have x: "b ! blockindx st = x" and bs: "bs = drop (Suc (blockindx st)) (take block b)"
    using Cons.prems(4,6) lt by (simp_all add: Cons_nth_drop_Suc [symmetric])
  have ch0: "0 < ch" using Cons.prems(1) by auto
  have bp: "bp ! (j mod ch) < 7" for j using Cons.prems(2) ch0 by simp
  obtain f where f: "ms_fetch ch b block i st = Inr f" "pcm f = pcm st" "window ch f = window ch st"
    "pend ch f = int (hi_nibble x)" "pend2 ch f = int (lo_nibble x)" "idelta f = idelta st"
    "blockindx f = Suc (blockindx st)" "sampleindx f = i + 2"
    using ms_fetch_step [OF Cons.prems(3) lt Cons.prems(4), of ch] Cons.prems(1) x by auto
  obtain u where u: "ms_sample ch bp cap i f = Inr u"
    "pcm u @ window ch u = ?h @ [ms_next ch bp (hi_nibble x) (idelta st) ?c ?h]"
    "length (pcm u) = Suc (length (pcm st))"
    "idelta u = (idelta st)[?c := ms_adapt (hi_nibble x) (idelta st ! ?c)]"
    "pend ch u = int (lo_nibble x)" "blockindx u = Suc (blockindx st)" "sampleindx u = i + 2"
    using ms_sample_step [OF Cons.prems(1) f(4) _ bp, of cap i] f Cons.prems(7) by auto
  have s1: "ms_loop ch bp b block cap i st = ms_loop ch bp b block cap (Suc i) u"
    using lt f(1) u(1) by (subst ms_loop.simps) simp
  show ?case
  proof (cases bs)
    case Nil
    then have "Suc (blockindx st) = block" using bs lt Cons.prems(4) by simp
    then have "ms_loop ch bp b block cap (Suc i) u = Some (Inr u)"
      using u(6) by (subst ms_loop.simps) simp
    then show ?thesis using s1 u Nil by (simp add: hi_lo_def)
  next
    case (Cons y ys)
    have lt2: "Suc (blockindx st) < block"
      using bs Cons Cons.prems(4) by (metis drop_all length_take list.distinct(1) min.absorb2 not_le_imp_less)
    let ?h1 = "pcm u @ window ch u"
    obtain w where w: "ms_sample ch bp cap (Suc i) u = Inr w"
      "pcm w @ window ch w = ?h1 @ [ms_next ch bp (lo_nibble x) (idelta u) (Suc i mod ch) ?h1]"
      "length (pcm w) = Suc (length (pcm u))"
      "idelta w = (idelta u)[Suc i mod ch := ms_adapt (lo_nibble x) (idelta u ! (Suc i mod ch))]"
      "blockindx w = Suc (blockindx st)" "sampleindx w = i + 2"
      using ms_sample_step [OF Cons.prems(1) u(5) _ bp, of cap "Suc i"] u Cons.prems(7) Cons by auto
    have nf: "ms_fetch ch b block (Suc i) u = Inr u" using u(7) by (simp add: ms_fetch_def)
    have s2: "ms_loop ch bp b block cap (Suc i) u = ms_loop ch bp b block cap (i + 2) w"
      using lt2 u(6) nf w(1) by (subst ms_loop.simps) simp
    have m: "(?c + 1) mod ch = Suc i mod ch" "(Suc i mod ch + 1) mod ch = (i + 2) mod ch"
      by (simp_all add: mod_simps)
    obtain st' where st': "ms_loop ch bp b block cap (i + 2) w = Some (Inr st')"
      "pcm st' @ window ch st' =
         ms_ref ch bp (butlast (hi_lo bs)) (idelta w) ((i + 2) mod ch) (pcm w @ window ch w)"
      "length (pcm st') = length (pcm w) + (2 * length bs - 1)"
      using Cons.IH [of w "i + 2"] Cons.prems(1,2,4,7) bs w u lt2 Cons by auto
    have "hi_lo bs \<noteq> []" using Cons by (simp add: hi_lo_def)
    then have "butlast (hi_lo (x # bs)) = hi_nibble x # lo_nibble x # butlast (hi_lo bs)"
      by (simp add: hi_lo_def)
    then show ?thesis using s1 s2 st' w u m Cons by simp
  qed
qed

lemma ms_ref_append: "\<exists>ys. ms_ref ch bp xs ids c h = h @ ys \<and> length ys = length xs \<and> (\<forall>y \<in> set ys. in_s16 y)"
proof (induction xs arbitrary: ids c h)
  case (Cons x xs)
  have "in_s16 (ms_next ch bp x ids c h)" by (simp add: ms_next_def ms_clamp_def in_s16_def)
  then show ?case
    using Cons.IH [of "ids[c := ms_adapt x (ids ! c)]" "(c + 1) mod ch" "h @ [ms_next ch bp x ids c h]"]
    by auto
qed simp

lemma le16_ok: "Suc i < length b \<Longrightarrow> le16 b i = Inr (s16 (ub (b ! i) + ub (b ! Suc i) * 256))"
  by (simp add: le16_def at_def or_shifted)

lemma ms_tail_ok:
  assumes "ch = 1 \<or> ch = 2" "length (pcm st) + 2 * ch \<le> cap"
  shows "rbind (ms_tail ch cap st) (\<lambda>st. Inr (pcm st)) = Inr (pcm st @ window ch st)"
  using assms by (auto simp: ms_tail_def put_pcm_def window_def)

text \<open>The predictors, scale factors and first samples in the header of a block.\<close>

definition ms_word :: "byte list \<Rightarrow> nat \<Rightarrow> int" where
  "ms_word b i = s16 (ub (b ! i) + ub (b ! Suc i) * 256)"

definition ms_first :: "nat \<Rightarrow> byte list \<Rightarrow> int list" where
  "ms_first ch b = (if ch = 1 then [ms_word b 5, ms_word b 3]
     else [ms_word b 10, ms_word b 12, ms_word b 6, ms_word b 8])"

definition ms_deltas :: "nat \<Rightarrow> byte list \<Rightarrow> int list" where
  "ms_deltas ch b = (if ch = 1 then [ms_word b 1, 0] else [ms_word b 2, ms_word b 4])"

lemma ms_header_ok:
  assumes "ch = 1 \<or> ch = 2" "7 * ch \<le> length b"
  shows "\<exists>st. ms_header ch b = Inr (map unat (take ch b) @ (if ch = 1 then [0] else []), st) \<and>
     window ch st = ms_first ch b \<and> idelta st = ms_deltas ch b \<and> pcm st = [] \<and>
     blockindx st = 7 * ch \<and> sampleindx st = ch * 2"
proof -
  have "take 2 b = [b ! 0, b ! 1]" if "2 \<le> length b"
    using that by (auto simp: numeral_2_eq_2 Suc_le_length_iff)
  moreover have "take 1 b = [b ! 0]" if "1 \<le> length b"
    using that by (auto simp: Suc_le_length_iff)
  moreover have "b \<noteq> []" using assms by auto
  ultimately show ?thesis
    using assms
    by (elim disjE)
       (simp_all add: ms_header_def at_def le16_ok ms_word_def window_def ms_first_def ms_deltas_def)
qed

lemma ms_block_run:
  assumes ch: "ch = 1 \<or> ch = 2" and b: "7 * ch \<le> block" "block \<le> length b"
    and bp: "\<forall>c < ch. unat (b ! c) < 7" and cap: "2 * ch + (2 * (block - 7 * ch) - 1) \<le> cap"
  shows "\<exists>out. ms_adpcm_decode_block cap b ch block = Some (Inr out) \<and>
     out = ms_ref ch (map unat (take ch b) @ (if ch = 1 then [0] else []))
             (butlast (hi_lo (drop (7 * ch) (take block b)))) (ms_deltas ch b) 0 (ms_first ch b) \<and>
     length out = 2 * ch + (2 * (block - 7 * ch) - 1) \<and> (\<forall>x \<in> set out. in_s16 x)"
proof -
  let ?bp = "map unat (take ch b) @ (if ch = 1 then [0] else [])"
  let ?bs = "drop (7 * ch) (take block b)"
  obtain st where st: "ms_header ch b = Inr (?bp, st)" "window ch st = ms_first ch b"
    "idelta st = ms_deltas ch b" "pcm st = []" "blockindx st = 7 * ch" "sampleindx st = ch * 2"
    using ms_header_ok [OF ch, of b] b by auto
  have bp': "\<forall>c < ch. ?bp ! c < 7" using bp b ch by (auto simp: nth_append)
  have len: "length ?bs = block - 7 * ch" using b by simp
  obtain st' where st': "ms_loop ch ?bp b block cap (ch * 2) st = Some (Inr st')"
    "pcm st' @ window ch st' = ms_ref ch ?bp (butlast (hi_lo ?bs)) (ms_deltas ch b) 0 (ms_first ch b)"
    "length (pcm st') = 2 * (block - 7 * ch) - 1"
    using ms_loop_run [OF ch bp' st(6) b(2), of ?bs cap] st(2-5) b len cap by auto
  let ?out = "pcm st' @ window ch st'"
  have "rbind (ms_tail ch cap st') (\<lambda>st. Inr (pcm st)) = Inr ?out"
    using ms_tail_ok [OF ch, of st' cap] st'(3) cap by simp
  then have "ms_adpcm_decode_block cap b ch block = Some (Inr ?out)"
    using st(1) st'(1) by (simp add: ms_adpcm_decode_block_def)
  moreover have "length ?out = 2 * ch + (2 * (block - 7 * ch) - 1)"
    using st'(3) ch by (auto simp: window_def)
  moreover have "in_s16 x" if "x \<in> set (ms_first ch b)" for x
    using that ch by (auto simp: ms_first_def ms_word_def split: if_splits)
  then have "\<forall>x \<in> set ?out. in_s16 x"
    using ms_ref_append [of ch ?bp "butlast (hi_lo ?bs)" "ms_deltas ch b" 0 "ms_first ch b"]
    unfolding st'(2) by auto
  ultimately show ?thesis using st'(2) by auto
qed

text \<open>
  C12: Microsoft ADPCM blocks. For one or two channels, predictors below 7, a block inside the input
  and room for the samples, the decoder ends without leaving an array or a table and writes the
  first samples of the header followed by what the reference decoder makes of the codes, all in 16
  bits. The code in the low half of the last byte is never decoded: the loop stops once the last
  byte has been fetched.
\<close>

theorem ms_block_is_reference:
  assumes ch: "ch = 1 \<or> ch = 2" and b: "7 * ch \<le> block" "block \<le> length b"
    and bp: "\<forall>c < ch. unat (b ! c) < 7" and cap: "2 * ch + (2 * (block - 7 * ch) - 1) \<le> cap"
  shows "\<exists>out. ms_adpcm_decode_block cap b ch block = Some (Inr out) \<and>
     out = ms_ref ch (map unat (take ch b) @ (if ch = 1 then [0] else []))
             (butlast (hi_lo (drop (7 * ch) (take block b)))) (ms_deltas ch b) 0 (ms_first ch b) \<and>
     length out = 2 * ch + (2 * (block - 7 * ch) - 1) \<and> (\<forall>x \<in> set out. in_s16 x)"
  using assms by (rule ms_block_run)

theorem ms_block_is_reference_witness:
  "\<exists>out. ms_adpcm_decode_block 8 [1, 16, 0, 10, 0, 20, 0, 0x12, 0x34] 1 9 = Some (Inr out) \<and> length out = 5"
  using ms_block_is_reference [of 1 9 "[1, 16, 0, 10, 0, 20, 0, 0x12, 0x34]" 8] by auto

section \<open>A-law and u-law\<close>

definition alaw2linear :: "byte \<Rightarrow> int" where
  "alaw2linear a =
     (let a = a XOR 0x55; t = ub (a AND 0xf) * 16; seg = unat (drop_bit 4 (a AND 0x70));
          t = (if seg = 0 then t + 8 else if seg = 1 then t + 0x108 else (t + 0x108) * 2 ^ (seg - 1))
      in if a AND 0x80 \<noteq> 0 then t else - t)"

definition ulaw2linear :: "byte \<Rightarrow> int" where
  "ulaw2linear u =
     (let u = NOT u; t = ub (u AND 0xf) * 8 + 0x84; t = t * 2 ^ unat (drop_bit 4 (u AND 0x70))
      in if u AND 0x80 \<noteq> 0 then 0x84 - t else t - 0x84)"

text \<open>A code is a sign bit and a magnitude of seven bits: a segment and a position in it.\<close>

definition law_code :: "byte \<Rightarrow> nat" where
  "law_code a = unat a mod 128"

definition law_sign :: "byte \<Rightarrow> bool" where
  "law_sign a \<longleftrightarrow> 128 \<le> unat a"

lemma law_fields:
  "ub (a AND 0xf) = int (law_code a mod 16)" "unat (drop_bit 4 (a AND 0x70)) = law_code a div 16"
  "a AND 0x80 \<noteq> 0 \<longleftrightarrow> law_sign a"
proof -
  have "a AND 0xf = take_bit 4 a" by (simp add: take_bit_eq_mask mask_numeral)
  then show "ub (a AND 0xf) = int (law_code a mod 16)"
    by (simp add: law_code_def take_bit_eq_mod uint_mod zmod_int mod_mod_cancel)
  have "drop_bit 4 (a AND 0x70) = take_bit 3 (drop_bit 4 a)"
    by (simp add: take_bit_eq_mask mask_numeral)
  moreover have "unat (take_bit 3 (drop_bit 4 a)) = unat a div 16 mod 8"
    by (simp add: take_bit_eq_mod unat_mod drop_bit_eq_div unat_div)
  ultimately show "unat (drop_bit 4 (a AND 0x70)) = law_code a div 16"
    using mod_mult2_eq [of "unat a" 16 8] by (simp add: law_code_def)
  show "a AND 0x80 \<noteq> 0 \<longleftrightarrow> law_sign a"
  proof -
    have "unat a < 256" using unsigned_less [of a] by simp
    then have "odd (unat a div 128) \<longleftrightarrow> 128 \<le> unat a"
      by (cases "128 \<le> unat a") (simp_all add: div_nat_eqI [of 128 1])
    moreover have "bit a 7 \<longleftrightarrow> bit (unat a) 7" by (simp add: bit_unsigned_iff)
    ultimately show ?thesis
      using and_exp_eq_0_iff_not_bit [of a 7] by (simp add: law_sign_def bit_iff_odd [of "unat a"])
  qed
qed

definition alaw_mag :: "nat \<Rightarrow> int" where
  "alaw_mag k = (let t = int (k mod 16) * 16; seg = k div 16 in
     if seg = 0 then t + 8 else (t + 264) * 2 ^ (seg - 1))"

definition ulaw_mag :: "nat \<Rightarrow> int" where
  "ulaw_mag k = (int (k mod 16) * 8 + 132) * 2 ^ (k div 16) - 132"

lemma alaw_by_code:
  "alaw2linear a = (if law_sign (a XOR 0x55) then 1 else - 1) * alaw_mag (law_code (a XOR 0x55))"
  by (simp only: alaw2linear_def Let_def law_fields) (simp add: alaw_mag_def Let_def)

lemma ulaw_by_code:
  "ulaw2linear u = (if law_sign (NOT u) then - 1 else 1) * ulaw_mag (law_code (NOT u))"
  by (simp only: ulaw2linear_def Let_def law_fields) (simp add: ulaw_mag_def)

lemma mag_steps:
  "\<forall>k \<in> set [0..<127]. alaw_mag k < alaw_mag (Suc k) \<and> ulaw_mag k < ulaw_mag (Suc k)"
  by code_simp

lemma bounded_mono:
  fixes f :: "nat \<Rightarrow> int"
  assumes "\<And>k. k < n \<Longrightarrow> f k < f (Suc k)"
  shows "i < j \<Longrightarrow> j \<le> n \<Longrightarrow> f i < f j"
proof (induction j)
  case (Suc j)
  then show ?case using assms [of j] by (cases "i = j") auto
qed simp

lemma mag_mono: "i < j \<Longrightarrow> j \<le> 127 \<Longrightarrow> alaw_mag i < alaw_mag j \<and> ulaw_mag i < ulaw_mag j"
  using bounded_mono [of 127 alaw_mag i j] bounded_mono [of 127 ulaw_mag i j] mag_steps by auto

lemma mag_bounds:
  assumes "k \<le> 127"
  shows "8 \<le> alaw_mag k" "alaw_mag k \<le> 32256" "0 \<le> ulaw_mag k" "ulaw_mag k \<le> 32124"
proof -
  have e: "alaw_mag 0 = 8" "alaw_mag 127 = 32256" "ulaw_mag 0 = 0" "ulaw_mag 127 = 32124"
    by (simp_all add: alaw_mag_def ulaw_mag_def)
  show "8 \<le> alaw_mag k" "0 \<le> ulaw_mag k" using mag_mono [of 0 k] e assms by (cases "k = 0"; simp)+
  show "alaw_mag k \<le> 32256" "ulaw_mag k \<le> 32124"
    using mag_mono [of k 127] e assms by (cases "k = 127"; simp)+
qed

lemma law_code_bound: "law_code a \<le> 127"
  by (simp add: law_code_def less_Suc_eq_le [symmetric])

lemma mag_less_iff:
  assumes "i \<le> 127" "j \<le> 127"
  shows "alaw_mag i < alaw_mag j \<longleftrightarrow> i < j" "ulaw_mag i < ulaw_mag j \<longleftrightarrow> i < j"
  using mag_mono [of i j] mag_mono [of j i] assms by (cases i j rule: linorder_cases; simp)+

lemma laws_in_s16: "in_s16 (alaw2linear a)" "in_s16 (ulaw2linear a)"
  using mag_bounds [OF law_code_bound [of "a XOR 0x55"]] mag_bounds [OF law_code_bound [of "NOT a"]]
  by (auto simp: alaw_by_code ulaw_by_code in_s16_def)

text \<open>
  the A-law and u-law decoders. With the code's seven magnitude bits (after the complement of
  even bits for A-law, of all bits for u-law), the absolute value of the sample is strictly
  increasing in the magnitude, stays within 16 bits, and the sign bit alone decides the sign.
\<close>

theorem companding_laws:
  "(\<bar>alaw2linear a\<bar> < \<bar>alaw2linear b\<bar> \<longleftrightarrow> law_code (a XOR 0x55) < law_code (b XOR 0x55)) \<and>
   (\<bar>ulaw2linear a\<bar> < \<bar>ulaw2linear b\<bar> \<longleftrightarrow> law_code (NOT a) < law_code (NOT b)) \<and>
   (0 < alaw2linear a \<longleftrightarrow> law_sign (a XOR 0x55)) \<and> (ulaw2linear a < 0 \<longleftrightarrow> 0 < law_code (NOT a) \<and> law_sign (NOT a)) \<and>
   in_s16 (alaw2linear a) \<and> in_s16 (ulaw2linear a)"
proof -
  note m = mag_bounds [OF law_code_bound]
  have "\<bar>alaw2linear a\<bar> < \<bar>alaw2linear b\<bar> \<longleftrightarrow> law_code (a XOR 0x55) < law_code (b XOR 0x55)"
    using m(1) [of "a XOR 0x55"] m(1) [of "b XOR 0x55"]
    by (simp add: alaw_by_code abs_mult mag_less_iff law_code_bound)
  moreover have "\<bar>ulaw2linear a\<bar> < \<bar>ulaw2linear b\<bar> \<longleftrightarrow> law_code (NOT a) < law_code (NOT b)"
    using m(3) [of "NOT a"] m(3) [of "NOT b"]
    by (simp add: ulaw_by_code abs_mult mag_less_iff law_code_bound)
  moreover have "0 < alaw2linear a \<longleftrightarrow> law_sign (a XOR 0x55)"
    using m(1) [of "a XOR 0x55"] by (simp add: alaw_by_code)
  moreover have "ulaw_mag 0 = 0" by (simp add: ulaw_mag_def)
  then have "ulaw2linear a < 0 \<longleftrightarrow> 0 < law_code (NOT a) \<and> law_sign (NOT a)"
    using m(3) [of "NOT a"] mag_less_iff(2) [of 0 "law_code (NOT a)"] law_code_bound [of "NOT a"]
    by (auto simp: ulaw_by_code)
  ultimately show ?thesis using laws_in_s16 by blast
qed

end
