(* ===== verification/Adpcm_Stream.thy ===== *)
theory Adpcm_Stream
  imports Adpcm_Core
begin

text \<open>
  The stream side of \<open>libadpcm/adpcm_decode.c\<close>: the read cursor, \<open>refill\<close> with its time-stamp and
  RIFF headers, the decoders of the formats and \<open>audio_dec_decode\<close>. The static variables of the file
  are the record \<open>wave\<close>; the samples a call leaves in the caller's buffer are a list, \<open>None\<close> when the
  call does not write to it.
\<close>

section \<open>State\<close>

record pcm_read_ctl =
  ValidDataLen :: int
  UsedDataLen :: int
  BufStart :: "byte list"
  pcur :: nat

datatype codec = CODEC_ID_PCM_ALAW | CODEC_ID_PCM_MULAW | CODEC_ID_ADPCM_IMA_WAV | CODEC_ID_ADPCM_MS
  | CODEC_ID_OTHER

datatype sample_format = SAMPLE_FMT_U8 | SAMPLE_FMT_S16

record wave =
  wave_timestamplen :: u32
  wave_timestamp :: u32
  refill_timestamp_len :: u32
  pwavebuf :: "byte list"
  pcm_buf :: "int list"
  block_align :: int
  mgr_ch :: nat
  mgr_bps :: sample_format

definition WAVE_BLOCK_SIZE :: nat where
  "WAVE_BLOCK_SIZE = 2048"

section \<open>The read cursor\<close>

definition pcm_read_init :: "byte list \<Rightarrow> int \<Rightarrow> pcm_read_ctl" where
  "pcm_read_init inbuf sz = \<lparr>ValidDataLen = sz, UsedDataLen = 0, BufStart = inbuf, pcur = 0\<rparr>"

text \<open>The bytes copied by \<open>pcm_read\<close>: all that were asked for, or none.\<close>

definition pcm_read :: "pcm_read_ctl \<Rightarrow> int \<Rightarrow> adpcm_fault + byte list \<times> pcm_read_ctl" where
  "pcm_read c sz =
     (if sz \<le> ValidDataLen c then
        if sz < 0 then Inl Array_bounds
        else rbind (need Array_bounds (slice (BufStart c) (pcur c) (nat sz))) (\<lambda>bs.
          Inr (bs, c\<lparr>ValidDataLen := ValidDataLen c - sz, UsedDataLen := UsedDataLen c + sz,
                     pcur := pcur c + nat sz\<rparr>))
      else Inr ([], c))"

text \<open>\<open>pcm_read\<close> into \<open>pwavebuf + off\<close>.\<close>

definition read_wave :: "nat \<Rightarrow> int \<Rightarrow> pcm_read_ctl \<Rightarrow> wave \<Rightarrow> adpcm_fault + pcm_read_ctl \<times> wave" where
  "read_wave off sz c w =
     rbind (pcm_read c sz) (\<lambda>(bs, c').
       rbind (need Array_bounds (put_bytes (pwavebuf w) off bs)) (\<lambda>m. Inr (c', w\<lparr>pwavebuf := m\<rparr>)))"

section \<open>Refill\<close>

text \<open>
  The search for the \<open>data\<close> chunk of a RIFF header: each turn checks that 8 bytes are left, reads one
  byte and, after a \<open>d\<close>, three more. The result is the cursor when the chunk was found or the
  counter reached 0, the cursor with \<open>UsedDataLen\<close> reset when the data ran out.
\<close>

datatype scan = Scan_found pcm_read_ctl | Scan_short pcm_read_ctl | Scan_fault

definition skip :: "nat \<Rightarrow> pcm_read_ctl \<Rightarrow> pcm_read_ctl" where
  "skip n c = c\<lparr>ValidDataLen := ValidDataLen c - int n, UsedDataLen := UsedDataLen c + int n,
                pcur := pcur c + n\<rparr>"

function riff_scan :: "int \<Rightarrow> pcm_read_ctl \<Rightarrow> scan" where
  "riff_scan tmp c =
     (if tmp = 0 then Scan_found c
      else if ValidDataLen c < 8 then Scan_short (c\<lparr>UsedDataLen := 0\<rparr>)
      else case at (BufStart c) (pcur c) of
          None \<Rightarrow> Scan_fault
        | Some t \<Rightarrow>
            if t = 0x64 then
              (case slice (BufStart c) (Suc (pcur c)) 3 of
                 None \<Rightarrow> Scan_fault
               | Some bs \<Rightarrow> if bs = [0x61, 0x74, 0x61] then Scan_found (skip 4 c)
                            else riff_scan (tmp - 4) (skip 4 c))
            else riff_scan (tmp - 1) (skip 1 c))"
  by pat_completeness auto
termination
  by (relation "measure (\<lambda>(tmp, c). nat (ValidDataLen c))") (auto simp: skip_def)

datatype refill_head = Head_abort pcm_read_ctl wave | Head_go nat int pcm_read_ctl wave

definition be_u32 :: "byte list \<Rightarrow> u32" where
  "be_u32 bs = foldl shift_in 0 bs"

text \<open>The branch of \<open>refill\<close> taken when no time-stamped block is under way.\<close>

definition refill_head :: "codec \<Rightarrow> int \<Rightarrow> pcm_read_ctl \<Rightarrow> wave \<Rightarrow> adpcm_fault + refill_head" where
  "refill_head codec len c w =
     (if ValidDataLen c < 4 then Inr (Head_abort (c\<lparr>UsedDataLen := 0\<rparr>) w)
      else rbind (pcm_read c 4) (\<lambda>(magic, c1).
        if magic = [0x41, 0x50, 0x54, 0x53] then
          if ValidDataLen c1 < 8 then Inr (Head_abort (c1\<lparr>UsedDataLen := 0\<rparr>) w)
          else rbind (pcm_read c1 4) (\<lambda>(ts, c2). rbind (pcm_read c2 4) (\<lambda>(bl, c3).
            let w1 = w\<lparr>wave_timestamp := be_u32 ts, wave_timestamplen := be_u32 bl,
                       refill_timestamp_len := be_u32 bl\<rparr> in
            if word_of_int (ValidDataLen c3) < refill_timestamp_len w1
            then Inr (Head_abort (c3\<lparr>UsedDataLen := 0\<rparr>) w1)
            else Inr (Head_go 0 len c3 w1)))
        else if magic = [0x52, 0x49, 0x46, 0x46] \<and>
                (codec = CODEC_ID_ADPCM_IMA_WAV \<or> codec = CODEC_ID_ADPCM_MS) then
          (case riff_scan len c1 of
             Scan_fault \<Rightarrow> Inl Array_bounds
           | Scan_short c2 \<Rightarrow> Inr (Head_abort c2 w)
           | Scan_found c2 \<Rightarrow> rbind (pcm_read c2 4) (\<lambda>(ts, c3).
               let w1 = w\<lparr>wave_timestamplen := 0, wave_timestamp := 0xffffffff\<rparr> in
               if ValidDataLen c3 < len then Inr (Head_abort c3 w1)
               else Inr (Head_go 0 len c3 w1)))
        else rbind (need Array_bounds (put_bytes (pwavebuf w) 0 magic)) (\<lambda>m.
          let w1 = w\<lparr>pwavebuf := m\<rparr>;
              w2 = w1\<lparr>wave_timestamplen := 0, wave_timestamp := 0xffffffff\<rparr> in
          if ValidDataLen c1 < len - 4
          then Inr (Head_abort (c1\<lparr>UsedDataLen := 0\<rparr>)
                 (if magic = [0x52, 0x49, 0x46, 0x46] then w2 else w1))
          else Inr (Head_go 4 (len - 4) c1 w2))))"

definition refill :: "codec \<Rightarrow> int \<Rightarrow> pcm_read_ctl \<Rightarrow> wave \<Rightarrow> adpcm_fault + int \<times> pcm_read_ctl \<times> wave" where
  "refill codec len c w =
     rbind (if wave_timestamplen w = 0 then refill_head codec len c w else Inr (Head_go 0 len c w))
       (\<lambda>h. case h of
          Head_abort c' w' \<Rightarrow> Inr (- 1, c', w')
        | Head_go off n c' w' \<Rightarrow>
            if wave_timestamplen w' \<noteq> 0 then
              rbind (read_wave off (sint (refill_timestamp_len w')) c' w')
                (\<lambda>(c2, w2). Inr (sint (refill_timestamp_len w2), c2, w2))
            else rbind (read_wave off n c' w') (\<lambda>(c2, w2). Inr (len, c2, w2)))"

section \<open>The decoders\<close>

text \<open>The result of one decoder: return value, samples left in the caller's buffer, new state.\<close>

type_synonym decoded = "int \<times> int list option \<times> pcm_read_ctl \<times> wave"

text \<open>
  \<open>runalawdecoder\<close> and \<open>runulawdecoder\<close> differ in the conversion only: \<open>tmp\<close> bytes are converted into
  \<open>pcm_buf\<close>, and \<open>WAVE_BLOCK_SIZE\<close> samples are copied out whatever \<open>tmp\<close> is.
\<close>

definition convert_bytes :: "(byte \<Rightarrow> int) \<Rightarrow> nat \<Rightarrow> wave \<Rightarrow> adpcm_fault + wave" where
  "convert_bytes f n w =
     rbind (need Array_bounds (slice (pwavebuf w) 0 n)) (\<lambda>bs.
       rbind (need Array_bounds (put_bytes (pcm_buf w) 0 (map (\<lambda>b. s16 (f b)) bs)))
         (\<lambda>m. Inr (w\<lparr>pcm_buf := m\<rparr>)))"

definition runlawdecoder :: "(byte \<Rightarrow> int) \<Rightarrow> codec \<Rightarrow> pcm_read_ctl \<Rightarrow> wave \<Rightarrow> adpcm_fault + decoded" where
  "runlawdecoder f codec c w =
     rbind (refill codec (int WAVE_BLOCK_SIZE) c w) (\<lambda>(tmp, c1, w1).
       if tmp < 0 then Inr (- 1, None, c1, w1)
       else rbind (convert_bytes f (nat tmp) w1) (\<lambda>w2.
         rbind (need Array_bounds (slice (pcm_buf w2) 0 WAVE_BLOCK_SIZE)) (\<lambda>out.
           Inr (int WAVE_BLOCK_SIZE * 2, Some out, c1, w2))))"

text \<open>
  The block header of the ADPCM decoders. Without a block size from the container, the stream is
  searched for the sync word 11 22 33 44, followed by a big-endian block size read through plain
  \<open>char\<close>; \<open>Inr (Inl c)\<close> is a return of \<open>-1\<close>.
\<close>

function sync_scan :: "byte list \<Rightarrow> pcm_read_ctl \<Rightarrow> adpcm_fault + pcm_read_ctl + pcm_read_ctl" where
  "sync_scan win c =
     (if win = [0x11, 0x22, 0x33, 0x44] then Inr (Inr c)
      else if ValidDataLen c < 1 then Inr (Inl (c\<lparr>UsedDataLen := UsedDataLen c - 3\<rparr>))
      else case at (BufStart c) (pcur c) of
          None \<Rightarrow> Inl Array_bounds
        | Some b \<Rightarrow> sync_scan (tl win @ [b]) (skip 1 c))"
  by pat_completeness auto
termination
  by (relation "measure (\<lambda>(win, c). nat (ValidDataLen c))") (auto simp: skip_def)

definition block_header ::
    "(byte \<Rightarrow> int) \<Rightarrow> pcm_read_ctl \<Rightarrow> wave \<Rightarrow> adpcm_fault + pcm_read_ctl + u32 \<times> pcm_read_ctl" where
  "block_header cv c w =
     (if block_align w = 0 then
        if ValidDataLen c < 4 then Inr (Inl (c\<lparr>UsedDataLen := 0\<rparr>))
        else rbind (pcm_read c 4) (\<lambda>(win, c1).
          rbind (sync_scan win c1) (\<lambda>r. case r of
            Inl c2 \<Rightarrow> Inr (Inl c2)
          | Inr c2 \<Rightarrow>
              if ValidDataLen c2 < 2 then Inr (Inl (c2\<lparr>UsedDataLen := UsedDataLen c2 - 4\<rparr>))
              else rbind (pcm_read c2 2) (\<lambda>(bs, c3).
                let block_size = word_of_int (or (cv (bs ! 0) * 256) (cv (bs ! 1))) in
                if word_of_int (ValidDataLen c3) < block_size
                then Inr (Inl (c3\<lparr>UsedDataLen := UsedDataLen c3 - 6\<rparr>))
                else Inr (Inr (block_size, c3)))))
      else let block_size = word_of_int (block_align w) in
        if word_of_int (ValidDataLen c) < block_size then Inr (Inl (c\<lparr>UsedDataLen := 0\<rparr>))
        else Inr (Inr (block_size, c)))"

text \<open>
  \<open>runimaadpcmdecoder\<close>. The sample count is computed from \<open>block_align\<close>, also when the block size
  came from a sync header; \<open>memcpy\<close> of a negative count is a fault.
\<close>

definition runimaadpcmdecoder ::
    "(byte \<Rightarrow> int) \<Rightarrow> codec \<Rightarrow> pcm_read_ctl \<Rightarrow> wave \<Rightarrow> (adpcm_fault + decoded) option" where
  "runimaadpcmdecoder cv codec c w =
     (case block_header cv c w of
        Inl e \<Rightarrow> Some (Inl e)
      | Inr (Inl c1) \<Rightarrow> Some (Inr (- 1, None, c1, w))
      | Inr (Inr (block_size, c1)) \<Rightarrow>
          if block_size < 4 then Some (Inr (0, None, c1, w))
          else case refill codec (sint block_size) c1 w of
            Inl e \<Rightarrow> Some (Inl e)
          | Inr (tmp, c2, w2) \<Rightarrow>
              if tmp < 0 then Some (Inr (- 1, None, c2\<lparr>UsedDataLen := UsedDataLen c1\<rparr>, w2))
              else let n = (block_align w2 - 4 * int (mgr_ch w2)) * 2 + int (mgr_ch w2) in
                (case adpcmdec_decode_ima_block cv (mgr_ch w2) n (pwavebuf w2) (pcm_buf w2) of
                   None \<Rightarrow> None
                 | Some (Inl e) \<Rightarrow> Some (Inl e)
                 | Some (Inr (ok, m)) \<Rightarrow>
                     if n < 0 then Some (Inl Array_bounds)
                     else Some (rbind (need Array_bounds (slice m 0 (nat n)))
                            (\<lambda>out. Inr (n * 2, Some out, c2, w2\<lparr>pcm_buf := m\<rparr>)))))"

text \<open>
  \<open>runmsadpcmdecoder\<close>. Its \<open>tmp\<close> is unsigned, so the test for a failed \<open>refill\<close> is never true and the
  block buffer is decoded whatever it holds. The samples go to \<open>pcm_buf\<close> and, a multiple of the
  channel count of them, to the caller.
\<close>

definition runmsadpcmdecoder ::
    "(byte \<Rightarrow> int) \<Rightarrow> codec \<Rightarrow> pcm_read_ctl \<Rightarrow> wave \<Rightarrow> (adpcm_fault + decoded) option" where
  "runmsadpcmdecoder cv codec c w =
     (case block_header cv c w of
        Inl e \<Rightarrow> Some (Inl e)
      | Inr (Inl c1) \<Rightarrow> Some (Inr (- 1, None, c1, w))
      | Inr (Inr (block_size, c1)) \<Rightarrow>
          if block_size < 4 then Some (Inr (0, None, c1, w))
          else case refill codec (sint block_size) c1 w of
            Inl e \<Rightarrow> Some (Inl e)
          | Inr (tmp, c2, w2) \<Rightarrow>
              (case ms_adpcm_decode_block (length (pcm_buf w2)) (pwavebuf w2) (mgr_ch w2) (unat block_size) of
                 None \<Rightarrow> None
               | Some (Inl e) \<Rightarrow> Some (Inl e)
               | Some (Inr xs) \<Rightarrow>
                   let n = length xs - length xs mod mgr_ch w2;
                       m = xs @ drop (length xs) (pcm_buf w2) in
                   Some (Inr (int n * 2, Some (take n m), c2, w2\<lparr>pcm_buf := m\<rparr>))))"

text \<open>
  \<open>runpcmdecoder\<close> never writes to the caller's buffer. The conversion of 8-bit samples runs in steps
  of four.
\<close>

definition runpcmdecoder :: "codec \<Rightarrow> pcm_read_ctl \<Rightarrow> wave \<Rightarrow> adpcm_fault + decoded" where
  "runpcmdecoder codec c w =
     rbind (refill codec (int WAVE_BLOCK_SIZE) c w) (\<lambda>(tmp, c1, w1).
       if tmp < 0 then Inr (- 1, None, c1, w1)
       else if mgr_bps w1 = SAMPLE_FMT_U8 then
         rbind (convert_bytes (\<lambda>b. (ub b - 0x80) * 256) (4 * ((nat tmp + 3) div 4)) w1) (\<lambda>w2.
           Inr (int WAVE_BLOCK_SIZE * 2, None, c1, w2))
       else Inr (int WAVE_BLOCK_SIZE div 2 * 2, None, c1, w1))"

definition adpcm_decode_frame ::
    "(byte \<Rightarrow> int) \<Rightarrow> codec \<Rightarrow> pcm_read_ctl \<Rightarrow> wave \<Rightarrow> (adpcm_fault + decoded) option" where
  "adpcm_decode_frame cv codec c w =
     (case codec of
        CODEC_ID_PCM_ALAW \<Rightarrow> Some (runlawdecoder alaw2linear codec c w)
      | CODEC_ID_PCM_MULAW \<Rightarrow> Some (runlawdecoder ulaw2linear codec c w)
      | CODEC_ID_ADPCM_IMA_WAV \<Rightarrow> runimaadpcmdecoder cv codec c w
      | CODEC_ID_ADPCM_MS \<Rightarrow> runmsadpcmdecoder cv codec c w
      | CODEC_ID_OTHER \<Rightarrow> Some (runpcmdecoder codec c w))"

record decode_result =
  consumed :: int
  outlen :: int
  outbuf :: "int list option"
  after :: wave

definition audio_dec_decode ::
    "(byte \<Rightarrow> int) \<Rightarrow> codec \<Rightarrow> byte list \<Rightarrow> wave \<Rightarrow> (adpcm_fault + decode_result) option" where
  "audio_dec_decode cv codec inbuf w =
     (case adpcm_decode_frame cv codec (pcm_read_init inbuf (int (length inbuf))) w of
        None \<Rightarrow> None
      | Some r \<Rightarrow> Some (rbind r (\<lambda>(n, out, c, w').
          Inr \<lparr>consumed = UsedDataLen c, outlen = n, outbuf = out, after = w'\<rparr>)))"

text \<open>
  \<open>audio_dec_init\<close>: the two buffers (contents \<open>b0\<close>, \<open>b1\<close> from \<open>malloc\<close>, \<open>None\<close> when it fails) and the
  parameters; \<open>refill_timestamp_len\<close> keeps its value.
\<close>

definition audio_dec_init ::
    "byte list option \<Rightarrow> int list option \<Rightarrow> nat \<Rightarrow> int \<Rightarrow> wave \<Rightarrow> int \<times> wave" where
  "audio_dec_init b0 b1 channels block_size w =
     (case b0 of None \<Rightarrow> (- 1, w\<lparr>pwavebuf := []\<rparr>)
      | Some m0 \<Rightarrow>
         (case b1 of None \<Rightarrow> (- 1, w\<lparr>pwavebuf := m0, pcm_buf := []\<rparr>)
          | Some m1 \<Rightarrow> (0, w\<lparr>pwavebuf := m0, pcm_buf := m1, mgr_bps := SAMPLE_FMT_S16,
               mgr_ch := channels, block_align := block_size, wave_timestamplen := 0\<rparr>)))"

definition audio_dec_release :: "wave \<Rightarrow> int \<times> wave" where
  "audio_dec_release w = (0, w\<lparr>pwavebuf := [], pcm_buf := []\<rparr>)"

section \<open>Refilling without headers\<close>

text \<open>The cursor is consistent: the valid bytes lie in the input after the read position.\<close>

definition ctl_wf :: "pcm_read_ctl \<Rightarrow> bool" where
  "ctl_wf c \<longleftrightarrow> 0 \<le> ValidDataLen c \<and> pcur c + nat (ValidDataLen c) \<le> length (BufStart c)"

definition wave_wf :: "wave \<Rightarrow> bool" where
  "wave_wf w \<longleftrightarrow> length (pwavebuf w) = WAVE_BLOCK_SIZE \<and> length (pcm_buf w) = 2 * WAVE_BLOCK_SIZE"

definition rest_of :: "pcm_read_ctl \<Rightarrow> byte list" where
  "rest_of c = take (nat (ValidDataLen c)) (drop (pcur c) (BufStart c))"

text \<open>Neither of the two magic words starts the input.\<close>

definition no_magic :: "byte list \<Rightarrow> bool" where
  "no_magic bs \<longleftrightarrow> take 4 bs \<noteq> [0x41, 0x50, 0x54, 0x53] \<and> take 4 bs \<noteq> [0x52, 0x49, 0x46, 0x46]"

lemma no_magic_first: "bs \<noteq> [] \<Longrightarrow> bs ! 0 \<noteq> 0x41 \<Longrightarrow> bs ! 0 \<noteq> 0x52 \<Longrightarrow> no_magic bs"
  by (cases bs) (auto simp: no_magic_def)

lemma skip_simps [simp]:
  "ValidDataLen (skip n c) = ValidDataLen c - int n" "UsedDataLen (skip n c) = UsedDataLen c + int n"
  "BufStart (skip n c) = BufStart c" "pcur (skip n c) = pcur c + n"
  by (simp_all add: skip_def)

lemma skip_skip [simp]: "skip m (skip n c) = skip (n + m) c"
  by (simp add: skip_def)

lemma length_rest_of: "ctl_wf c \<Longrightarrow> length (rest_of c) = nat (ValidDataLen c)"
  by (auto simp: ctl_wf_def rest_of_def min_def)

lemma pcm_read_ok:
  assumes "ctl_wf c" "int n \<le> ValidDataLen c"
  shows "pcm_read c (int n) = Inr (take n (rest_of c), skip n c)"
  using assms by (auto simp: pcm_read_def slice_def ctl_wf_def rest_of_def skip_def min_def nat_le_iff)

lemma ctl_wf_skip: "ctl_wf c \<Longrightarrow> int n \<le> ValidDataLen c \<Longrightarrow> ctl_wf (skip n c)"
  by (auto simp: ctl_wf_def)

lemma rest_of_skip: "ctl_wf c \<Longrightarrow> int n \<le> ValidDataLen c \<Longrightarrow> rest_of (skip n c) = drop n (rest_of c)"
  by (auto simp: ctl_wf_def rest_of_def drop_take nat_diff_distrib add.commute)

lemma read_wave_ok:
  assumes "ctl_wf c" "int n \<le> ValidDataLen c" "off + n \<le> length (pwavebuf w)"
  shows "read_wave off (int n) c w = Inr (skip n c,
     w\<lparr>pwavebuf := take off (pwavebuf w) @ take n (rest_of c) @ drop (off + n) (pwavebuf w)\<rparr>)"
proof -
  have "length (take n (rest_of c)) = n" using assms by (simp add: length_rest_of nat_le_iff le_nat_iff)
  then show ?thesis using assms
    by (simp add: read_wave_def pcm_read_ok put_bytes_Some)
qed

lemma refill_plain:
  assumes c: "ctl_wf c" "int len \<le> ValidDataLen c" and w: "wave_timestamplen w = 0"
    and len: "4 \<le> len" "len \<le> length (pwavebuf w)" and m: "no_magic (rest_of c)"
  shows "refill codec (int len) c w = Inr (int len, skip len c,
     w\<lparr>pwavebuf := take len (rest_of c) @ drop len (pwavebuf w), wave_timestamp := 0xffffffff\<rparr>)"
proof -
  have l4: "length (take 4 (rest_of c)) = 4"
    using c len by (simp add: length_rest_of nat_le_iff le_nat_iff)
  let ?w1 = "w\<lparr>pwavebuf := take 4 (rest_of c) @ drop 4 (pwavebuf w), wave_timestamplen := 0,
      wave_timestamp := 0xffffffff\<rparr>"
  have "pcm_read c 4 = Inr (take 4 (rest_of c), skip 4 c)"
    using pcm_read_ok [OF c(1), of 4] c(2) len(1) by simp
  then have "refill_head codec (int len) c w = Inr (Head_go 4 (int (len - 4)) (skip 4 c) ?w1)"
    using c len m l4 by (simp add: refill_head_def no_magic_def put_bytes_Some Let_def of_nat_diff)
  moreover have "read_wave 4 (int (len - 4)) (skip 4 c) ?w1 = Inr (skip (len - 4) (skip 4 c),
      ?w1\<lparr>pwavebuf := take 4 (pwavebuf ?w1) @ take (len - 4) (rest_of (skip 4 c)) @
            drop (4 + (len - 4)) (pwavebuf ?w1)\<rparr>)"
    using c len l4 by (intro read_wave_ok ctl_wf_skip) (simp_all add: of_nat_diff)
  moreover have "take 4 (rest_of c) @ take (len - 4) (drop 4 (rest_of c)) = take len (rest_of c)"
    using len(1) by (metis le_add_diff_inverse take_add)
  ultimately show ?thesis
    using c len l4 w by (simp add: refill_def rest_of_skip flip: append_assoc)
qed

lemma refill_short:
  assumes c: "ctl_wf c" "ValidDataLen c < int len" "4 \<le> ValidDataLen c" and w: "wave_timestamplen w = 0"
    and len: "4 \<le> length (pwavebuf w)" and m: "no_magic (rest_of c)"
  shows "refill codec (int len) c w = Inr (- 1, (skip 4 c)\<lparr>UsedDataLen := 0\<rparr>,
     w\<lparr>pwavebuf := take 4 (rest_of c) @ drop 4 (pwavebuf w)\<rparr>)"
proof -
  have l4: "length (take 4 (rest_of c)) = 4"
    using c by (simp add: length_rest_of nat_le_iff le_nat_iff)
  have "pcm_read c 4 = Inr (take 4 (rest_of c), skip 4 c)"
    using pcm_read_ok [OF c(1), of 4] c(3) by simp
  then show ?thesis
    using c len m l4 w by (simp add: refill_def refill_head_def no_magic_def put_bytes_Some Let_def)
qed

lemma init_wf: "ctl_wf (pcm_read_init d (int (length d)))" "rest_of (pcm_read_init d (int (length d))) = d"
  "ValidDataLen (pcm_read_init d (int (length d))) = int (length d)"
  "UsedDataLen (pcm_read_init d (int (length d))) = 0"
  by (simp_all add: ctl_wf_def pcm_read_init_def rest_of_def)

lemma runlaw_full:
  assumes "ctl_wf c" "int WAVE_BLOCK_SIZE \<le> ValidDataLen c" "wave_wf w" "wave_timestamplen w = 0"
    and "no_magic (rest_of c)" "\<And>b. in_s16 (f b)"
  shows "\<exists>w'. runlawdecoder f codec c w = Inr (2 * int WAVE_BLOCK_SIZE,
      Some (map f (take WAVE_BLOCK_SIZE (rest_of c))), skip WAVE_BLOCK_SIZE c, w') \<and>
    wave_wf w' \<and> wave_timestamplen w' = 0"
proof -
  let ?bs = "take WAVE_BLOCK_SIZE (rest_of c)"
  have l: "length ?bs = WAVE_BLOCK_SIZE"
    using assms(1,2) by (simp add: length_rest_of nat_le_iff le_nat_iff)
  have r: "refill codec (int WAVE_BLOCK_SIZE) c w = Inr (int WAVE_BLOCK_SIZE, skip WAVE_BLOCK_SIZE c,
     w\<lparr>pwavebuf := ?bs @ drop WAVE_BLOCK_SIZE (pwavebuf w), wave_timestamp := 0xffffffff\<rparr>)"
    using assms by (intro refill_plain) (simp_all add: wave_wf_def WAVE_BLOCK_SIZE_def)
  have "map (\<lambda>b. s16 (f b)) ?bs = map f ?bs" using assms(6) by simp
  then show ?thesis
    using r l assms(3,4)
    by (simp add: runlawdecoder_def convert_bytes_def slice_def put_bytes_Some wave_wf_def)
qed

lemma runlaw_short:
  assumes "ctl_wf c" "ValidDataLen c < int WAVE_BLOCK_SIZE" "4 \<le> ValidDataLen c" "wave_wf w"
    and "wave_timestamplen w = 0" "no_magic (rest_of c)"
  shows "\<exists>w'. runlawdecoder f codec c w = Inr (- 1, None, (skip 4 c)\<lparr>UsedDataLen := 0\<rparr>, w') \<and>
    wave_wf w' \<and> wave_timestamplen w' = 0"
proof -
  have "4 \<le> length (pwavebuf w)" using assms(4) by (simp add: wave_wf_def WAVE_BLOCK_SIZE_def)
  moreover have "length (take 4 (rest_of c)) = 4"
    using assms(1,3) by (simp add: length_rest_of nat_le_iff le_nat_iff)
  ultimately show ?thesis
    using refill_short [OF assms(1,2,3,5) _ assms(6), of codec] assms(4,5)
    by (simp add: runlawdecoder_def wave_wf_def)
qed

text \<open>
  A-law and u-law streams. On input of at least 4 bytes that does not start with a header, one
  call either has a whole block, and then it consumes exactly 2048 bytes and delivers their 2048
  samples in order, or has less, and then it reports -1 and consumes nothing, so that the caller can
  come back with more data. In both cases the decoder stays ready for the next call.
\<close>

theorem law_decode_spec:
  assumes "wave_wf w" "wave_timestamplen w = 0" "no_magic d" "4 \<le> length d"
    and "codec = CODEC_ID_PCM_ALAW \<and> f = alaw2linear \<or> codec = CODEC_ID_PCM_MULAW \<and> f = ulaw2linear"
  shows "\<exists>r. audio_dec_decode cv codec d w = Some (Inr r) \<and>
    wave_wf (after r) \<and> wave_timestamplen (after r) = 0 \<and>
    (if WAVE_BLOCK_SIZE \<le> length d
     then consumed r = 2048 \<and> outlen r = 4096 \<and> outbuf r = Some (map f (take 2048 d))
     else consumed r = 0 \<and> outlen r = - 1 \<and> outbuf r = None)"
proof -
  let ?c = "pcm_read_init d (int (length d))"
  have f: "in_s16 (f b)" for b using assms(5) laws_in_s16 by auto
  have fr: "adpcm_decode_frame cv codec ?c w = Some (runlawdecoder f codec ?c w)"
    using assms(5) by (auto simp: adpcm_decode_frame_def)
  show ?thesis
  proof (cases "WAVE_BLOCK_SIZE \<le> length d")
    case True
    then obtain w' where "runlawdecoder f codec ?c w = Inr (2 * int WAVE_BLOCK_SIZE,
      Some (map f (take WAVE_BLOCK_SIZE d)), skip WAVE_BLOCK_SIZE ?c, w')" "wave_wf w'"
      "wave_timestamplen w' = 0"
      using runlaw_full [OF init_wf(1) [of d] _ assms(1,2), where f = f and codec = codec] assms(3) f
      by (auto simp: init_wf)
    then show ?thesis using True fr
      by (simp add: audio_dec_decode_def init_wf WAVE_BLOCK_SIZE_def)
  next
    case False
    then obtain w' where "runlawdecoder f codec ?c w = Inr (- 1, None, (skip 4 ?c)\<lparr>UsedDataLen := 0\<rparr>, w')"
      "wave_wf w'" "wave_timestamplen w' = 0"
      using runlaw_short [OF init_wf(1) [of d] _ _ assms(1,2), of f codec] assms(3,4)
      by (auto simp: init_wf)
    then show ?thesis using False fr by (simp add: audio_dec_decode_def)
  qed
qed

definition demo_wave :: wave where
  "demo_wave = \<lparr>wave_timestamplen = 0, wave_timestamp = 0, refill_timestamp_len = 0,
     pwavebuf = replicate 2048 0, pcm_buf = replicate 4096 0, block_align = 0, mgr_ch = 1,
     mgr_bps = SAMPLE_FMT_S16\<rparr>"

lemma demo_wave_wf: "wave_wf demo_wave" "wave_timestamplen demo_wave = 0"
  by (simp_all add: wave_wf_def demo_wave_def WAVE_BLOCK_SIZE_def)

theorem law_decode_spec_witness:
  "\<exists>r. audio_dec_decode uint CODEC_ID_PCM_ALAW (replicate 3000 0xd5) demo_wave = Some (Inr r) \<and>
     consumed r = 2048 \<and> outbuf r = Some (replicate 2048 8)"
proof -
  have a: "alaw2linear 0xd5 = 8" by (simp add: alaw2linear_def)
  have "no_magic (replicate 3000 (0xd5 :: byte))" by (rule no_magic_first) simp_all
  then show ?thesis
    using law_decode_spec [OF demo_wave_wf, of "replicate 3000 0xd5" CODEC_ID_PCM_ALAW alaw2linear uint] a
    by (auto simp: WAVE_BLOCK_SIZE_def)
qed

section \<open>IMA blocks from the stream\<close>

lemma chan_bytes_take:
  assumes "4 * ch + 4 * ch * R \<le> B" "c < ch"
  shows "chan_bytes ch c R (take B d) = chan_bytes ch c R d"
proof -
  have k: "4 * ch + (g * ch + c) * 4 + 4 \<le> B" if "g < R" for g
  proof -
    have "Suc g * ch \<le> R * ch" using that by (intro mult_le_mono1) simp
    then have "4 * ch + (g * ch + c) * 4 + 4 \<le> 4 * ch + (R * ch) * 4" using assms(2) by simp
    then show ?thesis using assms(1) by (simp add: algebra_simps)
  qed
  have "take 4 (drop x (take B d)) = take 4 (drop x d)" if "x + 4 \<le> B" for x
    using that by (simp add: drop_take min_def)
  then show ?thesis
    unfolding chan_bytes_def using k by (auto intro!: arg_cong [where f = concat])
qed

lemma ima_data_cong:
  assumes "take B x = take B y" "4 * ch + 4 * ch * R \<le> B" "c < ch" "B \<le> length x" "B \<le> length y"
  shows "chan_bytes ch c R x = chan_bytes ch c R y" "first_sample x c = first_sample y c"
    "first_index x c = first_index y c" "x ! (4 * c + 3) = y ! (4 * c + 3)"
proof -
  show "chan_bytes ch c R x = chan_bytes ch c R y"
    using chan_bytes_take [OF assms(2,3), of x] chan_bytes_take [OF assms(2,3), of y] assms(1) by simp
  have "x ! i = y ! i" if "i < B" for i
    using assms(1) that by (metis nth_take)
  then show "first_sample x c = first_sample y c" "first_index x c = first_index y c"
    "x ! (4 * c + 3) = y ! (4 * c + 3)"
    using assms(2,3) by (simp_all add: first_sample_def first_index_def)
qed

lemma every_take:
  assumes "c < ch" "ch + ch * k \<le> n" "n \<le> length xs"
  shows "every ch c (take n xs) (Suc k) = every ch c xs (Suc k)"
proof -
  have "c + ch * j < n" if "j < Suc k" for j
  proof -
    have "ch * j \<le> ch * k" using that by (intro mult_le_mono2) simp
    then show ?thesis using assms(1,2) by linarith
  qed
  then show ?thesis by (simp add: every_def)
qed

lemma word_of_int_small [simp]:
  "0 \<le> x \<Longrightarrow> x < 2147483648 \<Longrightarrow> sint (word_of_int x :: u32) = x"
  "0 \<le> x \<Longrightarrow> x < 2147483648 \<Longrightarrow> uint (word_of_int x :: u32) = x"
  by (simp_all add: signed_of_int signed_take_bit_int_eq_self unsigned_of_int take_bit_int_eq_self)

text \<open>
  C34: IMA streams with a block size from the container. For one or two channels and a block of
  whole rounds that fits the block buffer, input with a whole header-free, synchronised block makes
  one call consume exactly the block and deliver all its samples, each channel's being the
  reference decoding of its codes.
\<close>

theorem ima_decode_spec:
  assumes w: "wave_wf w" "wave_timestamplen w = 0" "mgr_ch w = ch" "block_align w = int (4 * ch + 4 * ch * R)"
    and ch: "0 < ch" "ch \<le> 2" and b: "4 * ch + 4 * ch * R \<le> WAVE_BLOCK_SIZE"
    and d: "4 * ch + 4 * ch * R \<le> length d" "length d < 2147483648" "no_magic d"
    and sync: "\<forall>c < ch. d ! (4 * c + 3) = 0"
  shows "\<exists>r out. audio_dec_decode uint CODEC_ID_ADPCM_IMA_WAV d w = Some (Inr r) \<and>
     consumed r = block_align w \<and> outlen r = 2 * int (ch + 8 * ch * R) \<and> outbuf r = Some out \<and>
     length out = ch + 8 * ch * R \<and>
     (\<forall>c < ch. every ch c out (1 + 8 * R) =
        first_sample d c # ima_ref (first_sample d c) (first_index d c) (nibbles (chan_bytes ch c R d)))"
proof -
  define B where "B = 4 * ch + 4 * ch * R"
  define n where "n = ch + 8 * ch * R"
  let ?c = "pcm_read_init d (int (length d))"
  let ?w = "w\<lparr>pwavebuf := take B d @ drop B (pwavebuf w), wave_timestamp := 0xffffffff\<rparr>"
  have B: "4 \<le> B" "B \<le> 2048" "B \<le> length d" "block_align w = int B"
    using ch b d w(4) by (simp_all add: B_def WAVE_BLOCK_SIZE_def)
  have u: "uint (word_of_int (int (length d)) :: u32) = int (length d)"
    "uint (word_of_int (int B) :: u32) = int B"
    by (rule word_of_int_small; use B d(2) in simp)+
  have "\<not> (word_of_int (int (length d)) :: u32) < word_of_int (int B)"
    using B(3) by (simp only: word_less_def u)
  then have h: "block_header uint ?c w = Inr (Inr (word_of_int (int B), ?c))"
    using B by (simp add: block_header_def init_wf Let_def)
  have s4: "\<not> (word_of_int (int B) :: u32) < 4" using B(1) by (simp only: word_less_def u) simp
  have si: "sint (word_of_int (int B) :: u32) = int B" using B by (intro word_of_int_small) simp_all
  have lw: "B \<le> length (pwavebuf w)" "length (pwavebuf w) = 2048" "length (pcm_buf w) = 4096"
    using w(1) B by (simp_all add: wave_wf_def WAVE_BLOCK_SIZE_def)
  have r: "refill CODEC_ID_ADPCM_IMA_WAV (int B) ?c w = Inr (int B, skip B ?c, ?w)"
    using refill_plain [OF init_wf(1) [of d] _ w(2) B(1) lw(1), of CODEC_ID_ADPCM_IMA_WAV] B d(3)
    by (simp add: init_wf)
  have cong: "take B (pwavebuf ?w) = take B d" "B \<le> length (pwavebuf ?w)" using B lw by simp_all
  have n: "n \<le> 4096" "2 * n = 2 * ch + 4 * (B - 4 * ch)" using B ch by (simp_all add: n_def B_def)
  have bn: "(block_align ?w - 4 * int (mgr_ch ?w)) * 2 + int (mgr_ch ?w) = int n"
    using w(3,4) by (simp add: n_def)
  obtain m where m: "adpcmdec_decode_ima_block uint ch (int n) (pwavebuf ?w) (pcm_buf ?w) = Some (Inr (1, m))"
    "length m = 4096"
    "\<forall>c < ch. every ch c m (1 + 8 * R) = first_sample d c #
        ima_ref (first_sample d c) (first_index d c) (nibbles (chan_bytes ch c R d))"
    using ima_block_run [OF ch, of R "pwavebuf ?w" "pcm_buf ?w"] sync cong B n lw
      ima_data_cong [OF cong(1), of ch R] unfolding n_def B_def by auto
  have "runimaadpcmdecoder uint CODEC_ID_ADPCM_IMA_WAV ?c w =
      Some (Inr (2 * int n, Some (take n m), skip B ?c, ?w\<lparr>pcm_buf := m\<rparr>))"
    unfolding runimaadpcmdecoder_def
    by (simp only: h sum.case prod.case s4 if_False si r bn Let_def)
       (use m n w(3) in \<open>simp add: slice_def\<close>)
  moreover have "every ch c (take n m) (1 + 8 * R) = every ch c m (1 + 8 * R)" if "c < ch" for c
    using every_take [OF that, of "8 * R" n m] n m(2) by (simp add: n_def)
  ultimately show ?thesis
    using m B(4) n
    by (simp add: audio_dec_decode_def adpcm_decode_frame_def init_wf n_def)
qed

theorem ima_decode_spec_witness:
  "\<exists>r. audio_dec_decode uint CODEC_ID_ADPCM_IMA_WAV ([9, 0, 3, 0] @ replicate 8 0x70)
        (demo_wave\<lparr>block_align := 8\<rparr>) = Some (Inr r) \<and> consumed r = 8 \<and> outlen r = 18"
proof -
  let ?w = "demo_wave\<lparr>block_align := 8\<rparr>" and ?d = "[9, 0, 3, 0] @ replicate 8 0x70 :: byte list"
  have "wave_wf ?w" "wave_timestamplen ?w = 0" "mgr_ch ?w = 1" "block_align ?w = int (4 * 1 + 4 * 1 * 1)"
    by (simp_all add: demo_wave_def wave_wf_def WAVE_BLOCK_SIZE_def)
  moreover have "no_magic ?d" by (rule no_magic_first) simp_all
  ultimately show ?thesis
    using ima_decode_spec [of ?w 1 1 ?d] by (auto simp: WAVE_BLOCK_SIZE_def demo_wave_def)
qed

section \<open>Where the stream code goes wrong\<close>

text \<open>Once a time-stamped block is under way, \<open>refill\<close> looks at no header any more.\<close>

lemma refill_under_way:
  assumes "ctl_wf c" "wave_timestamplen w \<noteq> 0" "refill_timestamp_len w = of_nat n"
    and "n \<le> length (pwavebuf w)" "n < 2147483648" "int n \<le> ValidDataLen c"
  shows "refill codec len c w = Inr (int n, skip n c,
     w\<lparr>pwavebuf := take n (rest_of c) @ drop n (pwavebuf w)\<rparr>)"
proof -
  have "sint (refill_timestamp_len w) = int n"
    using assms(3,5) by (simp add: signed_of_nat signed_take_bit_int_eq_self)
  then show ?thesis using assms read_wave_ok [OF assms(1,6), of 0 w] by (simp add: refill_def)
qed

lemma runlaw_under_way:
  assumes c: "ctl_wf c" "int n \<le> ValidDataLen c" and w: "wave_wf w" "wave_timestamplen w \<noteq> 0"
    and n: "refill_timestamp_len w = of_nat n" "n \<le> WAVE_BLOCK_SIZE" and f: "\<And>b. in_s16 (f b)"
  shows "\<exists>out w'. runlawdecoder f codec c w = Inr (4096, Some out, skip n c, w') \<and>
     take n out = map f (take n (rest_of c))"
proof -
  define xs where "xs = take n (rest_of c)"
  have l: "length xs = n" using c by (simp add: xs_def length_rest_of nat_le_iff le_nat_iff)
  have n': "n \<le> 2048" using n(2) by (simp add: WAVE_BLOCK_SIZE_def)
  have lw: "length (pwavebuf w) = 2048" "length (pcm_buf w) = 4096"
    using w(1) by (simp_all add: wave_wf_def WAVE_BLOCK_SIZE_def)
  have "map (\<lambda>b. s16 (f b)) xs = map f xs" using f by simp
  moreover have "refill codec (int WAVE_BLOCK_SIZE) c w =
      Inr (int n, skip n c, w\<lparr>pwavebuf := xs @ drop n (pwavebuf w)\<rparr>)"
    using refill_under_way [OF c(1) w(2) n(1), of codec "int WAVE_BLOCK_SIZE"] n' lw c(2)
    by (simp add: xs_def)
  ultimately show ?thesis
    using l lw n'
    by (simp add: runlawdecoder_def convert_bytes_def slice_def put_bytes_Some WAVE_BLOCK_SIZE_def
          xs_def [symmetric] min_def)
qed

lemma be_u32_be_bytes: "n < 4294967296 \<Longrightarrow> be_u32 (be_bytes 4 n) = of_nat n"
  by (simp add: be_u32_def foldl_be_bytes)

definition apts_header :: "byte list \<Rightarrow> nat \<Rightarrow> byte list" where
  "apts_header ts n = [0x41, 0x50, 0x54, 0x53] @ ts @ be_bytes 4 n"

lemma refill_apts_short:
  assumes c: "ctl_wf c" and w: "wave_timestamplen w = 0" and ts: "length ts = 4"
    and n: "0 < n" "n < 2147483648" and r: "rest_of c = apts_header ts n @ body" "length body < n"
  shows "\<exists>c' w'. refill codec len c w = Inr (- 1, c', w') \<and> UsedDataLen c' = 0 \<and>
     w' = w\<lparr>wave_timestamp := be_u32 ts, wave_timestamplen := of_nat n, refill_timestamp_len := of_nat n\<rparr>"
proof -
  let ?h = "apts_header ts n"
  have lh: "length ?h = 12" using ts by (simp add: apts_header_def)
  have v: "ValidDataLen c = 12 + int (length body)"
    using length_rest_of [OF c] r(1) lh c by (simp add: ctl_wf_def)
  have p1: "pcm_read c 4 = Inr ([0x41, 0x50, 0x54, 0x53], skip 4 c)"
    using pcm_read_ok [OF c, of 4] v r(1) by (simp add: apts_header_def)
  have p2: "pcm_read (skip 4 c) 4 = Inr (ts, skip 8 c)"
    using pcm_read_ok [OF ctl_wf_skip [OF c, of 4], of 4] v r(1) ts
    by (simp add: rest_of_skip [OF c] apts_header_def)
  have p3: "pcm_read (skip 8 c) 4 = Inr (be_bytes 4 n, skip 12 c)"
    using pcm_read_ok [OF ctl_wf_skip [OF c, of 8], of 4] v r(1) ts
    by (simp add: rest_of_skip [OF c] apts_header_def)
  have z: "(of_nat n :: u32) \<noteq> 0" using n by (simp add: word_unat_eq_iff unsigned_of_nat take_bit_nat_eq_self)
  have "(word_of_int (int (length body)) :: u32) < of_nat n"
    using r(2) n by (simp add: word_less_nat_alt unsigned_of_nat take_bit_nat_eq_self)
  then have "refill_head codec len c w = Inr (Head_abort ((skip 12 c)\<lparr>UsedDataLen := 0\<rparr>)
     (w\<lparr>wave_timestamp := be_u32 ts, wave_timestamplen := of_nat n, refill_timestamp_len := of_nat n\<rparr>))"
    using p1 p2 p3 v n(2) by (simp add: refill_head_def Let_def be_u32_be_bytes)
  then show ?thesis using w by (simp add: refill_def)
qed

text \<open>
  a time-stamped block that arrives in two pieces. The first call sees the APTS header and too
  few of the \<open>n\<close> bytes behind it: it reports -1 and consumes nothing, so the caller comes back with
  the same bytes and the rest of the block, but the decoder has kept the length of the block under
  way and takes the first \<open>n\<close> bytes, header included, as samples.
\<close>

theorem apts_retry_decodes_header:
  assumes w: "wave_wf w" "wave_timestamplen w = 0" and ts: "length ts = 4"
    and n: "0 < n" "n \<le> WAVE_BLOCK_SIZE" and b: "length body1 < n" "n \<le> length (body1 @ body2)"
  shows "\<exists>r1 r2 out.
     audio_dec_decode cv CODEC_ID_PCM_ALAW (apts_header ts n @ body1) w = Some (Inr r1) \<and>
     consumed r1 = 0 \<and> outlen r1 = - 1 \<and>
     audio_dec_decode cv CODEC_ID_PCM_ALAW (apts_header ts n @ body1 @ body2) (after r1) = Some (Inr r2) \<and>
     consumed r2 = int n \<and> outbuf r2 = Some out \<and>
     take n out = map alaw2linear (take n (apts_header ts n @ body1 @ body2))"
proof -
  let ?d1 = "apts_header ts n @ body1" and ?d2 = "apts_header ts n @ body1 @ body2"
  let ?c1 = "pcm_read_init ?d1 (int (length ?d1))" and ?c2 = "pcm_read_init ?d2 (int (length ?d2))"
  let ?w1 = "w\<lparr>wave_timestamp := be_u32 ts, wave_timestamplen := of_nat n, refill_timestamp_len := of_nat n\<rparr>"
  have n': "n < 2147483648" "n \<le> 2048" using n(2) by (simp_all add: WAVE_BLOCK_SIZE_def)
  have lw: "length (pwavebuf w) = 2048" "length (pcm_buf w) = 4096"
    using w(1) by (simp_all add: wave_wf_def WAVE_BLOCK_SIZE_def)
  obtain c' where "refill CODEC_ID_PCM_ALAW (int WAVE_BLOCK_SIZE) ?c1 w = Inr (- 1, c', ?w1)"
    "UsedDataLen c' = 0"
    using refill_apts_short [OF init_wf(1) [of ?d1] w(2) ts n(1) n'(1) init_wf(2) [of ?d1] b(1)] by metis
  then have r1: "audio_dec_decode cv CODEC_ID_PCM_ALAW ?d1 w =
      Some (Inr \<lparr>consumed = 0, outlen = - 1, outbuf = None, after = ?w1\<rparr>)"
    by (simp add: audio_dec_decode_def adpcm_decode_frame_def runlawdecoder_def)
  have "(of_nat n :: u32) \<noteq> 0"
    using n n' by (simp add: word_unat_eq_iff unsigned_of_nat take_bit_nat_eq_self)
  moreover have "wave_wf ?w1" using w(1) by (simp add: wave_wf_def)
  ultimately obtain out w' where "runlawdecoder alaw2linear CODEC_ID_PCM_ALAW ?c2 ?w1 =
      Inr (4096, Some out, skip n ?c2, w')" "take n out = map alaw2linear (take n ?d2)"
    using runlaw_under_way [OF init_wf(1) [of ?d2], of n ?w1 alaw2linear CODEC_ID_PCM_ALAW] n(2) b(2)
      laws_in_s16(1) init_wf [of ?d2] by auto
  then have "audio_dec_decode cv CODEC_ID_PCM_ALAW ?d2 ?w1 = Some (Inr \<lparr>consumed = int n, outlen = 4096,
      outbuf = Some out, after = w'\<rparr>)" "take n out = map alaw2linear (take n ?d2)"
    by (simp_all add: audio_dec_decode_def adpcm_decode_frame_def pcm_read_init_def)
  then show ?thesis using r1
    by (intro exI [of _ "\<lparr>consumed = 0, outlen = - 1, outbuf = None, after = ?w1\<rparr>"] exI) auto
qed

theorem apts_retry_decodes_header_witness:
  "\<exists>r1. audio_dec_decode uint CODEC_ID_PCM_ALAW (apts_header [0, 0, 0, 9] 16 @ [1, 2]) demo_wave = Some (Inr r1) \<and>
     consumed r1 = 0 \<and> outlen r1 = - 1 \<and> audio_dec_decode uint CODEC_ID_PCM_ALAW
       (apts_header [0, 0, 0, 9] 16 @ [1, 2] @ replicate 14 3) (after r1) \<noteq> None"
  using apts_retry_decodes_header [OF demo_wave_wf, of "[0, 0, 0, 9]" 16 "[1, 2]" "replicate 14 3" uint]
  by (auto simp: WAVE_BLOCK_SIZE_def)

lemma ima_preamble_total:
  assumes "ch = 1 \<or> ch = 2" "8 \<le> length d" "2 \<le> length out"
  shows "\<exists>ok st. ima_preamble cv d ch 0 \<lparr>samples = out, stepindex = [0, 0]\<rparr> = Inr (ok, st)"
  using assms
  by (elim disjE) (auto simp: read_sample_def at_def Let_def numeral_2_eq_2)

lemma ima_block_no_samples:
  assumes "ch = 1 \<or> ch = 2" "8 \<le> length d" "2 \<le> length out" "n = - 8 * int ch + int ch"
  shows "\<exists>ok m. adpcmdec_decode_ima_block cv ch n d out = Some (Inr (ok, m))"
proof -
  obtain ok st where "ima_preamble cv d ch 0 \<lparr>samples = out, stepindex = [0, 0]\<rparr> = Inr (ok, st)"
    using ima_preamble_total [OF assms(1-3)] by blast
  moreover have "ima_rounds ch d n ch (4 * ch) st = Some (Inr st)"
    using assms(4) by (subst ima_rounds.simps) simp
  ultimately show ?thesis using assms(4) by (cases ok) (simp_all add: adpcmdec_decode_ima_block_def)
qed

text \<open>
  IMA streams without a block size from the container. A complete block behind a sync header is
  found and read, but the number of samples is computed from the container's block size, which is
  0: the count is negative and the copy to the caller's buffer faults, for every such stream.
\<close>

theorem ima_sync_stream_faults:
  assumes w: "wave_wf w" "wave_timestamplen w = 0" "block_align w = 0" "mgr_ch w = 1 \<or> mgr_ch w = 2"
    and d: "d = [0x11, 0x22, 0x33, 0x44, hi, lo] @ body" "length d < 2147483648"
    and b: "4 \<le> unat hi * 256 + unat lo" "unat hi * 256 + unat lo \<le> WAVE_BLOCK_SIZE"
      "unat hi * 256 + unat lo \<le> length body" "no_magic body"
  shows "audio_dec_decode uint CODEC_ID_ADPCM_IMA_WAV d w = Some (Inl Array_bounds)"
proof -
  define B where "B = unat hi * 256 + unat lo"
  let ?c = "pcm_read_init d (int (length d))"
  note c = init_wf [of d]
  have v: "ValidDataLen ?c = 6 + int (length body)" using c(3) d(1) by simp
  have B: "4 \<le> B" "B \<le> 2048" "B \<le> length body" using b by (simp_all add: B_def WAVE_BLOCK_SIZE_def)
  have p1: "pcm_read ?c 4 = Inr ([0x11, 0x22, 0x33, 0x44], skip 4 ?c)"
    using pcm_read_ok [OF c(1), of 4] c(2) v d(1) by simp
  have p2: "pcm_read (skip 4 ?c) 2 = Inr ([hi, lo], skip 6 ?c)"
    using pcm_read_ok [OF ctl_wf_skip [OF c(1), of 4], of 2] rest_of_skip [OF c(1), of 4] c(2) v d(1)
    by simp
  have "or (ub hi * 256) (ub lo) = int B"
    using or_shifted [of lo hi] by (simp add: or.commute B_def add.commute flip: uint_nat)
  moreover have u: "uint (word_of_int (int (length body)) :: u32) = int (length body)"
    "uint (word_of_int (int B) :: u32) = int B"
    by (rule word_of_int_small; use B d in simp)+
  then have "\<not> (word_of_int (int (length body)) :: u32) < word_of_int (int B)"
    using B(3) by (simp only: word_less_def u)
  ultimately have h: "block_header uint ?c w = Inr (Inr (word_of_int (int B), skip 6 ?c))"
    using w(3) v p1 p2 by (simp add: block_header_def Let_def)
  have s4: "\<not> (word_of_int (int B) :: u32) < 4" using B(1) by (simp only: word_less_def u) simp
  have si: "sint (word_of_int (int B) :: u32) = int B" using B by (intro word_of_int_small) simp_all
  have lw: "B \<le> length (pwavebuf w)" "length (pwavebuf w) = 2048" "length (pcm_buf w) = 4096"
    using w(1) B by (simp_all add: wave_wf_def WAVE_BLOCK_SIZE_def)
  let ?w = "w\<lparr>pwavebuf := take B body @ drop B (pwavebuf w), wave_timestamp := 0xffffffff\<rparr>"
  have "rest_of (skip 6 ?c) = body" using rest_of_skip [OF c(1), of 6] c(2) v d(1) by simp
  then have r: "refill CODEC_ID_ADPCM_IMA_WAV (int B) (skip 6 ?c) w = Inr (int B, skip B (skip 6 ?c), ?w)"
    using refill_plain [OF ctl_wf_skip [OF c(1), of 6] _ w(2) B(1) lw(1), of CODEC_ID_ADPCM_IMA_WAV] v B(3) b(4)
    by simp
  have n: "(block_align ?w - 4 * int (mgr_ch ?w)) * 2 + int (mgr_ch ?w) = - 8 * int (mgr_ch w) + int (mgr_ch w)"
    using w(3) by simp
  obtain ok m where m: "adpcmdec_decode_ima_block uint (mgr_ch ?w) (- 8 * int (mgr_ch w) + int (mgr_ch w))
      (pwavebuf ?w) (pcm_buf ?w) = Some (Inr (ok, m))"
  proof -
    have "mgr_ch ?w = 1 \<or> mgr_ch ?w = 2" "8 \<le> length (pwavebuf ?w)" "2 \<le> length (pcm_buf ?w)"
      using w(4) lw B by auto
    from ima_block_no_samples [OF this refl, of uint] that show thesis by auto
  qed
  have "\<not> int B < 0" "- 8 * int (mgr_ch w) + int (mgr_ch w) < 0" using w(4) by auto
  then have "runimaadpcmdecoder uint CODEC_ID_ADPCM_IMA_WAV ?c w = Some (Inl Array_bounds)"
    unfolding runimaadpcmdecoder_def
    by (simp only: h sum.case prod.case s4 if_False if_True si r n Let_def m option.case)
  then show ?thesis by (simp add: audio_dec_decode_def adpcm_decode_frame_def)
qed

theorem ima_sync_stream_faults_witness:
  "audio_dec_decode uint CODEC_ID_ADPCM_IMA_WAV
     ([0x11, 0x22, 0x33, 0x44, 0, 8] @ [0, 0, 0, 0, 1, 2, 3, 4]) demo_wave = Some (Inl Array_bounds)"
proof -
  have "no_magic [0, 0, 0, 0, 1, 2, 3, 4]" by (rule no_magic_first) simp_all
  then show ?thesis
    using ima_sync_stream_faults [OF demo_wave_wf, of _ 0 8 "[0, 0, 0, 0, 1, 2, 3, 4]"]
    by (simp add: demo_wave_def WAVE_BLOCK_SIZE_def)
qed

lemma at_cursor: "ctl_wf c \<Longrightarrow> rest_of c = b # r \<Longrightarrow> at (BufStart c) (pcur c) = Some b"
  unfolding ctl_wf_def rest_of_def at_def
  by (metis (no_types, lifting) drop_eq_Nil list.distinct(1) linorder_not_less
      list.sel(1) hd_drop_conv_nth hd_take take_eq_Nil gr0I)

lemma slice_cursor:
  assumes "ctl_wf c" "rest_of c = b # xs @ r"
  shows "slice (BufStart c) (Suc (pcur c)) (length xs) = Some xs"
proof -
  let ?v = "nat (ValidDataLen c)"
  have l: "Suc (length xs) \<le> ?v" using length_rest_of [OF assms(1)] assms(2) by simp
  have "take (length xs) (drop 1 (rest_of c)) = xs" using assms(2) by simp
  then have "take (length xs) (drop (Suc (pcur c)) (BufStart c)) = xs"
    using l by (auto simp: rest_of_def drop_take min_def split: if_splits)
  moreover have "Suc (pcur c) + length xs \<le> length (BufStart c)"
    using l assms(1) by (simp add: ctl_wf_def)
  ultimately show ?thesis by (simp add: slice_def)
qed

lemma riff_scan_data:
  assumes "ctl_wf c" "rest_of c = x @ [0x64, 0x61, 0x74, 0x61] @ rest" "0x64 \<notin> set x"
    and "4 \<le> length rest" "int (length x) < tmp"
  shows "riff_scan tmp c = Scan_found (skip (length x + 4) c)"
  using assms
proof (induction x arbitrary: tmp c)
  case Nil
  have "\<not> ValidDataLen c < 8" using length_rest_of [OF Nil.prems(1)] Nil.prems(2,4) by simp
  moreover have "at (BufStart c) (pcur c) = Some 0x64"
    using at_cursor [OF Nil.prems(1)] Nil.prems(2) by simp
  moreover have "slice (BufStart c) (Suc (pcur c)) 3 = Some [0x61, 0x74, 0x61]"
    using slice_cursor [OF Nil.prems(1), of "0x64" "[0x61, 0x74, 0x61]" rest] Nil.prems(2)
    by (simp add: numeral_3_eq_3)
  ultimately show ?case using Nil.prems(5) by (subst riff_scan.simps) simp
next
  case (Cons y x)
  have v: "\<not> ValidDataLen c < 8" "int 1 \<le> ValidDataLen c"
    using length_rest_of [OF Cons.prems(1)] Cons.prems(2,4) by simp_all
  have "at (BufStart c) (pcur c) = Some y"
    using at_cursor [OF Cons.prems(1)] Cons.prems(2) by simp
  moreover have "y \<noteq> 0x64" using Cons.prems(3) by auto
  ultimately have "riff_scan tmp c = riff_scan (tmp - 1) (skip 1 c)"
    using v Cons.prems(5) by (subst riff_scan.simps) simp
  moreover have "riff_scan (tmp - 1) (skip 1 c) = Scan_found (skip (length x + 4) (skip 1 c))"
    using Cons.prems v(2) by (intro Cons.IH ctl_wf_skip) (simp_all add: rest_of_skip)
  ultimately show ?case by simp
qed

text \<open>
  Microsoft ADPCM in a WAV file whose first input holds the RIFF header and less than one block
  of data: the refill fails, but the decoder does not notice, decodes whatever the block buffer held
  before and delivers it as audio.
\<close>

theorem ms_short_riff_decodes_stale:
  assumes w: "wave_wf w" "wave_timestamplen w = 0" "block_align w = int B" "mgr_ch w = 1"
    and d: "d = [0x52, 0x49, 0x46, 0x46] @ x @ [0x64, 0x61, 0x74, 0x61] @ sz @ body" "length sz = 4"
      "length d < 2147483648" "0x64 \<notin> set x"
    and b: "4 \<le> B" "B \<le> length d" "length x < B" "length body < B"
    and stale: "ms_adpcm_decode_block (length (pcm_buf w)) (pwavebuf w) 1 B = Some (Inr xs)"
  shows "\<exists>r. audio_dec_decode cv CODEC_ID_ADPCM_MS d w = Some (Inr r) \<and>
     outlen r = 2 * int (length xs) \<and> outbuf r = Some xs \<and> consumed r = int (length x) + 12"
proof -
  let ?c = "pcm_read_init d (int (length d))"
  note c = init_wf [of d]
  have B: "B < 2147483648" using b(2) d(3) by simp
  have u: "uint (word_of_int (int (length d)) :: u32) = int (length d)"
    "uint (word_of_int (int B) :: u32) = int B"
    by (rule word_of_int_small; use B d(3) in simp)+
  have "\<not> (word_of_int (int (length d)) :: u32) < word_of_int (int B)"
    using b(2) by (simp only: word_less_def u)
  then have h: "block_header cv ?c w = Inr (Inr (word_of_int (int B), ?c))"
    using b(1) w(3) c(3) by (simp add: block_header_def Let_def)
  have s4: "\<not> (word_of_int (int B) :: u32) < 4" using b(1) by (simp only: word_less_def u) simp
  have si: "sint (word_of_int (int B) :: u32) = int B" using B by (intro word_of_int_small) simp_all
  have ub: "unat (word_of_int (int B) :: u32) = B" using u(2) by (simp only: unat_eq_nat_uint nat_int)
  have v: "ValidDataLen ?c = 12 + int (length x) + int (length body)" using c(3) d by simp
  have p1: "pcm_read ?c 4 = Inr ([0x52, 0x49, 0x46, 0x46], skip 4 ?c)"
    using pcm_read_ok [OF c(1), of 4] c(2) v d(1) by simp
  have r4: "rest_of (skip 4 ?c) = x @ [0x64, 0x61, 0x74, 0x61] @ sz @ body"
    using rest_of_skip [OF c(1), of 4] c(2) v d(1) by simp
  have sc: "riff_scan (int B) (skip 4 ?c) = Scan_found (skip (length x + 8) ?c)"
    using riff_scan_data [OF ctl_wf_skip [OF c(1), of 4] r4 d(4), of "int B"] v d(2) b(3)
    by (simp add: add.commute)
  have "d = ([0x52, 0x49, 0x46, 0x46] @ x @ [0x64, 0x61, 0x74, 0x61]) @ sz @ body"
    "length ([0x52, 0x49, 0x46, 0x46] @ x @ [0x64, 0x61, 0x74, 0x61 :: byte]) = length x + 8"
    using d(1) by simp_all
  then have "drop (length x + 8) d = sz @ body" by (metis append_eq_conv_conj)
  then have r8: "rest_of (skip (length x + 8) ?c) = sz @ body"
    using rest_of_skip [OF c(1), of "length x + 8"] c(2) v by simp
  have p2: "pcm_read (skip (length x + 8) ?c) 4 = Inr (sz, skip (length x + 12) ?c)"
    using pcm_read_ok [OF ctl_wf_skip [OF c(1), of "length x + 8"], of 4] r8 v d(2)
    by (simp add: add.commute)
  let ?w = "w\<lparr>wave_timestamplen := 0, wave_timestamp := 0xffffffff\<rparr>"
  have "refill_head CODEC_ID_ADPCM_MS (int B) ?c w = Inr (Head_abort (skip (length x + 12) ?c) ?w)"
    using p1 sc p2 v b(4) by (simp add: refill_head_def Let_def)
  then have rf: "refill CODEC_ID_ADPCM_MS (int B) ?c w = Inr (- 1, skip (length x + 12) ?c, ?w)"
    using w(2) by (simp add: refill_def)
  have "runmsadpcmdecoder cv CODEC_ID_ADPCM_MS ?c w = Some (Inr (int (length xs) * 2, Some xs,
      skip (length x + 12) ?c, ?w\<lparr>pcm_buf := xs @ drop (length xs) (pcm_buf w)\<rparr>))"
    unfolding runmsadpcmdecoder_def
    by (simp only: h sum.case prod.case s4 if_False si rf ub) (use stale w(4) in \<open>simp add: Let_def\<close>)
  then show ?thesis
    by (simp add: audio_dec_decode_def adpcm_decode_frame_def c)
qed

theorem ms_short_riff_decodes_stale_witness:
  "\<exists>r. audio_dec_decode uint CODEC_ID_ADPCM_MS
        ([0x52, 0x49, 0x46, 0x46] @ [1, 2] @ [0x64, 0x61, 0x74, 0x61] @ [0, 0, 0, 9] @ [5])
        (demo_wave\<lparr>block_align := 9\<rparr>) = Some (Inr r) \<and> outlen r = 10 \<and> consumed r = 14"
proof -
  let ?w = "demo_wave\<lparr>block_align := 9\<rparr>"
  have w: "wave_wf ?w" "wave_timestamplen ?w = 0" "block_align ?w = int 9" "mgr_ch ?w = 1"
    "pwavebuf ?w = replicate 2048 0" "length (pcm_buf ?w) = 4096"
    by (simp_all add: demo_wave_def wave_wf_def WAVE_BLOCK_SIZE_def)
  obtain xs where xs: "ms_adpcm_decode_block (length (pcm_buf ?w)) (pwavebuf ?w) 1 9 = Some (Inr xs)"
    "length xs = 5"
    using ms_block_run [of 1 9 "replicate 2048 0" 4096] w(5,6) by auto
  have "\<exists>r. audio_dec_decode uint CODEC_ID_ADPCM_MS
        ([0x52, 0x49, 0x46, 0x46] @ [1, 2] @ [0x64, 0x61, 0x74, 0x61] @ [0, 0, 0, 9] @ [5]) ?w = Some (Inr r) \<and>
      outlen r = 2 * int (length xs) \<and> outbuf r = Some xs \<and> consumed r = int (length [1, 2 :: byte]) + 12"
    by (rule ms_short_riff_decodes_stale [OF w(1-4) refl _ _ _ _ _ _ _ xs(1)]) simp_all
  then show ?thesis using xs(2) by auto
qed

end
