(* ===== verification/Vfmcap_Model.thy ===== *)
theory Vfmcap_Model
  imports Prelude "HOL-Library.Multiset"
begin

text \<open>
  The capture core of \<open>libvfmcap\<close> (\<open>src/vfmcap.c\<close>, \<open>include/vfmcap.h\<close>): opening, starting, acquiring
  and releasing frames, signal loss and recovery, frame-rate reduction and the choice of the GPU
  conversion.

  The kernel driver and the Vulkan back end are the environment. For every kind of call that can
  answer in more than one way the record \<open>world\<close> holds the finite list of answers it will give, in
  order; when a list is used up an ioctl fails with \<open>ENODEV\<close>, a poll times out, an allocation and a
  Vulkan call fail, and the clock stands still. Every call that takes or gives back a resource is
  recorded in \<open>trace\<close>. Loops of the code therefore end; a statement for all scripts covers every
  finite behaviour of the environment.

  \<open>target_fps\<close> enters the code only as a test for a positive value and as the interval
  \<open>(uint64_t)(1000000.0f / target_fps)\<close>; the configuration holds that interval.
\<close>

section \<open>Constants and enumerations\<close>

datatype errno = EINTR | EAGAIN | ENOTTY | ENODEV | EIO | EPIPE | EINVAL | ENOMEM

datatype output_fmt = FMT_RAW | FMT_NV12 | FMT_NV21 | FMT_P010 | FMT_NV12_AFBC | FMT_A2B10G10R10_AFBC
  | FMT_VYUY_10BIT

datatype vk_fmt = VK_FMT_NV12 | VK_FMT_NV21 | VK_FMT_P010 | VK_FMT_NV12_AFBC | VK_FMT_A2B10G10R10_AFBC

datatype output_layout = LAYOUT_AUTO | LAYOUT_SINGLE_DMABUF | LAYOUT_TWO_DMABUF

datatype status = VFMCAP_OK | VFMCAP_ERR_OPEN | VFMCAP_ERR_IOCTL | VFMCAP_ERR_TIMEOUT | VFMCAP_ERR_NOSIG
  | VFMCAP_ERR_VULKAN | VFMCAP_ERR_NOMEM | VFMCAP_ERR_INVAL | VFMCAP_ERR_STATE | VFMCAP_RECONFIGURED

datatype event_ret = EVENT_SOURCE_CHANGE | EVENT_NOSIG | EVENT_TIMEOUT | EVENT_ERROR

definition VFMCAP_MAX_BUFFERS :: u32 where "VFMCAP_MAX_BUFFERS = 16"
definition VFMCAP_MIN_BUFFERS :: u32 where "VFMCAP_MIN_BUFFERS = 4"

definition v4l2_fourcc :: "nat \<Rightarrow> nat \<Rightarrow> nat \<Rightarrow> nat \<Rightarrow> u32" where
  "v4l2_fourcc a b c d = of_nat (a + 256 * (b + 256 * (c + 256 * d)))"

definition PIX_AMLY :: u32 where "PIX_AMLY = v4l2_fourcc 65 77 76 89"
definition PIX_NV12 :: u32 where "PIX_NV12 = v4l2_fourcc 78 86 49 50"
definition PIX_P010 :: u32 where "PIX_P010 = v4l2_fourcc 80 48 49 48"
definition PIX_AB30 :: u32 where "PIX_AB30 = v4l2_fourcc 65 66 51 48"

section \<open>Environment\<close>

record pix_format =
  f_width :: u32
  f_height :: u32
  f_pixelformat :: u32
  f_bytesperline :: u32
  f_sizeimage :: u32

record dq_buffer =
  b_index :: u32
  b_sequence :: u32
  b_timestamp_us :: u64

record revents =
  pollin :: bool
  pollpri :: bool
  pollerr :: bool

datatype poll_reply = Poll_timeout | Poll_errno errno | Poll_ready revents

text \<open>A successful render: the output descriptors (the second is -1 for one plane), the modifier.\<close>

record vk_output =
  o_y_fd :: int
  o_uv_fd :: int
  o_modifier :: u64

datatype call =
    Dqbuf u32 | Qbuf u32 | Queue_initial u32 | Get_dmabuf int | Close_fd int
  | Vk_output int int | Vk_release int int
  | Streamon | Streamoff | Reqbufs u32 | Subscribe | Poll_call int
  | Vk_init output_layout | Vk_cleanup | Vk_reconfig u32 u32
  | Vk_convert int int u32 u32 vk_fmt | Vk_submit int int u32 u32 vk_fmt | Vk_wait

record world =
  k_ioctl :: "(errno + unit) list"
  k_reqbufs :: "(errno + u32) list"
  k_gfmt :: "(errno + pix_format) list"
  k_dqevent :: "(errno + bool) list"
  k_dqbuf :: "(errno + dq_buffer) list"
  k_dmabuf :: "(errno + int \<times> u32) list"
  k_poll :: "poll_reply list"
  k_clock :: "int list"
  k_now :: int
  k_render :: "(unit + vk_output) list"
  k_vk :: "bool list"
  k_calloc :: "bool list"
  trace :: "call list"

text \<open>\<open>xioctl\<close>: the answer of an ioctl, calls interrupted by a signal repeated.\<close>

fun xioctl :: "(errno + 'a) list \<Rightarrow> (errno + 'a) \<times> (errno + 'a) list" where
  "xioctl [] = (Inl ENODEV, [])"
| "xioctl (Inl EINTR # rs) = xioctl rs"
| "xioctl (r # rs) = (r, rs)"

definition log_call :: "call \<Rightarrow> world \<Rightarrow> world" where
  "log_call c w = w\<lparr>trace := trace w @ [c]\<rparr>"

text \<open>The ioctls without an answer of interest: \<open>True\<close> is success.\<close>

definition ioctl_plain :: "call \<Rightarrow> world \<Rightarrow> bool \<times> world" where
  "ioctl_plain c w = (let (r, rs) = xioctl (k_ioctl w)
     in (r = Inr (), log_call c (w\<lparr>k_ioctl := rs\<rparr>)))"

definition ioctl_reqbufs :: "u32 \<Rightarrow> world \<Rightarrow> (errno + u32) \<times> world" where
  "ioctl_reqbufs n w = (let (r, rs) = xioctl (k_reqbufs w)
     in (r, log_call (Reqbufs n) (w\<lparr>k_reqbufs := rs\<rparr>)))"

definition ioctl_gfmt :: "world \<Rightarrow> (errno + pix_format) \<times> world" where
  "ioctl_gfmt w = (let (r, rs) = xioctl (k_gfmt w) in (r, w\<lparr>k_gfmt := rs\<rparr>))"

definition now_ms_mono :: "world \<Rightarrow> int \<times> world" where
  "now_ms_mono w = (case k_clock w of [] \<Rightarrow> (k_now w, w)
     | t # ts \<Rightarrow> (t, w\<lparr>k_clock := ts, k_now := t\<rparr>))"

definition sys_poll :: "int \<Rightarrow> world \<Rightarrow> poll_reply \<times> world" where
  "sys_poll tmo w = (case k_poll w of [] \<Rightarrow> (Poll_timeout, log_call (Poll_call tmo) w)
     | r # rs \<Rightarrow> (r, log_call (Poll_call tmo) (w\<lparr>k_poll := rs\<rparr>)))"

definition sys_calloc :: "world \<Rightarrow> bool \<times> world" where
  "sys_calloc w = (case k_calloc w of [] \<Rightarrow> (False, w) | b # bs \<Rightarrow> (b, w\<lparr>k_calloc := bs\<rparr>))"

definition vk_call :: "call \<Rightarrow> world \<Rightarrow> bool \<times> world" where
  "vk_call c w = (case k_vk w of [] \<Rightarrow> (False, log_call c w)
     | b # bs \<Rightarrow> (b, log_call c (w\<lparr>k_vk := bs\<rparr>)))"

section \<open>Context and frames\<close>

record config =
  output_format :: output_fmt
  target_width :: u32
  target_height :: u32
  target_interval_us :: "u64 option"
  color_mode :: u32

record frame_priv =
  vdin_fd :: int
  out_y_fd :: int
  out_uv_fd :: int
  priv_fmt :: vk_fmt

record frame =
  dmabuf_fd :: int
  dmabuf_fd2 :: int
  index :: u32
  width :: u32
  height :: u32
  bytesperline :: u32
  frame_size :: u32
  pixelformat :: u32
  bitdepth :: u32
  sequence :: u32
  timestamp_us :: u64
  signal_type :: u32
  drm_modifier :: u64
  is_repeated :: u32
  priv :: "frame_priv option"

record vfmcap_ctx =
  c_fd :: int
  c_device :: string
  streaming :: bool
  cfg :: config
  layout :: output_layout
  c_width :: u32
  c_height :: u32
  c_pixelformat :: u32
  c_bytesperline :: u32
  c_sizeimage :: u32
  c_bitdepth :: u32
  num_buffers :: u32
  vk :: bool
  ts_accum_us :: u64
  last_frame_fd :: int
  reconfig_pending :: bool
  signal_lost :: bool
  prev_width :: u32
  prev_height :: u32
  last_error :: string

definition empty_frame :: frame where
  "empty_frame = \<lparr>dmabuf_fd = - 1, dmabuf_fd2 = 0, index = 0, width = 0, height = 0, bytesperline = 0,
     frame_size = 0, pixelformat = 0, bitdepth = 0, sequence = 0, timestamp_us = 0, signal_type = 0,
     drm_modifier = 0, is_repeated = 0, priv = None\<rparr>"

section \<open>Helpers\<close>

definition needs_vulkan :: "config \<Rightarrow> bool" where
  "needs_vulkan c = (case output_format c of FMT_RAW \<Rightarrow> False | FMT_VYUY_10BIT \<Rightarrow> False | _ \<Rightarrow> True)"

definition is_signal_lost_errno :: "errno \<Rightarrow> bool" where
  "is_signal_lost_errno e \<longleftrightarrow> e = ENOTTY \<or> e = ENODEV \<or> e = EIO \<or> e = EPIPE"

definition report_signal_lost_ioctl :: "vfmcap_ctx \<Rightarrow> string \<Rightarrow> status \<times> vfmcap_ctx" where
  "report_signal_lost_ioctl c op = (VFMCAP_ERR_NOSIG, c\<lparr>signal_lost := True, last_error := op\<rparr>)"

fun to_vk_fmt :: "output_fmt \<Rightarrow> vk_fmt" where
  "to_vk_fmt FMT_NV12 = VK_FMT_NV12"
| "to_vk_fmt FMT_NV21 = VK_FMT_NV21"
| "to_vk_fmt FMT_P010 = VK_FMT_P010"
| "to_vk_fmt FMT_NV12_AFBC = VK_FMT_NV12_AFBC"
| "to_vk_fmt FMT_A2B10G10R10_AFBC = VK_FMT_A2B10G10R10_AFBC"
| "to_vk_fmt _ = VK_FMT_NV12"

text \<open>The environment variables are a partial function from names to values.\<close>

definition env_enabled :: "(string \<Rightarrow> string option) \<Rightarrow> string \<Rightarrow> bool" where
  "env_enabled env name = (case env name of None \<Rightarrow> False
     | Some v \<Rightarrow> (case v of [] \<Rightarrow> False | x # xs \<Rightarrow> x = CHR ''1''))"

definition parse_output_layout_env :: "string option \<Rightarrow> output_layout" where
  "parse_output_layout_env v = (case v of None \<Rightarrow> LAYOUT_AUTO
     | Some s \<Rightarrow>
        if s \<in> set [''single'', ''one'', ''contiguous'', ''contig'', ''1''] then LAYOUT_SINGLE_DMABUF
        else if s \<in> set [''two'', ''separate'', ''split'', ''2''] then LAYOUT_TWO_DMABUF
        else LAYOUT_AUTO)"

definition resolve_output_layout ::
    "(string \<Rightarrow> string option) \<Rightarrow> output_fmt \<Rightarrow> output_layout \<Rightarrow> output_layout" where
  "resolve_output_layout env fmt requested =
     (if requested \<noteq> LAYOUT_AUTO then requested
      else let from_env = parse_output_layout_env (env ''VFMCAP_OUTPUT_LAYOUT'') in
      if from_env \<noteq> LAYOUT_AUTO then from_env
      else if fmt = FMT_P010 \<and> env_enabled env ''VFMCAP_P010_SEPARATE'' then LAYOUT_TWO_DMABUF
      else if (fmt = FMT_NV12 \<or> fmt = FMT_NV21) \<and> env_enabled env ''VFMCAP_NV12_SEPARATE''
      then LAYOUT_TWO_DMABUF
      else LAYOUT_AUTO)"

definition vfmcap_output_size :: "u32 \<Rightarrow> u32 \<Rightarrow> output_fmt \<Rightarrow> u32" where
  "vfmcap_output_size wd ht fmt = (case fmt of
       FMT_P010 \<Rightarrow> wd * ht * 3
     | FMT_NV12 \<Rightarrow> wd * ht * 3 div 2 | FMT_NV21 \<Rightarrow> wd * ht * 3 div 2
     | FMT_RAW \<Rightarrow> wd * ht * 3 | FMT_VYUY_10BIT \<Rightarrow> wd * ht * 3
     | FMT_NV12_AFBC \<Rightarrow> wd * ht * 2 | FMT_A2B10G10R10_AFBC \<Rightarrow> wd * ht * 2)"

definition bitdepth_of :: "u32 \<Rightarrow> u32" where
  "bitdepth_of pix = (if pix = PIX_AMLY \<or> pix = PIX_P010 then 10 else 8)"

text \<open>Taking over a format reported by \<open>VIDIOC_G_FMT\<close>.\<close>

definition set_format :: "pix_format \<Rightarrow> vfmcap_ctx \<Rightarrow> vfmcap_ctx" where
  "set_format f c = c\<lparr>c_width := f_width f, c_height := f_height f, c_pixelformat := f_pixelformat f,
     c_bytesperline := f_bytesperline f, c_sizeimage := f_sizeimage f,
     c_bitdepth := bitdepth_of (f_pixelformat f)\<rparr>"

definition zero_format :: pix_format where
  "zero_format = \<lparr>f_width = 0, f_height = 0, f_pixelformat = 0, f_bytesperline = 0, f_sizeimage = 0\<rparr>"

definition read_format :: "vfmcap_ctx \<Rightarrow> world \<Rightarrow> vfmcap_ctx \<times> world" where
  "read_format c w = (let (r, w1) = ioctl_gfmt w in
     case r of Inl e \<Rightarrow> (c, w1) | Inr f \<Rightarrow> (set_format f c, w1))"

text \<open>Queueing the buffers from index \<open>i\<close> on, \<open>n\<close> of them; \<open>False\<close> when one is refused.\<close>

primrec queue_buffers :: "nat \<Rightarrow> u32 \<Rightarrow> world \<Rightarrow> bool \<times> world" where
  "queue_buffers 0 i w = (True, w)"
| "queue_buffers (Suc n) i w =
     (let (ok, w1) = ioctl_plain (Queue_initial i) w in
      if ok then queue_buffers n (i + 1) w1 else (False, w1))"

section \<open>Lifecycle\<close>

definition dst_width :: "vfmcap_ctx \<Rightarrow> u32" where
  "dst_width c = (if target_width (cfg c) \<noteq> 0 then target_width (cfg c) else c_width c)"

definition dst_height :: "vfmcap_ctx \<Rightarrow> u32" where
  "dst_height c = (if target_height (cfg c) \<noteq> 0 then target_height (cfg c) else c_height c)"

text \<open>
  \<open>vfmcap_do_reconfig\<close>: the answers of \<open>STREAMOFF\<close>, of the first \<open>REQBUFS\<close> and of \<open>G_FMT\<close> are not
  looked at; after a failed \<open>G_FMT\<close> the format is the zeroed structure.
\<close>

definition vfmcap_do_reconfig :: "vfmcap_ctx \<Rightarrow> world \<Rightarrow> status \<times> vfmcap_ctx \<times> world" where
  "vfmcap_do_reconfig c w =
     (let (r1, w1) = ioctl_plain Streamoff w;
          (r2, w2) = ioctl_reqbufs 0 w1;
          (r3, w3) = ioctl_gfmt w2;
          c1 = set_format (case r3 of Inl e \<Rightarrow> zero_format | Inr f \<Rightarrow> f) c;
          (r4, w4) = ioctl_reqbufs (if num_buffers c1 \<noteq> 0 then num_buffers c1 else 6) w3
      in case r4 of
           Inl e \<Rightarrow> (VFMCAP_ERR_IOCTL, c1\<lparr>last_error := ''REQBUFS after reconfig failed''\<rparr>, w4)
         | Inr n \<Rightarrow>
             let c2 = c1\<lparr>num_buffers := n\<rparr>; (ok, w5) = queue_buffers (unat n) 0 w4 in
             if \<not> ok then (VFMCAP_ERR_IOCTL, c2\<lparr>last_error := ''QBUF after reconfig failed''\<rparr>, w5)
             else let (ok2, w6) = ioctl_plain Streamon w5 in
             if \<not> ok2 then (VFMCAP_ERR_IOCTL, c2\<lparr>last_error := ''STREAMON after reconfig failed''\<rparr>, w6)
             else let w7 = (if needs_vulkan (cfg c2) \<and> vk c2
                            then snd (vk_call (Vk_reconfig (dst_width c2) (dst_height c2)) w6) else w6)
             in (VFMCAP_OK, c2\<lparr>ts_accum_us := 0\<rparr>, w7))"

text \<open>
  \<open>vfmcap_open\<close>: the answer of \<open>open\<close>, the capability bits of \<open>QUERYCAP\<close> (\<open>None\<close> when it fails) and
  of \<open>calloc\<close>. The device descriptor is closed on every error path after it was opened.
\<close>

definition vfmcap_open ::
    "errno + int \<Rightarrow> bool option \<Rightarrow> bool \<Rightarrow> string \<Rightarrow> config option \<Rightarrow> world \<Rightarrow> vfmcap_ctx option \<times> world" where
  "vfmcap_open opened cap mem dev conf w =
     (case opened of Inl e \<Rightarrow> (None, w)
      | Inr fd \<Rightarrow>
          if cap = None \<or> cap = Some False \<or> \<not> mem then (None, log_call (Close_fd fd) w)
          else let c0 = \<lparr>c_fd = fd, c_device = take 127 dev, streaming = False,
                 cfg = (case conf of Some k \<Rightarrow> k | None \<Rightarrow> \<lparr>output_format = FMT_RAW, target_width = 0,
                   target_height = 0, target_interval_us = None, color_mode = 0\<rparr>),
                 layout = LAYOUT_AUTO, c_width = 0, c_height = 0, c_pixelformat = 0,
                 c_bytesperline = 0, c_sizeimage = 0, c_bitdepth = 0, num_buffers = 0, vk = False,
                 ts_accum_us = 0, last_frame_fd = - 1, reconfig_pending = False, signal_lost = False,
                 prev_width = 0, prev_height = 0, last_error = []\<rparr>;
               (c1, w1) = read_format c0 w
          in (Some c1, w1))"

text \<open>The loop that throws away stale events at start.\<close>

lemma xioctl_shorter: "xioctl rs = (Inr x, rs') \<Longrightarrow> length rs' < length rs"
  by (induction rs rule: xioctl.induct) auto

lemma xioctl_le: "xioctl rs = (r, rs') \<Longrightarrow> length rs' \<le> length rs"
  by (induction rs rule: xioctl.induct) auto

function drain_events :: "(errno + bool) list \<Rightarrow> (errno + bool) list" where
  "drain_events rs = (case xioctl rs of (Inl e, rs') \<Rightarrow> rs' | (Inr b, rs') \<Rightarrow> drain_events rs')"
  by pat_completeness auto
termination
  by (relation "measure length") (auto dest: xioctl_shorter [OF sym])

text \<open>
  Setting up the GPU once the stream is on: only for a format that needs it and a known size. A failed
  set-up leaves a partial GPU context, which is cleaned up.
\<close>

definition start_gpu ::
    "(string \<Rightarrow> string option) \<Rightarrow> vfmcap_ctx \<Rightarrow> world \<Rightarrow> status \<times> vfmcap_ctx \<times> world" where
  "start_gpu env c w =
     (if needs_vulkan (cfg c) \<and> \<not> vk c \<and> c_width c > 0 \<and> c_height c > 0 then
        let (vok, w1) = vk_call (Vk_init (resolve_output_layout env (output_format (cfg c)) (layout c))) w in
        if vok then (VFMCAP_OK, c\<lparr>vk := True\<rparr>, w1)
        else (VFMCAP_ERR_VULKAN, c\<lparr>last_error := ''Vulkan init failed''\<rparr>, log_call Vk_cleanup w1)
      else (VFMCAP_OK, c, w))"

definition vfmcap_start ::
    "(string \<Rightarrow> string option) \<Rightarrow> u32 \<Rightarrow> vfmcap_ctx \<Rightarrow> world \<Rightarrow> status \<times> vfmcap_ctx \<times> world" where
  "vfmcap_start env nb c w =
     (if streaming c then (VFMCAP_OK, c, w)
      else let nb = (if nb < VFMCAP_MIN_BUFFERS then VFMCAP_MIN_BUFFERS else nb);
               nb = (if VFMCAP_MAX_BUFFERS < nb then VFMCAP_MAX_BUFFERS else nb) in
      if output_format (cfg c) = FMT_VYUY_10BIT \<and> c_bitdepth c \<noteq> 10
      then (VFMCAP_ERR_INVAL, c\<lparr>last_error := ''VYUY 10-bit passthrough requires 10-bit input''\<rparr>, w)
      else let (c1, w1) = read_format c w;
               (r, w2) = ioctl_plain Subscribe w1;
               w3 = w2\<lparr>k_dqevent := drain_events (k_dqevent w2)\<rparr>;
               (rq, w4) = ioctl_reqbufs nb w3 in
      case rq of
        Inl e \<Rightarrow> (VFMCAP_ERR_IOCTL, c1\<lparr>last_error := ''VIDIOC_REQBUFS failed''\<rparr>, w4)
      | Inr n \<Rightarrow>
          let c2 = c1\<lparr>num_buffers := n\<rparr>; (ok, w5) = queue_buffers (unat n) 0 w4 in
          if \<not> ok then (VFMCAP_ERR_IOCTL, c2\<lparr>last_error := ''VIDIOC_QBUF failed''\<rparr>, w5)
          else let (ok2, w6) = ioctl_plain Streamon w5 in
          if \<not> ok2 then (VFMCAP_ERR_IOCTL, c2\<lparr>last_error := ''VIDIOC_STREAMON failed''\<rparr>, w6)
          else let c3 = c2\<lparr>streaming := True, signal_lost := False\<rparr> in
          start_gpu env c3 w6)"

text \<open>The layout argument is an \<open>int\<close> in C: \<open>None\<close> stands for a value outside the enumeration.\<close>

definition vfmcap_set_output_layout :: "output_layout option \<Rightarrow> vfmcap_ctx \<Rightarrow> status \<times> vfmcap_ctx" where
  "vfmcap_set_output_layout l c =
     (case l of None \<Rightarrow> (VFMCAP_ERR_INVAL, c\<lparr>last_error := ''Invalid output layout''\<rparr>)
      | Some x \<Rightarrow>
          if streaming c
          then (VFMCAP_ERR_STATE, c\<lparr>last_error := ''Output layout must be set before start''\<rparr>)
          else (VFMCAP_OK, c\<lparr>layout := x\<rparr>))"

definition vfmcap_stop :: "vfmcap_ctx \<Rightarrow> world \<Rightarrow> vfmcap_ctx \<times> world" where
  "vfmcap_stop c w =
     (if \<not> streaming c then (c, w)
      else let (r1, w1) = ioctl_plain Streamoff w; (r2, w2) = ioctl_reqbufs 0 w1
           in (c\<lparr>streaming := False, num_buffers := 0\<rparr>, w2))"

definition vfmcap_close :: "vfmcap_ctx \<Rightarrow> world \<Rightarrow> world" where
  "vfmcap_close c w =
     (let w1 = (if vk c then log_call Vk_cleanup w else w);
          (c2, w2) = vfmcap_stop (c\<lparr>vk := False\<rparr>) w1;
          w3 = (if 0 \<le> c_fd c2 then log_call (Close_fd (c_fd c2)) w2 else w2)
      in if 0 \<le> last_frame_fd c2 then log_call (Close_fd (last_frame_fd c2)) w3 else w3)"

section \<open>Acquiring a frame\<close>

text \<open>
  Reading events until a source change, as both poll loops do: \<open>True\<close> when one was found, with the
  events behind it left in the queue.
\<close>

function find_source_change :: "(errno + bool) list \<Rightarrow> bool \<times> (errno + bool) list" where
  "find_source_change rs = (case xioctl rs of (Inl e, rs') \<Rightarrow> (False, rs')
     | (Inr b, rs') \<Rightarrow> if b then (True, rs') else find_source_change rs')"
  by pat_completeness auto
termination
  by (relation "measure length") (auto dest: xioctl_shorter [OF sym])

text \<open>
  What the recovery does on a source change: the flag, the previous size, the new format and the
  reconfiguration, whose status is not looked at.
\<close>

definition restore_signal :: "vfmcap_ctx \<Rightarrow> world \<Rightarrow> vfmcap_ctx \<times> world" where
  "restore_signal c w =
     (let c1 = c\<lparr>signal_lost := False, prev_width := c_width c, prev_height := c_height c\<rparr>;
          (c2, w2) = read_format c1 w;
          (r, c3, w3) = vfmcap_do_reconfig c2 w2
      in (c3\<lparr>reconfig_pending := True\<rparr>, w3))"

text \<open>
  The recovery loop. \<open>Some\<close> is an early return of \<open>vfmcap_acquire_frame\<close>; other events and error
  flags make the loop poll again.
\<close>

function recover :: "int \<Rightarrow> vfmcap_ctx \<Rightarrow> world \<Rightarrow> status option \<times> vfmcap_ctx \<times> world" where
  "recover tmo c w =
     (let (p, w1) = sys_poll (if 0 < tmo then tmo else 1000) w in
      case p of
        Poll_timeout \<Rightarrow> (Some VFMCAP_ERR_NOSIG, c, w1)
      | Poll_errno e \<Rightarrow>
          if e = EINTR then recover tmo c w1
          else (Some VFMCAP_ERR_IOCTL, c\<lparr>last_error := ''poll() during signal recovery failed''\<rparr>, w1)
      | Poll_ready rv \<Rightarrow>
          if pollpri rv then
            (let (found, rs) = find_source_change (k_dqevent w1); w2 = w1\<lparr>k_dqevent := rs\<rparr> in
             if found then let (c3, w3) = restore_signal c w2 in (None, c3, w3)
             else recover tmo c w2)
          else recover tmo c w1)"
  by pat_completeness auto
termination
  by (relation "measure (\<lambda>(tmo, c, w). length (k_poll w))")
     (auto simp: sys_poll_def log_call_def split: list.splits)

text \<open>The loop that waits for a buffer until the deadline; \<open>None\<close> when one is ready.\<close>

function wait_ready :: "int \<Rightarrow> vfmcap_ctx \<Rightarrow> world \<Rightarrow> status option \<times> vfmcap_ctx \<times> world" where
  "wait_ready deadline c w =
     (let (t, w1) = now_ms_mono w; remaining = s32 (deadline - t) in
      if remaining \<le> 0 then (Some VFMCAP_ERR_TIMEOUT, c, w1)
      else let (p, w2) = sys_poll remaining w1 in
      case p of
        Poll_timeout \<Rightarrow> (Some VFMCAP_ERR_TIMEOUT, c, w2)
      | Poll_errno e \<Rightarrow>
          if e = EINTR then wait_ready deadline c w2
          else if is_signal_lost_errno e
          then let (r, c1) = report_signal_lost_ioctl c ''poll()'' in (Some r, c1, w2)
          else (Some VFMCAP_ERR_IOCTL, c\<lparr>last_error := ''poll() failed''\<rparr>, w2)
      | Poll_ready rv \<Rightarrow>
          if pollerr rv then let (r, c1) = report_signal_lost_ioctl c ''poll()'' in (Some r, c1, w2)
          else let (found, rs) = (if pollpri rv then find_source_change (k_dqevent w2)
                                  else (False, k_dqevent w2));
                   w3 = w2\<lparr>k_dqevent := rs\<rparr> in
               if found then (Some VFMCAP_ERR_NOSIG, c\<lparr>signal_lost := True\<rparr>, w3)
               else if pollin rv then (None, c, w3)
               else wait_ready deadline c w3)"
  by pat_completeness auto
termination
  by (relation "measure (\<lambda>(deadline, c, w). length (k_poll w))")
     (auto simp: sys_poll_def now_ms_mono_def log_call_def split: list.splits if_splits)

text \<open>
  Dequeueing a buffer and its descriptor: \<open>Inl\<close> is an early return. When the descriptor cannot be
  had the buffer is queued again.
\<close>

definition dequeue :: "vfmcap_ctx \<Rightarrow> world \<Rightarrow> (status + dq_buffer \<times> int \<times> u32) \<times> vfmcap_ctx \<times> world" where
  "dequeue c w =
     (let (r, rs) = xioctl (k_dqbuf w); w1 = w\<lparr>k_dqbuf := rs\<rparr> in
      case r of
        Inl e \<Rightarrow>
          if e = EAGAIN then (Inl VFMCAP_ERR_TIMEOUT, c, w1)
          else if is_signal_lost_errno e
          then let (st, c1) = report_signal_lost_ioctl c ''VIDIOC_DQBUF'' in (Inl st, c1, w1)
          else (Inl VFMCAP_ERR_IOCTL, c\<lparr>last_error := ''VIDIOC_DQBUF failed''\<rparr>, w1)
      | Inr b \<Rightarrow>
          let w2 = log_call (Dqbuf (b_index b)) w1;
              (r2, rs2) = xioctl (k_dmabuf w2); w3 = w2\<lparr>k_dmabuf := rs2\<rparr> in
          (case r2 of
             Inl e \<Rightarrow>
               let c1 = c\<lparr>last_error := ''VFM_CAP_IOC_GET_DMABUF failed''\<rparr>;
                   (q, w4) = ioctl_plain (Qbuf (b_index b)) w3 in
               if is_signal_lost_errno e then (Inl VFMCAP_ERR_NOSIG, c1\<lparr>signal_lost := True\<rparr>, w4)
               else (Inl VFMCAP_ERR_IOCTL, c1, w4)
           | Inr (fd, sz) \<Rightarrow> (Inr (b, fd, sz), c, log_call (Get_dmabuf fd) w3)))"

definition fill_frame :: "vfmcap_ctx \<Rightarrow> dq_buffer \<Rightarrow> int \<Rightarrow> u32 \<Rightarrow> frame" where
  "fill_frame c b fd sz =
     \<lparr>dmabuf_fd = fd, dmabuf_fd2 = - 1, index = b_index b, width = c_width c, height = c_height c,
      bytesperline = c_bytesperline c, frame_size = sz, pixelformat = c_pixelformat c,
      bitdepth = c_bitdepth c, sequence = b_sequence b, timestamp_us = b_timestamp_us b,
      signal_type = 0, drm_modifier = 0, is_repeated = 0, priv = None\<rparr>"

text \<open>
  Frame-rate reduction: is the frame dropped, and the new accumulator. The difference is taken in
  64 signed bits.
\<close>

definition fps_gate :: "u64 \<Rightarrow> u64 \<Rightarrow> u64 \<Rightarrow> bool \<times> u64" where
  "fps_gate interval accum ts =
     (let a = (if accum = 0 then ts else accum);
          ahead = sint a - sint ts in
      if sint (interval div 2) < ahead then (True, a) else (False, a + interval))"

text \<open>Closing the descriptor and queueing the buffer again, as every path that gives up a frame does.\<close>

definition give_back :: "int \<Rightarrow> u32 \<Rightarrow> world \<Rightarrow> world" where
  "give_back fd i w = snd (ioctl_plain (Qbuf i) (log_call (Close_fd fd) w))"

datatype vk_render = Render | Render_afbc_nv12 | Render_10bit | Render_10bit_afbc_nv12
  | Render_10bit_afbc_a2b10g10r10

definition select_render :: "u32 \<Rightarrow> vk_fmt \<Rightarrow> vk_render option" where
  "select_render depth fmt =
     (if depth = 8 \<and> (fmt = VK_FMT_NV12 \<or> fmt = VK_FMT_P010) then Some Render
      else if depth = 8 \<and> fmt = VK_FMT_NV12_AFBC then Some Render_afbc_nv12
      else if depth = 10 \<and> (fmt = VK_FMT_NV12 \<or> fmt = VK_FMT_P010) then Some Render_10bit
      else if depth = 10 \<and> fmt = VK_FMT_NV12_AFBC then Some Render_10bit_afbc_nv12
      else if depth = 10 \<and> fmt = VK_FMT_A2B10G10R10_AFBC then Some Render_10bit_afbc_a2b10g10r10
      else None)"

definition linear_render :: "vk_render \<Rightarrow> bool" where
  "linear_render r \<longleftrightarrow> r = Render \<or> r = Render_10bit"

text \<open>What the five conversion branches put in the frame descriptor.\<close>

definition converted_frame :: "vk_render \<Rightarrow> vk_fmt \<Rightarrow> vfmcap_ctx \<Rightarrow> vk_output \<Rightarrow> frame \<Rightarrow> frame" where
  "converted_frame r fmt c vo f =
     (let uv = (if linear_render r then o_uv_fd vo else - 1) in
      f\<lparr>dmabuf_fd := o_y_fd vo, dmabuf_fd2 := uv, width := dst_width c, height := dst_height c,
        bytesperline := (if linear_render r then (if fmt = VK_FMT_NV12 then dst_width c else dst_width c * 2)
                         else if r = Render_10bit_afbc_a2b10g10r10 then dst_width c * 4 else dst_width c),
        frame_size := vfmcap_output_size (dst_width c) (dst_height c) (output_format (cfg c)),
        pixelformat := (if linear_render r then (if fmt = VK_FMT_NV12 then PIX_NV12 else PIX_P010)
                        else if r = Render_10bit_afbc_a2b10g10r10 then PIX_AB30 else PIX_NV12),
        drm_modifier := (if linear_render r then drm_modifier f else o_modifier vo),
        priv := Some \<lparr>vdin_fd = dmabuf_fd f, out_y_fd = o_y_fd vo, out_uv_fd = uv, priv_fmt = fmt\<rparr>\<rparr>)"

definition vk_render_call :: "vk_render \<Rightarrow> world \<Rightarrow> vk_output option \<times> world" where
  "vk_render_call r w = (case k_render w of [] \<Rightarrow> (None, w)
     | Inl u # rs \<Rightarrow> (None, w\<lparr>k_render := rs\<rparr>)
     | Inr vo # rs \<Rightarrow> (Some vo, log_call (Vk_output (o_y_fd vo) (if linear_render r then o_uv_fd vo else - 1))
                                 (w\<lparr>k_render := rs\<rparr>)))"

definition render_error :: "vk_render \<Rightarrow> string" where
  "render_error r = (case r of Render \<Rightarrow> ''Vulkan render failed''
     | Render_afbc_nv12 \<Rightarrow> ''Vulkan AFBC NV12 render failed''
     | Render_10bit \<Rightarrow> ''Vulkan 10-bit render failed''
     | Render_10bit_afbc_nv12 \<Rightarrow> ''Vulkan 10-bit AFBC NV12 render failed''
     | Render_10bit_afbc_a2b10g10r10 \<Rightarrow> ''Vulkan 10-bit AFBC A2B10G10R10 render failed'')"

definition convert_frame :: "frame \<Rightarrow> vfmcap_ctx \<Rightarrow> world \<Rightarrow> (status + frame) \<times> vfmcap_ctx \<times> world" where
  "convert_frame f c w =
     (if needs_vulkan (cfg c) \<and> vk c then
        let fmt = to_vk_fmt (output_format (cfg c)) in
        (case select_render (c_bitdepth c) fmt of
           None \<Rightarrow> (Inr f, c, w)
         | Some r \<Rightarrow>
             let (out, w1) = vk_render_call r w in
             (case out of
                None \<Rightarrow> (Inl VFMCAP_ERR_VULKAN, c\<lparr>last_error := render_error r\<rparr>,
                         give_back (dmabuf_fd f) (index f) w1)
              | Some vo \<Rightarrow>
                  let (mem, w2) = sys_calloc w1 in
                  if \<not> mem then (Inl VFMCAP_ERR_NOMEM, c, give_back (dmabuf_fd f) (index f)
                    (log_call (Vk_release (o_y_fd vo) (if linear_render r then o_uv_fd vo else - 1)) w2))
                  else (Inr (converted_frame r fmt c vo f), c, w2)))
      else (Inr f, c, w))"

text \<open>The time to wait, once; \<open>None\<close> when the code goes on to dequeue.\<close>

definition wait_buffer :: "int \<Rightarrow> vfmcap_ctx \<Rightarrow> world \<Rightarrow> status option \<times> vfmcap_ctx \<times> world" where
  "wait_buffer tmo c w =
     (if tmo = 0 then (None, c, w)
      else let (t, w1) = now_ms_mono w in wait_ready (t + tmo) c w1)"

lemma k_dqbuf_simps [simp]:
  "k_dqbuf (log_call x w) = k_dqbuf w" "k_dqbuf (snd (ioctl_plain x w)) = k_dqbuf w"
  "k_dqbuf (give_back fd i w) = k_dqbuf w"
  by (auto simp: log_call_def ioctl_plain_def give_back_def split: prod.splits)

text \<open>
  Waiting and polling leave every resource alone: they only use up answers of poll, of the clock
  and of the event queue.
\<close>

definition quiet :: "world \<Rightarrow> world \<Rightarrow> bool" where
  "quiet w w' \<longleftrightarrow> (\<exists>ps. trace w' = trace w @ map Poll_call ps) \<and>
     w' = w\<lparr>k_poll := k_poll w', k_clock := k_clock w', k_now := k_now w', k_dqevent := k_dqevent w',
            trace := trace w'\<rparr>"

lemma quiet_refl [simp]: "quiet w w"
  by (auto simp: quiet_def intro: exI [of _ "[]"])

lemma quiet_trans: "quiet u v \<Longrightarrow> quiet v w \<Longrightarrow> quiet u w"
proof -
  assume uv: "quiet u v" and vw: "quiet v w"
  from uv obtain ps where ps: "trace v = trace u @ map Poll_call ps" by (auto simp: quiet_def)
  from vw obtain qs where qs: "trace w = trace v @ map Poll_call qs" by (auto simp: quiet_def)
  have "trace w = trace u @ map Poll_call (ps @ qs)" using ps qs by simp
  moreover have "w = u\<lparr>k_poll := k_poll w, k_clock := k_clock w, k_now := k_now w,
      k_dqevent := k_dqevent w, trace := trace w\<rparr>"
  proof -
    have "v = u\<lparr>k_poll := k_poll v, k_clock := k_clock v, k_now := k_now v,
      k_dqevent := k_dqevent v, trace := trace v\<rparr>" using uv by (simp add: quiet_def)
    moreover have "w = v\<lparr>k_poll := k_poll w, k_clock := k_clock w, k_now := k_now w,
      k_dqevent := k_dqevent w, trace := trace w\<rparr>" using vw by (simp add: quiet_def)
    ultimately show ?thesis by (cases u, cases v, cases w) simp
  qed
  ultimately show ?thesis unfolding quiet_def by blast
qed

lemma quiet_poll: "sys_poll t w = (p, w') \<Longrightarrow> quiet w w'"
  by (auto simp: sys_poll_def log_call_def quiet_def split: list.splits intro: exI [of _ "[t]"])

lemma quiet_now: "now_ms_mono w = (t, w') \<Longrightarrow> quiet w w'"
  by (auto simp: now_ms_mono_def quiet_def split: list.splits)

lemma quiet_dqevent [simp]: "quiet w (w\<lparr>k_dqevent := rs\<rparr>)"
  by (auto simp: quiet_def)

declare wait_ready.simps [simp del] recover.simps [simp del] drain_events.simps [simp del]
  find_source_change.simps [simp del]

text \<open>What waiting may change of the context.\<close>

definition only_signal :: "vfmcap_ctx \<Rightarrow> vfmcap_ctx \<Rightarrow> bool" where
  "only_signal c c' \<longleftrightarrow> c' = c\<lparr>signal_lost := signal_lost c', last_error := last_error c'\<rparr>"

lemma only_signal_simps [simp]:
  "only_signal c c" "only_signal c (c\<lparr>signal_lost := b\<rparr>)" "only_signal c (c\<lparr>last_error := e\<rparr>)"
  "only_signal c (c\<lparr>signal_lost := b, last_error := e\<rparr>)"
  "only_signal c (c\<lparr>last_error := e, signal_lost := b\<rparr>)"
  by (simp_all add: only_signal_def)

text \<open>A status with which no frame is delivered.\<close>

definition failed :: "status \<Rightarrow> bool" where
  "failed st \<longleftrightarrow> st \<noteq> VFMCAP_OK \<and> st \<noteq> VFMCAP_RECONFIGURED"

lemma failed_simps [simp]:
  "failed VFMCAP_ERR_TIMEOUT" "failed VFMCAP_ERR_NOSIG" "failed VFMCAP_ERR_IOCTL"
  "failed VFMCAP_ERR_VULKAN" "failed VFMCAP_ERR_NOMEM" "failed VFMCAP_ERR_STATE"
  "\<not> failed VFMCAP_OK" "\<not> failed VFMCAP_RECONFIGURED"
  by (simp_all add: failed_def)

lemma wait_ready_quiet:
  "wait_ready deadline c w = (r, c', w') \<Longrightarrow> quiet w w' \<and> only_signal c c' \<and>
    (r = None \<longrightarrow> c' = c) \<and> (\<forall>st. r = Some st \<longrightarrow> failed st)"
proof (induction deadline c w rule: wait_ready.induct)
  case (1 deadline c w)
  obtain t w1 where t: "now_ms_mono w = (t, w1)" by force
  let ?rem = "s32 (deadline - t)"
  obtain p w2 where p: "sys_poll ?rem w1 = (p, w2)" by force
  have q: "quiet w w1" "quiet w w2" using quiet_now [OF t] quiet_poll [OF p] quiet_trans by blast+
  note step = "1.prems" [unfolded wait_ready.simps [of deadline c w] Let_def t prod.case p]
  show ?case
  proof (cases "?rem \<le> 0")
    case True
    then show ?thesis using step q by auto
  next
    case rem: False
    show ?thesis
    proof (cases p)
      case Poll_timeout
      then show ?thesis using step q rem by auto
    next
      case (Poll_errno e)
      show ?thesis
      proof (cases "e = EINTR")
        case True
        then have "wait_ready deadline c w2 = (r, c', w')" using step rem Poll_errno by simp
        then show ?thesis using "1.IH"(1) [OF refl t [symmetric] refl rem refl p [symmetric] Poll_errno True] q quiet_trans by blast
      next
        case False
        then show ?thesis using step q rem Poll_errno
          by (auto simp: report_signal_lost_ioctl_def split: if_splits)
      qed
    next
      case (Poll_ready rv)
      show ?thesis
      proof (cases "pollerr rv")
        case True
        then show ?thesis using step q rem Poll_ready
          by (auto simp: report_signal_lost_ioctl_def split: if_splits)
      next
        case False
        obtain found rs where f: "(if pollpri rv then find_source_change (k_dqevent w2)
          else (False, k_dqevent w2)) = (found, rs)" by force
        have q3: "quiet w (w2\<lparr>k_dqevent := rs\<rparr>)" using q(2) quiet_dqevent quiet_trans by blast
        show ?thesis
        proof (cases "\<not> found \<and> \<not> pollin rv")
          case again: True
          then have "wait_ready deadline c (w2\<lparr>k_dqevent := rs\<rparr>) = (r, c', w')"
            using step rem Poll_ready False f by simp
          with "1.IH"(2) [OF refl t [symmetric] refl rem refl p [symmetric] Poll_ready False f [symmetric] refl]
            again q3 quiet_trans show ?thesis by blast
        next
          case False2: False
          then show ?thesis using step q3 rem Poll_ready False f by (auto split: if_splits)
        qed
      qed
    qed
  qed
qed


subsection \<open>Resources\<close>

text \<open>
  What the client and the library can hold: a dequeued buffer, a descriptor, an output of the GPU. A
  negative descriptor is none. The first queueing of a new set of buffers (\<open>Queue_initial\<close>) hands
  nothing back: those buffers were never dequeued.
\<close>

datatype resource = Buffer u32 | Fd int | Output int int

fun takes :: "call \<Rightarrow> resource multiset" where
  "takes (Dqbuf i) = {#Buffer i#}"
| "takes (Get_dmabuf fd) = (if 0 \<le> fd then {#Fd fd#} else {#})"
| "takes (Vk_output y uv) = {#Output y uv#}"
| "takes _ = {#}"

fun gives :: "call \<Rightarrow> resource multiset" where
  "gives (Qbuf i) = {#Buffer i#}"
| "gives (Close_fd fd) = (if 0 \<le> fd then {#Fd fd#} else {#})"
| "gives (Vk_release y uv) = {#Output y uv#}"
| "gives _ = {#}"

definition taken :: "world \<Rightarrow> resource multiset" where
  "taken w = sum_list (map takes (trace w))"

definition given :: "world \<Rightarrow> resource multiset" where
  "given w = sum_list (map gives (trace w))"

text \<open>Steps that neither take nor give back anything and leave the queue of filled buffers alone.\<close>

definition calm :: "world \<Rightarrow> world \<Rightarrow> bool" where
  "calm w w' \<longleftrightarrow> k_dqbuf w' = k_dqbuf w \<and> taken w' = taken w \<and> given w' = given w"

lemma calm_refl [simp]: "calm w w"
  by (simp add: calm_def)

lemma calm_trans: "calm u v \<Longrightarrow> calm v w \<Longrightarrow> calm u w"
  by (simp add: calm_def)

lemma log_call_resources [simp]:
  "taken (log_call x w) = taken w + takes x" "given (log_call x w) = given w + gives x"
  by (simp_all add: taken_def given_def log_call_def)

lemma script_resources [simp]:
  "taken (w\<lparr>k_ioctl := a\<rparr>) = taken w" "given (w\<lparr>k_ioctl := a\<rparr>) = given w"
  "taken (w\<lparr>k_reqbufs := b\<rparr>) = taken w" "given (w\<lparr>k_reqbufs := b\<rparr>) = given w"
  "taken (w\<lparr>k_gfmt := d\<rparr>) = taken w" "given (w\<lparr>k_gfmt := d\<rparr>) = given w"
  "taken (w\<lparr>k_vk := e\<rparr>) = taken w" "given (w\<lparr>k_vk := e\<rparr>) = given w"
  "taken (w\<lparr>k_dqbuf := g\<rparr>) = taken w" "given (w\<lparr>k_dqbuf := g\<rparr>) = given w"
  "taken (w\<lparr>k_dmabuf := h\<rparr>) = taken w" "given (w\<lparr>k_dmabuf := h\<rparr>) = given w"
  "taken (w\<lparr>k_render := i\<rparr>) = taken w" "given (w\<lparr>k_render := i\<rparr>) = given w"
  "taken (w\<lparr>k_calloc := j\<rparr>) = taken w" "given (w\<lparr>k_calloc := j\<rparr>) = given w"
  "taken (w\<lparr>k_dqevent := l\<rparr>) = taken w" "given (w\<lparr>k_dqevent := l\<rparr>) = given w"
  by (simp_all add: taken_def given_def)

lemma quiet_calm: "quiet w w' \<Longrightarrow> calm w w'"
proof -
  assume q: "quiet w w'"
  then obtain ps where ps: "trace w' = trace w @ map Poll_call ps" by (auto simp: quiet_def)
  have "sum_list (map takes (map Poll_call ps)) = {#}" "sum_list (map gives (map Poll_call ps)) = {#}"
    by (induction ps) simp_all
  moreover have "k_dqbuf w' = k_dqbuf w" using q unfolding quiet_def by (cases w, cases w') simp
  ultimately show ?thesis using ps by (simp add: calm_def taken_def given_def)
qed

lemma ioctl_plain_resources:
  "ioctl_plain x w = (b, w') \<Longrightarrow>
    k_dqbuf w' = k_dqbuf w \<and> taken w' = taken w + takes x \<and> given w' = given w + gives x"
  by (auto simp: ioctl_plain_def split: prod.splits)

lemma calm_ioctl:
  "ioctl_plain x w = (b, w') \<Longrightarrow> takes x = {#} \<Longrightarrow> gives x = {#} \<Longrightarrow> calm w w'"
  "ioctl_reqbufs n w = (q, w') \<Longrightarrow> calm w w'"
  "ioctl_gfmt w = (g, w') \<Longrightarrow> calm w w'"
  "vk_call x w = (b, w') \<Longrightarrow> takes x = {#} \<Longrightarrow> gives x = {#} \<Longrightarrow> calm w w'"
  by (auto simp: ioctl_plain_def ioctl_reqbufs_def ioctl_gfmt_def vk_call_def calm_def
      split: prod.splits list.splits)

lemma calm_queue_buffers: "queue_buffers n i w = (r, w') \<Longrightarrow> calm w w'"
proof (induction n arbitrary: i w)
  case (Suc n)
  obtain ok w1 where q: "ioctl_plain (Queue_initial i) w = (ok, w1)" by force
  have "calm w w1" using calm_ioctl(1) [OF q] by simp
  then show ?case using Suc q calm_trans by (auto split: if_splits)
qed simp

lemma calm_read_format: "read_format c w = (c', w') \<Longrightarrow> calm w w'"
  by (auto simp: read_format_def split: prod.splits sum.splits dest: calm_ioctl)

text \<open>What a reconfiguration keeps of the context.\<close>

definition same_setup :: "vfmcap_ctx \<Rightarrow> vfmcap_ctx \<Rightarrow> bool" where
  "same_setup c c' \<longleftrightarrow> vk c' = vk c \<and> cfg c' = cfg c \<and> streaming c' = streaming c \<and> c_fd c' = c_fd c \<and>
     layout c' = layout c"

lemma calm_do_reconfig:
  assumes "vfmcap_do_reconfig c w = (r, c', w')"
  shows "calm w w' \<and> same_setup c c' \<and> signal_lost c' = signal_lost c \<and>
    reconfig_pending c' = reconfig_pending c"
proof -
  obtain r1 w1 where 1: "ioctl_plain Streamoff w = (r1, w1)" by force
  obtain r2 w2 where 2: "ioctl_reqbufs 0 w1 = (r2, w2)" by force
  obtain r3 w3 where 3: "ioctl_gfmt w2 = (r3, w3)" by force
  define c1 where "c1 = set_format (case r3 of Inl e \<Rightarrow> zero_format | Inr f \<Rightarrow> f) c"
  have c1: "same_setup c c1" "signal_lost c1 = signal_lost c" "reconfig_pending c1 = reconfig_pending c"
    by (simp_all add: c1_def set_format_def same_setup_def)
  define nb where "nb = (if num_buffers c1 \<noteq> 0 then num_buffers c1 else 6)"
  obtain r4 w4 where 4: "ioctl_reqbufs nb w3 = (r4, w4)" by force
  have w4: "calm w w4"
    using calm_ioctl(1) [OF 1] calm_ioctl(2) [OF 2] calm_ioctl(3) [OF 3] calm_ioctl(2) [OF 4]
    by (simp add: calm_def)
  note step = assms [unfolded vfmcap_do_reconfig_def Let_def 1 prod.case 2 3, folded c1_def,
      folded nb_def, unfolded 4 prod.case]
  show ?thesis
  proof (cases r4)
    case (Inl e)
    then show ?thesis using step w4 c1 by (auto simp: same_setup_def)
  next
    case (Inr n)
    obtain ok w5 where 5: "queue_buffers (unat n) 0 w4 = (ok, w5)" by force
    obtain ok2 w6 where 6: "ioctl_plain Streamon w5 = (ok2, w6)" by force
    obtain b w7 where 7: "vk_call (Vk_reconfig (dst_width (c1\<lparr>num_buffers := n\<rparr>))
      (dst_height (c1\<lparr>num_buffers := n\<rparr>))) w6 = (b, w7)" by force
    have w5: "calm w w5" using w4 calm_queue_buffers [OF 5] by (rule calm_trans)
    have w6: "calm w w6" using w5 calm_ioctl(1) [OF 6] calm_trans by simp
    have w7: "calm w w7" using w6 calm_ioctl(4) [OF 7] calm_trans by simp
    have cases: "(\<exists>e. c' = c1\<lparr>num_buffers := n, last_error := e\<rparr>) \<or>
        c' = c1\<lparr>num_buffers := n, ts_accum_us := 0\<rparr>" and w': "w' = w5 \<or> w' = w6 \<or> w' = w7"
      using step by (simp_all only: Inr sum.case 5 6 7 prod.case snd_conv prod.inject split: if_splits) blast+
    have "calm w w'" using w' w5 w6 w7 by blast
    moreover have "same_setup c1 c' \<and> signal_lost c' = signal_lost c1 \<and>
        reconfig_pending c' = reconfig_pending c1"
      using cases by (auto simp: same_setup_def)
    ultimately show ?thesis using c1 by (simp add: same_setup_def)
  qed
qed

end
