(* ===== verification/Vfmcap_Acquire.thy ===== *)
theory Vfmcap_Acquire
  imports Vfmcap_Model
begin

text \<open>
  The entry points of \<open>libvfmcap\<close> on a running stream: \<open>vfmcap_acquire_frame\<close> and
  \<open>vfmcap_release_frame\<close> on top of the steps of \<open>Vfmcap_Model\<close>, the conversions of the older
  interface, the event poll, and the lemmas that account for the resources each of them takes and
  gives back. The context and the frame are the objects behind non-null pointers: the null checks of
  the C functions return at once and touch nothing.
\<close>

section \<open>Recovery\<close>

lemma restore_signal_calm:
  assumes "restore_signal c w = (c', w')"
  shows "calm w w' \<and> same_setup c c' \<and> \<not> signal_lost c' \<and> reconfig_pending c'"
proof -
  define c1 where "c1 = c\<lparr>signal_lost := False, prev_width := c_width c, prev_height := c_height c\<rparr>"
  obtain c2 w2 where f: "read_format c1 w = (c2, w2)" by force
  obtain r c3 w3 where d: "vfmcap_do_reconfig c2 w2 = (r, c3, w3)" by (cases "vfmcap_do_reconfig c2 w2")
  have c2: "same_setup c1 c2 \<and> signal_lost c2 = signal_lost c1"
    using f by (auto simp: read_format_def set_format_def same_setup_def split: prod.splits sum.splits)
  have "c' = c3\<lparr>reconfig_pending := True\<rparr>" "w' = w3"
    using assms by (simp_all add: restore_signal_def Let_def c1_def [symmetric] f d)
  then show ?thesis using calm_read_format [OF f] calm_do_reconfig [OF d] c2
    by (auto simp: c1_def same_setup_def intro: calm_trans)
qed

lemma recover_calm:
  "recover tmo c w = (r, c', w') \<Longrightarrow>
    calm w w' \<and> same_setup c c' \<and> (r = None \<longrightarrow> \<not> signal_lost c' \<and> reconfig_pending c') \<and>
    (r \<noteq> None \<longrightarrow> signal_lost c' = signal_lost c \<and> reconfig_pending c' = reconfig_pending c) \<and>
    (\<forall>st. r = Some st \<longrightarrow> failed st)"
proof (induction tmo c w rule: recover.induct)
  case (1 tmo c w)
  obtain p w1 where p: "sys_poll (if 0 < tmo then tmo else 1000) w = (p, w1)" by force
  have w1: "calm w w1" using quiet_calm [OF quiet_poll [OF p]] .
  note step = "1.prems" [unfolded recover.simps [of tmo c w] Let_def p prod.case]
  show ?case
  proof (cases p)
    case Poll_timeout
    then show ?thesis using step w1 by (auto simp: same_setup_def)
  next
    case (Poll_errno e)
    show ?thesis
    proof (cases "e = EINTR")
      case True
      then have "recover tmo c w1 = (r, c', w')" using step Poll_errno by simp
      from "1.IH"(1) [OF refl p [symmetric] Poll_errno True this] w1 show ?thesis
        by (auto intro: calm_trans)
    next
      case False
      then show ?thesis using step Poll_errno w1 by (auto simp: same_setup_def)
    qed
  next
    case (Poll_ready rv)
    obtain found rs where f: "find_source_change (k_dqevent w1) = (found, rs)" by force
    let ?w2 = "w1\<lparr>k_dqevent := rs\<rparr>"
    have w2: "calm w ?w2" using w1 by (simp add: calm_def)
    show ?thesis
    proof (cases "pollpri rv")
      case pri: True
      show ?thesis
      proof (cases found)
        case True
        then have "r = None" "restore_signal c ?w2 = (c', w')"
          using step Poll_ready pri f by (auto split: prod.splits)
        then show ?thesis using restore_signal_calm w2 calm_trans by blast
      next
        case False
        then have "recover tmo c ?w2 = (r, c', w')" using step Poll_ready pri f by simp
        from "1.IH"(2) [OF refl p [symmetric] Poll_ready pri refl f [symmetric] refl False this] w2
        show ?thesis by (auto intro: calm_trans)
      qed
    next
      case False
      then have "recover tmo c w1 = (r, c', w')" using step Poll_ready by simp
      from "1.IH"(3) [OF refl p [symmetric] Poll_ready False this] w1 show ?thesis
        by (auto intro: calm_trans)
    qed
  qed
qed

section \<open>Acquire\<close>

text \<open>One pass of the code from the label \<open>again\<close> up to the frame-rate test.\<close>

definition recover_if_lost :: "int \<Rightarrow> vfmcap_ctx \<Rightarrow> world \<Rightarrow> status option \<times> vfmcap_ctx \<times> world" where
  "recover_if_lost tmo c w = (if signal_lost c then recover tmo c w else (None, c, w))"

definition next_buffer ::
    "int \<Rightarrow> vfmcap_ctx \<Rightarrow> world \<Rightarrow> (status + dq_buffer \<times> int \<times> u32) \<times> vfmcap_ctx \<times> world" where
  "next_buffer tmo c w =
     (let (r, c1, w1) = recover_if_lost tmo c w in
      case r of Some st \<Rightarrow> (Inl st, c1, w1)
      | None \<Rightarrow>
          let (r2, c2, w2) = wait_buffer tmo c1 w1 in
          (case r2 of Some st \<Rightarrow> (Inl st, c2, w2) | None \<Rightarrow> dequeue c2 w2))"

text \<open>The frame-rate test with its guards; the accumulator is kept when the frame is dropped too.\<close>

definition fps_check :: "vfmcap_ctx \<Rightarrow> u64 \<Rightarrow> bool \<times> vfmcap_ctx" where
  "fps_check c ts = (case target_interval_us (cfg c) of
     None \<Rightarrow> (False, c)
   | Some iv \<Rightarrow> if reconfig_pending c then (False, c)
       else let (drop_it, acc) = fps_gate iv (ts_accum_us c) ts in (drop_it, c\<lparr>ts_accum_us := acc\<rparr>))"

text \<open>The GPU conversion and the status of a delivered frame.\<close>

definition deliver :: "frame \<Rightarrow> vfmcap_ctx \<Rightarrow> world \<Rightarrow> (status \<times> frame) \<times> vfmcap_ctx \<times> world" where
  "deliver f c w =
     (let (r, c1, w1) = convert_frame f c w in
      case r of Inl st \<Rightarrow> ((st, f), c1, w1)
      | Inr f1 \<Rightarrow>
          if reconfig_pending c1 then ((VFMCAP_RECONFIGURED, f1), c1\<lparr>reconfig_pending := False\<rparr>, w1)
          else ((VFMCAP_OK, f1), c1, w1))"

text \<open>Resource accounts of the steps.\<close>

lemma recover_if_lost_calm:
  "recover_if_lost tmo c w = (r, c', w') \<Longrightarrow> calm w w' \<and> same_setup c c' \<and>
    (r = None \<longrightarrow> \<not> signal_lost c') \<and> (\<forall>st. r = Some st \<longrightarrow> failed st)"
  using recover_calm by (fastforce simp: recover_if_lost_def same_setup_def split: if_splits)

lemma wait_buffer_calm:
  assumes "wait_buffer tmo c w = (r, c', w')"
  shows "calm w w' \<and> same_setup c c' \<and> (r = None \<longrightarrow> c' = c) \<and> (\<forall>st. r = Some st \<longrightarrow> failed st)"
proof (cases "tmo = 0")
  case True
  then show ?thesis using assms by (simp add: wait_buffer_def same_setup_def)
next
  case False
  obtain t w1 where t: "now_ms_mono w = (t, w1)" by force
  then have wr: "wait_ready (t + tmo) c w1 = (r, c', w')" using assms False by (simp add: wait_buffer_def)
  have "only_signal c c' \<Longrightarrow> same_setup c c'"
    unfolding only_signal_def same_setup_def by (cases c, cases c') simp
  then show ?thesis using wait_ready_quiet [OF wr] quiet_now [OF t] quiet_trans quiet_calm by blast
qed

text \<open>The resources of a dequeued buffer.\<close>

definition raw_holds :: "u32 \<Rightarrow> int \<Rightarrow> resource multiset" where
  "raw_holds i fd = {#Buffer i#} + (if 0 \<le> fd then {#Fd fd#} else {#})"

text \<open>
  \<open>moved w w' h\<close>: between \<open>w\<close> and \<open>w'\<close> exactly the resources \<open>h\<close> were taken and not given back.
\<close>

definition moved :: "world \<Rightarrow> world \<Rightarrow> resource multiset \<Rightarrow> bool" where
  "moved w w' h \<longleftrightarrow> taken w' + given w = taken w + given w' + h"

lemma calm_moved: "calm w w' \<Longrightarrow> moved w' v h \<Longrightarrow> moved w v h"
  by (simp add: moved_def calm_def)

lemma calm_moved_empty: "calm w w' \<Longrightarrow> moved w w' {#}"
  by (simp add: moved_def calm_def)

lemma moved_trans: "moved u v h \<Longrightarrow> moved v w k \<Longrightarrow> moved u w (h + k)"
proof -
  assume "moved u v h" "moved v w k"
  then have "taken v + given u + (taken w + given v) = taken u + given v + h + (taken v + given w + k)"
    by (simp add: moved_def)
  then have "(taken v + given v) + (taken w + given u) = (taken v + given v) + (taken u + given w + (h + k))"
    by (simp add: ac_simps)
  then show ?thesis by (simp only: add_left_cancel moved_def)
qed

lemma give_back_moved: "moved w v (raw_holds i fd) \<Longrightarrow> moved w (give_back fd i v) {#}"
proof -
  assume m: "moved w v (raw_holds i fd)"
  obtain b v' where q: "ioctl_plain (Qbuf i) (log_call (Close_fd fd) v) = (b, v')" by force
  have "taken v' = taken v" "given v' = given v + raw_holds i fd"
    using ioctl_plain_resources [OF q] by (simp_all add: raw_holds_def)
  then show ?thesis using m q by (simp add: moved_def give_back_def ac_simps)
qed

lemma dequeue_moved:
  assumes "dequeue c w = (r, c', w')"
  shows "same_setup c c' \<and> (case r of Inl st \<Rightarrow> moved w w' {#} \<and> failed st
     | Inr (b, fd, sz) \<Rightarrow> c' = c \<and> moved w w' (raw_holds (b_index b) fd) \<and>
          length (k_dqbuf w') < length (k_dqbuf w))"
proof -
  obtain q rs where q: "xioctl (k_dqbuf w) = (q, rs)" by force
  note step = assms [unfolded dequeue_def Let_def q prod.case]
  show ?thesis
  proof (cases q)
    case (Inl e)
    then show ?thesis using step
      by (auto simp: report_signal_lost_ioctl_def same_setup_def moved_def split: if_splits)
  next
    case (Inr b)
    define w2 where "w2 = log_call (Dqbuf (b_index b)) (w\<lparr>k_dqbuf := rs\<rparr>)"
    obtain d ds where d: "xioctl (k_dmabuf w2) = (d, ds)" by force
    have w2: "taken w2 = taken w + {#Buffer (b_index b)#}" "given w2 = given w" "k_dqbuf w2 = rs"
      by (simp_all add: w2_def)
    note step = step [unfolded Inr sum.case, folded w2_def, unfolded d prod.case]
    show ?thesis
    proof (cases d)
      case (Inl e)
      obtain o4 w4 where w4: "ioctl_plain (Qbuf (b_index b)) (w2\<lparr>k_dmabuf := ds\<rparr>) = (o4, w4)" by force
      have "moved w w4 {#}" using ioctl_plain_resources [OF w4] w2 by (simp add: moved_def)
      then show ?thesis using step Inl w4 by (auto simp: same_setup_def split: if_splits)
    next
      case d: (Inr y)
      obtain fd sz where y: "y = (fd, sz)" by force
      have "r = Inr (b, fd, sz)" "c' = c" "w' = log_call (Get_dmabuf fd) (w2\<lparr>k_dmabuf := ds\<rparr>)"
        using step by (simp_all add: d y)
      moreover have "length rs < length (k_dqbuf w)" by (rule xioctl_shorter [OF q [unfolded Inr]])
      ultimately show ?thesis using w2
        by (simp add: same_setup_def moved_def raw_holds_def)
    qed
  qed
qed

lemma next_buffer_moved:
  assumes "next_buffer tmo c w = (r, c', w')"
  shows "same_setup c c' \<and> (case r of Inl st \<Rightarrow> moved w w' {#} \<and> failed st
     | Inr (b, fd, sz) \<Rightarrow> \<not> signal_lost c' \<and> moved w w' (raw_holds (b_index b) fd) \<and>
          length (k_dqbuf w') < length (k_dqbuf w))"
proof -
  obtain r1 c1 w1 where 1: "recover_if_lost tmo c w = (r1, c1, w1)"
    by (cases "recover_if_lost tmo c w")
  note c1 = recover_if_lost_calm [OF 1]
  note step = assms [unfolded next_buffer_def Let_def 1 prod.case]
  show ?thesis
  proof (cases r1)
    case (Some st)
    then show ?thesis using step c1 calm_moved_empty by auto
  next
    case None
    obtain r2 c2 w2 where 2: "wait_buffer tmo c1 w1 = (r2, c2, w2)" by (cases "wait_buffer tmo c1 w1")
    note c2 = wait_buffer_calm [OF 2]
    have m: "calm w w2" "same_setup c c2" using c1 c2 calm_trans by (auto simp: same_setup_def)
    show ?thesis
    proof (cases r2)
      case (Some st)
      then show ?thesis using step None 2 c2 m calm_moved_empty by auto
    next
      case r2: None
      have "dequeue c2 w2 = (r, c', w')" using step None 2 r2 by simp
      note d = dequeue_moved [OF this]
      have "c2 = c1" "k_dqbuf w2 = k_dqbuf w" using c2 r2 m by (simp_all add: calm_def)
      then show ?thesis using d m c1 None calm_moved [OF m(1)]
        by (auto simp: same_setup_def split: sum.splits)
    qed
  qed
qed

text \<open>
  \<open>vfmcap_acquire_frame\<close> from the label \<open>again\<close>. The caller's frame is filled in as soon as a buffer
  is there; a frame that is then dropped or lost to an error stays in it.
\<close>

function acquire_loop ::
    "int \<Rightarrow> frame \<Rightarrow> vfmcap_ctx \<Rightarrow> world \<Rightarrow> (status \<times> frame) \<times> vfmcap_ctx \<times> world" where
  "acquire_loop tmo f c w =
     (let (r, c1, w1) = next_buffer tmo c w in
      case r of Inl st \<Rightarrow> ((st, f), c1, w1)
      | Inr (b, fd, sz) \<Rightarrow>
          let f1 = fill_frame c1 b fd sz;
              (dropped, c2) = fps_check c1 (timestamp_us f1) in
          if dropped then acquire_loop tmo f1 c2 (give_back fd (b_index b) w1)
          else deliver f1 c2 w1)"
  by pat_completeness auto
termination
  by (relation "measure (\<lambda>(tmo, f, c, w). length (k_dqbuf w))")
     (auto dest!: next_buffer_moved [OF sym])

declare acquire_loop.simps [simp del]

definition vfmcap_acquire_frame ::
    "int \<Rightarrow> frame \<Rightarrow> vfmcap_ctx \<Rightarrow> world \<Rightarrow> (status \<times> frame) \<times> vfmcap_ctx \<times> world" where
  "vfmcap_acquire_frame tmo f c w =
     (if \<not> streaming c
      then ((VFMCAP_ERR_STATE, f), c\<lparr>last_error := ''Not streaming (call vfmcap_start first)''\<rparr>, w)
      else acquire_loop tmo empty_frame c w)"

section \<open>Release\<close>

definition vfmcap_release_frame :: "frame \<Rightarrow> vfmcap_ctx \<Rightarrow> world \<Rightarrow> frame \<times> world" where
  "vfmcap_release_frame f c w =
     (let (f1, w1) = (case priv f of
          Some p \<Rightarrow>
            let w1 = (if vk c then
                        if priv_fmt p = VK_FMT_NV12_AFBC \<or> priv_fmt p = VK_FMT_A2B10G10R10_AFBC
                        then log_call (Vk_release (out_y_fd p) (- 1)) w
                        else log_call (Vk_release (out_y_fd p) (out_uv_fd p)) w
                      else w);
                w2 = (if 0 \<le> vdin_fd p then log_call (Close_fd (vdin_fd p)) w1 else w1)
            in (f\<lparr>priv := None, dmabuf_fd := - 1, dmabuf_fd2 := - 1\<rparr>, w2)
        | None \<Rightarrow>
            if 0 \<le> dmabuf_fd f then (f\<lparr>dmabuf_fd := - 1\<rparr>, log_call (Close_fd (dmabuf_fd f)) w)
            else (f, w))
      in (f1, snd (ioctl_plain (Qbuf (index f)) w1)))"

section \<open>Conversions of the older interface\<close>

definition vk_convert_to ::
    "vk_fmt \<Rightarrow> string \<Rightarrow> frame \<Rightarrow> int \<Rightarrow> vfmcap_ctx \<Rightarrow> world \<Rightarrow> status \<times> vfmcap_ctx \<times> world" where
  "vk_convert_to fmt msg f fd_out c w =
     (if \<not> vk c then (VFMCAP_ERR_VULKAN, c\<lparr>last_error := ''Vulkan not initialized''\<rparr>, w)
      else if dmabuf_fd f < 0 then (VFMCAP_ERR_INVAL, c\<lparr>last_error := ''Frame has no DMA-buf fd''\<rparr>, w)
      else let (ok, w1) = vk_call (Vk_convert (dmabuf_fd f) fd_out (width f) (height f) fmt) w in
      if ok then (VFMCAP_OK, c, w1) else (VFMCAP_ERR_VULKAN, c\<lparr>last_error := msg\<rparr>, w1))"

definition vfmcap_convert_p010 :: "frame \<Rightarrow> int \<Rightarrow> vfmcap_ctx \<Rightarrow> world \<Rightarrow> status \<times> vfmcap_ctx \<times> world" where
  "vfmcap_convert_p010 = vk_convert_to VK_FMT_P010 ''Vulkan P010 conversion failed''"

definition vfmcap_convert_nv12 :: "frame \<Rightarrow> int \<Rightarrow> vfmcap_ctx \<Rightarrow> world \<Rightarrow> status \<times> vfmcap_ctx \<times> world" where
  "vfmcap_convert_nv12 = vk_convert_to VK_FMT_NV12 ''Vulkan NV12 conversion failed''"

definition vfmcap_convert_submit ::
    "frame \<Rightarrow> int \<Rightarrow> output_fmt \<Rightarrow> vfmcap_ctx \<Rightarrow> world \<Rightarrow> status \<times> vfmcap_ctx \<times> world" where
  "vfmcap_convert_submit f fd_out fmt c w =
     (if \<not> vk c then (VFMCAP_ERR_VULKAN, c, w)
      else if dmabuf_fd f < 0 then (VFMCAP_ERR_INVAL, c, w)
      else let (ok, w1) = vk_call (Vk_submit (dmabuf_fd f) fd_out (width f) (height f)
                 (if fmt = FMT_NV12 then VK_FMT_NV12 else VK_FMT_P010)) w in
      if ok then (VFMCAP_OK, c, w1) else (VFMCAP_ERR_VULKAN, c\<lparr>last_error := ''Vulkan submit failed''\<rparr>, w1))"

definition vfmcap_convert_wait :: "vfmcap_ctx \<Rightarrow> world \<Rightarrow> status \<times> vfmcap_ctx \<times> world" where
  "vfmcap_convert_wait c w =
     (if \<not> vk c then (VFMCAP_ERR_VULKAN, c, w)
      else let (ok, w1) = vk_call Vk_wait w in
      if ok then (VFMCAP_OK, c, w1) else (VFMCAP_ERR_VULKAN, c\<lparr>last_error := ''Vulkan wait failed''\<rparr>, w1))"

section \<open>Events and information\<close>

text \<open>One poll, without a retry after a signal, and at most one event.\<close>

definition vfmcap_poll_event :: "int \<Rightarrow> vfmcap_ctx \<Rightarrow> world \<Rightarrow> event_ret \<times> vfmcap_ctx \<times> world" where
  "vfmcap_poll_event tmo c w =
     (let (p, w1) = sys_poll tmo w in
      case p of
        Poll_timeout \<Rightarrow> (EVENT_TIMEOUT, c, w1)
      | Poll_errno e \<Rightarrow> (EVENT_ERROR, c, w1)
      | Poll_ready rv \<Rightarrow>
          if pollerr rv then (EVENT_NOSIG, c\<lparr>signal_lost := True\<rparr>, w1)
          else if pollpri rv then
            (let (r, rs) = xioctl (k_dqevent w1); w2 = w1\<lparr>k_dqevent := rs\<rparr> in
             case r of Inl e \<Rightarrow> (EVENT_TIMEOUT, c, w2)
             | Inr change \<Rightarrow>
                 if change
                 then (EVENT_SOURCE_CHANGE, c\<lparr>signal_lost := True, reconfig_pending := True\<rparr>, w2)
                 else (EVENT_TIMEOUT, c, w2))
          else (EVENT_TIMEOUT, c, w1))"

record signal_info =
  s_width :: u32
  s_height :: u32
  s_fps :: u32
  s_pixelformat :: u32
  s_signal_type :: u32
  s_hdr_status :: u32
  s_is_interlaced :: u32
  s_status :: u32
  s_bitdepth :: u32

definition zero_info :: signal_info where
  "zero_info = \<lparr>s_width = 0, s_height = 0, s_fps = 0, s_pixelformat = 0, s_signal_type = 0,
     s_hdr_status = 0, s_is_interlaced = 0, s_status = 0, s_bitdepth = 0\<rparr>"

definition vfmcap_get_signal_info :: "vfmcap_ctx \<Rightarrow> world \<Rightarrow> (status \<times> signal_info) \<times> vfmcap_ctx \<times> world" where
  "vfmcap_get_signal_info c w =
     (let (r, w1) = ioctl_gfmt w in
      case r of
        Inl e \<Rightarrow> ((VFMCAP_ERR_IOCTL, zero_info),
                 c\<lparr>last_error := ''VIDIOC_G_FMT failed''\<rparr>, w1)
      | Inr f \<Rightarrow> ((VFMCAP_OK, zero_info\<lparr>s_width := f_width f, s_height := f_height f, s_pixelformat := f_pixelformat f\<rparr>),
                 c, w1))"

text \<open>The error of a context, or the one of the last failed open.\<close>

definition vfmcap_last_error :: "string \<Rightarrow> vfmcap_ctx option \<Rightarrow> string" where
  "vfmcap_last_error global c = (case c of Some x \<Rightarrow> last_error x | None \<Rightarrow> global)"

section \<open>What a frame holds\<close>

definition frame_holds :: "frame \<Rightarrow> resource multiset" where
  "frame_holds f = (case priv f of
       None \<Rightarrow> raw_holds (index f) (dmabuf_fd f)
     | Some p \<Rightarrow> raw_holds (index f) (vdin_fd p) + {#Output (out_y_fd p) (out_uv_fd p)#})"

text \<open>A frame as \<open>vfmcap_acquire_frame\<close> builds it: converted only with a GPU, one plane for AFBC.\<close>

definition frame_ok :: "vfmcap_ctx \<Rightarrow> frame \<Rightarrow> bool" where
  "frame_ok c f \<longleftrightarrow> (case priv f of None \<Rightarrow> True
     | Some p \<Rightarrow> vk c \<and>
        (priv_fmt p = VK_FMT_NV12_AFBC \<or> priv_fmt p = VK_FMT_A2B10G10R10_AFBC \<longrightarrow> out_uv_fd p = - 1))"

lemma convert_frame_moved:
  assumes "convert_frame f c w = (r, c', w')" "priv f = None"
    and m: "moved v w (raw_holds (index f) (dmabuf_fd f))"
  shows "same_setup c c' \<and> reconfig_pending c' = reconfig_pending c \<and>
    (case r of Inl st \<Rightarrow> failed st \<and> moved v w' {#} | Inr g \<Rightarrow> moved v w' (frame_holds g) \<and> frame_ok c g)"
proof (cases "needs_vulkan (cfg c) \<and> vk c")
  case False
  then have "r = Inr f" "c' = c" "w' = w" 
    using assms(1) [unfolded convert_frame_def if_not_P [OF False]] by simp_all
  then show ?thesis using assms by (simp add: same_setup_def frame_holds_def frame_ok_def)
next
  case True
  define fmt where "fmt = to_vk_fmt (output_format (cfg c))"
  note step = assms(1) [unfolded convert_frame_def Let_def if_P [OF True], folded fmt_def]
  show ?thesis
  proof (cases "select_render (c_bitdepth c) fmt")
    case None
    then have "r = Inr f" "c' = c" "w' = w" using step by simp_all
    then show ?thesis using assms by (simp add: same_setup_def frame_holds_def frame_ok_def)
  next
    case (Some vr)
    have afbc: "fmt = VK_FMT_NV12_AFBC \<or> fmt = VK_FMT_A2B10G10R10_AFBC \<Longrightarrow> \<not> linear_render vr"
      using Some by (auto simp: select_render_def linear_render_def split: if_splits)
    obtain out w1 where w1: "vk_render_call vr w = (out, w1)" by force
    note step = step [unfolded Some option.case w1 prod.case]
    show ?thesis
    proof (cases out)
      case None
      then have "moved v w1 (raw_holds (index f) (dmabuf_fd f))"
        using w1 m by (auto simp: vk_render_call_def moved_def split: list.splits sum.splits)
      then show ?thesis using step None give_back_moved by (auto simp: same_setup_def)
    next
      case vo: (Some vo)
      define uv where "uv = (if linear_render vr then o_uv_fd vo else - 1)"
      obtain mem w2 where w2: "sys_calloc w1 = (mem, w2)" by force
      have t: "taken w2 = taken w + {#Output (o_y_fd vo) uv#}" "given w2 = given w"
        using w1 w2 vo
        by (auto simp: vk_render_call_def sys_calloc_def uv_def split: list.splits sum.splits)
      note step = step [unfolded vo option.case w2 prod.case, folded uv_def]
      show ?thesis
      proof (cases mem)
        case True
        then have "r = Inr (converted_frame vr fmt c vo f)" "c' = c" "w' = w2" using step by auto
        moreover have "frame_ok c (converted_frame vr fmt c vo f)"
          using afbc \<open>needs_vulkan (cfg c) \<and> vk c\<close>
          by (auto simp: frame_ok_def converted_frame_def Let_def)
        moreover have "moved v w2 (frame_holds (converted_frame vr fmt c vo f))"
          using m t by (simp add: moved_def frame_holds_def converted_frame_def Let_def uv_def)
        ultimately show ?thesis by (simp add: same_setup_def)
      next
        case False
        have "moved v (log_call (Vk_release (o_y_fd vo) uv) w2) (raw_holds (index f) (dmabuf_fd f))"
          using m t by (simp add: moved_def)
        then show ?thesis using step False give_back_moved by (auto simp: same_setup_def)
      qed
    qed
  qed
qed

lemma deliver_moved:
  assumes "deliver f c w = ((st, g), c', w')" "priv f = None"
    and m: "moved v w (raw_holds (index f) (dmabuf_fd f))"
  shows "same_setup c c' \<and>
    (if failed st then moved v w' {#} else moved v w' (frame_holds g) \<and> frame_ok c' g)"
proof -
  obtain r c1 w1 where r: "convert_frame f c w = (r, c1, w1)" by (cases "convert_frame f c w")
  note k = convert_frame_moved [OF r assms(2,3)]
  have "frame_ok c1 g = frame_ok c g" if "same_setup c c1" for g
    using that by (simp add: frame_ok_def same_setup_def split: option.splits)
  then show ?thesis using k assms(1) r
    by (auto simp: deliver_def Let_def same_setup_def frame_ok_def split: sum.splits if_splits option.splits)
qed

lemma fps_check_setup: "fps_check c ts = (b, c') \<Longrightarrow> same_setup c c'"
  by (auto simp: fps_check_def same_setup_def Let_def split: option.splits if_splits prod.splits)

lemma acquire_loop_moved:
  "acquire_loop tmo f c w = ((st, g), c', w') \<Longrightarrow> same_setup c c' \<and>
    (if failed st then moved w w' {#} else moved w w' (frame_holds g) \<and> frame_ok c' g)"
proof (induction tmo f c w rule: acquire_loop.induct)
  case (1 tmo f c w)
  obtain r c1 w1 where n: "next_buffer tmo c w = (r, c1, w1)" by (cases "next_buffer tmo c w")
  note nb = next_buffer_moved [OF n]
  note step = "1.prems" [unfolded acquire_loop.simps [of tmo f c w] Let_def n prod.case]
  show ?case
  proof (cases r)
    case (Inl e)
    then show ?thesis using nb step by auto
  next
    case (Inr x)
    obtain b fd sz where x: "x = (b, fd, sz)" by (cases x)
    define f1 where "f1 = fill_frame c1 b fd sz"
    have f1: "priv f1 = None" "index f1 = b_index b" "dmabuf_fd f1 = fd"
      by (simp_all add: f1_def fill_frame_def)
    obtain dropped c2 where d: "fps_check c1 (timestamp_us f1) = (dropped, c2)" by force
    note step = step [unfolded Inr x sum.case prod.case, folded f1_def, unfolded d prod.case]
    have m: "moved w w1 (raw_holds (b_index b) fd)" "same_setup c c2"
      using nb fps_check_setup [OF d] by (simp_all add: Inr x same_setup_def)
    show ?thesis
    proof (cases dropped)
      case True
      then have a: "acquire_loop tmo f1 c2 (give_back fd (b_index b) w1) = ((st, g), c', w')"
        using step by simp
      have ih: "same_setup c2 c' \<and> (if failed st then moved (give_back fd (b_index b) w1) w' {#}
          else moved (give_back fd (b_index b) w1) w' (frame_holds g) \<and> frame_ok c' g)"
        by (rule "1.IH" [OF refl n [symmetric] refl Inr x [symmetric] refl f1_def refl d [symmetric] True a])
      have "moved w (give_back fd (b_index b) w1) {#}" using give_back_moved m by blast
      then have "moved (give_back fd (b_index b) w1) w' h \<Longrightarrow> moved w w' h" for h
        using moved_trans by fastforce
      then show ?thesis using ih m by (auto simp: same_setup_def split: if_splits)
    next
      case False
      then have "deliver f1 c2 w1 = ((st, g), c', w')" using step by simp
      then show ?thesis using deliver_moved f1 m by (fastforce simp: same_setup_def)
    qed
  qed
qed

lemma acquire_frame_moved:
  assumes "vfmcap_acquire_frame tmo f c w = ((st, g), c', w')"
  shows "same_setup c c' \<and>
    (if failed st then moved w w' {#} else moved w w' (frame_holds g) \<and> frame_ok c' g)"
  using assms acquire_loop_moved
  by (fastforce simp: vfmcap_acquire_frame_def same_setup_def moved_def split: if_splits)

lemma release_frame_resources:
  assumes "vfmcap_release_frame f c w = (f', w')" "frame_ok c f"
  shows "taken w' = taken w \<and> given w' = given w + frame_holds f"
proof -
  obtain f1 w1 b where q: "ioctl_plain (Qbuf (index f)) w1 = (b, w')"
    and w1: "taken w1 = taken w \<and> given w1 + {#Buffer (index f)#} = given w + frame_holds f"
  proof (cases "priv f")
    case None
    define v where "v = (if 0 \<le> dmabuf_fd f then log_call (Close_fd (dmabuf_fd f)) w else w)"
    have "snd (ioctl_plain (Qbuf (index f)) v) = w'"
      using assms(1) None by (auto simp: vfmcap_release_frame_def v_def split: if_splits)
    moreover have "taken v = taken w \<and> given v + {#Buffer (index f)#} = given w + frame_holds f"
      by (simp add: v_def frame_holds_def raw_holds_def None)
    ultimately show thesis using that by (cases "ioctl_plain (Qbuf (index f)) v") auto
  next
    case (Some p)
    define u where "u = log_call (Vk_release (out_y_fd p) (out_uv_fd p)) w"
    define v where "v = (if 0 \<le> vdin_fd p then log_call (Close_fd (vdin_fd p)) u else u)"
    have "snd (ioctl_plain (Qbuf (index f)) v) = w'"
      using assms Some by (auto simp: vfmcap_release_frame_def u_def v_def frame_ok_def split: if_splits)
    moreover have "taken v = taken w \<and> given v + {#Buffer (index f)#} = given w + frame_holds f"
      by (simp add: u_def v_def frame_holds_def raw_holds_def Some)
    ultimately show thesis using that by (cases "ioctl_plain (Qbuf (index f)) v") auto
  qed
  show ?thesis using ioctl_plain_resources [OF q] w1 by simp
qed

end
