(* ===== verification/Lease_Spec.thy ===== *)
theory Lease_Spec
  imports Prelude "HOL-Library.Multiset"
begin

text \<open>
  The contract of a component that lends objects out: an acquisition takes exactly the resources the
  object stands for or none at all, and a release gives exactly these back. A client runs any
  sequence of acquisitions and releases and holds the objects it has not released; what was taken
  and not given back is then always what these objects hold. Interpreted in \<open>Vfmcap_Props\<close> for the
  capture library and in \<open>Streambox_Path_A\<close> for the source built on it.
\<close>

datatype 't lease_op = Acquire 't | Release nat

fun lease_step ::
    "('t \<Rightarrow> 's \<Rightarrow> 'f option \<times> 's) \<Rightarrow> ('f \<Rightarrow> 's \<Rightarrow> 's) \<Rightarrow> 'f list \<times> 's \<Rightarrow> 't lease_op \<Rightarrow> 'f list \<times> 's" where
  "lease_step acq rel (fs, s) (Acquire t) =
     (case acq t s of (None, s') \<Rightarrow> (fs, s') | (Some f, s') \<Rightarrow> (fs @ [f], s'))"
| "lease_step acq rel (fs, s) (Release k) =
     (if k < length fs then (take k fs @ drop (Suc k) fs, rel (fs ! k) s) else (fs, s))"

definition run_leases ::
    "('t \<Rightarrow> 's \<Rightarrow> 'f option \<times> 's) \<Rightarrow> ('f \<Rightarrow> 's \<Rightarrow> 's) \<Rightarrow> 't lease_op list \<Rightarrow> 'f list \<times> 's \<Rightarrow> 'f list \<times> 's" where
  "run_leases acq rel ops fss = foldl (lease_step acq rel) fss ops"

locale lease =
  fixes acquire :: "'t \<Rightarrow> 's \<Rightarrow> 'f option \<times> 's"
    and release :: "'f \<Rightarrow> 's \<Rightarrow> 's"
    and took :: "'s \<Rightarrow> 'r multiset"
    and gave :: "'s \<Rightarrow> 'r multiset"
    and holds :: "'f \<Rightarrow> 'r multiset"
    and valid :: "'s \<Rightarrow> 'f \<Rightarrow> bool"
  assumes acquire_none: "acquire t s = (None, s') \<Longrightarrow> took s' + gave s = took s + gave s'"
    and acquire_some: "acquire t s = (Some f, s') \<Longrightarrow> took s' + gave s = took s + gave s' + holds f"
    and acquire_valid: "acquire t s = (Some f, s') \<Longrightarrow> valid s' f"
    and valid_acquire: "valid s g \<Longrightarrow> acquire t s = (x, s') \<Longrightarrow> valid s' g"
    and release_gives: "valid s f \<Longrightarrow> took (release f s) = took s \<and> gave (release f s) = gave s + holds f"
    and valid_release: "valid s g \<Longrightarrow> valid (release f s) g"
begin

definition accounted :: "'s \<Rightarrow> 'f list \<times> 's \<Rightarrow> bool" where
  "accounted s0 fss \<longleftrightarrow> (\<forall>f \<in> set (fst fss). valid (snd fss) f) \<and>
     took (snd fss) + gave s0 = took s0 + gave (snd fss) + sum_list (map holds (fst fss))"

lemma accounted_acquire:
  assumes "accounted s0 (fs, s)"
  shows "accounted s0 (lease_step acquire release (fs, s) (Acquire t))"
proof -
  obtain x s' where a: "acquire t s = (x, s')" by force
  have v: "\<forall>f \<in> set fs. valid s' f" using assms valid_acquire [OF _ a] by (auto simp: accounted_def)
  have t: "took s + gave s0 = took s0 + gave s + sum_list (map holds fs)"
    using assms by (simp add: accounted_def)
  have m: "took s' + gave s0 = took s0 + gave s' + sum_list (map holds fs) + h"
    if "took s' + gave s = took s + gave s' + h" for h
  proof -
    have "(took s + gave s) + (took s' + gave s0) =
        (took s + gave s) + (took s0 + gave s' + sum_list (map holds fs) + h)"
      using arg_cong2 [OF that t, of "(+)"] by (simp add: ac_simps)
    then show ?thesis by (simp only: add_left_cancel)
  qed
  show ?thesis
  proof (cases x)
    case None
    with a acquire_none have "took s' + gave s = took s + gave s' + {#}" by fastforce
    from m [OF this] v show ?thesis by (simp add: a None accounted_def)
  next
    case (Some f)
    with a have f: "took s' + gave s = took s + gave s' + holds f" "valid s' f"
      using acquire_some acquire_valid by blast+
    from m [OF f(1)] v f(2) show ?thesis by (simp add: a Some accounted_def ac_simps)
  qed
qed

lemma accounted_release:
  assumes "accounted s0 (fs, s)"
  shows "accounted s0 (lease_step acquire release (fs, s) (Release k))"
proof (cases "k < length fs")
  case True
  let ?gs = "take k fs @ drop (Suc k) fs"
  have fs: "fs = take k fs @ fs ! k # drop (Suc k) fs" by (rule id_take_nth_drop [OF True])
  have "sum_list (map holds fs) = sum_list (map holds ?gs) + holds (fs ! k)"
    by (subst fs) (simp add: ac_simps)
  moreover have "set ?gs \<subseteq> set fs" by (auto dest: in_set_takeD in_set_dropD)
  moreover have "valid s (fs ! k)" using assms True by (simp add: accounted_def)
  ultimately show ?thesis using assms True release_gives [of s "fs ! k"] valid_release
    by (auto simp: accounted_def ac_simps)
qed (use assms in simp)

lemma run_accounted: "accounted s0 fss \<Longrightarrow> accounted s0 (run_leases acquire release ops fss)"
proof (induction ops arbitrary: fss)
  case (Cons x ops)
  obtain fs s where fss: "fss = (fs, s)" by force
  have "accounted s0 (lease_step acquire release fss x)"
    using Cons.prems accounted_acquire accounted_release by (cases x) (simp_all add: fss)
  from Cons.IH [OF this] show ?case by (simp add: run_leases_def)
qed (simp add: run_leases_def)

lemma session_balance:
  assumes "run_leases acquire release ops ([], s0) = (fs, s)"
  shows "took s + gave s0 = took s0 + gave s + sum_list (map holds fs)"
  using run_accounted [of s0 "([], s0)" ops] assms by (simp add: accounted_def)

end

end
