(* ===== verification/Vfmcap_Props.thy ===== *)
theory Vfmcap_Props
  imports Vfmcap_Acquire Lease_Spec
begin

text \<open>
  The properties of the capture library: the balance of buffers, descriptors and GPU outputs over
  every client session, the start sequence, the pacing of frames, the protocol of signal loss and
  recovery, and the branches where the code departs from its documentation.
\<close>

section \<open>Fixtures\<close>

definition idle_world :: world where
  "idle_world = \<lparr>k_ioctl = [], k_reqbufs = [], k_gfmt = [], k_dqevent = [], k_dqbuf = [], k_dmabuf = [],
     k_poll = [], k_clock = [], k_now = 0, k_render = [], k_vk = [], k_calloc = [], trace = []\<rparr>"

definition plain_config :: "output_fmt \<Rightarrow> config" where
  "plain_config fmt = \<lparr>output_format = fmt, target_width = 0, target_height = 0,
     target_interval_us = None, color_mode = 0\<rparr>"

definition plain_ctx :: "config \<Rightarrow> vfmcap_ctx" where
  "plain_ctx conf = \<lparr>c_fd = 3, c_device = ''/dev/video70'', streaming = False, cfg = conf,
     layout = LAYOUT_AUTO, c_width = 1920, c_height = 1080, c_pixelformat = PIX_NV12,
     c_bytesperline = 1920, c_sizeimage = 3110400, c_bitdepth = 8, num_buffers = 0, vk = False,
     ts_accum_us = 0, last_frame_fd = - 1, reconfig_pending = False, signal_lost = False,
     prev_width = 0, prev_height = 0, last_error = []\<rparr>"

lemma queue_buffers_numeral:
  "queue_buffers (numeral k) i w =
     (let (ok, w1) = ioctl_plain (Queue_initial i) w in
      if ok then queue_buffers (pred_numeral k) (i + 1) w1 else (False, w1))"
  by (simp add: numeral_eq_Suc)

lemmas world_eval = idle_world_def plain_config_def plain_ctx_def log_call_def ioctl_plain_def
  ioctl_reqbufs_def ioctl_gfmt_def now_ms_mono_def sys_poll_def sys_calloc_def vk_call_def
  read_format_def set_format_def needs_vulkan_def

lemmas start_eval = world_eval vfmcap_start_def start_gpu_def drain_events.simps queue_buffers_numeral VFMCAP_MIN_BUFFERS_def
  VFMCAP_MAX_BUFFERS_def

section \<open>Sessions\<close>

text \<open>How a client sees the two calls: a frame only with a status that is no failure.\<close>

definition client_acquire :: "int \<Rightarrow> vfmcap_ctx \<times> world \<Rightarrow> frame option \<times> vfmcap_ctx \<times> world" where
  "client_acquire tmo s =
     (let ((st, f), s') = vfmcap_acquire_frame tmo empty_frame (fst s) (snd s)
      in (if failed st then None else Some f, s'))"

definition client_release :: "frame \<Rightarrow> vfmcap_ctx \<times> world \<Rightarrow> vfmcap_ctx \<times> world" where
  "client_release f s = (fst s, snd (vfmcap_release_frame f (fst s) (snd s)))"

lemma frame_ok_setup: "same_setup c c' \<Longrightarrow> frame_ok c f \<Longrightarrow> frame_ok c' f"
  by (simp add: same_setup_def frame_ok_def split: option.splits)

lemma client_acquire_moved:
  assumes "client_acquire tmo (c, w) = (x, c', w')"
  shows "same_setup c c' \<and> (case x of None \<Rightarrow> moved w w' {#} | Some f \<Rightarrow> moved w w' (frame_holds f) \<and> frame_ok c' f)"
proof -
  obtain st f c1 w1 where a: "vfmcap_acquire_frame tmo empty_frame c w = ((st, f), c1, w1)"
    by (cases "vfmcap_acquire_frame tmo empty_frame c w") force
  have "c1 = c'" "w1 = w'" "x = (if failed st then None else Some f)"
    using assms a by (simp_all add: client_acquire_def)
  then show ?thesis using acquire_frame_moved [OF a] by (auto split: if_splits)
qed

interpretation vf: lease client_acquire client_release "\<lambda>s. taken (snd s)" "\<lambda>s. given (snd s)"
    frame_holds "\<lambda>s. frame_ok (fst s)"
proof
  fix t s s' x f g
  show "client_acquire t s = (None, s') \<Longrightarrow> taken (snd s') + given (snd s) = taken (snd s) + given (snd s')"
    using client_acquire_moved [of t "fst s" "snd s" None "fst s'" "snd s'"] by (simp add: moved_def)
  show "client_acquire t s = (Some f, s') \<Longrightarrow>
      taken (snd s') + given (snd s) = taken (snd s) + given (snd s') + frame_holds f"
    using client_acquire_moved [of t "fst s" "snd s" "Some f" "fst s'" "snd s'"] by (simp add: moved_def)
  show "client_acquire t s = (Some f, s') \<Longrightarrow> frame_ok (fst s') f"
    using client_acquire_moved [of t "fst s" "snd s" "Some f" "fst s'" "snd s'"] by simp
  show "frame_ok (fst s) g \<Longrightarrow> client_acquire t s = (x, s') \<Longrightarrow> frame_ok (fst s') g"
    using client_acquire_moved [of t "fst s" "snd s" x "fst s'" "snd s'"] frame_ok_setup by auto
  show "frame_ok (fst s) f \<Longrightarrow> taken (snd (client_release f s)) = taken (snd s) \<and>
      given (snd (client_release f s)) = given (snd s) + frame_holds f"
    using release_frame_resources [of f "fst s" "snd s"] by (simp add: client_release_def prod_eq_iff)
  show "frame_ok (fst s) g \<Longrightarrow> frame_ok (fst (client_release f s)) g"
    by (simp add: client_release_def)
qed


section \<open>Start\<close>

lemma ioctl_plain_trace: "ioctl_plain x w = (b, w') \<Longrightarrow> trace w' = trace w @ [x]"
  by (auto simp: ioctl_plain_def log_call_def split: prod.splits)

lemma ioctl_reqbufs_trace: "ioctl_reqbufs n w = (r, w') \<Longrightarrow> trace w' = trace w @ [Reqbufs n]"
  by (auto simp: ioctl_reqbufs_def log_call_def split: prod.splits)

lemma read_format_trace: "read_format c w = (c', w') \<Longrightarrow> trace w' = trace w \<and> same_setup c c'"
  by (auto simp: read_format_def ioctl_gfmt_def same_setup_def set_format_def split: prod.splits sum.splits)

lemma vk_call_trace: "vk_call x w = (b, w') \<Longrightarrow> trace w' = trace w @ [x]"
  by (auto simp: vk_call_def log_call_def split: list.splits)

lemma queue_buffers_trace:
  "queue_buffers n i w = (True, w') \<Longrightarrow>
    trace w' = trace w @ map (\<lambda>k. Queue_initial (i + of_nat k)) [0..<n]"
proof (induction n arbitrary: i w)
  case (Suc n)
  obtain b w1 where q: "ioctl_plain (Queue_initial i) w = (b, w1)" by force
  have "queue_buffers n (i + 1) w1 = (True, w')" using Suc.prems q by (auto split: if_splits)
  from Suc.IH [OF this] show ?case
    by (simp add: ioctl_plain_trace [OF q] upt_rec [of 0 "Suc n"] map_Suc_upt [symmetric] ac_simps
        del: upt_Suc)
qed simp

text \<open>
  The paths through \<open>vfmcap_start\<close> that reach the end: \<open>c3\<close> is the context with the stream on,
  before the GPU is set up.
\<close>

lemma start_paths:
  assumes s: "vfmcap_start env nb c w = (st, c', w')" and "\<not> streaming c"
    and st: "st = VFMCAP_OK \<or> st = VFMCAP_ERR_VULKAN"
  obtains c3 w6 where
    "same_setup (c\<lparr>streaming := True\<rparr>) c3"
    "trace w6 = trace w @ Subscribe # Reqbufs (min 16 (max 4 nb)) #
       map (\<lambda>k. Queue_initial (of_nat k)) [0..<unat (num_buffers c3)] @ [Streamon]"
    "\<not> signal_lost c3"
    "start_gpu env c3 w6 = (st, c', w')"
proof -
  define n where "n = (if VFMCAP_MAX_BUFFERS < (if nb < VFMCAP_MIN_BUFFERS then VFMCAP_MIN_BUFFERS else nb)
    then VFMCAP_MAX_BUFFERS else (if nb < VFMCAP_MIN_BUFFERS then VFMCAP_MIN_BUFFERS else nb))"
  have n: "n = min 16 (max 4 nb)"
    by (auto simp: n_def VFMCAP_MAX_BUFFERS_def VFMCAP_MIN_BUFFERS_def min_def max_def)
  have a: "\<not> (output_format (cfg c) = FMT_VYUY_10BIT \<and> c_bitdepth c \<noteq> 10)"
  proof
    assume a: "output_format (cfg c) = FMT_VYUY_10BIT \<and> c_bitdepth c \<noteq> 10"
    show False using st s [unfolded vfmcap_start_def Let_def if_not_P [OF \<open>\<not> streaming c\<close>] if_P [OF a]]
      by (simp only: prod.inject) auto
  qed
  obtain c1 w1 where 1: "read_format c w = (c1, w1)" by force
  obtain r w2 where 2: "ioctl_plain Subscribe w1 = (r, w2)" by force
  define w3 where "w3 = w2\<lparr>k_dqevent := drain_events (k_dqevent w2)\<rparr>"
  obtain rq w4 where 4: "ioctl_reqbufs n w3 = (rq, w4)" by force
  note step = s [unfolded vfmcap_start_def Let_def if_not_P [OF \<open>\<not> streaming c\<close>] if_not_P [OF a]
      n_def [symmetric] 1 prod.case 2, folded w3_def, unfolded 4 prod.case]
  have tr: "trace w4 = trace w @ [Subscribe, Reqbufs n]"
    using read_format_trace [OF 1] ioctl_plain_trace [OF 2] ioctl_reqbufs_trace [OF 4]
    by (simp add: w3_def)
  obtain m where m: "rq = Inr m" using step st by (cases rq) auto
  obtain ok w5 where 5: "queue_buffers (unat m) 0 w4 = (ok, w5)" by force
  obtain ok2 w6 where 6: "ioctl_plain Streamon w5 = (ok2, w6)" by force
  define c3 where "c3 = c1\<lparr>num_buffers := m, streaming := True, signal_lost := False\<rparr>"
  note step = step [unfolded m sum.case 5 6 prod.case]
  have ok: ok ok2 using step st by (auto split: if_splits)
  show thesis
  proof (rule that [of c3 w6])
    show "same_setup (c\<lparr>streaming := True\<rparr>) c3"
      using read_format_trace [OF 1] by (simp add: same_setup_def c3_def)
    show "trace w6 = trace w @ Subscribe # Reqbufs (min 16 (max 4 nb)) #
       map (\<lambda>k. Queue_initial (of_nat k)) [0..<unat (num_buffers c3)] @ [Streamon]"
      using ioctl_plain_trace [OF 6] queue_buffers_trace [of "unat m" 0 w4 w5] 5 ok tr n
      by (simp add: c3_def)
  qed (use step ok in \<open>simp_all add: c3_def\<close>)
qed

text \<open>
  A successful start of an idle context subscribes to source changes, asks for the requested
  number of buffers clamped to 4..16, queues every buffer the driver granted once in order and only
  then turns the stream on; the context streams, without a pending signal loss, and when the output
  format needs the GPU and the source has a size, the GPU is ready.
\<close>

theorem vfmcap_start_sequence:
  assumes "vfmcap_start env nb c w = (VFMCAP_OK, c', w')" "\<not> streaming c"
  shows "streaming c' \<and> \<not> signal_lost c' \<and>
    (\<exists>gpu. set gpu \<subseteq> {Vk_init (resolve_output_layout env (output_format (cfg c)) (layout c))} \<and>
      trace w' = trace w @ Subscribe # Reqbufs (min 16 (max 4 nb)) #
        map (\<lambda>k. Queue_initial (of_nat k)) [0..<unat (num_buffers c')] @ Streamon # gpu) \<and>
    (needs_vulkan (cfg c) \<and> c_width c' > 0 \<and> c_height c' > 0 \<longrightarrow> vk c')"
proof -
  obtain c3 w6 where c3: "same_setup (c\<lparr>streaming := True\<rparr>) c3" "\<not> signal_lost c3"
    and tr: "trace w6 = trace w @ Subscribe # Reqbufs (min 16 (max 4 nb)) #
       map (\<lambda>k. Queue_initial (of_nat k)) [0..<unat (num_buffers c3)] @ [Streamon]"
    and e: "start_gpu env c3 w6 = (VFMCAP_OK, c', w')"
    by (rule start_paths [OF assms]) simp_all
  have cfg: "cfg c3 = cfg c" "layout c3 = layout c" "streaming c3" using c3 by (simp_all add: same_setup_def)
  show ?thesis
  proof (cases "needs_vulkan (cfg c3) \<and> \<not> vk c3 \<and> c_width c3 > 0 \<and> c_height c3 > 0")
    case False
    then have "c' = c3" "w' = w6" using e unfolding start_gpu_def by (simp_all only: if_False prod.inject)
    then show ?thesis using c3 cfg tr False by (auto intro!: exI [of _ "[]"])
  next
    case True
    obtain vok w7 where v: "vk_call (Vk_init (resolve_output_layout env (output_format (cfg c3)) (layout c3))) w6
      = (vok, w7)" by force
    have "vok" "c' = c3\<lparr>vk := True\<rparr>" "w' = w7"
      using e [unfolded start_gpu_def if_P [OF True] v Let_def prod.case] by (auto split: if_splits)
    then show ?thesis using c3 cfg tr vk_call_trace [OF v] by auto
  qed
qed

definition started_demo :: "status \<times> vfmcap_ctx \<times> world" where
  "started_demo = vfmcap_start (\<lambda>_. None) 2 (plain_ctx (plain_config FMT_NV12))
     (idle_world\<lparr>k_ioctl := [Inr (), Inr (), Inr (), Inr (), Inr (), Inr ()], k_reqbufs := [Inl EINTR, Inr 4], k_vk := [True]\<rparr>)"

theorem vfmcap_start_sequence_witness:
  "fst started_demo = VFMCAP_OK \<and> streaming (fst (snd started_demo)) \<and>
   c_width (fst (snd started_demo)) > 0 \<and> vk (fst (snd started_demo))"
proof -
  have ok: "fst started_demo = VFMCAP_OK" "c_width (fst (snd started_demo)) > 0"
    "c_height (fst (snd started_demo)) > 0"
    by (simp_all add: started_demo_def start_eval)
  have "\<not> streaming (plain_ctx (plain_config FMT_NV12))" "needs_vulkan (cfg (plain_ctx (plain_config FMT_NV12)))"
    by (simp_all add: plain_ctx_def plain_config_def needs_vulkan_def)
  then show ?thesis
    using ok vfmcap_start_sequence [of "\<lambda>_. None" 2 "plain_ctx (plain_config FMT_NV12)"
      "idle_world\<lparr>k_ioctl := [Inr (), Inr (), Inr (), Inr (), Inr (), Inr ()], k_reqbufs := [Inl EINTR, Inr 4], k_vk := [True]\<rparr>"
      "fst (snd started_demo)" "snd (snd started_demo)"]
    by (simp only: started_demo_def prod.collapse prod_eq_iff fst_conv snd_conv) blast
qed

text \<open>
  When the GPU cannot be set up the start reports \<open>VFMCAP_ERR_VULKAN\<close> with the stream left on:
  the context counts as streaming, a second start succeeds at once without setting up the GPU, and
  every frame then acquired is delivered unconverted although the output format asks for a
  conversion.
\<close>

theorem vfmcap_start_gpu_failure_sticks:
  assumes "vfmcap_start env nb c w = (VFMCAP_ERR_VULKAN, c', w')"
  shows "streaming c' \<and> needs_vulkan (cfg c') \<and> vfmcap_start env2 nb2 c' v = (VFMCAP_OK, c', v) \<and>
    convert_frame f c' v = (Inr f, c', v)"
proof -
  have ns: "\<not> streaming c" using assms by (auto simp: vfmcap_start_def)
  obtain c3 w6 where c3: "same_setup (c\<lparr>streaming := True\<rparr>) c3" "\<not> signal_lost c3"
    and e: "start_gpu env c3 w6 = (VFMCAP_ERR_VULKAN, c', w')"
    by (rule start_paths [OF assms ns]) simp_all
  have "needs_vulkan (cfg c3)" "\<not> vk c3" "c' = c3\<lparr>last_error := ''Vulkan init failed''\<rparr>"
    using e by (auto simp: start_gpu_def split: if_splits prod.splits)
  then show ?thesis using c3 by (simp add: same_setup_def vfmcap_start_def convert_frame_def)
qed

definition gpu_failed_demo :: "status \<times> vfmcap_ctx \<times> world" where
  "gpu_failed_demo = vfmcap_start (\<lambda>_. None) 8 (plain_ctx (plain_config FMT_NV12))
     (idle_world\<lparr>k_ioctl := [Inr (), Inr (), Inr (), Inr (), Inr (), Inr ()], k_reqbufs := [Inr 4]\<rparr>)"

theorem vfmcap_start_gpu_failure_sticks_witness:
  "fst gpu_failed_demo = VFMCAP_ERR_VULKAN \<and>
   vfmcap_start (\<lambda>_. None) 8 (fst (snd gpu_failed_demo)) idle_world =
     (VFMCAP_OK, fst (snd gpu_failed_demo), idle_world)"
proof -
  have "fst gpu_failed_demo = VFMCAP_ERR_VULKAN"
    by (simp add: gpu_failed_demo_def start_eval)
  then show ?thesis
    using vfmcap_start_gpu_failure_sticks [of "\<lambda>_. None" 8 "plain_ctx (plain_config FMT_NV12)"
      "idle_world\<lparr>k_ioctl := [Inr (), Inr (), Inr (), Inr (), Inr (), Inr ()], k_reqbufs := [Inr 4]\<rparr>"
      "fst (snd gpu_failed_demo)" "snd (snd gpu_failed_demo)" "\<lambda>_. None" 8 idle_world]
    by (simp only: gpu_failed_demo_def prod.collapse prod_eq_iff fst_conv snd_conv)
qed

section \<open>Signal loss\<close>

text \<open>What waiting and dequeueing do to the flags of the context.\<close>

definition same_flags :: "vfmcap_ctx \<Rightarrow> vfmcap_ctx \<Rightarrow> bool" where
  "same_flags c c' \<longleftrightarrow> signal_lost c' = signal_lost c \<and> reconfig_pending c' = reconfig_pending c"

lemma wait_ready_nosig:
  "wait_ready deadline c w = (Some VFMCAP_ERR_NOSIG, c', w') \<Longrightarrow> signal_lost c'"
proof (induction deadline c w rule: wait_ready.induct)
  case (1 deadline c w)
  obtain t w1 where t: "now_ms_mono w = (t, w1)" by force
  obtain p w2 where p: "sys_poll (s32 (deadline - t)) w1 = (p, w2)" by force
  note step = "1.prems" [unfolded wait_ready.simps [of deadline c w] Let_def t prod.case p]
  have rem: "\<not> s32 (deadline - t) \<le> 0" using step by (auto split: if_splits)
  show ?case
  proof (cases p)
    case (Poll_errno e)
    show ?thesis
    proof (cases "e = EINTR")
      case True
      then show ?thesis using "1.IH"(1) [OF refl t [symmetric] refl rem refl p [symmetric] Poll_errno True]
        step rem Poll_errno by simp
    next
      case False
      then show ?thesis using step rem Poll_errno
        by (auto simp: report_signal_lost_ioctl_def split: if_splits)
    qed
  next
    case (Poll_ready rv)
    obtain found rs where f: "(if pollpri rv then find_source_change (k_dqevent w2)
      else (False, k_dqevent w2)) = (found, rs)" by force
    note step = step [unfolded if_not_P [OF rem] Poll_ready poll_reply.case f prod.case]
    show ?thesis
    proof (cases "pollerr rv \<or> found \<or> pollin rv")
      case True
      then show ?thesis using step by (auto simp: report_signal_lost_ioctl_def split: if_splits)
    next
      case False
      then have n: "\<not> pollerr rv" "\<not> found" "\<not> pollin rv" by simp_all
      then show ?thesis
        using "1.IH"(2) [OF refl t [symmetric] refl rem refl p [symmetric] Poll_ready n(1) refl f [symmetric] refl n(2,3)]
          step by simp
    qed
  qed (use step rem in auto)
qed

lemma next_buffer_flags:
  assumes "next_buffer tmo c w = (r, c', w')"
  shows "(r = Inl VFMCAP_ERR_NOSIG \<longrightarrow> signal_lost c') \<and>
    (\<forall>x. r = Inr x \<longrightarrow> \<not> signal_lost c' \<and>
       (reconfig_pending c' \<longleftrightarrow> reconfig_pending c \<or> signal_lost c))"
proof -
  obtain r1 c1 w1 where 1: "recover_if_lost tmo c w = (r1, c1, w1)"
    by (cases "recover_if_lost tmo c w")
  have c1: "r1 = None \<Longrightarrow> \<not> signal_lost c1 \<and> (reconfig_pending c1 \<longleftrightarrow> reconfig_pending c \<or> signal_lost c)"
      "r1 = Some st \<Longrightarrow> signal_lost c1" for st
    using 1 recover_calm [of tmo c w r1 c1 w1] by (auto simp: recover_if_lost_def split: if_splits)
  note step = assms [unfolded next_buffer_def Let_def 1 prod.case]
  show ?thesis
  proof (cases r1)
    case (Some st)
    then show ?thesis using step c1 by auto
  next
    case None
    obtain r2 c2 w2 where 2: "wait_buffer tmo c1 w1 = (r2, c2, w2)" by (cases "wait_buffer tmo c1 w1")
    note step = step [unfolded None option.case 2 prod.case]
    show ?thesis
    proof (cases r2)
      case (Some st)
      then have "st = VFMCAP_ERR_NOSIG \<Longrightarrow> signal_lost c2" using 2
        by (auto simp: wait_buffer_def split: if_splits prod.splits dest: wait_ready_nosig)
      then show ?thesis using step Some by auto
    next
      case r2: None
      have d: "dequeue c2 w2 = (r, c', w')" using step r2 by simp
      have "c2 = c1" using wait_buffer_calm [OF 2] r2 by simp
      moreover have "r = Inl VFMCAP_ERR_NOSIG \<Longrightarrow> signal_lost c'"
        using d by (auto simp: dequeue_def Let_def report_signal_lost_ioctl_def
            split: prod.splits sum.splits if_splits)
      moreover have "r = Inr x \<Longrightarrow> c' = c2" for x using dequeue_moved [OF d] by (cases x) auto
      ultimately show ?thesis using c1(1) [OF None] by auto
    qed
  qed
qed

lemma convert_frame_flags:
  assumes "convert_frame f c w = (r, c', w')"
  shows "same_flags c c' \<and> r \<noteq> Inl VFMCAP_ERR_NOSIG \<and> r \<noteq> Inl VFMCAP_OK \<and> r \<noteq> Inl VFMCAP_RECONFIGURED"
  using assms unfolding convert_frame_def Let_def
  by (auto simp: same_flags_def split: if_splits option.splits prod.splits)

lemma deliver_flags:
  assumes "deliver f c w = ((st, g), c', w')"
  shows "st \<noteq> VFMCAP_ERR_NOSIG \<and> signal_lost c' = signal_lost c \<and>
    (st = VFMCAP_OK \<longrightarrow> \<not> reconfig_pending c \<and> \<not> reconfig_pending c') \<and>
    (st = VFMCAP_RECONFIGURED \<longrightarrow> reconfig_pending c \<and> \<not> reconfig_pending c')"
proof -
  obtain r c1 w1 where r: "convert_frame f c w = (r, c1, w1)" by (cases "convert_frame f c w")
  show ?thesis using convert_frame_flags [OF r] assms r
    by (auto simp: deliver_def same_flags_def split: sum.splits if_splits)
qed

lemma fps_check_flags:
  "fps_check c ts = (d, c') \<Longrightarrow> same_flags c c' \<and> (d \<longrightarrow> \<not> reconfig_pending c)"
  by (auto simp: fps_check_def same_flags_def Let_def split: option.splits if_splits prod.splits)

lemma acquire_loop_flags:
  "acquire_loop tmo f c w = ((st, g), c', w') \<Longrightarrow>
    (st = VFMCAP_ERR_NOSIG \<longrightarrow> signal_lost c') \<and>
    (st = VFMCAP_OK \<longrightarrow> \<not> signal_lost c \<and> \<not> reconfig_pending c) \<and>
    (st = VFMCAP_RECONFIGURED \<longrightarrow> signal_lost c \<or> reconfig_pending c) \<and>
    (\<not> failed st \<longrightarrow> \<not> signal_lost c' \<and> \<not> reconfig_pending c')"
proof (induction tmo f c w rule: acquire_loop.induct)
  case (1 tmo f c w)
  obtain r c1 w1 where n: "next_buffer tmo c w = (r, c1, w1)" by (cases "next_buffer tmo c w")
  note nb = next_buffer_flags [OF n] next_buffer_moved [OF n]
  note step = "1.prems" [unfolded acquire_loop.simps [of tmo f c w] Let_def n prod.case]
  show ?case
  proof (cases r)
    case (Inl e)
    then show ?thesis using nb step by (auto simp: failed_def)
  next
    case (Inr x)
    obtain b fd sz where x: "x = (b, fd, sz)" by (cases x)
    define f1 where "f1 = fill_frame c1 b fd sz"
    obtain dropped c2 where d: "fps_check c1 (timestamp_us f1) = (dropped, c2)" by force
    note step = step [unfolded Inr x sum.case prod.case, folded f1_def, unfolded d prod.case]
    have c1: "\<not> signal_lost c1" "reconfig_pending c1 \<longleftrightarrow> reconfig_pending c \<or> signal_lost c"
      using nb(1) Inr by blast+
    note fl = c1 fps_check_flags [OF d]
    show ?thesis
    proof (cases dropped)
      case True
      then have a: "acquire_loop tmo f1 c2 (give_back fd (b_index b) w1) = ((st, g), c', w')"
        using step by simp
      note ih = "1.IH" [OF refl n [symmetric] refl Inr x [symmetric] refl f1_def refl d [symmetric] True a]
      show ?thesis using ih fl True by (auto simp: same_flags_def)
    next
      case False
      then have "deliver f1 c2 w1 = ((st, g), c', w')" using step by simp
      from deliver_flags [OF this] fl show ?thesis by (auto simp: same_flags_def failed_def)
    qed
  qed
qed

text \<open>
  C13: The protocol of signal loss. An acquisition that reports \<open>VFMCAP_ERR_NOSIG\<close> leaves the loss
  recorded in the context; a frame reported as an ordinary one is delivered only when no loss and no
  change of format was outstanding; the first frame after a loss or a source change is reported as
  \<open>VFMCAP_RECONFIGURED\<close>; and after any delivered frame neither is outstanding.
\<close>

theorem vfmcap_signal_protocol:
  assumes "vfmcap_acquire_frame tmo f c w = ((st, g), c', w')"
  shows "(st = VFMCAP_ERR_NOSIG \<longrightarrow> signal_lost c') \<and>
    (st = VFMCAP_OK \<longrightarrow> \<not> signal_lost c \<and> \<not> reconfig_pending c) \<and>
    (st = VFMCAP_RECONFIGURED \<longrightarrow> signal_lost c \<or> reconfig_pending c) \<and>
    (st = VFMCAP_OK \<or> st = VFMCAP_RECONFIGURED \<longrightarrow> \<not> signal_lost c' \<and> \<not> reconfig_pending c')"
  using assms acquire_loop_flags [of tmo empty_frame c w st g c' w']
  by (auto simp: vfmcap_acquire_frame_def failed_def split: if_splits)

text \<open>A source change seen while polling, then the recovery on the next one and the first frame.\<close>

definition recovery_world :: world where
  "recovery_world = idle_world\<lparr>
     k_poll := [Poll_ready \<lparr>pollin = False, pollpri = True, pollerr = False\<rparr>],
     k_dqevent := [Inr False, Inr True], k_gfmt := [], k_ioctl := [Inr (), Inr (), Inr ()],
     k_reqbufs := [Inr 0, Inr 1],
     k_dqbuf := [Inr \<lparr>b_index = 0, b_sequence = 7, b_timestamp_us = 1000\<rparr>],
     k_dmabuf := [Inr (11, 4096)]\<rparr>"

definition lost_ctx :: vfmcap_ctx where
  "lost_ctx = (plain_ctx (plain_config FMT_RAW))\<lparr>streaming := True, signal_lost := True\<rparr>"

definition recovery_demo :: "(status \<times> frame) \<times> vfmcap_ctx \<times> world" where
  "recovery_demo = vfmcap_acquire_frame 0 empty_frame lost_ctx recovery_world"

lemmas acquire_eval = world_eval vfmcap_acquire_frame_def acquire_loop.simps next_buffer_def
  recover_if_lost_def recover.simps find_source_change.simps restore_signal_def
  vfmcap_do_reconfig_def wait_buffer_def dequeue_def fill_frame_def fps_check_def deliver_def
  convert_frame_def

theorem vfmcap_signal_protocol_witness:
  "fst (fst recovery_demo) = VFMCAP_RECONFIGURED \<and> \<not> signal_lost (fst (snd recovery_demo)) \<and>
   signal_lost lost_ctx"
proof -
  have st: "fst (fst recovery_demo) = VFMCAP_RECONFIGURED"
    by (simp add: recovery_demo_def recovery_world_def lost_ctx_def acquire_eval)
  then have "vfmcap_acquire_frame 0 empty_frame lost_ctx recovery_world =
      ((VFMCAP_RECONFIGURED, snd (fst recovery_demo)), fst (snd recovery_demo), snd (snd recovery_demo))"
    by (simp add: recovery_demo_def prod_eq_iff)
  from vfmcap_signal_protocol [OF this] st show ?thesis by (simp add: lost_ctx_def)
qed

text \<open>
  While a signal loss is recorded the recovery loop does not look at the error flags of the poll.
  When the device keeps reporting an error or a hang-up (which the kernel reports at once, without
  waiting), the call polls again with its full timeout every time, for as long as the device reports
  it: the number of polls is not bounded by the timeout.
\<close>

theorem vfmcap_recovery_ignores_errors:
  assumes "streaming c" "signal_lost c" "pollerr rv" "\<not> pollpri rv"
    and "k_poll w = replicate n (Poll_ready rv)"
  shows "vfmcap_acquire_frame tmo f c w = ((VFMCAP_ERR_NOSIG, empty_frame), c,
    w\<lparr>k_poll := [], trace := trace w @ replicate (Suc n) (Poll_call (if 0 < tmo then tmo else 1000))\<rparr>)"
proof -
  have "recover tmo c w = (Some VFMCAP_ERR_NOSIG, c,
      w\<lparr>k_poll := [], trace := trace w @ replicate (Suc n) (Poll_call (if 0 < tmo then tmo else 1000))\<rparr>)"
    using assms(5)
  proof (induction n arbitrary: w)
    case 0
    then show ?case by (simp add: recover.simps [of tmo c w] sys_poll_def log_call_def)
  next
    case (Suc n)
    let ?w1 = "w\<lparr>k_poll := replicate n (Poll_ready rv),
      trace := trace w @ [Poll_call (if 0 < tmo then tmo else 1000)]\<rparr>"
    have "recover tmo c w = recover tmo c ?w1"
      using Suc.prems assms(4) by (subst recover.simps) (simp add: sys_poll_def log_call_def)
    then show ?case using Suc.IH [of ?w1] by simp
  qed
  then show ?thesis using assms(1,2)
    by (simp add: vfmcap_acquire_frame_def acquire_loop.simps next_buffer_def recover_if_lost_def)
qed

theorem vfmcap_recovery_ignores_errors_witness:
  "fst (fst (vfmcap_acquire_frame 20 empty_frame lost_ctx
     (idle_world\<lparr>k_poll := replicate 50 (Poll_ready \<lparr>pollin = False, pollpri = False, pollerr = True\<rparr>)\<rparr>)))
     = VFMCAP_ERR_NOSIG \<and>
   trace (snd (snd (vfmcap_acquire_frame 20 empty_frame lost_ctx
     (idle_world\<lparr>k_poll := replicate 50 (Poll_ready \<lparr>pollin = False, pollpri = False, pollerr = True\<rparr>)\<rparr>))))
     = replicate 51 (Poll_call 20)"
  using vfmcap_recovery_ignores_errors [of lost_ctx "\<lparr>pollin = False, pollpri = False, pollerr = True\<rparr>"
    "idle_world\<lparr>k_poll := replicate 50 (Poll_ready \<lparr>pollin = False, pollpri = False, pollerr = True\<rparr>)\<rparr>"
    50 20 empty_frame]
  by (simp add: lost_ctx_def plain_ctx_def idle_world_def del: replicate_Suc)

section \<open>Timeouts\<close>

text \<open>
  A negative timeout, documented as \<open>block forever\<close>, makes an acquisition on a healthy stream
  return \<open>VFMCAP_ERR_TIMEOUT\<close> at once: the deadline lies in the past, so the device is neither polled
  nor asked for a buffer, even when one is ready.
\<close>

theorem vfmcap_negative_timeout:
  assumes "streaming c" "\<not> signal_lost c" "tmo < 0" "k_clock w = t # t' # ts" "t \<le> t'"
    and "t' - t - tmo \<le> 2 ^ 31"
  shows "vfmcap_acquire_frame tmo f c w =
    ((VFMCAP_ERR_TIMEOUT, empty_frame), c, w\<lparr>k_clock := ts, k_now := t'\<rparr>)"
proof -
  have "s32 (t + tmo - t') \<le> 0" using assms by (simp add: in_s32_def)
  then have "wait_buffer tmo c w = (Some VFMCAP_ERR_TIMEOUT, c, w\<lparr>k_clock := ts, k_now := t'\<rparr>)"
    using assms by (simp add: wait_buffer_def wait_ready.simps now_ms_mono_def)
  then show ?thesis using assms
    by (simp add: vfmcap_acquire_frame_def acquire_loop.simps next_buffer_def recover_if_lost_def)
qed

theorem vfmcap_negative_timeout_witness:
  "fst (fst (vfmcap_acquire_frame (- 1) empty_frame
     ((plain_ctx (plain_config FMT_RAW))\<lparr>streaming := True\<rparr>)
     (recovery_world\<lparr>k_clock := [100, 100]\<rparr>))) = VFMCAP_ERR_TIMEOUT"
  using vfmcap_negative_timeout [of "(plain_ctx (plain_config FMT_RAW))\<lparr>streaming := True\<rparr>" "- 1"
    "recovery_world\<lparr>k_clock := [100, 100]\<rparr>" 100 100 "[]" empty_frame]
  by (simp add: plain_ctx_def)

section \<open>Conversion\<close>

text \<open>
  Which configurations are never converted although the output format asks for the GPU and the
  GPU is ready: NV21, and the AFBC form of A2B10G10R10 for 8-bit input. For these every frame is
  passed on as it was captured, without an error; for all others a failing GPU is an error.
\<close>

theorem vfmcap_unconverted_formats:
  assumes "needs_vulkan (cfg c)" "vk c" "c_bitdepth c = 8 \<or> c_bitdepth c = 10"
  shows "(\<forall>w. convert_frame f c w = (Inr f, c, w)) \<longleftrightarrow>
    output_format (cfg c) = FMT_NV21 \<or> (output_format (cfg c) = FMT_A2B10G10R10_AFBC \<and> c_bitdepth c = 8)"
proof -
  define r where "r = select_render (c_bitdepth c) (to_vk_fmt (output_format (cfg c)))"
  have none: "r = None \<longleftrightarrow> output_format (cfg c) = FMT_NV21 \<or>
      (output_format (cfg c) = FMT_A2B10G10R10_AFBC \<and> c_bitdepth c = 8)"
    using assms by (cases "output_format (cfg c)") (auto simp: r_def select_render_def needs_vulkan_def)
  have "r = None \<Longrightarrow> convert_frame f c w = (Inr f, c, w)" for w
    by (simp add: convert_frame_def r_def)
  moreover have "r = Some x \<Longrightarrow> convert_frame f c (w\<lparr>k_render := []\<rparr>) \<noteq> (Inr f, c, w\<lparr>k_render := []\<rparr>)" for w x
    using assms by (simp add: convert_frame_def r_def vk_render_call_def)
  ultimately show ?thesis using none by (metis option.exhaust)
qed

theorem vfmcap_unconverted_formats_witness:
  "\<forall>w. convert_frame empty_frame ((plain_ctx (plain_config FMT_NV21))\<lparr>vk := True\<rparr>) w =
     (Inr empty_frame, (plain_ctx (plain_config FMT_NV21))\<lparr>vk := True\<rparr>, w)"
  using vfmcap_unconverted_formats [of "(plain_ctx (plain_config FMT_NV21))\<lparr>vk := True\<rparr>" empty_frame]
  by (simp add: plain_ctx_def plain_config_def needs_vulkan_def)

section \<open>Pacing\<close>

text \<open>
  The reference for frame-rate reduction: of the frames that come in, the ones before the first that
  the gate lets through, that frame, the new accumulator and the frames behind it.
\<close>

type_synonym capture = "dq_buffer \<times> int \<times> u32"

fun pick :: "u64 \<Rightarrow> u64 \<Rightarrow> capture list \<Rightarrow> (capture list \<times> capture \<times> u64 \<times> capture list) option" where
  "pick iv acc [] = None"
| "pick iv acc (x # xs) =
     (let (dropped, acc') = fps_gate iv acc (b_timestamp_us (fst x)) in
      if dropped then map_option (\<lambda>(ds, r). (x # ds, r)) (pick iv acc' xs)
      else Some ([], x, acc', xs))"

definition drop_calls :: "capture \<Rightarrow> call list" where
  "drop_calls x = [Dqbuf (b_index (fst x)), Get_dmabuf (fst (snd x)), Close_fd (fst (snd x)), Qbuf (b_index (fst x))]"

lemma fps_gate_keeps: "fps_gate iv acc ts = (True, a) \<Longrightarrow> a = (if acc = 0 then ts else acc)"
  by (auto simp: fps_gate_def Let_def split: if_splits)

text \<open>The stream the statement below is about: no GPU, no loss, an answer for every buffer.\<close>

definition paced :: "u64 \<Rightarrow> capture list \<Rightarrow> vfmcap_ctx \<Rightarrow> world \<Rightarrow> bool" where
  "paced iv xs c w \<longleftrightarrow> \<not> signal_lost c \<and> \<not> reconfig_pending c \<and> target_interval_us (cfg c) = Some iv \<and>
     \<not> needs_vulkan (cfg c) \<and> k_dqbuf w = map (Inr \<circ> fst) xs \<and> k_dmabuf w = map (Inr \<circ> snd) xs"

lemma paced_next:
  assumes "paced iv (x # xs) c w"
  shows "next_buffer 0 c w = (Inr x, c, w\<lparr>k_dqbuf := map (Inr \<circ> fst) xs, k_dmabuf := map (Inr \<circ> snd) xs,
    trace := trace w @ [Dqbuf (b_index (fst x)), Get_dmabuf (fst (snd x))]\<rparr>)"
proof -
  obtain b fd sz where x: "x = (b, fd, sz)" by (cases x)
  show ?thesis using assms
    by (simp add: x paced_def next_buffer_def recover_if_lost_def wait_buffer_def dequeue_def log_call_def)
qed

lemma acquire_loop_pick:
  assumes "paced iv xs c w" "pick iv (ts_accum_us c) xs = Some (ds, (b, fd, sz), acc, ys)"
  shows "\<exists>w'. acquire_loop 0 f c w = ((VFMCAP_OK, fill_frame c b fd sz), c\<lparr>ts_accum_us := acc\<rparr>, w') \<and>
    paced iv ys c w' \<and>
    trace w' = trace w @ concat (map drop_calls ds) @ [Dqbuf (b_index b), Get_dmabuf fd]"
  using assms
proof (induction xs arbitrary: ds f c w)
  case (Cons x xs)
  obtain b1 fd1 sz1 where x: "x = (b1, fd1, sz1)" by (cases x)
  define w1 where "w1 = w\<lparr>k_dqbuf := map (Inr \<circ> fst) xs, k_dmabuf := map (Inr \<circ> snd) xs,
    trace := trace w @ [Dqbuf (b_index b1), Get_dmabuf fd1]\<rparr>"
  have n: "next_buffer 0 c w = (Inr (b1, fd1, sz1), c, w1)"
    using paced_next [OF Cons.prems(1)] by (simp add: x w1_def)
  define f1 where "f1 = fill_frame c b1 fd1 sz1"
  obtain d acc1 where g: "fps_gate iv (ts_accum_us c) (b_timestamp_us b1) = (d, acc1)" by force
  have fps: "fps_check c (timestamp_us f1) = (d, c\<lparr>ts_accum_us := acc1\<rparr>)"
    using Cons.prems(1) g by (simp add: fps_check_def paced_def f1_def fill_frame_def)
  have step: "acquire_loop 0 f c w = (if d then acquire_loop 0 f1 (c\<lparr>ts_accum_us := acc1\<rparr>) (give_back fd1 (b_index b1) w1)
      else deliver f1 (c\<lparr>ts_accum_us := acc1\<rparr>) w1)"
    by (simp add: acquire_loop.simps [of 0 f c w] n f1_def [symmetric] fps)
  show ?case
  proof (cases d)
    case True
    define c2 where "c2 = c\<lparr>ts_accum_us := acc1\<rparr>"
    define w2 where "w2 = give_back fd1 (b_index b1) w1"
    obtain ds' where ds: "ds = x # ds'" "pick iv acc1 xs = Some (ds', (b, fd, sz), acc, ys)"
      using Cons.prems(2) g True x by auto
    have w2: "k_dqbuf w2 = k_dqbuf w1 \<and> k_dmabuf w2 = k_dmabuf w1 \<and>
        trace w2 = trace w1 @ [Close_fd fd1, Qbuf (b_index b1)]"
      by (auto simp: w2_def give_back_def ioctl_plain_def log_call_def split: prod.splits)
    have "paced iv xs c2 w2" using Cons.prems(1) w2 by (simp add: paced_def c2_def w1_def)
    from Cons.IH [OF this, of ds' f1] ds(2) obtain w' where
      "acquire_loop 0 f1 c2 w2 = ((VFMCAP_OK, fill_frame c2 b fd sz), c2\<lparr>ts_accum_us := acc\<rparr>, w')"
      "paced iv ys c2 w'"
      "trace w' = trace w2 @ concat (map drop_calls ds') @ [Dqbuf (b_index b), Get_dmabuf fd]"
      by (auto simp: c2_def)
    moreover have "fill_frame c2 b fd sz = fill_frame c b fd sz" "paced iv ys c2 w' = paced iv ys c w'"
      "c2\<lparr>ts_accum_us := acc\<rparr> = c\<lparr>ts_accum_us := acc\<rparr>"
      by (simp_all add: c2_def fill_frame_def paced_def)
    moreover have "acquire_loop 0 f c w = acquire_loop 0 f1 c2 w2"
      using step True by (simp add: c2_def w2_def)
    moreover have "trace w2 @ concat (map drop_calls ds') = trace w @ concat (map drop_calls ds)"
      using w2 by (simp add: ds(1) x drop_calls_def w1_def)
    ultimately show ?thesis by (intro exI [of _ w']) simp
  next
    case False
    then have e: "ds = []" "b = b1" "fd = fd1" "sz = sz1" "acc = acc1" "ys = xs"
      using Cons.prems(2) g x by auto
    have "deliver f1 (c\<lparr>ts_accum_us := acc1\<rparr>) w1 = ((VFMCAP_OK, f1), c\<lparr>ts_accum_us := acc1\<rparr>, w1)"
      using Cons.prems(1) by (simp add: deliver_def convert_frame_def paced_def)
    moreover have "paced iv xs c w1" using Cons.prems(1) by (simp add: paced_def w1_def)
    ultimately show ?thesis using step False e by (simp add: f1_def w1_def)
  qed
qed simp

text \<open>
  C14: With a target frame rate, a non-blocking acquisition on a healthy stream without the GPU
  returns the first waiting frame the rate gate lets through, with the driver's index, sequence
  number, time stamp and size. Every frame before it is dequeued, its descriptor closed and its
  buffer queued again, in that order; the frames behind it stay in the driver.
\<close>

theorem vfmcap_acquire_paced:
  assumes "streaming c" "paced iv xs c w" "pick iv (ts_accum_us c) xs = Some (ds, (b, fd, sz), acc, ys)"
  shows "\<exists>w'. vfmcap_acquire_frame 0 f c w =
      ((VFMCAP_OK, fill_frame c b fd sz), c\<lparr>ts_accum_us := acc\<rparr>, w') \<and>
    k_dqbuf w' = map (Inr \<circ> fst) ys \<and>
    trace w' = trace w @ concat (map drop_calls ds) @ [Dqbuf (b_index b), Get_dmabuf fd]"
  using acquire_loop_pick [OF assms(2,3), of empty_frame] assms(1)
  by (auto simp: vfmcap_acquire_frame_def paced_def)

definition three_captures :: "capture list" where
  "three_captures = [(\<lparr>b_index = 0, b_sequence = 1, b_timestamp_us = 16667\<rparr>, 20, 4096),
     (\<lparr>b_index = 1, b_sequence = 2, b_timestamp_us = 33333\<rparr>, 21, 4096),
     (\<lparr>b_index = 2, b_sequence = 3, b_timestamp_us = 50000\<rparr>, 22, 4096)]"

definition paced_ctx :: vfmcap_ctx where
  "paced_ctx = (plain_ctx ((plain_config FMT_RAW)\<lparr>target_interval_us := Some 33333\<rparr>))
     \<lparr>streaming := True, ts_accum_us := 40000\<rparr>"

theorem vfmcap_acquire_paced_witness:
  "\<exists>w'. vfmcap_acquire_frame 0 empty_frame paced_ctx
      (idle_world\<lparr>k_dqbuf := map (Inr \<circ> fst) three_captures, k_dmabuf := map (Inr \<circ> snd) three_captures\<rparr>) =
      ((VFMCAP_OK, fill_frame paced_ctx (fst (three_captures ! 1)) 21 4096), paced_ctx\<lparr>ts_accum_us := 73333\<rparr>, w')"
proof -
  have "pick 33333 (ts_accum_us paced_ctx) three_captures =
      Some ([three_captures ! 0], (fst (three_captures ! 1), 21, 4096), 73333, [three_captures ! 2])"
    by (simp add: three_captures_def paced_ctx_def fps_gate_def)
  moreover have "paced 33333 three_captures paced_ctx
      (idle_world\<lparr>k_dqbuf := map (Inr \<circ> fst) three_captures, k_dmabuf := map (Inr \<circ> snd) three_captures\<rparr>)"
    by (simp add: paced_def paced_ctx_def plain_ctx_def plain_config_def needs_vulkan_def)
  moreover have "streaming paced_ctx" by (simp add: paced_ctx_def)
  ultimately show ?thesis using vfmcap_acquire_paced [of paced_ctx 33333 three_captures] by blast
qed

fun kept :: "u64 \<Rightarrow> u64 \<Rightarrow> u64 list \<Rightarrow> u64 list" where
  "kept iv acc [] = []"
| "kept iv acc (t # ts) =
     (let (dropped, acc') = fps_gate iv acc t in if dropped then kept iv acc' ts else t # kept iv acc' ts)"

lemma sint_uint_small: "uint (x :: u64) < 2 ^ 63 \<Longrightarrow> sint x = uint x"
proof -
  assume a: "uint x < 2 ^ 63"
  have "- (2 ^ 63) \<le> uint x" by (rule order_trans [OF _ uint_ge_0]) simp
  with a have "signed_take_bit 63 (uint x) = uint x" by (intro signed_take_bit_int_eq_self)
  then show ?thesis by (simp add: sint_uint)
qed

lemma kept_bound:
  assumes "acc \<noteq> 0" "\<forall>t \<in> set ts. uint t < 2 ^ 63" "uint acc + int (length ts) * uint iv < 2 ^ 63"
    and "k < length (kept iv acc ts)"
  shows "uint acc + int k * uint iv - uint iv div 2 \<le> uint (kept iv acc ts ! k)"
  using assms
proof (induction ts arbitrary: acc k)
  case (Cons t ts)
  have pos: "0 \<le> int (length ts) * uint iv" by simp
  have sum: "uint acc + uint iv + int (length ts) * uint iv < 2 ^ 63"
    using Cons.prems(3) by (simp add: algebra_simps)
  have small: "uint acc < 2 ^ 63" "uint iv < 2 ^ 63" "uint acc + uint iv < 2 ^ 63"
    using sum pos uint_ge_0 [of acc] uint_ge_0 [of iv] by linarith+
  have ud: "uint (iv div 2) = uint iv div 2" by (simp add: uint_div)
  have "uint (iv div 2) < 2 ^ 63" using small(2) uint_ge_0 [of iv] unfolding ud by linarith
  then have iv: "sint (iv div 2) = uint iv div 2" using sint_uint_small ud by simp
  have ts: "sint t = uint t" "sint acc = uint acc"
    using Cons.prems(2) small(1) sint_uint_small by simp_all
  have "uint acc + uint iv < 2 ^ LENGTH(64)" using small(3) by simp
  then have add: "uint (acc + iv) = uint acc + uint iv" by (rule iffD1 [OF uint_add_lem])
  show ?case
  proof (cases "uint iv div 2 < uint acc - uint t")
    case True
    then have g: "fps_gate iv acc t = (True, acc)" using Cons.prems(1) by (simp add: fps_gate_def iv ts)
    have "uint acc + int (length ts) * uint iv < 2 ^ 63" using sum uint_ge_0 [of iv] by linarith
    then show ?thesis using Cons.IH [of acc k] Cons.prems g by simp
  next
    case False
    then have g: "fps_gate iv acc t = (False, acc + iv)" using Cons.prems(1) by (simp add: fps_gate_def iv ts)
    have nz: "acc + iv \<noteq> 0" using add Cons.prems(1) uint_ge_0 [of iv] uint_ge_0 [of acc]
      by (metis add_nonneg_eq_0_iff uint_0_eq uint_0_iff)
    show ?thesis
    proof (cases k)
      case 0
      then show ?thesis using False g by simp
    next
      case (Suc k')
      have "uint (acc + iv) + int k' * uint iv - uint iv div 2 \<le> uint (kept iv (acc + iv) ts ! k')"
        using Cons.IH [of "acc + iv" k'] Cons.prems g nz sum add Suc by simp
      then show ?thesis using g Suc add by (simp add: algebra_simps)
    qed
  qed
qed simp

text \<open>
  Frame-rate reduction never exceeds the target rate. Of a stream of frames with time stamps
  below \<open>2^63\<close>, counted from a first time stamp \<open>t\<close>, the \<open>k\<close>-th frame kept (from 0) is not earlier
  than \<open>k\<close> whole intervals after \<open>t\<close>, less half an interval.
\<close>

theorem fps_gate_rate:
  assumes "t \<noteq> 0" "\<forall>x \<in> set (t # ts). uint x < 2 ^ 63" "uint t + int (Suc (length ts)) * uint iv < 2 ^ 63"
    and "k < length (kept iv 0 (t # ts))"
  shows "uint t + int k * uint iv - uint iv div 2 \<le> uint (kept iv 0 (t # ts) ! k)"
proof -
  have "kept iv 0 (t # ts) = kept iv t (t # ts)" using assms(1) by (simp add: fps_gate_def)
  then show ?thesis using kept_bound [of t "t # ts" iv k] assms by simp
qed

theorem fps_gate_rate_witness:
  "kept 33333 0 [1000, 17000, 34333, 50000, 67667, 84000] = [1000, 34333, 67667] \<and>
   uint (1000 :: u64) + int 2 * uint (33333 :: u64) - uint (33333 :: u64) div 2
     \<le> uint (kept 33333 0 [1000, 17000, 34333, 50000, 67667, 84000] ! 2)"
proof -
  have k: "kept 33333 0 [1000, 17000, 34333, 50000, 67667, 84000] = [1000, 34333, 67667]"
    by (simp add: fps_gate_def)
  show ?thesis using fps_gate_rate [of 1000 "[17000, 34333, 50000, 67667, 84000]" 33333 2] k by simp
qed

end
