(* ===== verification/C_Strings.thy ===== *)
theory C_Strings
  imports Prelude
begin

text \<open>
  The parts of the C string library that the components use: character classes, decimal numbers,
  the lines \<open>fgets\<close> reads, and \<open>sscanf\<close> for formats made of literal text, \<open>%u\<close> and \<open>%63[^\n]\<close>.
  A string is what a C function sees of a buffer, so it holds no NUL (\<open>cstr\<close>).
\<close>

section \<open>Characters and decimal numbers\<close>

definition is_space :: "char \<Rightarrow> bool" where
  "is_space c \<longleftrightarrow> c \<in> {CHR '' '', CHR 0x09, CHR 0x0A, CHR 0x0B, CHR 0x0C, CHR 0x0D}"

definition is_digit :: "char \<Rightarrow> bool" where
  "is_digit c \<longleftrightarrow> 48 \<le> (of_char c :: nat) \<and> (of_char c :: nat) \<le> 57"

definition decimal :: "string \<Rightarrow> nat" where
  "decimal ds = foldl (\<lambda>n c. 10 * n + (of_char c - 48)) 0 ds"

text \<open>Printing a number; the fuel bounds the number of digits, and 20 covers 64 bits.\<close>

primrec digits :: "nat \<Rightarrow> nat \<Rightarrow> string" where
  "digits 0 n = []"
| "digits (Suc k) n = (if n < 10 then [char_of (48 + n)] else digits k (n div 10) @ [char_of (48 + n mod 10)])"

text \<open>What a C string function sees of a buffer.\<close>

definition cstr :: "string \<Rightarrow> string" where
  "cstr t = takeWhile (\<lambda>c. c \<noteq> CHR 0x00) t"

lemma decimal_snoc [simp]: "decimal (ds @ [c]) = 10 * decimal ds + (of_char c - 48)"
  by (simp add: decimal_def)

lemma decimal_Nil [simp]: "decimal [] = 0"
  by (simp add: decimal_def)

lemma is_digit_char_of [simp]: "n < 10 \<Longrightarrow> is_digit (char_of (48 + n :: nat))"
  by (simp add: is_digit_def)

lemma digits_all_digits: "c \<in> set (digits k n) \<Longrightarrow> is_digit c"
  by (induction k arbitrary: n) (auto split: if_splits)

lemma digits_not_Nil [simp]: "0 < k \<Longrightarrow> digits k n \<noteq> []"
  by (cases k) auto

lemma decimal_digits: "n < 10 ^ k \<Longrightarrow> decimal (digits k n) = n"
proof (induction k arbitrary: n)
  case (Suc k)
  show ?case
  proof (cases "n < 10")
    case True
    have "decimal [char_of (48 + n)] = 10 * decimal [] + (of_char (char_of (48 + n) :: char) - 48)"
      using decimal_snoc [of "[]" "char_of (48 + n)"] by simp
    then show ?thesis using True by simp
  next
    case False
    have "decimal (digits k (n div 10)) = n div 10"
      using Suc.prems by (intro Suc.IH) simp
    then show ?thesis using False by simp
  qed
qed simp

lemma digit_not_space: "is_digit c \<Longrightarrow> \<not> is_space c"
  by (auto simp: is_digit_def is_space_def)

lemma digit_not_sign: "is_digit c \<Longrightarrow> c \<noteq> CHR ''-'' \<and> c \<noteq> CHR ''+''"
  by (auto simp: is_digit_def)

section \<open>Lines\<close>

text \<open>
  The lines a loop of \<open>fgets(line, size, f)\<close> sees of a text: each ends after a newline, at \<open>size - 1\<close>
  characters, or at the end of the text.
\<close>

fun fgets_line :: "nat \<Rightarrow> string \<Rightarrow> string \<times> string" where
  "fgets_line 0 t = ([], t)"
| "fgets_line (Suc n) [] = ([], [])"
| "fgets_line (Suc n) (c # t) =
     (if c = CHR 0x0A then ([c], t) else let (l, r) = fgets_line n t in (c # l, r))"

lemma fgets_line_append: "fgets_line n t = (l, r) \<Longrightarrow> l @ r = t"
  by (induction n t arbitrary: l r rule: fgets_line.induct) (auto split: if_splits prod.splits)

lemma fgets_line_progress: "fgets_line (Suc n) (c # t) = (l, r) \<Longrightarrow> length r < Suc (length t)"
proof -
  assume a: "fgets_line (Suc n) (c # t) = (l, r)"
  then have "l \<noteq> []" by (auto split: if_splits prod.splits)
  moreover have "length l + length r = Suc (length t)"
    using fgets_line_append [OF a] by (metis length_Cons length_append)
  ultimately show ?thesis by (cases l) auto
qed

lemma fgets_line_bound: "fgets_line n t = (l, r) \<Longrightarrow> length l \<le> n"
  by (induction n t arbitrary: l r rule: fgets_line.induct) (auto split: if_splits prod.splits)

function fgets_lines :: "nat \<Rightarrow> string \<Rightarrow> string list" where
  "fgets_lines sz t =
     (if t = [] \<or> sz \<le> 1 then [] else let (l, r) = fgets_line (sz - 1) t in l # fgets_lines sz r)"
  by pat_completeness auto
termination
proof (relation "measure (\<lambda>(_, t). length t)", goal_cases)
  case (2 sz t p l r)
  then obtain n c u where s: "sz - 1 = Suc n" and t: "t = c # u"
    by (cases t; cases "sz - 1") auto
  from 2 have "fgets_line (Suc n) (c # u) = (l, r)" unfolding s [symmetric] t [symmetric] by metis
  then show ?case using fgets_line_progress t by fastforce
qed simp

declare fgets_lines.simps [simp del]

lemma fgets_line_whole:
  "length l < n \<Longrightarrow> CHR 0x0A \<notin> set l \<Longrightarrow> fgets_line n (l @ CHR 0x0A # t) = (l @ [CHR 0x0A], t)"
proof (induction l arbitrary: n)
  case Nil
  then show ?case by (cases n) auto
next
  case (Cons c l)
  then show ?case by (cases n) auto
qed

lemma fgets_lines_Cons:
  assumes "length l + 1 < sz" "CHR 0x0A \<notin> set l"
  shows "fgets_lines sz (l @ CHR 0x0A # t) = (l @ [CHR 0x0A]) # fgets_lines sz t"
  using assms by (subst fgets_lines.simps) (simp add: fgets_line_whole)

lemma fgets_lines_Nil [simp]: "fgets_lines sz [] = []"
  by (subst fgets_lines.simps) simp

lemma fgets_lines_concat: "1 < sz \<Longrightarrow> concat (fgets_lines sz t) = t"
proof (induction sz t rule: fgets_lines.induct)
  case (1 sz t)
  show ?case
  proof (cases "t = []")
    case False
    obtain l r where f: "fgets_line (sz - 1) t = (l, r)" by fastforce
    with 1 False show ?thesis
      by (subst fgets_lines.simps) (simp add: f fgets_line_append)
  qed simp
qed

section \<open>Scanning\<close>

text \<open>
  Literal text of a \<open>sscanf\<close> format: a blank matches any amount of white space, every other
  character itself.
\<close>

fun scan_lit :: "string \<Rightarrow> string \<Rightarrow> string option" where
  "scan_lit [] t = Some t"
| "scan_lit (f # fs) t =
     (if f = CHR '' '' then scan_lit fs (dropWhile is_space t)
      else case t of [] \<Rightarrow> None | c # t' \<Rightarrow> if c = f then scan_lit fs t' else None)"

text \<open>
  \<open>%u\<close> after its white space: an optional sign and digits, read as \<open>strtoul\<close> does (saturated to 64
  bits, then negated) and stored in 32 bits.
\<close>

definition scan_u :: "string \<Rightarrow> u32 option" where
  "scan_u t =
     (let u = dropWhile is_space t;
          (neg, v) = (case u of [] \<Rightarrow> (False, u)
            | c # cs \<Rightarrow> if c = CHR ''-'' then (True, cs) else if c = CHR ''+'' then (False, cs) else (False, u));
          ds = takeWhile is_digit v;
          n = min (decimal ds) (2 ^ 64 - 1)
      in if ds = [] then None
         else Some (if neg then - word_of_nat n else word_of_nat n))"

text \<open>\<open>%63[^\n]\<close>: up to 63 characters that are not newlines, at least one.\<close>

definition scan_line63 :: "string \<Rightarrow> string option" where
  "scan_line63 t = (let s = take 63 (takeWhile (\<lambda>c. c \<noteq> CHR 0x0A) t) in if s = [] then None else Some s)"

definition sscanf_u :: "string \<Rightarrow> string \<Rightarrow> u32 option" where
  "sscanf_u fmt line = (case scan_lit fmt (cstr line) of None \<Rightarrow> None | Some r \<Rightarrow> scan_u r)"

definition sscanf_line63 :: "string \<Rightarrow> string \<Rightarrow> string option" where
  "sscanf_line63 fmt line = (case scan_lit fmt (cstr line) of None \<Rightarrow> None | Some r \<Rightarrow> scan_line63 r)"

lemma scan_u_digits:
  assumes "n < 2 ^ 32" "is_space c"
  shows "scan_u (digits 20 n @ c # t) = Some (word_of_nat n)"
proof -
  have n: "n < 10 ^ 20" using assms by simp
  let ?d = "digits 20 n"
  have all: "\<forall>c \<in> set ?d. is_digit c" using digits_all_digits by blast
  obtain d ds where d: "?d = d # ds" by (cases ?d) auto
  then have "is_digit d" using all by simp
  then have "\<not> is_space d" "d \<noteq> CHR ''-''" "d \<noteq> CHR ''+''"
    using digit_not_space digit_not_sign by auto
  moreover have "takeWhile is_digit (?d @ c # t) = ?d"
    using all assms(2) digit_not_space by (subst takeWhile_append2) auto
  ultimately show ?thesis
    using d n assms(1) decimal_digits [OF n] unfolding scan_u_def
    by (simp add: Let_def)
qed

lemma cstr_append: "CHR 0x00 \<notin> set s \<Longrightarrow> cstr (s @ t) = s @ cstr t"
  unfolding cstr_def by (rule takeWhile_append2) auto

lemma cstr_Cons: "cstr (c # t) = (if c = CHR 0x00 then [] else c # cstr t)"
  by (simp add: cstr_def)

lemma cstr_Nil [simp]: "cstr [] = []"
  by (simp add: cstr_def)

lemma digits_no_char:
  "\<not> is_digit c \<Longrightarrow> c \<notin> set (digits k n)"
  using digits_all_digits by blast

lemma dropWhile_space_digits [simp]: "dropWhile is_space (digits 20 n @ t) = digits 20 n @ t"
proof -
  obtain d ds where d: "digits 20 n = d # ds" by (cases "digits 20 n") auto
  then have "is_digit d" using digits_all_digits [of d 20 n] by simp
  then show ?thesis using d digit_not_space by simp
qed

text \<open>A line that holds a label and a number, as \<open>sscanf\<close> reads it with that label.\<close>

lemma scan_lit_self:
  assumes "\<forall>c \<in> set f. c \<noteq> CHR '' '' \<and> c \<noteq> CHR 0x00"
  shows "scan_lit (f @ g) (f @ t) = scan_lit g t"
  using assms by (induction f) auto

end
