(* ===== verification/Pipeline_Reset.thy ===== *)
theory Pipeline_Reset
  imports C_Strings "HOL-Library.Multiset"
begin

text \<open>
  The recovery tool \<open>pipeline-reset\<close> (\<open>pipeline-reset.c\<close>): it kills stray GStreamer pipelines, looks at
  the capture device and the encoder and resets both.

  The operating system is a parameter: a function from the system calls made so far and the next call
  to its answer, so that every answer may depend on everything done before. Calls are recorded in
  order. What the tool prints is not modelled; \<open>err\<close> counts its errors, which decide the exit code.
\<close>

section \<open>System calls\<close>

datatype perrno = EBUSY | EPERM | ENOENT | Other_errno

datatype syscall =
    Stat string | Open_ro string | Open_wo string | Open_rw string
  | Read int nat | Write int string | Close int
  | List_proc | Kill int | Querycap int | Reqbufs0 int | Vdi_reset int
  | Pause_us nat | Geteuid

datatype reply = Fails perrno | Ret int | Data string | Names "string list"

type_synonym system = "syscall list \<Rightarrow> syscall \<Rightarrow> reply"

record tool =
  verbose :: bool
  dry_run :: bool
  errors :: int
  calls :: "syscall list"

definition sys :: "system \<Rightarrow> syscall \<Rightarrow> tool \<Rightarrow> reply \<times> tool" where
  "sys os c s = (os (calls s) c, s\<lparr>calls := calls s @ [c]\<rparr>)"

definition err :: "tool \<Rightarrow> tool" where
  "err s = s\<lparr>errors := errors s + 1\<rparr>"

definition VDIN1_V4L2_DEV :: string where "VDIN1_V4L2_DEV = ''/dev/video71''"
definition VDIN1_CHARDEV :: string where "VDIN1_CHARDEV = ''/dev/vdin1''"
definition VDIN1_SYSFS_ATTR :: string where "VDIN1_SYSFS_ATTR = ''/sys/class/vdin/vdin1/attr''"
definition ENCODER_DEV :: string where "ENCODER_DEV = ''/dev/amvenc_multi''"
definition ENCODER_STATUS :: string where "ENCODER_STATUS = ''/sys/class/amvenc_multi/encode_status''"

section \<open>Helpers\<close>

text \<open>
  An open call: \<open>None\<close> when it fails, which includes an answer that is no descriptor. A read returns
  at most the bytes asked for.
\<close>

definition sys_open :: "system \<Rightarrow> syscall \<Rightarrow> tool \<Rightarrow> int option \<times> tool" where
  "sys_open os c s = (let (r, s1) = sys os c s in
     (case r of Ret fd \<Rightarrow> (if 0 \<le> fd then Some fd else None) | _ \<Rightarrow> None, s1))"

definition sys_ok :: "system \<Rightarrow> syscall \<Rightarrow> tool \<Rightarrow> bool \<times> tool" where
  "sys_ok os c s = (let (r, s1) = sys os c s in (r = Ret 0, s1))"

definition sys_do :: "system \<Rightarrow> syscall \<Rightarrow> tool \<Rightarrow> tool" where
  "sys_do os c s = snd (sys os c s)"

definition strip_newlines :: "string \<Rightarrow> string" where
  "strip_newlines t = rev (dropWhile (\<lambda>c. c = CHR 0x0A \<or> c = CHR 0x0D) (rev t))"

definition sysfs_read :: "system \<Rightarrow> string \<Rightarrow> nat \<Rightarrow> tool \<Rightarrow> string option \<times> tool" where
  "sysfs_read os path bufsz s =
     (let (fd, s1) = sys_open os (Open_ro path) s in
      case fd of None \<Rightarrow> (None, s1)
      | Some f \<Rightarrow>
          let (r, s2) = sys os (Read f (bufsz - 1)) s1;
              s3 = sys_do os (Close f) s2 in
          (case r of Data t \<Rightarrow> (Some (strip_newlines (take (bufsz - 1) t)), s3) | _ \<Rightarrow> (None, s3)))"

definition sysfs_write :: "system \<Rightarrow> string \<Rightarrow> string \<Rightarrow> tool \<Rightarrow> bool \<times> tool" where
  "sysfs_write os path val s =
     (let (fd, s1) = sys_open os (Open_wo path) s in
      case fd of None \<Rightarrow> (False, err s1)
      | Some f \<Rightarrow>
          let (r, s2) = sys os (Write f val) s1;
              s3 = sys_do os (Close f) s2 in
          if r = Ret (int (length val)) then (True, s3) else (False, err s3))"

definition device_exists :: "system \<Rightarrow> string \<Rightarrow> tool \<Rightarrow> bool \<times> tool" where
  "device_exists os path s = sys_ok os (Stat path) s"

text \<open>
  \<open>strtol\<close> in base 10: leading white space, a sign and digits; the value is saturated to 64 bits, and
  without digits nothing is consumed.
\<close>

definition strtol :: "string \<Rightarrow> int \<times> string" where
  "strtol t =
     (let u = dropWhile is_space t;
          (neg, v) = (case u of [] \<Rightarrow> (False, u)
            | c # cs \<Rightarrow> if c = CHR ''-'' then (True, cs) else if c = CHR ''+'' then (False, cs) else (False, u));
          ds = takeWhile is_digit v;
          n = (if neg then - int (decimal ds) else int (decimal ds))
      in if ds = [] then (0, t)
         else (max (- 9223372036854775808) (min 9223372036854775807 n), dropWhile is_digit v))"

definition comm_path :: "int \<Rightarrow> string" where
  "comm_path pid = ''/proc/'' @ digits 20 (nat pid) @ ''/comm''"

section \<open>Killing pipelines\<close>

definition pid_of_entry :: "string \<Rightarrow> int option" where
  "pid_of_entry name = (let (pid, rest) = strtol name in if rest \<noteq> [] \<or> pid \<le> 0 then None else Some pid)"

definition kill_entry :: "system \<Rightarrow> string \<Rightarrow> int \<times> tool \<Rightarrow> int \<times> tool" where
  "kill_entry os name ks =
     (case pid_of_entry name of None \<Rightarrow> ks
      | Some pid \<Rightarrow>
          let (comm, s1) = sysfs_read os (comm_path pid) 256 (snd ks) in
          (case comm of None \<Rightarrow> (fst ks, s1)
           | Some t \<Rightarrow>
               if cstr t = ''gst-launch-1.0'' then
                 if dry_run s1 then (fst ks + 1, s1)
                 else let (ok, s2) = sys_ok os (Kill (s32 pid)) s1 in
                      (if ok then fst ks + 1 else fst ks, s2)
               else (fst ks, s1)))"

definition kill_gstreamer_processes :: "system \<Rightarrow> tool \<Rightarrow> int \<times> tool" where
  "kill_gstreamer_processes os s =
     (let (r, s1) = sys os List_proc s in
      case r of
        Names ns \<Rightarrow>
          let (killed, s2) = fold (kill_entry os) ns (0, s1) in
          (killed, if 0 < killed \<and> \<not> dry_run s2 then sys_do os (Pause_us 2000000) s2 else s2)
      | _ \<Rightarrow> (0, err s1))"

section \<open>The capture device\<close>

definition diagnose_vdin1 :: "system \<Rightarrow> tool \<Rightarrow> tool" where
  "diagnose_vdin1 os s =
     (let (there, s1) = device_exists os VDIN1_V4L2_DEV s in
      if \<not> there then s1
      else let (fd, s2) = sys_open os (Open_rw VDIN1_V4L2_DEV) s1 in
      case fd of None \<Rightarrow> s2
      | Some f \<Rightarrow> sys_do os (Close f) (sys_do os (Reqbufs0 f) (sys_do os (Querycap f) s2)))"

text \<open>The three steps of the reset and the check at the end.\<close>

definition open_close :: "system \<Rightarrow> string \<Rightarrow> tool \<Rightarrow> tool" where
  "open_close os path s =
     (let (fd, s1) = sys_open os (Open_rw path) s in
      case fd of None \<Rightarrow> s1 | Some f \<Rightarrow> sys_do os (Close f) s1)"

definition stop_hardware :: "system \<Rightarrow> tool \<Rightarrow> tool" where
  "stop_hardware os s =
     (let (there, s1) = device_exists os VDIN1_SYSFS_ATTR s in
      if there \<and> \<not> dry_run s1
      then sys_do os (Pause_us 200000) (snd (sysfs_write os VDIN1_SYSFS_ATTR ''v4l2stop'' s1))
      else s1)"

definition verify_vdin1 :: "system \<Rightarrow> tool \<Rightarrow> tool" where
  "verify_vdin1 os s =
     (if dry_run s then s
      else let (fd, s1) = sys_open os (Open_rw VDIN1_V4L2_DEV) (sys_do os (Pause_us 200000) s) in
      case fd of None \<Rightarrow> err s1
      | Some f \<Rightarrow>
          let (r, s2) = sys os (Reqbufs0 f) s1 in
          sys_do os (Close f) (if r = Fails EBUSY then err s2 else s2))"

definition reset_vdin1 :: "system \<Rightarrow> tool \<Rightarrow> tool" where
  "reset_vdin1 os s =
     (let (there, s1) = device_exists os VDIN1_V4L2_DEV s in
      if \<not> there then s1
      else let s2 = stop_hardware os s1;
               s3 = (if dry_run s2 then s2 else open_close os VDIN1_V4L2_DEV s2);
               (chardev, s4) = device_exists os VDIN1_CHARDEV s3;
               s5 = (if chardev \<and> \<not> dry_run s4 then open_close os VDIN1_CHARDEV s4 else s4)
           in verify_vdin1 os s5)"

section \<open>The encoder\<close>

definition diagnose_encoder :: "system \<Rightarrow> tool \<Rightarrow> tool" where
  "diagnose_encoder os s =
     (let (there, s1) = device_exists os ENCODER_DEV s in
      if there then snd (sysfs_read os ENCODER_STATUS 1024 s1) else s1)"

definition reset_encoder :: "system \<Rightarrow> tool \<Rightarrow> int \<times> tool" where
  "reset_encoder os s =
     (let (there, s1) = device_exists os ENCODER_DEV s in
      if \<not> there then (0, s1)
      else let s2 = snd (sysfs_read os ENCODER_STATUS 1024 s1) in
      if dry_run s2 then (0, s2)
      else let (fd, s3) = sys_open os (Open_rw ENCODER_DEV) s2 in
      case fd of None \<Rightarrow> (- 1, err s3)
      | Some f \<Rightarrow>
          let s4 = sys_do os (Close f) (sys_do os (Vdi_reset f) s3);
              s5 = sys_do os (Pause_us 200000) s4
          in (0, snd (sysfs_read os ENCODER_STATUS 1024 s5)))"

section \<open>Main\<close>

text \<open>
  The options, character by character: \<open>Inl\<close> is an exit code. An argument that does not start with a
  dash, or is only a dash, is passed over, and two dashes end the options.
\<close>

record flags =
  o_verbose :: bool
  o_dry :: bool
  o_skip_kill :: bool

fun parse_cluster :: "string \<Rightarrow> flags \<Rightarrow> int + flags" where
  "parse_cluster [] f = Inr f"
| "parse_cluster (c # cs) f =
     (if c = CHR ''v'' then parse_cluster cs (f\<lparr>o_verbose := True\<rparr>)
      else if c = CHR ''n'' then parse_cluster cs (f\<lparr>o_dry := True\<rparr>)
      else if c = CHR ''k'' then parse_cluster cs (f\<lparr>o_skip_kill := True\<rparr>)
      else if c = CHR ''h'' then Inl 0
      else Inl 1)"

fun parse_args :: "string list \<Rightarrow> flags \<Rightarrow> int + flags" where
  "parse_args [] f = Inr f"
| "parse_args (a # as) f =
     (if a = ''--'' then Inr f
      else if a \<noteq> [] \<and> hd a = CHR ''-'' \<and> a \<noteq> ''-''
      then rbind (parse_cluster (tl a) f) (parse_args as)
      else parse_args as f)"

definition fresh_tool :: tool where
  "fresh_tool = \<lparr>verbose = False, dry_run = False, errors = 0, calls = []\<rparr>"

definition run_tool :: "system \<Rightarrow> flags \<Rightarrow> tool \<Rightarrow> tool" where
  "run_tool os f s =
     (let s1 = (if o_skip_kill f then s else snd (kill_gstreamer_processes os s));
          s2 = diagnose_encoder os (diagnose_vdin1 os s1) in
      if dry_run s2 then s2
      else let s3 = snd (reset_encoder os (reset_vdin1 os s2)) in
      if errors s3 = 0 then s3 else err s3)"

definition main_tool :: "system \<Rightarrow> string list \<Rightarrow> int \<times> tool" where
  "main_tool os args =
     (case parse_args args \<lparr>o_verbose = False, o_dry = False, o_skip_kill = False\<rparr> of
        Inl code \<Rightarrow> (code, fresh_tool)
      | Inr f \<Rightarrow>
          let s = fresh_tool\<lparr>verbose := o_verbose f, dry_run := o_dry f\<rparr>;
              (r, s1) = sys os Geteuid s in
          if r \<noteq> Ret 0 then (1, err s1)
          else let s2 = run_tool os f s1 in (if 0 < errors s2 then 1 else 0, s2))"

section \<open>Descriptors and changes\<close>

text \<open>
  The descriptors a sequence of calls leaves open, computed from the answers the system gave, and
  whether each call on a descriptor was made while it was open. Both are defined on the reversed
  sequence.
\<close>

definition opens :: "system \<Rightarrow> syscall list \<Rightarrow> syscall \<Rightarrow> int multiset" where
  "opens os before c = (case c of
       Open_ro p \<Rightarrow> (case os before c of Ret fd \<Rightarrow> if 0 \<le> fd then {#fd#} else {#} | _ \<Rightarrow> {#})
     | Open_wo p \<Rightarrow> (case os before c of Ret fd \<Rightarrow> if 0 \<le> fd then {#fd#} else {#} | _ \<Rightarrow> {#})
     | Open_rw p \<Rightarrow> (case os before c of Ret fd \<Rightarrow> if 0 \<le> fd then {#fd#} else {#} | _ \<Rightarrow> {#})
     | _ \<Rightarrow> {#})"

fun closes :: "syscall \<Rightarrow> int multiset" where
  "closes (Close fd) = {#fd#}"
| "closes _ = {#}"

fun on_fd :: "syscall \<Rightarrow> int option" where
  "on_fd (Read fd n) = Some fd"
| "on_fd (Write fd t) = Some fd"
| "on_fd (Close fd) = Some fd"
| "on_fd (Querycap fd) = Some fd"
| "on_fd (Reqbufs0 fd) = Some fd"
| "on_fd (Vdi_reset fd) = Some fd"
| "on_fd _ = None"

primrec live_rev :: "system \<Rightarrow> syscall list \<Rightarrow> int multiset" where
  "live_rev os [] = {#}"
| "live_rev os (c # cs) = live_rev os cs + opens os (rev cs) c - closes c"

primrec sound_rev :: "system \<Rightarrow> syscall list \<Rightarrow> bool" where
  "sound_rev os [] = True"
| "sound_rev os (c # cs) = (sound_rev os cs \<and>
     (case on_fd c of None \<Rightarrow> True | Some fd \<Rightarrow> fd \<in># live_rev os cs))"

definition live :: "system \<Rightarrow> tool \<Rightarrow> int multiset" where
  "live os s = live_rev os (rev (calls s))"

definition sound :: "system \<Rightarrow> tool \<Rightarrow> bool" where
  "sound os s \<longleftrightarrow> sound_rev os (rev (calls s))"

text \<open>The calls that change a process, a file or the encoder.\<close>

fun changes :: "syscall \<Rightarrow> bool" where
  "changes (Kill p) = True"
| "changes (Write fd t) = True"
| "changes (Vdi_reset fd) = True"
| "changes _ = False"

text \<open>
  What every operation of the tool keeps: the descriptors that are open, the soundness of their uses,
  the mode, the errors so far, and in a dry run the changes made.
\<close>

definition tidy :: "system \<Rightarrow> tool \<Rightarrow> tool \<Rightarrow> bool" where
  "tidy os s s' \<longleftrightarrow> live os s' = live os s \<and> (sound os s \<longrightarrow> sound os s') \<and> dry_run s' = dry_run s \<and>
     errors s \<le> errors s' \<and>
     (dry_run s \<longrightarrow> filter changes (calls s') = filter changes (calls s))"

lemma tidy_refl [simp]: "tidy os s s"
  by (simp add: tidy_def)

lemma tidy_trans: "tidy os s t \<Longrightarrow> tidy os t u \<Longrightarrow> tidy os s u"
  by (auto simp: tidy_def)

lemma tidy_err [simp]: "tidy os s (err s)" "tidy os s t \<Longrightarrow> tidy os s (err t)"
  by (auto simp: tidy_def err_def live_def sound_def)

lemma live_call [simp]:
  "live os (s\<lparr>calls := calls s @ [c]\<rparr>) = live os s + opens os (calls s) c - closes c"
  by (simp add: live_def)

lemma sound_call [simp]:
  "sound os (s\<lparr>calls := calls s @ [c]\<rparr>) \<longleftrightarrow> sound os s \<and>
     (case on_fd c of None \<Rightarrow> True | Some fd \<Rightarrow> fd \<in># live os s)"
  by (simp add: sound_def live_def split: option.splits)

text \<open>A call that opens and uses nothing.\<close>

lemma tidy_call:
  assumes "opens os (calls s) c = {#}" "on_fd c = None" "closes c = {#}" "\<not> changes c \<or> \<not> dry_run s"
  shows "tidy os s (s\<lparr>calls := calls s @ [c]\<rparr>)"
  using assms by (auto simp: tidy_def)

text \<open>
  A call on a descriptor between its opening and its closing: \<open>holding\<close> is \<open>tidy\<close> with one more
  descriptor open.
\<close>

definition holding :: "system \<Rightarrow> int \<Rightarrow> tool \<Rightarrow> tool \<Rightarrow> bool" where
  "holding os f s s' \<longleftrightarrow> live os s' = live os s + {#f#} \<and> (sound os s \<longrightarrow> sound os s') \<and>
     dry_run s' = dry_run s \<and> errors s \<le> errors s' \<and>
     (dry_run s \<longrightarrow> filter changes (calls s') = filter changes (calls s))"

lemma open_tidy:
  assumes "sys_open os c s = (r, s')" "c = Open_ro p \<or> c = Open_wo p \<or> c = Open_rw p"
  shows "case r of None \<Rightarrow> tidy os s s' | Some f \<Rightarrow> holding os f s s'"
  using assms by (auto simp: sys_open_def sys_def opens_def tidy_def holding_def split: reply.splits if_splits)

lemma holding_call:
  assumes "holding os f s t" "on_fd c = Some f" "c \<noteq> Close f" "\<not> changes c \<or> \<not> dry_run s"
  shows "holding os f s (t\<lparr>calls := calls t @ [c]\<rparr>)"
  using assms by (cases c) (auto simp: holding_def opens_def)

lemma holding_close:
  assumes "holding os f s t"
  shows "tidy os s (t\<lparr>calls := calls t @ [Close f]\<rparr>)"
  using assms by (auto simp: holding_def tidy_def opens_def)

lemma holding_err: "holding os f s t \<Longrightarrow> holding os f s (err t)"
  by (auto simp: holding_def err_def live_def sound_def)

lemma sys_do_call: "sys_do os c s = s\<lparr>calls := calls s @ [c]\<rparr>"
  by (simp add: sys_do_def sys_def)

lemma close_tidy: "holding os f s t \<Longrightarrow> tidy os s (sys_do os (Close f) t)"
  unfolding sys_do_call by (rule holding_close)

lemma sys_ok_tidy:
  assumes "sys_ok os c s = (b, s')" "opens os (calls s) c = {#}" "on_fd c = None" "closes c = {#}"
    "\<not> changes c \<or> \<not> dry_run s"
  shows "tidy os s s'"
  using assms tidy_call [of os s c] by (auto simp: sys_ok_def sys_def)

lemma device_exists_tidy: "device_exists os p s = (b, s') \<Longrightarrow> tidy os s s'"
  unfolding device_exists_def by (erule sys_ok_tidy) (simp_all add: opens_def)

lemma pause_tidy: "tidy os s (sys_do os (Pause_us n) s)"
  unfolding sys_do_call by (rule tidy_call) (simp_all add: opens_def)

lemma sysfs_read_tidy:
  assumes "sysfs_read os path n s = (r, s')"
  shows "tidy os s s'"
proof -
  obtain fd s1 where o1: "sys_open os (Open_ro path) s = (fd, s1)" by force
  show ?thesis
  proof (cases fd)
    case None
    then show ?thesis using assms o1 open_tidy [OF o1] by (simp add: sysfs_read_def)
  next
    case (Some f)
    have h: "holding os f s s1" using open_tidy [OF o1] Some by simp
    have "s' = sys_do os (Close f) (sys_do os (Read f (n - 1)) s1)"
      using assms o1 Some by (auto simp: sysfs_read_def sys_do_def Let_def split: prod.splits reply.splits)
    then show ?thesis
      using holding_close [OF holding_call [OF h, of "Read f (n - 1)"]] by (simp add: sys_do_call)
  qed
qed

lemma sysfs_write_tidy:
  assumes "sysfs_write os path val s = (r, s')" "\<not> dry_run s"
  shows "tidy os s s'"
proof -
  obtain fd s1 where o1: "sys_open os (Open_wo path) s = (fd, s1)" by force
  show ?thesis
  proof (cases fd)
    case None
    then show ?thesis using assms o1 open_tidy [OF o1] by (auto simp: sysfs_write_def)
  next
    case (Some f)
    have h: "holding os f s s1" using open_tidy [OF o1] Some by simp
    define t where "t = sys_do os (Close f) (sys_do os (Write f val) s1)"
    have "s' = t \<or> s' = err t"
      using assms o1 Some by (auto simp: sysfs_write_def t_def sys_do_def Let_def split: prod.splits if_splits)
    moreover have "tidy os s t"
      using holding_close [OF holding_call [OF h, of "Write f val"]] assms(2) by (simp add: t_def sys_do_call)
    ultimately show ?thesis by auto
  qed
qed

lemma open_close_tidy: "tidy os s (open_close os path s)"
proof -
  obtain fd s1 where o1: "sys_open os (Open_rw path) s = (fd, s1)" by force
  show ?thesis using open_tidy [OF o1] holding_close
    by (cases fd) (auto simp: open_close_def o1 sys_do_call)
qed

lemma kill_entry_tidy: "tidy os (snd ks) (snd (kill_entry os name ks))"
proof (cases "pid_of_entry name")
  case None
  then show ?thesis by (simp add: kill_entry_def)
next
  case (Some pid)
  obtain comm s1 where r: "sysfs_read os (comm_path pid) 256 (snd ks) = (comm, s1)" by force
  obtain b s2 where k: "sys_ok os (Kill (s32 pid)) s1 = (b, s2)" by force
  have 1: "tidy os (snd ks) s1" by (rule sysfs_read_tidy [OF r])
  have 2: "tidy os (snd ks) s2" if "\<not> dry_run s1"
    using sys_ok_tidy [OF k] that by (intro tidy_trans [OF 1]) (simp add: opens_def)
  show ?thesis using 1 2 by (simp add: kill_entry_def Some r k split: option.splits)
qed

lemma kill_fold_tidy: "tidy os (snd ks) (snd (fold (kill_entry os) ns ks))"
proof (induction ns arbitrary: ks)
  case (Cons n ns)
  show ?case unfolding fold_simps by (rule tidy_trans [OF kill_entry_tidy Cons.IH])
qed simp

lemma list_proc_tidy: "sys os List_proc s = (r, s') \<Longrightarrow> tidy os s s'"
  using tidy_call [of os s List_proc] by (auto simp: sys_def opens_def)

lemma kill_gstreamer_tidy: "tidy os s (snd (kill_gstreamer_processes os s))"
proof -
  obtain r s1 where l: "sys os List_proc s = (r, s1)" by force
  have s1: "tidy os s s1" by (rule list_proc_tidy [OF l])
  have e: "tidy os s (err s1)" using s1 by simp
  show ?thesis
  proof (cases r)
    case (Names ns)
    obtain k s2 where f: "fold (kill_entry os) ns (0, s1) = (k, s2)" by force
    have "tidy os s s2" using kill_fold_tidy [of os "(0, s1)" ns] s1 tidy_trans by (simp add: f)
    then show ?thesis using pause_tidy tidy_trans
      by (auto simp: kill_gstreamer_processes_def l Names f)
  qed (simp_all add: kill_gstreamer_processes_def l e)
qed

lemma diagnose_vdin1_tidy: "tidy os s (diagnose_vdin1 os s)"
proof -
  obtain b s1 where d: "device_exists os VDIN1_V4L2_DEV s = (b, s1)" by force
  obtain fd s2 where o2: "sys_open os (Open_rw VDIN1_V4L2_DEV) s1 = (fd, s2)" by force
  have "tidy os s1 (case fd of None \<Rightarrow> s2
      | Some f \<Rightarrow> sys_do os (Close f) (sys_do os (Reqbufs0 f) (sys_do os (Querycap f) s2)))"
  proof (cases fd)
    case None
    then show ?thesis using open_tidy [OF o2] by simp
  next
    case (Some f)
    have "holding os f s1 s2" using open_tidy [OF o2] Some by simp
    then have "holding os f s1 (sys_do os (Querycap f) s2)"
      unfolding sys_do_call by (rule holding_call) simp_all
    then have "holding os f s1 (sys_do os (Reqbufs0 f) (sys_do os (Querycap f) s2))"
      unfolding sys_do_call by (rule holding_call) simp_all
    then show ?thesis by (simp add: Some close_tidy)
  qed
  then show ?thesis using device_exists_tidy [OF d] tidy_trans by (auto simp: diagnose_vdin1_def d o2)
qed

lemma diagnose_encoder_tidy: "tidy os s (diagnose_encoder os s)"
proof -
  obtain b s1 where d: "device_exists os ENCODER_DEV s = (b, s1)" by force
  obtain t s2 where r: "sysfs_read os ENCODER_STATUS 1024 s1 = (t, s2)" by force
  show ?thesis using device_exists_tidy [OF d] sysfs_read_tidy [OF r] tidy_trans
    by (auto simp: diagnose_encoder_def d r)
qed

lemma stop_hardware_tidy: "tidy os s (stop_hardware os s)"
proof -
  obtain b s1 where d: "device_exists os VDIN1_SYSFS_ATTR s = (b, s1)" by force
  obtain ok s2 where w: "sysfs_write os VDIN1_SYSFS_ATTR ''v4l2stop'' s1 = (ok, s2)" by force
  have "\<not> dry_run s1 \<Longrightarrow> tidy os s1 (sys_do os (Pause_us 200000) s2)"
    using sysfs_write_tidy [OF w] pause_tidy tidy_trans by blast
  then show ?thesis using device_exists_tidy [OF d] tidy_trans by (auto simp: stop_hardware_def d w)
qed

lemma verify_vdin1_tidy: "tidy os s (verify_vdin1 os s)"
proof -
  define s0 where "s0 = sys_do os (Pause_us 200000) s"
  obtain fd s1 where o1: "sys_open os (Open_rw VDIN1_V4L2_DEV) s0 = (fd, s1)" by force
  have s0: "tidy os s s0" unfolding s0_def by (rule pause_tidy)
  show ?thesis
  proof (cases fd)
    case None
    then have "tidy os s0 s1" using open_tidy [OF o1] by simp
    then have "tidy os s (err s1)" using s0 tidy_trans tidy_err(2) by blast
    then show ?thesis using None by (simp add: verify_vdin1_def s0_def [symmetric] o1)
  next
    case (Some f)
    define s2 where "s2 = s1\<lparr>calls := calls s1 @ [Reqbufs0 f]\<rparr>"
    have "holding os f s0 s1" using open_tidy [OF o1] Some by simp
    then have h: "holding os f s0 s2" unfolding s2_def by (rule holding_call) simp_all
    have "tidy os s0 (sys_do os (Close f) s2)" "tidy os s0 (sys_do os (Close f) (err s2))"
      using holding_close [OF h] holding_close [OF holding_err [OF h]] by (simp_all add: sys_do_call)
    then show ?thesis using s0 tidy_trans Some
      by (auto simp: verify_vdin1_def s0_def [symmetric] o1 sys_def s2_def [symmetric])
  qed
qed

lemma reset_vdin1_tidy: "tidy os s (reset_vdin1 os s)"
proof -
  obtain b s1 where d: "device_exists os VDIN1_V4L2_DEV s = (b, s1)" by force
  define s2 where "s2 = stop_hardware os s1"
  define s3 where "s3 = (if dry_run s2 then s2 else open_close os VDIN1_V4L2_DEV s2)"
  obtain cd s4 where c: "device_exists os VDIN1_CHARDEV s3 = (cd, s4)" by force
  define s5 where "s5 = (if cd \<and> \<not> dry_run s4 then open_close os VDIN1_CHARDEV s4 else s4)"
  have "tidy os s1 s2" "tidy os s2 s3" "tidy os s3 s4" "tidy os s4 s5" "tidy os s5 (verify_vdin1 os s5)"
    using stop_hardware_tidy open_close_tidy device_exists_tidy [OF c] verify_vdin1_tidy
    by (simp_all add: s2_def s3_def s5_def)
  then have "tidy os s1 (verify_vdin1 os s5)" by (blast intro: tidy_trans)
  then show ?thesis using device_exists_tidy [OF d] tidy_trans
    by (auto simp: reset_vdin1_def d Let_def s2_def [symmetric] s3_def [symmetric] c s5_def [symmetric])
qed

lemma reset_encoder_tidy: "tidy os s (snd (reset_encoder os s))"
proof -
  obtain b s1 where d: "device_exists os ENCODER_DEV s = (b, s1)" by force
  obtain t s2 where r: "sysfs_read os ENCODER_STATUS 1024 s1 = (t, s2)" by force
  obtain fd s3 where o3: "sys_open os (Open_rw ENCODER_DEV) s2 = (fd, s3)" by force
  have s1: "tidy os s s1" by (rule device_exists_tidy [OF d])
  have s2: "tidy os s s2" using s1 sysfs_read_tidy [OF r] by (rule tidy_trans)
  show ?thesis
  proof (cases "b \<and> \<not> dry_run s2")
    case False
    then show ?thesis using s1 s2 by (auto simp: reset_encoder_def d r)
  next
    case True
    show ?thesis
    proof (cases fd)
      case None
      then have "tidy os s2 s3" using open_tidy [OF o3] by simp
      then have "tidy os s (err s3)" using s2 tidy_trans tidy_err(2) by blast
      then show ?thesis using True None by (simp add: reset_encoder_def d r o3)
    next
      case (Some f)
      define s5 where "s5 = sys_do os (Pause_us 200000) (sys_do os (Close f) (sys_do os (Vdi_reset f) s3))"
      have "holding os f s2 s3" using open_tidy [OF o3] Some by simp
      then have "holding os f s2 (sys_do os (Vdi_reset f) s3)"
        unfolding sys_do_call by (rule holding_call) (use True in simp_all)
      then have "tidy os s2 (sys_do os (Close f) (sys_do os (Vdi_reset f) s3))"
        by (rule close_tidy)
      then have s5: "tidy os s s5" unfolding s5_def using s2 pause_tidy tidy_trans by blast
      obtain t' s6 where r6: "sysfs_read os ENCODER_STATUS 1024 s5 = (t', s6)" by force
      have "tidy os s s6" using s5 sysfs_read_tidy [OF r6] by (rule tidy_trans)
      then show ?thesis using True Some
        by (simp add: reset_encoder_def d r o3 Let_def s5_def [symmetric] r6)
    qed
  qed
qed

lemma run_tool_tidy: "tidy os s (run_tool os f s)"
proof -
  define s1 where "s1 = (if o_skip_kill f then s else snd (kill_gstreamer_processes os s))"
  define s2 where "s2 = diagnose_encoder os (diagnose_vdin1 os s1)"
  define s3 where "s3 = snd (reset_encoder os (reset_vdin1 os s2))"
  have "tidy os s s1" using kill_gstreamer_tidy by (simp add: s1_def)
  then have s2: "tidy os s s2" unfolding s2_def
    using diagnose_vdin1_tidy diagnose_encoder_tidy tidy_trans by blast
  then have "tidy os s s3" unfolding s3_def using reset_vdin1_tidy reset_encoder_tidy tidy_trans by blast
  then show ?thesis using s2
    by (simp add: run_tool_def Let_def s1_def [symmetric] s2_def [symmetric] s3_def [symmetric])
qed

section \<open>Properties\<close>

text \<open>
  C28: Whatever the system answers, a run of the tool closes every descriptor it opened and uses a
  descriptor only while it is open: nothing leaks and nothing is used after its close, on every error
  path.
\<close>

theorem pipeline_reset_descriptors:
  "live os (snd (main_tool os args)) = {#} \<and> sound os (snd (main_tool os args))"
proof -
  have fresh: "live os fresh_tool = {#}" "sound os fresh_tool" by (simp_all add: fresh_tool_def live_def sound_def)
  show ?thesis
  proof (cases "parse_args args \<lparr>o_verbose = False, o_dry = False, o_skip_kill = False\<rparr>")
    case (Inl code)
    then show ?thesis using fresh by (simp add: main_tool_def)
  next
    case (Inr f)
    define s where "s = fresh_tool\<lparr>verbose := o_verbose f, dry_run := o_dry f\<rparr>"
    define s1 where "s1 = s\<lparr>calls := calls s @ [Geteuid]\<rparr>"
    have s: "live os s = {#}" "sound os s" using fresh by (simp_all add: s_def live_def sound_def)
    have t: "tidy os s s1" unfolding s1_def by (rule tidy_call) (simp_all add: opens_def)
    have "snd (main_tool os args) = err s1 \<or> snd (main_tool os args) = run_tool os f s1"
      by (auto simp: main_tool_def Inr sys_def s_def [symmetric] s1_def [symmetric] Let_def)
    then have "tidy os s (snd (main_tool os args))" using t run_tool_tidy tidy_trans tidy_err(2) by metis
    then show ?thesis using s by (simp add: tidy_def)
  qed
qed

text \<open>
  A dry run changes nothing by signal, by write or by a reset of the encoder: with the option
  \<open>-n\<close> among the options read, the calls made contain no kill, no write and no encoder reset.
\<close>

theorem pipeline_reset_dry_run:
  assumes "parse_args args \<lparr>o_verbose = False, o_dry = False, o_skip_kill = False\<rparr> = Inr f" "o_dry f"
  shows "filter changes (calls (snd (main_tool os args))) = []"
proof -
  define s where "s = fresh_tool\<lparr>verbose := o_verbose f, dry_run := o_dry f\<rparr>"
  define s1 where "s1 = s\<lparr>calls := calls s @ [Geteuid]\<rparr>"
  have t: "tidy os s s1" unfolding s1_def by (rule tidy_call) (simp_all add: opens_def)
  have "snd (main_tool os args) = err s1 \<or> snd (main_tool os args) = run_tool os f s1"
    by (auto simp: main_tool_def assms(1) sys_def s_def [symmetric] s1_def [symmetric] Let_def)
  then have "tidy os s (snd (main_tool os args))" using t run_tool_tidy tidy_trans tidy_err(2) by metis
  then show ?thesis using assms(2) by (simp add: tidy_def s_def fresh_tool_def)
qed

text \<open>A system with one stray pipeline, whose devices all answer.\<close>

definition demo_system :: system where
  "demo_system before c = (case c of
       List_proc \<Rightarrow> Names [''self'', ''1'', ''42'']
     | Open_ro p \<Rightarrow> if p = ''/proc/42/comm'' then Ret 7 else Fails ENOENT
     | Open_wo p \<Rightarrow> Fails ENOENT
     | Open_rw p \<Rightarrow> Ret 8
     | Read f n \<Rightarrow> Data (''gst-launch-1.0'' @ [CHR 0x0A])
     | _ \<Rightarrow> Ret 0)"

theorem pipeline_reset_dry_run_witness:
  "filter changes (calls (snd (main_tool demo_system [''-vn'']))) = []"
  using pipeline_reset_dry_run [of "[''-vn'']" "\<lparr>o_verbose = True, o_dry = True, o_skip_kill = False\<rparr>" demo_system]
  by simp

text \<open>The kills among the calls, and the processes they should be: the pipelines, in the order listed.\<close>

fun is_kill :: "syscall \<Rightarrow> bool" where
  "is_kill (Kill p) = True"
| "is_kill _ = False"

definition pipelines :: "(int \<Rightarrow> string option) \<Rightarrow> string list \<Rightarrow> int list" where
  "pipelines comm ns = filter (\<lambda>pid. map_option cstr (comm pid) = Some ''gst-launch-1.0'')
     (List.map_filter pid_of_entry ns)"

lemma sysfs_read_kills:
  assumes "sysfs_read os path n s = (r, s')"
  shows "filter is_kill (calls s') = filter is_kill (calls s) \<and> dry_run s' = dry_run s"
  using assms
  by (auto simp: sysfs_read_def sys_open_def sys_def sys_do_call Let_def split: option.splits reply.splits if_splits)

lemma kill_fold_kills:
  assumes comm: "\<And>pid t. fst (sysfs_read os (comm_path pid) 256 t) = comm pid" and "\<not> dry_run (snd ks)"
  shows "filter is_kill (calls (snd (fold (kill_entry os) ns ks))) =
      filter is_kill (calls (snd ks)) @ map (Kill \<circ> s32) (pipelines comm ns) \<and>
    \<not> dry_run (snd (fold (kill_entry os) ns ks))"
  using assms(2)
proof (induction ns arbitrary: ks)
  case Nil
  then show ?case by (simp add: pipelines_def List.map_filter_def)
next
  case (Cons n ns)
  have "filter is_kill (calls (snd (kill_entry os n ks))) =
      filter is_kill (calls (snd ks)) @ map (Kill \<circ> s32) (pipelines comm [n]) \<and>
    \<not> dry_run (snd (kill_entry os n ks))"
  proof (cases "pid_of_entry n")
    case None
    then show ?thesis using Cons.prems by (simp add: kill_entry_def pipelines_def List.map_filter_def)
  next
    case (Some pid)
    obtain c s1 where r: "sysfs_read os (comm_path pid) 256 (snd ks) = (c, s1)" by force
    have c: "c = comm pid" using comm [of pid "snd ks"] r by simp
    show ?thesis using sysfs_read_kills [OF r] Cons.prems c
      by (auto simp: kill_entry_def Some r sys_ok_def sys_def pipelines_def List.map_filter_def split: option.splits)
  qed
  moreover have "pipelines comm (n # ns) = pipelines comm [n] @ pipelines comm ns"
    by (auto simp: pipelines_def List.map_filter_def)
  ultimately show ?case using Cons.IH [of "kill_entry os n ks"] by simp
qed

text \<open>
  Outside a dry run the tool sends \<open>SIGKILL\<close> to exactly the processes listed in \<open>/proc\<close> whose
  command name is \<open>gst-launch-1.0\<close>, each once and in the order of the listing, when the command names
  do not change during the scan.
\<close>

theorem pipeline_reset_kills:
  assumes "\<forall>pid t. fst (sysfs_read os (comm_path pid) 256 t) = comm pid" "\<not> dry_run s"
    and "os (calls s) List_proc = Names ns"
  shows "filter is_kill (calls (snd (kill_gstreamer_processes os s))) =
    filter is_kill (calls s) @ map (Kill \<circ> s32) (pipelines comm ns)"
proof -
  define s1 where "s1 = s\<lparr>calls := calls s @ [List_proc]\<rparr>"
  obtain k s2 where f: "fold (kill_entry os) ns (0, s1) = (k, s2)" by force
  have "filter is_kill (calls s2) = filter is_kill (calls s1) @ map (Kill \<circ> s32) (pipelines comm ns)"
    using kill_fold_kills [of os comm "(0, s1)" ns] assms(1,2) f by (simp add: s1_def)
  then show ?thesis
    by (simp add: kill_gstreamer_processes_def sys_def assms(3) s1_def [symmetric] f sys_do_call)
       (simp add: s1_def)
qed

theorem pipeline_reset_kills_witness:
  "filter is_kill (calls (snd (kill_gstreamer_processes demo_system fresh_tool))) = [Kill 42]"
proof -
  let ?comm = "\<lambda>pid. if comm_path pid = ''/proc/42/comm'' then Some ''gst-launch-1.0'' else None"
  have "\<forall>pid t. fst (sysfs_read demo_system (comm_path pid) 256 t) = ?comm pid"
    by (simp add: sysfs_read_def sys_open_def sys_def demo_system_def sys_do_call strip_newlines_def)
  moreover have "pipelines ?comm [''self'', ''1'', ''42''] = [42]"
    by code_simp
  ultimately show ?thesis
    using pipeline_reset_kills [of demo_system ?comm fresh_tool "[''self'', ''1'', ''42'']"]
    by (simp add: fresh_tool_def demo_system_def in_s32_def)
qed

text \<open>The write to stop the hardware is refused: one more error.\<close>

lemma stop_hardware_refused:
  assumes "\<forall>b. os b (Stat VDIN1_SYSFS_ATTR) = Ret 0" "\<forall>b. os b (Open_wo VDIN1_SYSFS_ATTR) = Fails e"
    and "\<not> dry_run s"
  shows "errors (stop_hardware os s) = errors s + 1"
  using assms
  by (simp add: stop_hardware_def device_exists_def sys_ok_def sys_def sysfs_write_def sys_open_def
      sys_do_call err_def)

lemma reset_vdin1_refused:
  assumes "\<forall>b. os b (Stat VDIN1_V4L2_DEV) = Ret 0" "\<forall>b. os b (Stat VDIN1_SYSFS_ATTR) = Ret 0"
    and "\<forall>b. os b (Open_wo VDIN1_SYSFS_ATTR) = Fails e" "\<not> dry_run s"
  shows "errors s < errors (reset_vdin1 os s)"
proof -
  define s1 where "s1 = s\<lparr>calls := calls s @ [Stat VDIN1_V4L2_DEV]\<rparr>"
  have d: "device_exists os VDIN1_V4L2_DEV s = (True, s1)"
    by (simp add: device_exists_def sys_ok_def sys_def assms(1) s1_def)
  define s2 where "s2 = stop_hardware os s1"
  define s3 where "s3 = (if dry_run s2 then s2 else open_close os VDIN1_V4L2_DEV s2)"
  obtain cd s4 where c: "device_exists os VDIN1_CHARDEV s3 = (cd, s4)" by force
  define s5 where "s5 = (if cd \<and> \<not> dry_run s4 then open_close os VDIN1_CHARDEV s4 else s4)"
  have "tidy os s2 s3" "tidy os s3 s4" "tidy os s4 s5" "tidy os s5 (verify_vdin1 os s5)"
    using open_close_tidy device_exists_tidy [OF c] verify_vdin1_tidy by (simp_all add: s3_def s5_def)
  then have "errors s2 \<le> errors (verify_vdin1 os s5)" unfolding tidy_def by linarith
  moreover have "errors s2 = errors s + 1"
    unfolding s2_def by (subst stop_hardware_refused [OF assms(2,3)]) (simp_all add: s1_def assms(4))
  moreover have "reset_vdin1 os s = verify_vdin1 os s5"
    unfolding reset_vdin1_def Let_def d prod.case s2_def [symmetric] s3_def [symmetric] c s5_def [symmetric]
    by simp
  ultimately show ?thesis by simp
qed

text \<open>
  A failing \<open>v4l2stop\<close>, which the tool itself calls harmless because the hardware may be stopped
  already, makes the whole run fail: with both devices present and the write refused, the exit code is
  1 whatever the later checks find.
\<close>

theorem pipeline_reset_stop_failure:
  assumes "parse_args args \<lparr>o_verbose = False, o_dry = False, o_skip_kill = False\<rparr> = Inr f" "\<not> o_dry f"
    and "\<forall>b. os b Geteuid = Ret 0"
    and "\<forall>b. os b (Stat VDIN1_V4L2_DEV) = Ret 0" "\<forall>b. os b (Stat VDIN1_SYSFS_ATTR) = Ret 0"
    and "\<forall>b. os b (Open_wo VDIN1_SYSFS_ATTR) = Fails e"
  shows "fst (main_tool os args) = 1"
proof -
  define s where "s = fresh_tool\<lparr>verbose := o_verbose f, dry_run := o_dry f, calls := [Geteuid]\<rparr>"
  define s1 where "s1 = (if o_skip_kill f then s else snd (kill_gstreamer_processes os s))"
  define s2 where "s2 = diagnose_encoder os (diagnose_vdin1 os s1)"
  define s3 where "s3 = snd (reset_encoder os (reset_vdin1 os s2))"
  have t1: "tidy os s s1" using kill_gstreamer_tidy by (simp add: s1_def)
  have t2: "tidy os s1 s2" unfolding s2_def using diagnose_vdin1_tidy diagnose_encoder_tidy tidy_trans by blast
  have nd: "\<not> dry_run s2" "0 \<le> errors s2"
    using t1 t2 assms(2) by (auto simp: tidy_def s_def fresh_tool_def)
  have "errors s2 < errors (reset_vdin1 os s2)" using reset_vdin1_refused assms(4-6) nd by blast
  also have "\<dots> \<le> errors s3" unfolding s3_def using reset_encoder_tidy [of os "reset_vdin1 os s2"] by (simp add: tidy_def)
  finally have "0 < errors s3" using nd by simp
  then have "0 < errors (run_tool os f s)"
    using nd by (simp add: run_tool_def Let_def s1_def [symmetric] s2_def [symmetric] s3_def [symmetric] err_def)
  then show ?thesis using assms(1,3) by (simp add: main_tool_def sys_def fresh_tool_def s_def Let_def)
qed

theorem pipeline_reset_stop_failure_witness: "fst (main_tool demo_system [''-k'']) = 1"
  using pipeline_reset_stop_failure [of "[''-k'']" "\<lparr>o_verbose = False, o_dry = False, o_skip_kill = True\<rparr>"
    demo_system ENOENT]
  by (simp add: demo_system_def)

end
