(* ===== verification/Capture_Port.thy ===== *)
theory Capture_Port
  imports Fifo_Spec
begin

text \<open>
  The capture port of the V4L2 decoder client (\<open>v4l2-uvm-test/src/v4l2-dec.c\<close>): the buffers decoded
  frames arrive in, their way to the display and back, the change of resolution, and the end of the
  stream.

  A \<open>struct frame_buffer\<close> is an address in the map \<open>cheap\<close>, together with the DRM frame it owns;
  freeing it removes it, and touching it afterwards is the fault \<open>Freed_buffer\<close>. \<open>drv\<close> is the set of
  buffer indices the driver holds and \<open>shown\<close> the list of buffers the display holds: the driver and the
  display are the environment, and these fields are what they were given. Answers of system calls and
  of allocators are arguments. The decoder thread and the display's threads take turns, and a turn is
  a whole operation: the release of the old buffers and the callback exclude each other by
  \<open>res_lock\<close>, and interleavings of a callback with the rest of a change of resolution are not
  modelled. Time stamps and the profiling output are left out.
\<close>

section \<open>State\<close>

datatype cap_fault = Freed_buffer | Bad_index | Null_frame

datatype v4l2_event = Event_source_change | Event_eos | Event_other

record cap_buffer =
  cb_index :: nat
  cb_queued :: bool
  free_on_recycle :: bool

record cap_port =
  cheap :: "addr \<rightharpoonup> cap_buffer"
  cbuf :: "addr list"
  drv :: "nat set"
  shown :: "addr list"
  res_evt_pending :: bool
  eos_evt_pending :: bool
  eos_received :: bool
  res_change :: bool
  d_c_push_num :: int
  d_c_rec_num :: int
  hung :: bool
  thread_done :: bool

definition upd_cap :: "addr \<Rightarrow> (cap_buffer \<Rightarrow> cap_buffer) \<Rightarrow> cap_port \<Rightarrow> cap_fault + cap_port" where
  "upd_cap a f p = (case cheap p a of None \<Rightarrow> Inl Freed_buffer
     | Some b \<Rightarrow> Inr (p\<lparr>cheap := (cheap p)(a \<mapsto> f b)\<rparr>))"

section \<open>Setting up the port\<close>

text \<open>
  The answers \<open>setup_capture_port\<close> gets: the formats, the driver's minimum, the granted count, the
  allocations by index, and for each buffer whether \<open>display_create_buffer\<close> returned a frame,
  \<open>QUERYBUF\<close>, the descriptors and \<open>QBUF\<close>. The check after \<open>display_create_buffer\<close> tests the result of an
  earlier call, so a missing frame is noticed only when \<open>display_get_buffer_fds\<close> reads it.
\<close>

record setup_reply =
  g_fmt_ok :: bool
  s_fmt_ok :: bool
  min_buffers :: nat
  granted :: "nat option"
  array_ok :: bool
  allocs :: "nat \<Rightarrow> addr option"
  inits :: "nat \<Rightarrow> bool \<times> bool \<times> bool \<times> bool"

primrec alloc_loop :: "(nat \<Rightarrow> addr option) \<Rightarrow> nat \<Rightarrow> nat \<Rightarrow> cap_port \<Rightarrow> bool \<times> cap_port" where
  "alloc_loop al 0 i p = (True, p)"
| "alloc_loop al (Suc n) i p = (case al i of None \<Rightarrow> (False, p)
     | Some a \<Rightarrow> alloc_loop al n (Suc i)
         (p\<lparr>cheap := (cheap p)(a \<mapsto> \<lparr>cb_index = 0, cb_queued = False, free_on_recycle = False\<rparr>),
            cbuf := cbuf p @ [a]\<rparr>))"

primrec init_loop :: "(nat \<Rightarrow> bool \<times> bool \<times> bool \<times> bool) \<Rightarrow> nat \<Rightarrow> nat \<Rightarrow> cap_port \<Rightarrow> cap_fault + int \<times> cap_port" where
  "init_loop st 0 i p = Inr (0, p)"
| "init_loop st (Suc n) i p =
     rbind (need Bad_index (at (cbuf p) i)) (\<lambda>a.
     rbind (upd_cap a (\<lambda>b. b\<lparr>cb_index := i\<rparr>) p) (\<lambda>p1.
       let (frame, query, fds, q) = st i in
       if \<not> query then Inr (3, p1)
       else if \<not> frame then Inl Null_frame
       else if \<not> fds then Inr (4, p1)
       else if \<not> q then Inr (5, p1)
       else rbind (upd_cap a (\<lambda>b. b\<lparr>cb_queued := True\<rparr>) p1) (\<lambda>p2.
              init_loop st n (Suc i) (p2\<lparr>drv := insert i (drv p2)\<rparr>))))"

definition setup_capture_port :: "setup_reply \<Rightarrow> cap_port \<Rightarrow> cap_fault + int \<times> cap_port" where
  "setup_capture_port a p =
     (if \<not> g_fmt_ok a \<or> \<not> s_fmt_ok a \<or> min_buffers a = 0 then Inr (- 1, p)
      else case granted a of None \<Rightarrow> Inr (1, p)
      | Some n \<Rightarrow>
          let p0 = p\<lparr>cbuf := []\<rparr> in
          if \<not> array_ok a then Inr (2, p0)
          else let (ok, p1) = alloc_loop (allocs a) n 0 p0 in
          if \<not> ok then Inr (2, p1) else init_loop (inits a) n 0 p1)"

section \<open>Change of resolution\<close>

text \<open>The loop over the old buffers: those not out on the display are freed, the others marked.\<close>

primrec release_loop :: "addr list \<Rightarrow> (addr \<rightharpoonup> cap_buffer) \<Rightarrow> cap_fault + (addr \<rightharpoonup> cap_buffer)" where
  "release_loop [] h = Inr h"
| "release_loop (a # as) h = (case h a of None \<Rightarrow> Inl Freed_buffer
     | Some b \<Rightarrow> if cb_queued b then release_loop as (h(a := None))
                 else release_loop as (h(a \<mapsto> b\<lparr>free_on_recycle := True\<rparr>)))"

record change_reply =
  out_fmt_ok :: bool
  streamoff_ok :: bool
  reqbufs_ok :: bool
  setup_ans :: setup_reply
  streamon_ok :: bool

text \<open>Every error of \<open>handle_res_change\<close> ends in an endless loop of the decoder thread.\<close>

definition handle_res_change :: "change_reply \<Rightarrow> cap_port \<Rightarrow> cap_fault + cap_port" where
  "handle_res_change r p =
     (if \<not> out_fmt_ok r \<or> \<not> streamoff_ok r then Inr (p\<lparr>hung := True\<rparr>)
      else let p1 = p\<lparr>drv := {}\<rparr> in
      if \<not> reqbufs_ok r then Inr (p1\<lparr>hung := True\<rparr>)
      else rbind (release_loop (cbuf p1) (cheap p1)) (\<lambda>h.
           rbind (setup_capture_port (setup_ans r) (p1\<lparr>cheap := h\<rparr>)) (\<lambda>(ret, p2).
             if ret \<noteq> 0 \<or> \<not> streamon_ok r then Inr (p2\<lparr>hung := True\<rparr>) else Inr p2)))"

definition handle_first_frame :: "setup_reply \<Rightarrow> bool \<Rightarrow> bool \<Rightarrow> cap_port \<Rightarrow> cap_fault + int \<times> cap_port" where
  "handle_first_frame a streamon thread_ok p =
     rbind (setup_capture_port a p) (\<lambda>(ret, p1).
       if ret \<noteq> 0 \<or> \<not> streamon then Inr (0, p1\<lparr>hung := True\<rparr>)
       else Inr (if thread_ok then 0 else - 1, p1))"

section \<open>The decoder thread\<close>

text \<open>An event after \<open>POLLPRI\<close>; \<open>None\<close> when \<open>DQEVENT\<close> fails.\<close>

definition priority_event :: "v4l2_event option \<Rightarrow> cap_port \<Rightarrow> cap_port" where
  "priority_event e p =
     (if e = Some Event_source_change then p\<lparr>res_evt_pending := True\<rparr>
      else if e = Some Event_eos then p\<lparr>eos_evt_pending := True\<rparr> else p)"

text \<open>What a dequeued capture buffer led to.\<close>

datatype cap_label = Shown | Changed | Finished | Lost | Event | Requeued | Freed | Kept

definition dqueue_capture ::
    "nat \<Rightarrow> bool \<Rightarrow> v4l2_event option \<Rightarrow> change_reply \<Rightarrow> cap_port \<Rightarrow> cap_fault + cap_label \<times> cap_port" where
  "dqueue_capture i last_buf ev r p =
     rbind (need Bad_index (at (cbuf p) i)) (\<lambda>a.
     rbind (upd_cap a (\<lambda>b. b\<lparr>cb_queued := False\<rparr>) p) (\<lambda>p1.
       let p2 = p1\<lparr>drv := drv p1 - {i}, d_c_push_num := d_c_push_num p1 + 1\<rparr>;
           p3 = (if d_c_push_num p2 = 1 \<and> res_evt_pending p2 then p2\<lparr>res_evt_pending := False\<rparr> else p2) in
       if \<not> last_buf then Inr (Shown, p3\<lparr>res_change := False, shown := shown p3 @ [a]\<rparr>)
       else let evt = (if \<not> res_evt_pending p3 \<and> \<not> eos_evt_pending p3 then ev else None) in
       if evt = Some Event_source_change \<or> res_evt_pending p3 then
         rbind (upd_cap a (\<lambda>b. b\<lparr>cb_queued := True\<rparr>) (p3\<lparr>res_evt_pending := False, res_change := True\<rparr>)) (\<lambda>p4.
         rbind (handle_res_change r p4) (\<lambda>p5.
           Inr (Changed, if hung p5 then p5 else p5\<lparr>d_c_rec_num := d_c_rec_num p5 + 1\<rparr>)))
       else if evt = Some Event_eos \<or> eos_evt_pending p3 then
         Inr (Finished, p3\<lparr>eos_received := True, eos_evt_pending := False,
                           d_c_rec_num := d_c_rec_num p3 + 1, thread_done := True\<rparr>)
       else Inr (Lost, p3)))"

section \<open>The display's callback\<close>

definition capture_buffer_recycle :: "addr \<Rightarrow> bool \<Rightarrow> cap_port \<Rightarrow> cap_fault + cap_label \<times> cap_port" where
  "capture_buffer_recycle a qbuf_ok p =
     (let p1 = p\<lparr>d_c_rec_num := d_c_rec_num p + 1, shown := remove1 a (shown p)\<rparr> in
      case cheap p1 a of None \<Rightarrow> Inl Freed_buffer
      | Some b \<Rightarrow>
          if free_on_recycle b then Inr (Freed, p1\<lparr>cheap := (cheap p1)(a := None)\<rparr>)
          else if eos_received p1 then Inr (Kept, p1)
          else if \<not> qbuf_ok then Inr (Kept, p1)
          else Inr (Requeued, p1\<lparr>cheap := (cheap p1)(a \<mapsto> b\<lparr>cb_queued := True\<rparr>),
                                 drv := insert (cb_index b) (drv p1)\<rparr>))"

section \<open>Turns\<close>

text \<open>
  The allocator hands out addresses that are not in use; it may hand out again a buffer that the change
  of resolution frees, which are those the driver holds and the one just dequeued; the display does
  not run out of memory. The driver gives
  out only buffers it holds and the display gives back only buffers it was shown.
\<close>

definition reusable :: "nat \<Rightarrow> cap_port \<Rightarrow> addr \<Rightarrow> bool" where
  "reusable i p x \<longleftrightarrow> cheap p x = None \<or>
     (\<exists>j < length (cbuf p). cbuf p ! j = x \<and> (j = i \<or> (\<exists>b. cheap p x = Some b \<and> cb_queued b)))"

definition fresh_allocs :: "nat \<Rightarrow> setup_reply \<Rightarrow> cap_port \<Rightarrow> bool" where
  "fresh_allocs i a p \<longleftrightarrow>
     (\<forall>k x. allocs a k = Some x \<longrightarrow> reusable i p x \<and> (\<forall>j. allocs a j = Some x \<longrightarrow> j = k)) \<and>
     (\<forall>k. fst (inits a k))"

inductive cap_step :: "cap_fault + cap_port \<Rightarrow> cap_label \<Rightarrow> cap_fault + cap_port \<Rightarrow> bool" where
  cap_event: "\<not> hung p \<Longrightarrow> \<not> thread_done p \<Longrightarrow> cap_step (Inr p) Event (Inr (priority_event e p))"
| cap_dqueue: "\<not> hung p \<Longrightarrow> \<not> thread_done p \<Longrightarrow> i \<in> drv p \<Longrightarrow> fresh_allocs i (setup_ans r) p \<Longrightarrow>
    dqueue_capture i last_buf ev r p = Inr (l, p') \<Longrightarrow> cap_step (Inr p) l (Inr p')"
| cap_dqueue_fault: "\<not> hung p \<Longrightarrow> \<not> thread_done p \<Longrightarrow> i \<in> drv p \<Longrightarrow> fresh_allocs i (setup_ans r) p \<Longrightarrow>
    dqueue_capture i last_buf ev r p = Inl e \<Longrightarrow> cap_step (Inr p) l (Inl e)"
| cap_recycle: "a \<in> set (shown p) \<Longrightarrow> capture_buffer_recycle a ok p = Inr (l, p') \<Longrightarrow>
    cap_step (Inr p) l (Inr p')"
| cap_recycle_fault: "a \<in> set (shown p) \<Longrightarrow> capture_buffer_recycle a ok p = Inl e \<Longrightarrow>
    cap_step (Inr p) l (Inl e)"

inductive_cases cap_stepE: "cap_step s l t"

section \<open>Lemmas on the loops\<close>

lemma upd_cap_Some: "cheap p a = Some b \<Longrightarrow> upd_cap a f p = Inr (p\<lparr>cheap := (cheap p)(a \<mapsto> f b)\<rparr>)"
  by (simp add: upd_cap_def)

text \<open>The heap the release loop leaves.\<close>

definition released :: "addr list \<Rightarrow> (addr \<rightharpoonup> cap_buffer) \<Rightarrow> addr \<rightharpoonup> cap_buffer" where
  "released as h x = (if x \<in> set as then
     (case h x of None \<Rightarrow> None | Some b \<Rightarrow> if cb_queued b then None else Some (b\<lparr>free_on_recycle := True\<rparr>))
   else h x)"

lemma release_loop_spec:
  "distinct as \<Longrightarrow> set as \<subseteq> dom h \<Longrightarrow> release_loop as h = Inr (released as h)"
proof (induction as arbitrary: h)
  case (Cons a as)
  obtain b where b: "h a = Some b" using Cons.prems(2) by auto
  let ?h = "if cb_queued b then h(a := None) else h(a \<mapsto> b\<lparr>free_on_recycle := True\<rparr>)"
  have "set as \<subseteq> dom ?h" using Cons.prems by auto
  then have "release_loop as ?h = Inr (released as ?h)" using Cons.IH Cons.prems(1) by simp
  moreover have "released as ?h = released (a # as) h"
    using Cons.prems(1) b by (auto simp: released_def fun_eq_iff)
  ultimately show ?case using b by (simp split: if_splits)
qed (simp add: released_def fun_eq_iff)

definition blank_buffer :: cap_buffer where
  "blank_buffer = \<lparr>cb_index = 0, cb_queued = False, free_on_recycle = False\<rparr>"

lemma alloc_loop_spec:
  assumes "alloc_loop al n i p = (ok, p')" "\<And>j k x. al j = Some x \<Longrightarrow> al k = Some x \<Longrightarrow> j = k"
  shows "p' = p\<lparr>cheap := cheap p', cbuf := cbuf p'\<rparr> \<and>
    (\<forall>x. (\<forall>j \<in> {i..<i + n}. al j \<noteq> Some x) \<longrightarrow> cheap p' x = cheap p x) \<and>
    (ok \<longrightarrow> cbuf p' = cbuf p @ map (the \<circ> al) [i..<i + n] \<and>
      (\<forall>j \<in> {i..<i + n}. \<exists>x. al j = Some x \<and> cheap p' x = Some blank_buffer))"
  using assms(1)
proof (induction n arbitrary: i p)
  case (Suc n)
  show ?case
  proof (cases "al i")
    case None
    then show ?thesis using Suc.prems by auto
  next
    case (Some a)
    define q where "q = p\<lparr>cheap := (cheap p)(a \<mapsto> blank_buffer), cbuf := cbuf p @ [a]\<rparr>"
    have "alloc_loop al n (Suc i) q = (ok, p')" using Suc.prems Some by (simp add: q_def blank_buffer_def)
    note ih = Suc.IH [OF this]
    have rng: "{i..<i + Suc n} = insert i {Suc i..<Suc i + n}" by auto
    have "al j \<noteq> Some a" if "j \<in> {Suc i..<Suc i + n}" for j using assms(2) [of j a i] Some that by auto
    then have a: "cheap p' a = Some blank_buffer" using ih by (simp add: q_def)
    have "p' = p\<lparr>cheap := cheap p', cbuf := cbuf p'\<rparr>" using ih by (simp add: q_def)
    moreover have "cheap p' x = cheap p x" if "\<forall>j \<in> {i..<i + Suc n}. al j \<noteq> Some x" for x
      using ih that Some unfolding rng by (auto simp: q_def)
    moreover have "cbuf p' = cbuf p @ map (the \<circ> al) [i..<i + Suc n] \<and>
        (\<forall>j \<in> {i..<i + Suc n}. \<exists>x. al j = Some x \<and> cheap p' x = Some blank_buffer)" if ok
      using ih that a Some unfolding rng by (auto simp: q_def upt_rec [of i])
    ultimately show ?thesis by blast
  qed
qed simp

definition ready_buffer :: "nat \<Rightarrow> cap_buffer \<Rightarrow> cap_buffer" where
  "ready_buffer j b = b\<lparr>cb_index := j, cb_queued := True\<rparr>"

lemma init_loop_spec:
  assumes "distinct (cbuf p)" "set (cbuf p) \<subseteq> dom (cheap p)" "i + n \<le> length (cbuf p)"
    and frames: "\<And>k. fst (st k)"
  shows "\<exists>ret p'. init_loop st n i p = Inr (ret, p') \<and> p' = p\<lparr>cheap := cheap p', drv := drv p'\<rparr> \<and>
    (\<forall>x. x \<notin> set (cbuf p) \<longrightarrow> cheap p' x = cheap p x) \<and> dom (cheap p') = dom (cheap p) \<and>
    (ret = 0 \<longrightarrow> drv p' = drv p \<union> {i..<i + n} \<and>
      (\<forall>j < length (cbuf p). cheap p' (cbuf p ! j) =
         (if i \<le> j \<and> j < i + n then map_option (ready_buffer j) (cheap p (cbuf p ! j))
          else cheap p (cbuf p ! j))))"
  using assms(1-3)
proof (induction n arbitrary: i p)
  case 0
  then show ?case by auto
next
  case (Suc n)
  define a where "a = cbuf p ! i"
  have i: "i < length (cbuf p)" and at: "at (cbuf p) i = Some a"
    using Suc.prems(3) by (simp_all add: a_def at_Some_iff)
  obtain b where b: "cheap p a = Some b" using Suc.prems(2) nth_mem [OF i] unfolding a_def by blast
  define p1 where "p1 = p\<lparr>cheap := (cheap p)(a \<mapsto> b\<lparr>cb_index := i\<rparr>)\<rparr>"
  define p2 where "p2 = p\<lparr>cheap := (cheap p)(a \<mapsto> ready_buffer i b), drv := insert i (drv p)\<rparr>"
  obtain query fds q where st: "st i = (True, query, fds, q)" using frames [of i] by (cases "st i") simp
  have u1: "upd_cap a (\<lambda>b. b\<lparr>cb_index := i\<rparr>) p = Inr p1" using b by (simp add: upd_cap_Some p1_def)
  have u2: "upd_cap a (\<lambda>b. b\<lparr>cb_queued := True\<rparr>) p1 = Inr (p\<lparr>cheap := (cheap p)(a \<mapsto> ready_buffer i b)\<rparr>)"
    by (simp add: upd_cap_def p1_def ready_buffer_def)
  have step: "init_loop st (Suc n) i p =
      (if \<not> query then Inr (3, p1) else if \<not> fds then Inr (4, p1) else if \<not> q then Inr (5, p1)
       else init_loop st n (Suc i) p2)"
    by (simp add: at u1 st u2 p2_def)
  have a_in: "a \<in> set (cbuf p)" using i by (simp add: a_def)
  show ?case
  proof (cases "query \<and> fds \<and> q")
    case False
    then obtain k where k: "init_loop st (Suc n) i p = Inr (k, p1)" "k \<noteq> 0" using step by (auto split: if_splits)
    have "p1 = p\<lparr>cheap := cheap p1, drv := drv p1\<rparr>" by (simp add: p1_def)
    moreover have "dom (cheap p1) = dom (cheap p)" using b by (auto simp: p1_def)
    moreover have "\<forall>x. x \<notin> set (cbuf p) \<longrightarrow> cheap p1 x = cheap p x" using a_in by (auto simp: p1_def)
    ultimately show ?thesis using k by blast
  next
    case True
    then have e: "init_loop st (Suc n) i p = init_loop st n (Suc i) p2" using step by simp
    have "distinct (cbuf p2)" "set (cbuf p2) \<subseteq> dom (cheap p2)" "Suc i + n \<le> length (cbuf p2)"
      using Suc.prems by (auto simp: p2_def)
    from Suc.IH [OF this] obtain ret p' where ih: "init_loop st n (Suc i) p2 = Inr (ret, p')"
      "p' = p2\<lparr>cheap := cheap p', drv := drv p'\<rparr>"
      "\<forall>x. x \<notin> set (cbuf p2) \<longrightarrow> cheap p' x = cheap p2 x" "dom (cheap p') = dom (cheap p2)"
      "ret = 0 \<longrightarrow> drv p' = drv p2 \<union> {Suc i..<Suc i + n} \<and>
        (\<forall>j < length (cbuf p2). cheap p' (cbuf p2 ! j) =
         (if Suc i \<le> j \<and> j < Suc i + n then map_option (ready_buffer j) (cheap p2 (cbuf p2 ! j))
          else cheap p2 (cbuf p2 ! j)))" by blast
    have nth: "cheap p2 (cbuf p ! j) = (if j = i then Some (ready_buffer i b) else cheap p (cbuf p ! j))"
      if "j < length (cbuf p)" for j
      using that i Suc.prems(1) by (auto simp: p2_def a_def nth_eq_iff_index_eq)
    have "drv p' = drv p \<union> {i..<i + Suc n}" if "ret = 0" using ih(5) that by (auto simp: p2_def)
    moreover have "cheap p' (cbuf p ! j) =
        (if i \<le> j \<and> j < i + Suc n then map_option (ready_buffer j) (cheap p (cbuf p ! j))
         else cheap p (cbuf p ! j))" if "ret = 0" "j < length (cbuf p)" for j
      using ih(5) that nth [OF that(2)] b by (auto simp: p2_def a_def)
    moreover have "dom (cheap p') = dom (cheap p)" using ih(4) b by (auto simp: p2_def)
    moreover have "p' = p\<lparr>cheap := cheap p', drv := drv p'\<rparr>" using ih(2) by (simp add: p2_def)
    moreover have "\<forall>x. x \<notin> set (cbuf p) \<longrightarrow> cheap p' x = cheap p x" using ih(3) a_in by (auto simp: p2_def)
    ultimately show ?thesis using e ih(1) by auto
  qed
qed

text \<open>A frame the display could not create is read all the same.\<close>

lemma init_loop_missing_frame:
  assumes "at (cbuf p) i = Some a" "cheap p a = Some b" "st i = (False, True, fds, q)"
  shows "init_loop st (Suc n) i p = Inl Null_frame"
  using assms by (simp add: upd_cap_def)

text \<open>A set of buffers just set up: all with the driver.\<close>

definition all_queued :: "cap_port \<Rightarrow> bool" where
  "all_queued p \<longleftrightarrow> distinct (cbuf p) \<and> drv p = {0..<length (cbuf p)} \<and>
     (\<forall>j < length (cbuf p). cheap p (cbuf p ! j) =
        Some \<lparr>cb_index = j, cb_queued = True, free_on_recycle = False\<rparr>)"

lemma setup_capture_port_spec:
  assumes inj: "\<And>j k x. allocs a j = Some x \<Longrightarrow> allocs a k = Some x \<Longrightarrow> j = k"
    and fr: "\<And>k x. allocs a k = Some x \<Longrightarrow> cheap p x = None" and "drv p = {}"
    and frames: "\<And>k. fst (inits a k)"
  shows "\<exists>ret p'. setup_capture_port a p = Inr (ret, p') \<and>
    p' = p\<lparr>cheap := cheap p', cbuf := cbuf p', drv := drv p'\<rparr> \<and>
    (\<forall>x. cheap p x \<noteq> None \<longrightarrow> cheap p' x = cheap p x) \<and>
    (ret = 0 \<longrightarrow> all_queued p' \<and> dom (cheap p') = dom (cheap p) \<union> set (cbuf p') \<and>
       (\<forall>x \<in> set (cbuf p'). cheap p x = None))"
proof (cases "\<not> g_fmt_ok a \<or> \<not> s_fmt_ok a \<or> min_buffers a = 0 \<or> granted a = None \<or> \<not> array_ok a")
  case True
  then show ?thesis by (cases "granted a") (auto simp: setup_capture_port_def)
next
  case False
  then obtain n where n: "granted a = Some n" by auto
  obtain ok p1 where al: "alloc_loop (allocs a) n 0 (p\<lparr>cbuf := []\<rparr>) = (ok, p1)" by force
  have "p1 = p\<lparr>cbuf := [], cheap := cheap p1, cbuf := cbuf p1\<rparr> \<and>
    (\<forall>x. (\<forall>j \<in> {0..<0 + n}. allocs a j \<noteq> Some x) \<longrightarrow> cheap p1 x = cheap (p\<lparr>cbuf := []\<rparr>) x) \<and>
    (ok \<longrightarrow> cbuf p1 = cbuf (p\<lparr>cbuf := []\<rparr>) @ map (the \<circ> allocs a) [0..<0 + n] \<and>
      (\<forall>j \<in> {0..<0 + n}. \<exists>x. allocs a j = Some x \<and> cheap p1 x = Some blank_buffer))"
    by (rule alloc_loop_spec [OF al]) (rule inj)
  then have sp: "p1 = p\<lparr>cheap := cheap p1, cbuf := cbuf p1\<rparr>"
    "\<forall>x. (\<forall>j \<in> {0..<n}. allocs a j \<noteq> Some x) \<longrightarrow> cheap p1 x = cheap p x"
    "ok \<longrightarrow> cbuf p1 = map (the \<circ> allocs a) [0..<n] \<and>
      (\<forall>j \<in> {0..<n}. \<exists>x. allocs a j = Some x \<and> cheap p1 x = Some blank_buffer)"
    by simp_all
  have old: "cheap p1 x = cheap p x" if "cheap p x \<noteq> None" for x
  proof -
    have "allocs a j \<noteq> Some x" for j using fr [of j x] that by auto
    then show ?thesis using sp(2) by blast
  qed
  have e: "setup_capture_port a p = (if \<not> ok then Inr (2, p1) else init_loop (inits a) n 0 p1)"
    using False n al by (simp add: setup_capture_port_def)
  show ?thesis
  proof (cases ok)
    case False
    then show ?thesis using e sp old by (intro exI [of _ 2] exI [of _ p1]) auto
  next
    case True
    have cb: "cbuf p1 = map (the \<circ> allocs a) [0..<n]" using sp True by simp
    have ex: "\<exists>x. allocs a j = Some x \<and> cheap p1 x = Some blank_buffer" if "j < n" for j using sp True that by auto
    have d: "distinct (cbuf p1)"
      unfolding cb distinct_map by (auto simp: inj_on_def) (metis ex inj option.sel)
    have heap1: "cheap p1 (cbuf p1 ! j) = Some blank_buffer" if "j < n" for j
      using ex [OF that] that by (auto simp: cb)
    have sub: "set (cbuf p1) \<subseteq> dom (cheap p1)" using heap1 by (auto simp: cb in_set_conv_nth)
    obtain ret p' where i: "init_loop (inits a) n 0 p1 = Inr (ret, p')" "p' = p1\<lparr>cheap := cheap p', drv := drv p'\<rparr>"
      "\<forall>x. x \<notin> set (cbuf p1) \<longrightarrow> cheap p' x = cheap p1 x" "dom (cheap p') = dom (cheap p1)"
      "ret = 0 \<longrightarrow> drv p' = drv p1 \<union> {0..<n} \<and> (\<forall>j < length (cbuf p1). cheap p' (cbuf p1 ! j) =
         (if 0 \<le> j \<and> j < n then map_option (ready_buffer j) (cheap p1 (cbuf p1 ! j)) else cheap p1 (cbuf p1 ! j)))"
      using init_loop_spec [OF d sub, of 0 n "inits a"] frames by (auto simp: cb)
    have new: "cheap p x = None" if "x \<in> set (cbuf p1)" for x
      using that ex fr by (fastforce simp: cb)
    have len: "length (cbuf p1) = n" by (simp add: cb)
    have cb': "cbuf p' = cbuf p1" by (subst i(2)) simp
    have "cheap p' x = cheap p x" if "cheap p x \<noteq> None" for x using i(3) old that new by metis
    moreover have "drv p1 = {}" by (subst sp(1)) (simp add: assms(3))
    then have "all_queued p'" if "ret = 0"
      using i(5) that heap1 d
      by (auto simp: all_queued_def cb' len ready_buffer_def blank_buffer_def)
    moreover have "dom (cheap p1) = dom (cheap p) \<union> set (cbuf p1)"
    proof -
      have "cheap p1 x = cheap p x" if "x \<notin> set (cbuf p1)" for x
        using sp that by (force simp: cb image_iff)
      then show ?thesis using sub old by (auto simp: dom_def)
    qed
    moreover have "p' = p\<lparr>cheap := cheap p', cbuf := cbuf p', drv := drv p'\<rparr>"
      using i(2) sp(1) cb' by (cases p, cases p1, cases p') simp
    ultimately show ?thesis using e True i(1,4) new cb' by auto
  qed
qed

section \<open>Invariant\<close>

text \<open>
  While the decoder thread works: the buffers of the port are alive, carry their index, are not marked,
  and are flagged as queued exactly when the driver holds them; every other living buffer is marked;
  what the display holds is not queued. What the display holds is alive even when the decoder thread
  hangs.
\<close>

definition port_inv :: "cap_port \<Rightarrow> bool" where
  "port_inv p \<longleftrightarrow> distinct (cbuf p) \<and> drv p \<subseteq> {0..<length (cbuf p)} \<and>
     (\<forall>i < length (cbuf p). \<exists>b. cheap p (cbuf p ! i) = Some b \<and> cb_index b = i \<and> \<not> free_on_recycle b \<and>
        (cb_queued b \<longleftrightarrow> i \<in> drv p)) \<and>
     (\<forall>x b. cheap p x = Some b \<longrightarrow> x \<notin> set (cbuf p) \<longrightarrow> free_on_recycle b \<and> \<not> cb_queued b) \<and>
     (\<forall>x b. x \<in> set (shown p) \<longrightarrow> cheap p x = Some b \<longrightarrow> \<not> cb_queued b)"

definition cap_inv :: "cap_port \<Rightarrow> bool" where
  "cap_inv p \<longleftrightarrow> distinct (shown p) \<and> set (shown p) \<subseteq> dom (cheap p) \<and> (\<not> hung p \<longrightarrow> port_inv p)"

text \<open>Every living buffer is with the driver or with the display.\<close>

definition balanced :: "cap_port \<Rightarrow> bool" where
  "balanced p \<longleftrightarrow> (\<forall>x b. cheap p x = Some b \<longrightarrow> cb_queued b \<or> x \<in> set (shown p))"

text \<open>A buffer that is alive and neither with the driver nor with the display.\<close>

definition stray :: "addr \<Rightarrow> cap_port \<Rightarrow> bool" where
  "stray x p \<longleftrightarrow> x \<notin> set (shown p) \<and> (\<exists>b. cheap p x = Some b \<and> \<not> cb_queued b)"

lemma recycle_inv:
  assumes inv: "cap_inv p" and a: "a \<in> set (shown p)"
  shows "\<exists>l p'. capture_buffer_recycle a ok p = Inr (l, p') \<and> cap_inv p' \<and> hung p' = hung p \<and>
    (l \<noteq> Kept \<and> balanced p \<longrightarrow> balanced p') \<and> (\<forall>x. stray x p \<longrightarrow> stray x p')"
proof -
  obtain b where b: "cheap p a = Some b" using assms by (auto simp: cap_inv_def)
  define p1 where "p1 = p\<lparr>d_c_rec_num := d_c_rec_num p + 1, shown := remove1 a (shown p)\<rparr>"
  have sh: "set (shown p1) = set (shown p) - {a}" "distinct (shown p1)" "distinct (shown p)"
    using inv by (simp_all add: p1_def cap_inv_def)
  have sub: "set (shown p) \<subseteq> dom (cheap p)" using inv by (simp add: cap_inv_def)
  have e: "capture_buffer_recycle a ok p =
      (if free_on_recycle b then Inr (Freed, p1\<lparr>cheap := (cheap p)(a := None)\<rparr>)
       else if eos_received p \<or> \<not> ok then Inr (Kept, p1)
       else Inr (Requeued, p1\<lparr>cheap := (cheap p)(a \<mapsto> b\<lparr>cb_queued := True\<rparr>), drv := insert (cb_index b) (drv p)\<rparr>))"
    by (simp add: capture_buffer_recycle_def p1_def b Let_def)
  show ?thesis
  proof (cases "free_on_recycle b")
    case True
    have "a \<notin> set (cbuf p)" if "\<not> hung p"
      using inv that b True by (auto simp: cap_inv_def port_inv_def in_set_conv_nth)
    then have "cap_inv (p1\<lparr>cheap := (cheap p)(a := None)\<rparr>)"
      using inv sh sub by (auto simp: cap_inv_def port_inv_def p1_def in_set_conv_nth)
    moreover have "balanced p \<Longrightarrow> balanced (p1\<lparr>cheap := (cheap p)(a := None)\<rparr>)"
      using sh(3) by (auto simp: balanced_def p1_def)
    moreover have "stray x p \<Longrightarrow> stray x (p1\<lparr>cheap := (cheap p)(a := None)\<rparr>)" for x
      using sh a by (auto simp: stray_def p1_def)
    ultimately show ?thesis using e True by (auto simp: p1_def)
  next
    case False
    show ?thesis
    proof (cases "eos_received p \<or> \<not> ok")
      case True
      have "cap_inv p1" using inv sh sub by (auto simp: cap_inv_def port_inv_def p1_def)
      moreover have "stray x p \<Longrightarrow> stray x p1" for x using sh by (auto simp: stray_def p1_def)
      ultimately show ?thesis using e False True by (auto simp: p1_def)
    next
      case req: False
      define p2 where "p2 = p1\<lparr>cheap := (cheap p)(a \<mapsto> b\<lparr>cb_queued := True\<rparr>), drv := insert (cb_index b) (drv p)\<rparr>"
      have "port_inv p2" if "\<not> hung p"
      proof -
        have pi: "port_inv p" using inv that by (simp add: cap_inv_def)
        have "a \<in> set (cbuf p)" using pi b False by (auto simp: port_inv_def)
        then obtain i where i: "i < length (cbuf p)" "cbuf p ! i = a" by (auto simp: in_set_conv_nth)
        then have bi: "cb_index b = i" using pi b by (auto simp: port_inv_def)
        have other: "cbuf p ! j \<noteq> a" if "j < length (cbuf p)" "j \<noteq> i" for j
          using pi i that by (auto simp: port_inv_def nth_eq_iff_index_eq)
        have "\<exists>c. cheap p2 (cbuf p2 ! j) = Some c \<and> cb_index c = j \<and> \<not> free_on_recycle c \<and>
            (cb_queued c \<longleftrightarrow> j \<in> drv p2)" if "j < length (cbuf p2)" for j
        proof (cases "j = i")
          case True
          then show ?thesis using i bi False by (simp add: p2_def p1_def)
        next
          case ji: False
          then show ?thesis using pi that other [of j] bi by (auto simp: p2_def p1_def port_inv_def)
        qed
        moreover have "distinct (cbuf p2)" "drv p2 \<subseteq> {0..<length (cbuf p2)}"
          using pi i bi by (auto simp: port_inv_def p2_def p1_def)
        moreover have "free_on_recycle c \<and> \<not> cb_queued c" if "cheap p2 x = Some c" "x \<notin> set (cbuf p2)" for x c
          using pi that i by (auto simp: port_inv_def p2_def p1_def split: if_splits)
        moreover have "\<not> cb_queued c" if "x \<in> set (shown p2)" "cheap p2 x = Some c" for x c
          using pi that sh by (auto simp: port_inv_def p2_def p1_def split: if_splits)
        ultimately show ?thesis unfolding port_inv_def by blast
      qed
      then have "cap_inv p2" using sh sub by (auto simp: cap_inv_def p2_def p1_def)
      moreover have "balanced p \<Longrightarrow> balanced p2" using sh(3) by (auto simp: balanced_def p2_def p1_def)
      moreover have "stray x p \<Longrightarrow> stray x p2" for x using sh a by (auto simp: stray_def p2_def p1_def)
      moreover have "hung p2 = hung p" by (simp add: p2_def p1_def)
      ultimately show ?thesis using e False req by (auto simp: p2_def [symmetric])
    qed
  qed
qed

text \<open>A change of resolution with the dequeued buffer \<open>i\<close> flagged as queued again.\<close>

lemma res_change_inv:
  assumes sh: "distinct (shown p)" "set (shown p) \<subseteq> dom (cheap p)"
    and cb: "distinct (cbuf p)" "set (cbuf p) \<subseteq> dom (cheap p)"
    and out: "\<And>x b. cheap p x = Some b \<Longrightarrow> x \<notin> set (cbuf p) \<Longrightarrow> free_on_recycle b \<and> \<not> cb_queued b"
    and shq: "\<And>x b. x \<in> set (shown p) \<Longrightarrow> cheap p x = Some b \<Longrightarrow> \<not> cb_queued b"
    and inj: "\<And>j k x. allocs (setup_ans r) j = Some x \<Longrightarrow> allocs (setup_ans r) k = Some x \<Longrightarrow> j = k"
    and fr: "\<And>k x. allocs (setup_ans r) k = Some x \<Longrightarrow> released (cbuf p) (cheap p) x = None"
    and frames: "\<And>k. fst (inits (setup_ans r) k)"
  shows "\<exists>p'. handle_res_change r p = Inr p' \<and> cap_inv p' \<and> (balanced p \<and> \<not> hung p' \<longrightarrow> balanced p') \<and>
    (\<forall>x. stray x p \<longrightarrow> stray x p')"
proof (cases "out_fmt_ok r \<and> streamoff_ok r \<and> reqbufs_ok r")
  case False
  then show ?thesis using sh by (auto simp: handle_res_change_def cap_inv_def stray_def)
next
  case True
  define h where "h = released (cbuf p) (cheap p)"
  have rel: "release_loop (cbuf p) (cheap p) = Inr h" unfolding h_def by (rule release_loop_spec [OF cb])
  have hs: "cheap p x \<noteq> None \<and> h x \<noteq> None" if "x \<in> set (shown p)" for x
    using sh(2) shq that by (auto simp: h_def released_def split: option.splits)
  have hb: "free_on_recycle b \<and> \<not> cb_queued b" if "h x = Some b" for x b
    using that out by (auto simp: h_def released_def split: if_splits option.splits)
  let ?p1 = "p\<lparr>drv := {}, cheap := h\<rparr>"
  obtain ret p2 where s: "setup_capture_port (setup_ans r) ?p1 = Inr (ret, p2)"
    "p2 = ?p1\<lparr>cheap := cheap p2, cbuf := cbuf p2, drv := drv p2\<rparr>"
    "\<forall>x. h x \<noteq> None \<longrightarrow> cheap p2 x = h x"
    "ret = 0 \<longrightarrow> all_queued p2 \<and> dom (cheap p2) = dom h \<union> set (cbuf p2) \<and> (\<forall>x \<in> set (cbuf p2). h x = None)"
    using setup_capture_port_spec [of "setup_ans r" ?p1] inj fr frames unfolding h_def by auto
  have fields: "shown p2 = shown p" "hung p2 = hung p" by (subst s(2), simp)+
  have sub2: "set (shown p2) \<subseteq> dom (cheap p2)" using fields(1) hs s(3) by (metis domIff subsetI)
  have st: "stray x p2" if sx: "stray x p" for x
  proof -
    obtain b where b: "cheap p x = Some b" "\<not> cb_queued b" "x \<notin> set (shown p)"
      using sx by (auto simp: stray_def)
    have "h x \<noteq> None" using b(1,2) by (simp add: h_def released_def)
    then obtain c where c: "h x = Some c" by blast
    then show ?thesis using s(3) hb [OF c] b(3) fields(1) by (simp add: stray_def)
  qed
  have st': "stray x (p2\<lparr>hung := True\<rparr>)" if "stray x p" for x using st [OF that] by (simp add: stray_def)
  have e: "handle_res_change r p = (if ret \<noteq> 0 \<or> \<not> streamon_ok r then Inr (p2\<lparr>hung := True\<rparr>) else Inr p2)"
    using True rel s(1) by (simp add: handle_res_change_def)
  show ?thesis
  proof (cases "ret \<noteq> 0 \<or> \<not> streamon_ok r")
    case True
    then show ?thesis using e sub2 sh(1) fields(1) st' by (auto simp: cap_inv_def)
  next
    case False
    have aq: "all_queued p2" "dom (cheap p2) = dom h \<union> set (cbuf p2)" "\<forall>x \<in> set (cbuf p2). h x = None"
      using s(4) False by simp_all
    have other: "cheap p2 x = h x" if "x \<notin> set (cbuf p2)" for x
      using s(3) aq(2) that by (metis UnE domIff)
    have new: "x \<notin> set (cbuf p2)" if "x \<in> set (shown p)" for x using hs [OF that] aq(3) by auto
    have "port_inv p2"
      unfolding port_inv_def
    proof (intro conjI allI impI)
      show "distinct (cbuf p2)" "drv p2 \<subseteq> {0..<length (cbuf p2)}" using aq(1) by (simp_all add: all_queued_def)
      show "\<exists>b. cheap p2 (cbuf p2 ! i) = Some b \<and> cb_index b = i \<and> \<not> free_on_recycle b \<and> (cb_queued b \<longleftrightarrow> i \<in> drv p2)"
        if "i < length (cbuf p2)" for i using aq(1) that by (simp add: all_queued_def)
      show "free_on_recycle b" "\<not> cb_queued b" if "cheap p2 x = Some b" "x \<notin> set (cbuf p2)" for x b
        using other [OF that(2)] that(1) hb [of x b] by simp_all
      show "\<not> cb_queued b" if "x \<in> set (shown p2)" "cheap p2 x = Some b" for x b
        using other [OF new] that hb [of x b] fields(1) by simp
    qed
    moreover have "balanced p2" if "balanced p"
    proof -
      have inh: "x \<in> set (shown p)" if "h x = Some b" for x b
        using that \<open>balanced p\<close> hb [OF that] by (auto simp: h_def released_def balanced_def split: if_splits option.splits)
      have "cb_queued b \<or> x \<in> set (shown p2)" if "cheap p2 x = Some b" for x b
      proof (cases "x \<in> set (cbuf p2)")
        case True
        then show ?thesis using that aq(1) by (auto simp: all_queued_def in_set_conv_nth)
      next
        case False
        then show ?thesis using other [OF False] that inh [of x b] fields(1) by simp
      qed
      then show ?thesis by (simp add: balanced_def)
    qed
    ultimately show ?thesis using e False sub2 sh(1) fields(1) st by (auto simp: cap_inv_def)
  qed
qed

text \<open>The fields the invariants look at.\<close>

lemma cap_inv_cong:
  assumes "cheap q = cheap p" "cbuf q = cbuf p" "drv q = drv p" "shown q = shown p" "hung q = hung p"
  shows "cap_inv q = cap_inv p" "balanced q = balanced p" "port_inv q = port_inv p"
  using assms by (simp_all add: cap_inv_def port_inv_def balanced_def)

lemma dequeued_inv:
  assumes inv: "port_inv p" and i: "i \<in> drv p" and b: "cheap p (cbuf p ! i) = Some b"
  shows "port_inv (p\<lparr>cheap := (cheap p)(cbuf p ! i \<mapsto> b\<lparr>cb_queued := False\<rparr>), drv := drv p - {i}\<rparr>)"
proof -
  let ?q = "p\<lparr>cheap := (cheap p)(cbuf p ! i \<mapsto> b\<lparr>cb_queued := False\<rparr>), drv := drv p - {i}\<rparr>"
  have il: "i < length (cbuf p)" using inv i by (auto simp: port_inv_def)
  have other: "cbuf p ! j \<noteq> cbuf p ! i" if "j < length (cbuf p)" "j \<noteq> i" for j
    using inv il that by (simp add: port_inv_def nth_eq_iff_index_eq)
  have "\<exists>c. cheap ?q (cbuf p ! j) = Some c \<and> cb_index c = j \<and> \<not> free_on_recycle c \<and> (cb_queued c \<longleftrightarrow> j \<in> drv ?q)"
    if "j < length (cbuf p)" for j
  proof (cases "j = i")
    case True
    then show ?thesis using inv b il by (auto simp: port_inv_def)
  next
    case False
    then show ?thesis using inv that other [of j] by (auto simp: port_inv_def)
  qed
  moreover have "free_on_recycle c \<and> \<not> cb_queued c" if "cheap ?q x = Some c" "x \<notin> set (cbuf p)" for x c
    using inv that il by (auto simp: port_inv_def split: if_splits)
  moreover have "\<not> cb_queued c" if "x \<in> set (shown p)" "cheap ?q x = Some c" for x c
    using inv that by (auto simp: port_inv_def split: if_splits)
  moreover have "distinct (cbuf p)" "drv p - {i} \<subseteq> {0..<length (cbuf p)}" using inv by (auto simp: port_inv_def)
  ultimately show ?thesis unfolding port_inv_def by simp
qed

lemma dqueue_inv:
  assumes inv: "cap_inv p" and nh: "\<not> hung p" and i: "i \<in> drv p" and fr: "fresh_allocs i (setup_ans r) p"
  shows "\<exists>l p'. dqueue_capture i last_buf ev r p = Inr (l, p') \<and> cap_inv p' \<and>
    (l \<noteq> Lost \<and> l \<noteq> Finished \<and> balanced p \<and> \<not> hung p' \<longrightarrow> balanced p') \<and>
    (\<forall>x. stray x p \<longrightarrow> stray x p')"
proof -
  have pi: "port_inv p" using inv nh by (simp add: cap_inv_def)
  define a where "a = cbuf p ! i"
  have il: "i < length (cbuf p)" using pi i by (auto simp: port_inv_def)
  obtain b where b: "cheap p a = Some b" "cb_queued b" using pi i il by (auto simp: port_inv_def a_def)
  have ax: "x \<noteq> a" if "stray x p" for x using that b by (auto simp: stray_def)
  have ash: "a \<notin> set (shown p)" using pi b by (auto simp: port_inv_def)
  define q where "q = p\<lparr>cheap := (cheap p)(a \<mapsto> b\<lparr>cb_queued := False\<rparr>), drv := drv p - {i}\<rparr>"
  define p3 where "p3 = q\<lparr>d_c_push_num := d_c_push_num p + 1,
    res_evt_pending := (res_evt_pending p \<and> d_c_push_num p + 1 \<noteq> 1)\<rparr>"
  define evt where "evt = (if \<not> res_evt_pending p3 \<and> \<not> eos_evt_pending p3 then ev else None)"
  define p4 where "p4 = p3\<lparr>res_evt_pending := False, res_change := True, cheap := cheap p\<rparr>"
  have sh: "distinct (shown p)" "set (shown p) \<subseteq> dom (cheap p)" using inv by (simp_all add: cap_inv_def)
  have pq: "port_inv p3" using dequeued_inv [OF pi i] b(1) cap_inv_cong(3) [of p3 q]
    by (simp add: a_def q_def p3_def)
  have st3: "stray x p3" if "stray x p" for x using that ax [OF that] by (simp add: stray_def p3_def q_def)
  have c3: "cap_inv p3" using pq sh by (auto simp: cap_inv_def p3_def q_def)
  have restore: "(cheap p)(a \<mapsto> b) = cheap p" using b(1) by (simp add: map_upd_triv)
  have bq: "b\<lparr>cb_queued := True\<rparr> = b" using b(2) by (cases b) simp
  define p1 where "p1 = p\<lparr>cheap := (cheap p)(a \<mapsto> b\<lparr>cb_queued := False\<rparr>)\<rparr>"
  define p2 where "p2 = p1\<lparr>drv := drv p1 - {i}, d_c_push_num := d_c_push_num p1 + 1\<rparr>"
  have u1: "upd_cap a (\<lambda>b. b\<lparr>cb_queued := False\<rparr>) p = Inr p1"
    unfolding p1_def using b(1) by (rule upd_cap_Some)
  have u2: "upd_cap a (\<lambda>b. b\<lparr>cb_queued := True\<rparr>) (p3\<lparr>res_evt_pending := False, res_change := True\<rparr>) = Inr p4"
    using bq restore by (simp add: upd_cap_def p3_def q_def p4_def)
  have at: "at (cbuf p) i = Some a" using il by (simp add: at_Some_iff a_def)
  have p3': "(if d_c_push_num p2 = 1 \<and> res_evt_pending p2 then p2\<lparr>res_evt_pending := False\<rparr> else p2) = p3"
    by (cases p) (auto simp: p3_def q_def p2_def p1_def)
  have sh3: "shown p3 = shown p" by (simp add: p3_def q_def)
  have step: "dqueue_capture i last_buf ev r p =
      (if \<not> last_buf then Inr (Shown, p3\<lparr>res_change := False, shown := shown p @ [a]\<rparr>)
       else if evt = Some Event_source_change \<or> res_evt_pending p3 then
         rbind (handle_res_change r p4) (\<lambda>p5.
           Inr (Changed, if hung p5 then p5 else p5\<lparr>d_c_rec_num := d_c_rec_num p5 + 1\<rparr>))
       else if evt = Some Event_eos \<or> eos_evt_pending p3 then
         Inr (Finished, p3\<lparr>eos_received := True, eos_evt_pending := False,
                           d_c_rec_num := d_c_rec_num p3 + 1, thread_done := True\<rparr>)
       else Inr (Lost, p3))"
    unfolding dqueue_capture_def at result_simps u1 Let_def p2_def [symmetric] p3' u2 sh3
      evt_def [symmetric] by (rule refl)
  consider (display) "\<not> last_buf"
    | (change) "last_buf" "evt = Some Event_source_change \<or> res_evt_pending p3"
    | (finish) "last_buf" "\<not> (evt = Some Event_source_change \<or> res_evt_pending p3)" by blast
  then show ?thesis
  proof cases
    case display
    define p' where "p' = p3\<lparr>res_change := False, shown := shown p @ [a]\<rparr>"
    have "port_inv p'" using pq ash by (auto simp: port_inv_def p'_def p3_def q_def)
    then have "cap_inv p'" using sh ash b by (auto simp: cap_inv_def p'_def p3_def q_def)
    moreover have "balanced p'" if "balanced p"
      using that by (auto simp: balanced_def p'_def p3_def q_def)
    moreover have "stray x p'" if "stray x p" for x
      using st3 [OF that] ax [OF that] sh3 by (auto simp: stray_def p'_def)
    ultimately show ?thesis using step display by (auto simp: p'_def [symmetric])
  next
    case change
    have p4: "shown p4 = shown p" "cheap p4 = cheap p" "cbuf p4 = cbuf p" "hung p4 = hung p"
      by (simp_all add: p4_def p3_def q_def)
    have rel: "released (cbuf p) (cheap p) x = None" if "allocs (setup_ans r) k = Some x" for k x
    proof -
      have "reusable i p x" using fr that by (auto simp: fresh_allocs_def)
      then show ?thesis using b il by (auto simp: reusable_def released_def a_def split: option.splits)
    qed
    have "\<exists>p'. handle_res_change r p4 = Inr p' \<and> cap_inv p' \<and> (balanced p4 \<and> \<not> hung p' \<longrightarrow> balanced p') \<and>
        (\<forall>x. stray x p4 \<longrightarrow> stray x p')"
      using sh pi fr rel by (intro res_change_inv) (auto simp: p4 port_inv_def fresh_allocs_def in_set_conv_nth, blast)
    then obtain p5 where p5: "handle_res_change r p4 = Inr p5" "cap_inv p5" "balanced p4 \<and> \<not> hung p5 \<longrightarrow> balanced p5"
      "\<And>x. stray x p4 \<Longrightarrow> stray x p5"
      by blast
    define p' where "p' = (if hung p5 then p5 else p5\<lparr>d_c_rec_num := d_c_rec_num p5 + 1\<rparr>)"
    have "cap_inv p' = cap_inv p5" "balanced p' = balanced p5" "hung p' = hung p5"
      using cap_inv_cong [of p' p5] by (simp_all add: p'_def)
    moreover have "balanced p4 = balanced p" by (simp add: balanced_def p4)
    moreover have "stray x p'" if "stray x p" for x
    proof -
      have "stray x p4" using that by (simp add: stray_def p4)
      from p5(4) [OF this] show ?thesis by (simp add: stray_def p'_def)
    qed
    ultimately show ?thesis using step change p5 by (auto simp: p'_def [symmetric])
  next
    case finish
    define p' where "p' = p3\<lparr>eos_received := True, eos_evt_pending := False,
      d_c_rec_num := d_c_rec_num p3 + 1, thread_done := True\<rparr>"
    have "cap_inv p'" using c3 cap_inv_cong(1) [of p' p3] by (simp add: p'_def)
    moreover have "stray x p'" if "stray x p" for x using st3 [OF that] by (simp add: stray_def p'_def)
    ultimately show ?thesis using step finish c3 st3 unfolding p'_def [symmetric] by auto
  qed
qed

section \<open>Runs\<close>

text \<open>What one turn keeps: the invariant, and stray buffers.\<close>

lemma cap_step_inv:
  assumes "cap_step (Inr p) l t" "cap_inv p"
  shows "\<exists>q. t = Inr q \<and> cap_inv q \<and> (l \<notin> {Lost, Finished, Kept} \<and> \<not> hung q \<and> balanced p \<longrightarrow> balanced q) \<and>
    (hung p \<longrightarrow> hung q) \<and> (\<forall>x. stray x p \<longrightarrow> stray x q)"
  using assms(1)
proof cases
  case (cap_event e)
  then show ?thesis using assms(2) cap_inv_cong(1,2) [of "priority_event e p" p]
    by (auto simp: priority_event_def stray_def)
next
  case (cap_dqueue i r last_buf ev q)
  then show ?thesis using dqueue_inv [of p i r last_buf ev] assms(2) by auto
next
  case (cap_dqueue_fault i r last_buf ev e)
  then show ?thesis using dqueue_inv [of p i r last_buf ev] assms(2) by auto
next
  case (cap_recycle a ok q)
  then show ?thesis using recycle_inv [of p a ok] assms(2) by auto
next
  case (cap_recycle_fault a ok e)
  then show ?thesis using recycle_inv [of p a ok] assms(2) by auto
qed

text \<open>
  Three invariants of the turns: no fault and \<open>cap_inv\<close>; that a given buffer is stray; and, over turns
  in which no buffer is lost, kept back or used for the end of the stream, that the buffers are
  balanced unless the decoder thread hangs.
\<close>

definition port_good :: "cap_fault + cap_port \<Rightarrow> bool" where
  "port_good s \<longleftrightarrow> (\<exists>p. s = Inr p \<and> cap_inv p)"

definition port_stray :: "addr \<Rightarrow> cap_fault + cap_port \<Rightarrow> bool" where
  "port_stray x s \<longleftrightarrow> (\<exists>p. s = Inr p \<and> cap_inv p \<and> stray x p)"

definition port_balanced :: "cap_fault + cap_port \<Rightarrow> bool" where
  "port_balanced s \<longleftrightarrow> (\<exists>p. s = Inr p \<and> cap_inv p \<and> (hung p \<or> balanced p))"

definition returning :: "cap_label \<Rightarrow> bool" where
  "returning l \<longleftrightarrow> l \<notin> {Lost, Finished, Kept}"

interpretation cg: invariant_system cap_step port_good
  by unfold_locales (auto simp: port_good_def dest: cap_step_inv)

interpretation cs: invariant_system cap_step "port_stray x" for x
  by unfold_locales (auto simp: port_stray_def dest: cap_step_inv)

interpretation cb: invariant_system "\<lambda>s l t. cap_step s l t \<and> returning l" port_balanced
proof
  fix s l t assume "cap_step s l t \<and> returning l" "port_balanced s"
  then obtain p where "cap_step (Inr p) l t" "cap_inv p" "hung p \<or> balanced p" "returning l"
    by (auto simp: port_balanced_def)
  then show "port_balanced t" using cap_step_inv [of p l t] by (auto simp: port_balanced_def returning_def)
qed

text \<open>When the display holds nothing, a balanced port consists of the driver's buffers.\<close>

lemma quiet_port:
  assumes q: "cap_inv q" "balanced q" and nh: "\<not> hung q" "shown q = []"
  shows "dom (cheap q) = set (cbuf q) \<and> drv q = {0..<length (cbuf q)}"
proof -
  have pi: "port_inv q" using q(1) nh(1) by (simp add: cap_inv_def)
  have qd: "cb_queued b" if "cheap q x = Some b" for x b using q(2) that nh(2) by (auto simp: balanced_def)
  have "x \<in> set (cbuf q)" if "cheap q x = Some b" for x b
    using pi that qd [OF that] unfolding port_inv_def by blast
  moreover have at: "\<exists>b. cheap q (cbuf q ! i) = Some b \<and> i \<in> drv q" if "i < length (cbuf q)" for i
    using pi that qd unfolding port_inv_def by blast
  moreover have "drv q \<subseteq> {0..<length (cbuf q)}" using pi by (simp add: port_inv_def)
  ultimately show ?thesis by (fastforce simp: in_set_conv_nth)
qed

text \<open>The port as \<open>handle_first_frame\<close> finds it: no buffers yet.\<close>

definition idle_port :: cap_port where
  "idle_port = \<lparr>cheap = Map.empty, cbuf = [], drv = {}, shown = [], res_evt_pending = False,
     eos_evt_pending = False, eos_received = False, res_change = False, d_c_push_num = 0, d_c_rec_num = 0,
     hung = False, thread_done = False\<rparr>"

definition first_allocs :: "setup_reply \<Rightarrow> bool" where
  "first_allocs a \<longleftrightarrow> (\<forall>j k x. allocs a j = Some x \<longrightarrow> allocs a k = Some x \<longrightarrow> j = k) \<and> (\<forall>k. fst (inits a k))"

lemma first_frame_inv:
  assumes "handle_first_frame a son tok idle_port = Inr (0, p)" "first_allocs a"
  shows "cap_inv p \<and> shown p = [] \<and> (\<not> hung p \<longrightarrow> all_queued p \<and> balanced p)"
proof -
  obtain ret p1 where s: "setup_capture_port a idle_port = Inr (ret, p1)"
    "p1 = idle_port\<lparr>cheap := cheap p1, cbuf := cbuf p1, drv := drv p1\<rparr>"
    "ret = 0 \<longrightarrow> all_queued p1 \<and> dom (cheap p1) = set (cbuf p1)"
  proof -
    have "drv idle_port = {}" "\<And>x. cheap idle_port x = None" by (simp_all add: idle_port_def)
    moreover have "dom (cheap idle_port) = {}" by (simp add: idle_port_def)
    ultimately show thesis
      using setup_capture_port_spec [of a idle_port] assms(2) that unfolding first_allocs_def by (metis Un_empty_left)
  qed
  have f: "shown p1 = []" by (subst s(2)) (simp add: idle_port_def)
  have p: "p = (if ret \<noteq> 0 \<or> \<not> son then p1\<lparr>hung := True\<rparr> else p1)"
    using assms(1) s(1) by (auto simp: handle_first_frame_def split: if_splits)
  show ?thesis
  proof (cases "ret \<noteq> 0 \<or> \<not> son")
    case True
    then show ?thesis using p f by (simp add: cap_inv_def)
  next
    case False
    then have q: "p = p1" "all_queued p1" "dom (cheap p1) = set (cbuf p1)" using p s(3) by auto
    have "port_inv p1" using q(2,3) f by (auto simp: port_inv_def all_queued_def)
    moreover have "balanced p1"
      unfolding balanced_def
    proof (intro allI impI disjI1)
      fix x b assume x: "cheap p1 x = Some b"
      then have "x \<in> set (cbuf p1)" using q(3) by (auto simp: dom_def)
      then show "cb_queued b" using q(2) x by (auto simp: all_queued_def in_set_conv_nth)
    qed
    ultimately show ?thesis using q f by (simp add: cap_inv_def)
  qed
qed

text \<open>Two small set-ups, used for the instances below.\<close>

definition grant :: "nat \<Rightarrow> addr \<Rightarrow> setup_reply" where
  "grant n x = \<lparr>g_fmt_ok = True, s_fmt_ok = True, min_buffers = n, granted = Some n, array_ok = True,
     allocs = (\<lambda>k. if k < n then Some (x + k) else None), inits = (\<lambda>_. (True, True, True, True))\<rparr>"

definition change_to :: "nat \<Rightarrow> addr \<Rightarrow> change_reply" where
  "change_to n x = \<lparr>out_fmt_ok = True, streamoff_ok = True, reqbufs_ok = True, setup_ans = grant n x, streamon_ok = True\<rparr>"

definition two_queued :: cap_port where
  "two_queued = idle_port\<lparr>cheap := [10 \<mapsto> \<lparr>cb_index = 0, cb_queued = True, free_on_recycle = False\<rparr>,
     11 \<mapsto> \<lparr>cb_index = 1, cb_queued = True, free_on_recycle = False\<rparr>], cbuf := [10, 11], drv := {0, 1}\<rparr>"

lemma two_queued_start: "handle_first_frame (grant 2 10) True True idle_port = Inr (0, two_queued)"
  by (simp add: handle_first_frame_def setup_capture_port_def grant_def idle_port_def two_queued_def
      upd_cap_def numeral_2_eq_2 fun_eq_iff insert_commute)

lemma first_allocs_grant: "first_allocs (grant n x)"
  by (auto simp: first_allocs_def grant_def split: if_splits)

definition changed_port :: cap_port where
  "changed_port = idle_port\<lparr>cheap := [10 \<mapsto> \<lparr>cb_index = 0, cb_queued = False, free_on_recycle = True\<rparr>,
     20 \<mapsto> \<lparr>cb_index = 0, cb_queued = True, free_on_recycle = False\<rparr>], cbuf := [20], drv := {0}, shown := [10],
     res_change := True, d_c_push_num := 2, d_c_rec_num := 1\<rparr>"

definition shown_port :: cap_port where
  "shown_port = two_queued\<lparr>cheap := (cheap two_queued)(10 \<mapsto> \<lparr>cb_index = 0, cb_queued = False, free_on_recycle = False\<rparr>),
    drv := {1}, d_c_push_num := 1, shown := [10]\<rparr>"

definition freed_port :: cap_port where
  "freed_port = changed_port\<lparr>d_c_rec_num := 2, shown := [], cheap := (cheap changed_port)(10 := None)\<rparr>"

lemmas example_defs = two_queued_def shown_port_def changed_port_def freed_port_def idle_port_def

lemma example_steps:
  "dqueue_capture 0 False None (change_to 1 20) two_queued = Inr (Shown, shown_port)"
  "dqueue_capture 1 True (Some Event_source_change) (change_to 1 20) shown_port = Inr (Changed, changed_port)"
  "capture_buffer_recycle 10 True changed_port = Inr (Freed, freed_port)"
  by (simp_all add: dqueue_capture_def capture_buffer_recycle_def example_defs upd_cap_def Let_def fun_eq_iff
      handle_res_change_def change_to_def grant_def setup_capture_port_def)

lemma example_fresh:
  "fresh_allocs 0 (setup_ans (change_to 1 20)) two_queued" "fresh_allocs 1 (setup_ans (change_to 1 20)) shown_port"
  by (auto simp: fresh_allocs_def change_to_def grant_def reusable_def example_defs split: if_splits)

lemma example_guards:
  "\<not> hung two_queued" "\<not> thread_done two_queued" "0 \<in> drv two_queued"
  "\<not> hung shown_port" "\<not> thread_done shown_port" "1 \<in> drv shown_port" "10 \<in> set (shown changed_port)"
  "\<not> hung freed_port" "shown freed_port = []" "cbuf freed_port = [20]"
  by (simp_all add: example_defs)

lemma example_run: "lts_run cap_step (Inr two_queued) [Shown, Changed, Freed] (Inr freed_port)"
proof -
  have s1: "cap_step (Inr two_queued) Shown (Inr shown_port)"
    by (rule cap_dqueue [OF example_guards(1-3) example_fresh(1) example_steps(1)])
  have s2: "cap_step (Inr shown_port) Changed (Inr changed_port)"
    by (rule cap_dqueue [OF example_guards(4-6) example_fresh(2) example_steps(2)])
  have s3: "cap_step (Inr changed_port) Freed (Inr freed_port)"
    by (rule cap_recycle [OF example_guards(7) example_steps(3)])
  show ?thesis by (rule run_step, rule s1, rule run_step, rule s2, rule run_step, rule s3, rule run_nil)
qed

section \<open>Properties\<close>

text \<open>
  C24: From the set-up by the first frame on, whatever the driver, the display and the allocator answer
  and in whatever order their turns come, neither the decoder thread nor the display's callback touches
  a freed buffer or an index outside of the port's array. The buffers of the port are alive, carry their
  own index and are flagged as queued exactly when the driver holds them; a buffer of an earlier
  resolution lives only while it is marked to be freed on its return; and what the display holds is
  alive, even after an error has stopped the decoder thread for good.
\<close>

theorem capture_buffers_safe:
  assumes "handle_first_frame a son tok idle_port = Inr (0, p)" "first_allocs a"
    "lts_run cap_step (Inr p) ls s"
  shows "\<exists>q. s = Inr q \<and> cap_inv q"
proof -
  have "port_good (Inr p)" using first_frame_inv [OF assms(1,2)] by (simp add: port_good_def)
  from cg.run_inv [OF assms(3) this] show ?thesis by (simp add: port_good_def)
qed

theorem capture_buffers_safe_witness:
  "lts_run cap_step (Inr two_queued) [Shown, Changed, Freed] (Inr freed_port) \<and> cap_inv freed_port"
  using example_run capture_buffers_safe [OF two_queued_start first_allocs_grant example_run] by simp

text \<open>
  No buffer leaks over changes of resolution. In a run in which no buffer was lost, kept back or
  used for the end of the stream, once the display has given back everything it was shown, the living
  buffers are exactly those of the present port, and the driver holds all of them.
\<close>

theorem capture_no_leak:
  assumes "handle_first_frame a son tok idle_port = Inr (0, p)" "first_allocs a"
    "lts_run cap_step (Inr p) ls (Inr q)" "\<forall>l \<in> set ls. returning l"
    "\<not> hung q" "shown q = []"
  shows "dom (cheap q) = set (cbuf q) \<and> drv q = {0..<length (cbuf q)}"
proof -
  have "port_balanced (Inr p)" using first_frame_inv [OF assms(1,2)] by (auto simp: port_balanced_def)
  from cb.run_inv [OF lts_run_restrict [OF assms(3,4)] this] assms(5)
  have q: "cap_inv q" "balanced q" by (auto simp: port_balanced_def)
  show ?thesis by (rule quiet_port [OF q assms(5,6)])
qed

theorem capture_no_leak_witness: "dom (cheap freed_port) = {20} \<and> drv freed_port = {0}"
proof -
  have "\<forall>l \<in> set [Shown, Changed, Freed]. returning l" by (simp add: returning_def)
  from capture_no_leak [OF two_queued_start first_allocs_grant example_run this example_guards(8,9)]
  show ?thesis using example_guards(10) by auto
qed

text \<open>
  A buffer that comes with the flag of the last buffer while neither a change of resolution nor an
  end of stream is announced is lost: it is not shown, not returned to the driver and not freed, then
  or ever after, even by a later change of resolution.
\<close>

theorem capture_last_lost:
  assumes "cap_inv q" "\<not> hung q" "i \<in> drv q" "\<not> res_evt_pending q" "\<not> eos_evt_pending q"
    "ev \<noteq> Some Event_source_change" "ev \<noteq> Some Event_eos"
  shows "\<exists>q'. dqueue_capture i True ev r q = Inr (Lost, q') \<and>
    (\<forall>ls s. lts_run cap_step (Inr q') ls s \<longrightarrow> (\<exists>t. s = Inr t \<and> stray (cbuf q ! i) t))"
proof -
  let ?r = "change_to 0 0"
  have pi: "port_inv q" using assms(1,2) by (simp add: cap_inv_def)
  have il: "i < length (cbuf q)" using pi assms(3) by (auto simp: port_inv_def)
  obtain b where b: "cheap q (cbuf q ! i) = Some b" "cb_queued b"
    using pi il assms(3) unfolding port_inv_def by blast
  have ns: "cbuf q ! i \<notin> set (shown q)" using pi b unfolding port_inv_def by blast
  obtain q' where q': "\<And>r. dqueue_capture i True ev r q = Inr (Lost, q')" "stray (cbuf q ! i) q'"
    using assms(4-7) il b ns
    by (simp add: dqueue_capture_def at_def upd_cap_def Let_def stray_def)
  have "fresh_allocs i (setup_ans ?r) q" by (simp add: fresh_allocs_def change_to_def grant_def)
  from dqueue_inv [OF assms(1-3) this, of True ev] q' have "port_stray (cbuf q ! i) (Inr q')"
    by (simp add: port_stray_def)
  then have "\<exists>t. s = Inr t \<and> stray (cbuf q ! i) t" if "lts_run cap_step (Inr q') ls s" for ls s
    using cs.run_inv [OF that] by (auto simp: port_stray_def)
  then show ?thesis using q'(1) by blast
qed

theorem capture_last_lost_witness:
  "\<exists>q'. dqueue_capture 1 True None (change_to 1 20) two_queued = Inr (Lost, q') \<and> stray 11 q'"
proof -
  have inv: "cap_inv two_queued" using first_frame_inv [OF two_queued_start first_allocs_grant] by simp
  from capture_last_lost [of two_queued 1 None "change_to 1 20", OF inv] show ?thesis
    by (auto simp: two_queued_def idle_port_def intro: run_nil dest: spec [of _ "[]"])
qed

end
