(* ===== verification/Display_Ring.thy ===== *)
theory Display_Ring
  imports Fifo_Spec "HOL-Library.Multiset"
begin

text \<open>
  The display side of the decoder test (\<open>v4l2-uvm-test/src/drm.c\<close>): the ring in which the display
  thread leaves the frames that went off screen, the recycle thread that takes them out and hands
  them back to the decoder, and the display thread's loop.

  A frame is named by the decoder buffer it carries (\<open>pri_dec\<close>). The ring is first modelled with its
  two operations atomic, and refines the queue of \<open>Fifo_Spec\<close>; the code takes no lock around them,
  so they are then split into the loads and stores of the two threads. Indices and the count are
  \<open>unsigned int\<close> in C and never leave \<open>0..q_len\<close>, so they are natural numbers here.

  The A/V sync library and the DRM calls are the environment: each turn of the display loop gets what
  the library popped and whether the calls succeeded.
\<close>

section \<open>The ring\<close>

record ring =
  slots :: "addr option list"
  q_len :: nat
  ri :: nat
  wi :: nat
  total_num :: nat

definition MAX_BUF_SIZE :: nat where "MAX_BUF_SIZE = 32"

definition fresh_ring :: ring where
  "fresh_ring = \<lparr>slots = replicate MAX_BUF_SIZE None, q_len = MAX_BUF_SIZE, ri = 0, wi = 0, total_num = 0\<rparr>"

definition advance :: "nat \<Rightarrow> nat \<Rightarrow> nat" where
  "advance n i = (if i = n - 1 then 0 else i + 1)"

definition queue_frame :: "addr \<Rightarrow> ring \<Rightarrow> int \<times> ring" where
  "queue_frame f r =
     (if total_num r = q_len r then (- 1, r)
      else (0, r\<lparr>slots := (slots r)[wi r := Some f], wi := advance (q_len r) (wi r),
                 total_num := total_num r + 1\<rparr>))"

definition dequeue_frame :: "ring \<Rightarrow> int \<times> addr option \<times> ring" where
  "dequeue_frame r =
     (if total_num r = 0 then (- 1, None, r)
      else (0, slots r ! ri r, r\<lparr>ri := advance (q_len r) (ri r), total_num := total_num r - 1\<rparr>))"

text \<open>The frames in the ring, oldest first, and the invariant.\<close>

definition ring_contents :: "ring \<Rightarrow> addr list" where
  "ring_contents r = map (\<lambda>k. the (slots r ! ((ri r + k) mod q_len r))) [0..<total_num r]"

definition ring_wf :: "ring \<Rightarrow> bool" where
  "ring_wf r \<longleftrightarrow> 0 < q_len r \<and> length (slots r) = q_len r \<and> ri r < q_len r \<and> total_num r \<le> q_len r \<and>
     wi r = (ri r + total_num r) mod q_len r \<and>
     (\<forall>k < total_num r. slots r ! ((ri r + k) mod q_len r) \<noteq> None)"

lemma advance_mod: "i < n \<Longrightarrow> advance n i = Suc i mod n"
  by (auto simp: advance_def)

lemma ring_slot_neq:
  assumes "j < k" "k < n"
  shows "(i + j) mod n \<noteq> (i + k) mod (n :: nat)"
proof
  assume "(i + j) mod n = (i + k) mod n"
  then have "n dvd k - j" using assms mod_eq_dvd_iff_nat [of "i + j" "i + k" n] by simp
  then show False using assms nat_dvd_not_less [of "k - j" n] by simp
qed

lemma queue_frame_wf:
  assumes wf: "ring_wf r" and q: "queue_frame f r = (0, r')"
  shows "ring_wf r' \<and> ring_contents r' = ring_contents r @ [f]"
proof -
  let ?n = "q_len r" let ?t = "total_num r"
  have t: "?t < ?n" and r': "r' = r\<lparr>slots := (slots r)[wi r := Some f], wi := advance ?n (wi r), total_num := ?t + 1\<rparr>"
    using assms by (auto simp: queue_frame_def ring_wf_def split: if_splits)
  have w: "wi r = (ri r + ?t) mod ?n" "wi r < ?n" "length (slots r) = ?n"
    using wf by (simp_all add: ring_wf_def)
  have old: "(slots r)[wi r := Some f] ! ((ri r + k) mod ?n) = slots r ! ((ri r + k) mod ?n)" if "k < ?t" for k
    using ring_slot_neq [OF that t, of "ri r"] w(1) by (metis nth_list_update_neq)
  have new: "(slots r)[wi r := Some f] ! ((ri r + ?t) mod ?n) = Some f" using w by simp
  have "ring_contents r' = ring_contents r @ [f]"
    using old new by (simp add: ring_contents_def r')
  moreover have "ring_wf r'"
    using wf t w old new by (auto simp: ring_wf_def r' advance_mod mod_Suc_eq less_Suc_eq)
  ultimately show ?thesis by blast
qed

lemma dequeue_frame_wf:
  assumes wf: "ring_wf r" and d: "dequeue_frame r = (0, x, r')"
  shows "ring_wf r' \<and> (\<exists>f. x = Some f \<and> ring_contents r = f # ring_contents r')"
proof -
  let ?n = "q_len r" let ?t = "total_num r"
  have t: "0 < ?t" and x: "x = slots r ! ri r" and r': "r' = r\<lparr>ri := advance ?n (ri r), total_num := ?t - 1\<rparr>"
    using d by (auto simp: dequeue_frame_def split: if_splits)
  have ri: "ri r < ?n" using wf by (simp add: ring_wf_def)
  have sh: "(Suc (ri r) mod ?n + k) mod ?n = (ri r + Suc k) mod ?n" for k by (simp add: mod_simps)
  have "slots r ! ri r \<noteq> None" using wf t ri by (auto simp: ring_wf_def dest: spec [of _ 0])
  moreover have "ring_contents r = the (slots r ! ri r) # ring_contents r'"
  proof -
    have "[0..<?t] = 0 # map Suc [0..<?t - 1]" using t by (simp add: upt_conv_Cons map_Suc_upt)
    then show ?thesis using ri by (simp add: ring_contents_def r' advance_mod sh comp_def)
  qed
  moreover have "ring_wf r'"
  proof -
    have "wi r = (Suc (ri r) mod ?n + (?t - 1)) mod ?n" using wf t sh [of "?t - 1"] by (simp add: ring_wf_def)
    moreover have "slots r ! ((Suc (ri r) mod ?n + k) mod ?n) \<noteq> None" if "k < ?t - 1" for k
      using wf that unfolding sh ring_wf_def by (auto dest!: spec [of _ "Suc k"])
    moreover have "?t - 1 \<le> ?n" using wf unfolding ring_wf_def by linarith
    ultimately show ?thesis using wf ri by (simp add: ring_wf_def r' advance_mod)
  qed
  ultimately show ?thesis using x by auto
qed

text \<open>Both operations as steps of a queue that may be full or empty.\<close>

inductive ring_step :: "ring \<Rightarrow> addr fifo_label \<Rightarrow> ring \<Rightarrow> bool" where
  ring_enq: "queue_frame f r = (0, r') \<Longrightarrow> ring_step r (Enq f) r'"
| ring_full: "queue_frame f r = (- 1, r') \<Longrightarrow> ring_step r Silent r'"
| ring_deq: "dequeue_frame r = (0, Some f, r') \<Longrightarrow> ring_step r (Deq f) r'"
| ring_empty: "dequeue_frame r = (- 1, x, r') \<Longrightarrow> ring_step r Silent r'"

inductive_cases ring_stepE: "ring_step r l r'"

lemma ring_silent:
  "queue_frame f r = (- 1, r') \<Longrightarrow> r' = r" "dequeue_frame r = (- 1, x, r') \<Longrightarrow> r' = r"
  by (auto simp: queue_frame_def dequeue_frame_def split: if_splits)

interpretation rq: fifo_system ring_step ring_wf ring_contents
proof
  fix s l t assume "ring_step s l t" "ring_wf s"
  then have "ring_wf t \<and> fifo_spec (ring_contents s) l (ring_contents t)"
    by (cases rule: ring_step.cases) (auto dest: queue_frame_wf dequeue_frame_wf ring_silent)
  then show "ring_wf t" "fifo_spec (ring_contents s) l (ring_contents t)" by auto
qed

section \<open>The threads\<close>

text \<open>
  One turn of the display loop after the wait for the vertical blank: what the sync library popped and
  whether the page flip succeeded. The loop ends at the last frame, at a failed wait, or when the
  engine is stopped.
\<close>

datatype turn = Wait_failed | No_frame | Last_frame | Frame addr bool | Stopped

record display =
  d_ring :: ring
  f_p1 :: "addr option"
  first_rendered :: bool
  last_frame :: bool
  running :: bool
  flipped :: "addr list"
  given_back :: "addr list"

text \<open>\<open>display_cb\<close> hands a frame back to the decoder; \<open>given_back\<close> records the calls.\<close>

definition display_cb :: "addr \<Rightarrow> display \<Rightarrow> display" where
  "display_cb f d = d\<lparr>given_back := given_back d @ [f]\<rparr>"

definition give_back_shown :: "display \<Rightarrow> display" where
  "give_back_shown d = (case f_p1 d of None \<Rightarrow> d | Some f \<Rightarrow> display_cb f d)"

fun display_turn :: "turn \<Rightarrow> display \<Rightarrow> display" where
  "display_turn Wait_failed d = (if first_rendered d then d\<lparr>running := False\<rparr> else d)"
| "display_turn No_frame d = d"
| "display_turn Last_frame d = (give_back_shown d)\<lparr>last_frame := True, running := False\<rparr>"
| "display_turn Stopped d = (give_back_shown d)\<lparr>running := False\<rparr>"
| "display_turn (Frame f flip_ok) d =
     (if f_p1 d = Some f \<or> \<not> flip_ok then d
      else let d1 = (case f_p1 d of None \<Rightarrow> d
             | Some old \<Rightarrow>
                 let (rc, r) = queue_frame old (d_ring d) in
                 if rc = 0 then d\<lparr>d_ring := r\<rparr> else display_cb old d)
           in d1\<lparr>f_p1 := Some f, first_rendered := True, flipped := flipped d1 @ [f]\<rparr>)"

text \<open>One turn of the recycle loop; an empty ring makes it sleep.\<close>

definition recycle_turn :: "display \<Rightarrow> display" where
  "recycle_turn d =
     (let (rc, x, r) = dequeue_frame (d_ring d) in
      if rc < 0 then d
      else case x of None \<Rightarrow> d\<lparr>d_ring := r\<rparr> | Some f \<Rightarrow> display_cb f (d\<lparr>d_ring := r\<rparr>))"

datatype disp_event = Turn turn | Recycle

fun disp_step :: "display \<Rightarrow> disp_event \<Rightarrow> display" where
  "disp_step d (Turn t) = (if running d then display_turn t d else d)"
| "disp_step d Recycle = recycle_turn d"

definition fresh_display :: display where
  "fresh_display = \<lparr>d_ring = fresh_ring, f_p1 = None, first_rendered = False, last_frame = False,
     running = True, flipped = [], given_back = []\<rparr>"

text \<open>The frame on screen, to be given back when another one replaces it or the loop ends.\<close>

definition on_screen :: "display \<Rightarrow> addr multiset" where
  "on_screen d = (if running d then case f_p1 d of None \<Rightarrow> {#} | Some f \<Rightarrow> {#f#} else {#})"

definition all_accounted :: "display \<Rightarrow> bool" where
  "all_accounted d \<longleftrightarrow> ring_wf (d_ring d) \<and>
     mset (flipped d) = mset (given_back d) + mset (ring_contents (d_ring d)) + on_screen d"

lemma queue_frame_result: "queue_frame f r = (rc, r') \<Longrightarrow> rc = 0 \<or> rc = - 1 \<and> r' = r"
  by (auto simp: queue_frame_def split: if_splits)

lemma recycle_accounted:
  assumes "all_accounted d"
  shows "all_accounted (recycle_turn d) \<and> total_num (d_ring (recycle_turn d)) = total_num (d_ring d) - 1 \<and>
    running (recycle_turn d) = running d \<and> flipped (recycle_turn d) = flipped d"
proof (cases "total_num (d_ring d) = 0")
  case True
  then show ?thesis using assms by (simp add: recycle_turn_def dequeue_frame_def)
next
  case False
  obtain x r where q: "dequeue_frame (d_ring d) = (0, x, r)" using False by (simp add: dequeue_frame_def)
  have tot: "total_num r = total_num (d_ring d) - 1" using q False by (auto simp: dequeue_frame_def)
  have wf: "ring_wf (d_ring d)" using assms by (simp add: all_accounted_def)
  obtain f where f: "x = Some f" "ring_contents (d_ring d) = f # ring_contents r" "ring_wf r"
    using dequeue_frame_wf [OF wf q] by blast
  have "recycle_turn d = display_cb f (d\<lparr>d_ring := r\<rparr>)" by (simp add: recycle_turn_def q f(1))
  then show ?thesis using assms f tot
    by (simp add: all_accounted_def display_cb_def on_screen_def ac_simps)
qed

lemma turn_accounted:
  assumes "all_accounted d" "running d" "t \<noteq> Wait_failed"
  shows "all_accounted (display_turn t d)"
proof (cases t)
  case (Frame f ok)
  show ?thesis
  proof (cases "f_p1 d = Some f \<or> \<not> ok")
    case True
    then show ?thesis using assms Frame by simp
  next
    case False
    show ?thesis
    proof (cases "f_p1 d")
      case None
      then show ?thesis using assms False Frame by (simp add: all_accounted_def on_screen_def)
    next
      case (Some old)
      obtain rc r where q: "queue_frame old (d_ring d) = (rc, r)" by force
      have "rc = 0 \<Longrightarrow> ring_wf r \<and> ring_contents r = ring_contents (d_ring d) @ [old]"
        using queue_frame_wf q assms(1) by (auto simp: all_accounted_def)
      then show ?thesis using assms False Frame Some q queue_frame_result [OF q]
        by (auto simp: all_accounted_def on_screen_def display_cb_def)
    qed
  qed
qed (use assms in \<open>auto simp: all_accounted_def on_screen_def give_back_shown_def display_cb_def split: option.splits\<close>)

lemma steps_accounted:
  "all_accounted d \<Longrightarrow> Turn Wait_failed \<notin> set es \<Longrightarrow> all_accounted (foldl disp_step d es)"
proof (induction es arbitrary: d)
  case (Cons e es)
  have "all_accounted (disp_step d e)"
    using Cons.prems turn_accounted recycle_accounted by (cases e) auto
  then show ?case using Cons by simp
qed simp

lemma drain_accounted:
  "all_accounted d \<Longrightarrow> let d' = foldl disp_step d (replicate (total_num (d_ring d)) Recycle) in
    all_accounted d' \<and> ring_contents (d_ring d') = [] \<and> running d' = running d \<and> flipped d' = flipped d"
proof (induction "total_num (d_ring d)" arbitrary: d)
  case 0
  then show ?case by (simp add: ring_contents_def)
next
  case (Suc n)
  have r: "all_accounted (recycle_turn d)" "total_num (d_ring (recycle_turn d)) = n"
    "running (recycle_turn d) = running d" "flipped (recycle_turn d) = flipped d"
    using recycle_accounted [OF Suc.prems] Suc.hyps(2) by simp_all
  have "foldl disp_step d (replicate (total_num (d_ring d)) Recycle) =
      foldl disp_step (recycle_turn d) (replicate n Recycle)"
    using Suc.hyps(2) [symmetric] by simp
  then show ?case using Suc.hyps(1) [OF r(2) [symmetric] r(1)] r by (simp add: Let_def)
qed

lemma fresh_accounted: "all_accounted fresh_display"
  by (simp add: all_accounted_def fresh_display_def fresh_ring_def ring_wf_def ring_contents_def
      on_screen_def MAX_BUF_SIZE_def)

section \<open>Loads and stores\<close>

text \<open>
  \<open>queue_frame\<close> of the display thread and \<open>dequeue_frame\<close> of the recycle thread as the memory accesses
  they consist of: the test, the slot, the index, and the load and the store of the count.
\<close>

record race =
  m_ring :: ring
  pc_d :: nat
  tmp_d :: nat
  pc_r :: nat
  tmp_r :: nat
  got :: "addr option"

fun display_micro :: "addr \<Rightarrow> race \<Rightarrow> race" where
  "display_micro f s =
     (let r = m_ring s in
      if pc_d s = 0 then s\<lparr>pc_d := (if total_num r = q_len r then 9 else 1)\<rparr>
      else if pc_d s = 1 then s\<lparr>m_ring := r\<lparr>slots := (slots r)[wi r := Some f]\<rparr>, pc_d := 2\<rparr>
      else if pc_d s = 2 then s\<lparr>m_ring := r\<lparr>wi := advance (q_len r) (wi r)\<rparr>, pc_d := 3\<rparr>
      else if pc_d s = 3 then s\<lparr>tmp_d := total_num r, pc_d := 4\<rparr>
      else if pc_d s = 4 then s\<lparr>m_ring := r\<lparr>total_num := tmp_d s + 1\<rparr>, pc_d := 5\<rparr>
      else s)"

fun recycle_micro :: "race \<Rightarrow> race" where
  "recycle_micro s =
     (let r = m_ring s in
      if pc_r s = 0 then s\<lparr>pc_r := (if total_num r = 0 then 9 else 1)\<rparr>
      else if pc_r s = 1 then s\<lparr>got := slots r ! ri r, pc_r := 2\<rparr>
      else if pc_r s = 2 then s\<lparr>m_ring := r\<lparr>ri := advance (q_len r) (ri r)\<rparr>, pc_r := 3\<rparr>
      else if pc_r s = 3 then s\<lparr>tmp_r := total_num r, pc_r := 4\<rparr>
      else if pc_r s = 4 then s\<lparr>m_ring := r\<lparr>total_num := tmp_r s - 1\<rparr>, pc_r := 5\<rparr>
      else s)"

text \<open>A schedule: \<open>True\<close> is a step of the display thread.\<close>

definition interleave :: "addr \<Rightarrow> bool list \<Rightarrow> race \<Rightarrow> race" where
  "interleave f sched s = foldl (\<lambda>s b. if b then display_micro f s else recycle_micro s) s sched"

definition race_start :: "ring \<Rightarrow> race" where
  "race_start r = \<lparr>m_ring = r, pc_d = 0, tmp_d = 0, pc_r = 0, tmp_r = 0, got = None\<rparr>"

text \<open>Run one after the other, the accesses are the two operations.\<close>

lemma micro_display_atomic:
  "m_ring (interleave f [True, True, True, True, True] (race_start r)) = snd (queue_frame f r)"
  by (cases "total_num r = q_len r") (simp_all add: interleave_def race_start_def queue_frame_def)

lemma micro_recycle_atomic:
  "m_ring (interleave f [False, False, False, False, False] (race_start r)) = snd (snd (dequeue_frame r)) \<and>
   got (interleave f [False, False, False, False, False] (race_start r)) = fst (snd (dequeue_frame r))"
  by (cases "total_num r = 0") (simp_all add: interleave_def race_start_def dequeue_frame_def)

section \<open>Properties\<close>

lemma ring_run_plain: "lts_run ring_step r ls r' \<Longrightarrow> list_all plain ls"
  by (induction rule: lts_run.induct) (auto elim: ring_stepE)

lemma ring_step_len: "ring_step r l r' \<Longrightarrow> q_len r' = q_len r"
  by (auto elim!: ring_stepE simp: queue_frame_def dequeue_frame_def split: if_splits)

lemma ring_run_len: "lts_run ring_step r ls r' \<Longrightarrow> q_len r' = q_len r"
  by (induction rule: lts_run.induct) (auto dest: ring_step_len)

text \<open>
  C30: With their operations not interrupted, the display thread and the recycle thread use the ring as
  a first-in-first-out queue: over any sequence of operations from an empty ring, the frames taken out
  are the first of those put in, in order, and the rest is what the ring holds; a full ring refuses a
  frame and an empty one yields none, without effect.
\<close>

theorem display_ring_fifo:
  assumes "lts_run ring_step fresh_ring ls r"
  shows "deqs ls @ ring_contents r = enqs ls \<and> length (ring_contents r) \<le> 32"
proof -
  have fresh: "ring_wf fresh_ring" "ring_contents fresh_ring = []" "q_len fresh_ring = 32"
    by (simp_all add: fresh_ring_def ring_wf_def ring_contents_def MAX_BUF_SIZE_def)
  have "ring_wf r" by (rule rq.run_inv [OF assms fresh(1)])
  moreover have "q_len r = q_len fresh_ring" by (rule ring_run_len [OF assms])
  moreover have "deqs ls @ ring_contents r = enqs ls"
    using rq.run_fifo [OF assms fresh(1) ring_run_plain [OF assms]] fresh(2) by simp
  ultimately show ?thesis using fresh(3) by (simp add: ring_wf_def ring_contents_def)
qed

theorem display_ring_fifo_witness:
  "\<exists>r. lts_run ring_step fresh_ring [Enq 1, Enq 2, Deq 1] r \<and> [1] @ ring_contents r = [1, 2]"
proof -
  have "ring_step fresh_ring (Enq 1) (snd (queue_frame 1 fresh_ring))"
    by (intro ring_enq) (simp add: queue_frame_def fresh_ring_def MAX_BUF_SIZE_def)
  moreover have "ring_step (snd (queue_frame 1 fresh_ring)) (Enq 2)
      (snd (queue_frame 2 (snd (queue_frame 1 fresh_ring))))"
    by (intro ring_enq) (simp add: queue_frame_def fresh_ring_def MAX_BUF_SIZE_def)
  moreover have "ring_step (snd (queue_frame 2 (snd (queue_frame 1 fresh_ring)))) (Deq 1)
      (snd (snd (dequeue_frame (snd (queue_frame 2 (snd (queue_frame 1 fresh_ring)))))))"
    by (intro ring_deq) (simp add: queue_frame_def dequeue_frame_def fresh_ring_def MAX_BUF_SIZE_def advance_def)
  ultimately have "\<exists>r. lts_run ring_step fresh_ring [Enq 1, Enq 2, Deq 1] r"
    by (meson run_nil run_step)
  then obtain r where "lts_run ring_step fresh_ring [Enq 1, Enq 2, Deq 1] r" ..
  with display_ring_fifo [OF this] show ?thesis by auto
qed

text \<open>
  Whatever frames the sync library delivers and however the two threads take turns, every frame
  put on the screen is given back to the decoder exactly once: once the display loop has ended, by the
  last frame or by a stop, and the recycle thread has run as often as the ring holds frames, the frames
  given back are a permutation of those shown. (A failed wait for the vertical blank ends the loop
  without giving the frame on the screen back.)
\<close>

theorem display_gives_back_all:
  assumes "Turn Wait_failed \<notin> set es" "d = foldl disp_step fresh_display es" "\<not> running d"
  shows "mset (given_back (foldl disp_step d (replicate (total_num (d_ring d)) Recycle))) = mset (flipped d)"
proof -
  have "all_accounted d" unfolding assms(2) by (rule steps_accounted [OF fresh_accounted assms(1)])
  from drain_accounted [OF this] show ?thesis using assms(3)
    by (auto simp: Let_def all_accounted_def on_screen_def)
qed

theorem display_gives_back_all_witness:
  "mset (given_back (foldl disp_step (foldl disp_step fresh_display
      [Turn (Frame 1 True), Turn (Frame 2 True), Recycle, Turn (Frame 3 True), Turn Last_frame])
     [Recycle])) = {#1, 2, 3#}"
proof -
  let ?es = "[Turn (Frame 1 True), Turn (Frame 2 True), Recycle, Turn (Frame 3 True), Turn Last_frame]"
  let ?d = "foldl disp_step fresh_display ?es"
  have d: "\<not> running ?d" "total_num (d_ring ?d) = 1" "flipped ?d = [1, 2, 3]"
    by (simp_all add: fresh_display_def fresh_ring_def MAX_BUF_SIZE_def queue_frame_def recycle_turn_def
        dequeue_frame_def display_cb_def give_back_shown_def advance_def)
  show ?thesis using display_gives_back_all [of ?es ?d] d by simp
qed

text \<open>
  The code takes no lock around the ring. When the recycle thread takes the only frame \<open>a\<close> out
  between the display thread's load and store of the count, the decrement is lost: the count says 2
  while only the new frame \<open>b\<close> is in the ring, and the next two frames taken out are \<open>b\<close> and the
  frame \<open>z\<close> that an earlier round left in the slot behind it, which is given back a second time.
\<close>

theorem display_ring_race:
  assumes "ring_wf r" "ring_contents r = [a]" "3 \<le> q_len r" "slots r ! ((ri r + 2) mod q_len r) = Some z"
  shows "let s = interleave b [True, True, True, True, False, False, False, False, False, True] (race_start r);
             (rc1, x1, r1) = dequeue_frame (m_ring s); (rc2, x2, r2) = dequeue_frame r1
         in got s = Some a \<and> total_num (m_ring s) = 2 \<and> x1 = Some b \<and> x2 = Some z"
proof -
  let ?n = "q_len r"
  have t: "total_num r = 1" using arg_cong [OF assms(2), of length] by (simp add: ring_contents_def)
  have wf: "ri r < ?n" "length (slots r) = ?n" "wi r = Suc (ri r) mod ?n" "slots r ! ri r \<noteq> None"
    using assms(1) t by (auto simp: ring_wf_def)
  have a: "slots r ! ri r = Some a" using assms(2) wf(1,4) t by (auto simp: ring_contents_def)
  have ne: "Suc (ri r) mod ?n \<noteq> ri r" "Suc (ri r) mod ?n \<noteq> (ri r + 2) mod ?n"
    using ring_slot_neq [of 0 1 ?n "ri r"] ring_slot_neq [of 1 2 ?n "ri r"] assms(3) wf(1) by simp_all
  define sl where "sl = (slots r)[wi r := Some b]"
  define r0 where "r0 = r\<lparr>slots := sl, wi := advance ?n (wi r), ri := Suc (ri r) mod ?n, total_num := 2\<rparr>"
  define s where "s = interleave b [True, True, True, True, False, False, False, False, False, True] (race_start r)"
  have full: "total_num r \<noteq> ?n" using assms(3) t by simp
  have s: "m_ring s = r0" "got s = sl ! ri r"
    using full t wf(1) by (simp_all add: s_def interleave_def race_start_def r0_def sl_def advance_mod)
  have sl: "sl ! ri r = Some a" "sl ! (Suc (ri r) mod ?n) = Some b" "sl ! ((ri r + 2) mod ?n) = Some z"
    using a ne wf assms(3,4) by (simp_all add: sl_def)
  have adv: "advance ?n (Suc (ri r) mod ?n) = (ri r + 2) mod ?n"
    using assms(3) by (simp add: advance_mod mod_Suc_eq)
  show ?thesis unfolding s_def [symmetric] using s sl adv
    by (simp add: dequeue_frame_def r0_def)
qed

theorem display_ring_race_witness:
  "let r = \<lparr>slots = [Some 7, Some 8, Some 9], q_len = 3, ri = 0, wi = 1, total_num = 1\<rparr>;
       s = interleave 5 [True, True, True, True, False, False, False, False, False, True] (race_start r);
       (rc1, x1, r1) = dequeue_frame (m_ring s); (rc2, x2, r2) = dequeue_frame r1
   in got s = Some 7 \<and> total_num (m_ring s) = 2 \<and> x1 = Some 5 \<and> x2 = Some 9"
proof -
  let ?r = "\<lparr>slots = [Some 7, Some 8, Some 9], q_len = 3, ri = 0, wi = 1, total_num = 1\<rparr>"
  have "ring_wf ?r" "ring_contents ?r = [7]" "3 \<le> q_len ?r" "slots ?r ! ((ri ?r + 2) mod q_len ?r) = Some 9"
    by (simp_all add: ring_wf_def ring_contents_def)
  from display_ring_race [OF this, of 5] show ?thesis by (simp only: Let_def)
qed

end
