(* ===== verification/Decode_Display.thy ===== *)
theory Decode_Display
  imports Capture_Port Display_Ring
begin

text \<open>
  The decoder's capture port and the display together (\<open>v4l2-uvm-test\<close>, \<open>v4l2-dec.c\<close> and \<open>drm.c\<close>): the
  decoder thread shows a buffer by pushing it to the A/V sync library, the display thread pops it and
  puts it on the screen, and the display thread, the recycle thread or the sync library itself hand it
  back by \<open>capture_buffer_recycle\<close>.

  The sync library holds the frames pushed and not yet popped (\<open>sync\<close>); it may pop any of them, repeat
  the one on the screen, or drop any of them by \<open>sync_frame_free\<close>. \<open>missed\<close> records the frames the
  display thread lets go of without handing them back, after a failed page flip or a failed wait. The
  operations of the ring are atomic here; \<open>Display_Ring\<close> shows what happens when they are not.
\<close>

section \<open>State and operations\<close>

record pipe =
  port :: cap_port
  sync :: "addr list"
  disp :: display
  missed :: "addr list"

text \<open>The callbacks made during one operation of the display, with the answer of \<open>QBUF\<close>.\<close>

fun callbacks :: "bool \<Rightarrow> addr list \<Rightarrow> cap_port \<Rightarrow> cap_fault + cap_label list \<times> cap_port" where
  "callbacks ok [] p = Inr ([], p)"
| "callbacks ok (a # as) p =
     rbind (capture_buffer_recycle a ok p) (\<lambda>(l, p1).
     rbind (callbacks ok as p1) (\<lambda>(ls, p2). Inr (l # ls, p2)))"

definition display_op :: "disp_event \<Rightarrow> bool \<Rightarrow> pipe \<Rightarrow> cap_fault + cap_label list \<times> pipe" where
  "display_op e ok s =
     (let d = disp_step (disp s) e; fs = drop (length (given_back (disp s))) (given_back d) in
      rbind (callbacks ok fs (port s)) (\<lambda>(ls, p). Inr (ls, s\<lparr>port := p, disp := d\<rparr>)))"

text \<open>
  The decoder thread: a buffer that is shown goes to the sync library by \<open>display_engine_show\<close>. (When
  that call runs out of memory the frame is never popped, which the sync library may do anyway.)
\<close>

definition decoder_op ::
    "nat \<Rightarrow> bool \<Rightarrow> v4l2_event option \<Rightarrow> change_reply \<Rightarrow> pipe \<Rightarrow> cap_fault + cap_label list \<times> pipe" where
  "decoder_op i last_buf ev r s =
     rbind (dqueue_capture i last_buf ev r (port s)) (\<lambda>(l, p).
       Inr ([l], s\<lparr>port := p, sync := (if l = Shown then sync s @ [cbuf (port s) ! i] else sync s)\<rparr>))"

definition sync_frame_free :: "addr \<Rightarrow> bool \<Rightarrow> pipe \<Rightarrow> cap_fault + cap_label list \<times> pipe" where
  "sync_frame_free f ok s = rbind (callbacks ok [f] (port s)) (\<lambda>(ls, p). Inr (ls, s\<lparr>port := p\<rparr>))"

fun lands :: "cap_fault + cap_label list \<times> pipe \<Rightarrow> cap_label list \<Rightarrow> cap_fault + pipe \<Rightarrow> bool" where
  "lands (Inl e) ls t \<longleftrightarrow> t = Inl e"
| "lands (Inr (ls', s)) ls t \<longleftrightarrow> ls = ls' \<and> t = Inr s"

text \<open>The frame on the screen that a failed wait for the vertical blank leaves behind.\<close>

definition left_behind :: "turn \<Rightarrow> display \<Rightarrow> addr list" where
  "left_behind t d = (if t = Wait_failed \<and> first_rendered d then case f_p1 d of None \<Rightarrow> [] | Some f \<Rightarrow> [f] else [])"

fun no_pop :: "turn \<Rightarrow> bool" where
  "no_pop (Frame f flip) = False"
| "no_pop t = True"

inductive pipe_step :: "cap_fault + pipe \<Rightarrow> cap_label list \<Rightarrow> cap_fault + pipe \<Rightarrow> bool" where
  pipe_event: "\<not> hung (port s) \<Longrightarrow> \<not> thread_done (port s) \<Longrightarrow>
    pipe_step (Inr s) [Event] (Inr (s\<lparr>port := priority_event e (port s)\<rparr>))"
| pipe_decode: "\<not> hung (port s) \<Longrightarrow> \<not> thread_done (port s) \<Longrightarrow> i \<in> drv (port s) \<Longrightarrow>
    fresh_allocs i (setup_ans r) (port s) \<Longrightarrow> lands (decoder_op i last_buf ev r s) ls t \<Longrightarrow> pipe_step (Inr s) ls t"
| pipe_turn: "running (disp s) \<Longrightarrow> no_pop x \<Longrightarrow>
    lands (display_op (Turn x) ok (s\<lparr>missed := missed s @ left_behind x (disp s)\<rparr>)) ls t \<Longrightarrow> pipe_step (Inr s) ls t"
| pipe_frame: "running (disp s) \<Longrightarrow> f \<in> set (sync s) \<Longrightarrow>
    lands (display_op (Turn (Frame f flip)) ok
      (s\<lparr>sync := remove1 f (sync s), missed := missed s @ (if flip then [] else [f])\<rparr>)) ls t \<Longrightarrow> pipe_step (Inr s) ls t"
| pipe_again: "running (disp s) \<Longrightarrow> f_p1 (disp s) = Some f \<Longrightarrow>
    lands (display_op (Turn (Frame f flip)) ok s) ls t \<Longrightarrow> pipe_step (Inr s) ls t"
| pipe_drop: "f \<in> set (sync s) \<Longrightarrow>
    lands (sync_frame_free f ok (s\<lparr>sync := remove1 f (sync s)\<rparr>)) ls t \<Longrightarrow> pipe_step (Inr s) ls t"
| pipe_recycle: "lands (display_op Recycle ok s) ls t \<Longrightarrow> pipe_step (Inr s) ls t"

section \<open>What each operation moves\<close>

text \<open>The frames the display holds, and a step of it that takes \<open>new\<close> frames in.\<close>

definition held :: "display \<Rightarrow> addr multiset" where
  "held d = mset (ring_contents (d_ring d)) + on_screen d"

definition flows :: "display \<Rightarrow> addr multiset \<Rightarrow> display \<Rightarrow> addr multiset \<Rightarrow> bool" where
  "flows d new d' lost \<longleftrightarrow> ring_wf (d_ring d') \<and>
     (\<exists>fs. given_back d' = given_back d @ fs \<and> held d + new = mset fs + held d' + lost)"

lemma turn_flows:
  assumes "ring_wf (d_ring d)" "running d" "no_pop x"
  shows "flows d {#} (disp_step d (Turn x)) (mset (left_behind x d))"
  using assms
  by (cases x) (auto simp: flows_def held_def on_screen_def left_behind_def give_back_shown_def display_cb_def
      split: option.splits)

lemma again_flows:
  assumes "ring_wf (d_ring d)" "running d" "f_p1 d = Some f"
  shows "flows d {#} (disp_step d (Turn (Frame f flip))) {#}"
  using assms by (simp add: flows_def)

lemma frame_flows:
  assumes "ring_wf (d_ring d)" "running d" "f_p1 d \<noteq> Some f"
  shows "flows d {#f#} (disp_step d (Turn (Frame f flip))) (if flip then {#} else {#f#})"
proof (cases "flip")
  case True
  show ?thesis
  proof (cases "f_p1 d")
    case None
    then show ?thesis using assms True by (simp add: flows_def held_def on_screen_def)
  next
    case (Some old)
    obtain rc r where q: "queue_frame old (d_ring d) = (rc, r)" by force
    have "rc = 0 \<Longrightarrow> ring_wf r \<and> ring_contents r = ring_contents (d_ring d) @ [old]"
      using queue_frame_wf [OF assms(1)] q by simp
    then show ?thesis using assms True Some q queue_frame_result [OF q]
      by (auto simp: flows_def held_def on_screen_def display_cb_def)
  qed
next
  case False
  then show ?thesis using assms by (simp add: flows_def held_def)
qed

lemma recycle_flows:
  assumes "ring_wf (d_ring d)"
  shows "flows d {#} (disp_step d Recycle) {#}"
proof (cases "total_num (d_ring d) = 0")
  case True
  then show ?thesis using assms by (simp add: flows_def recycle_turn_def dequeue_frame_def)
next
  case False
  obtain x r where q: "dequeue_frame (d_ring d) = (0, x, r)" using False by (simp add: dequeue_frame_def)
  obtain f where f: "x = Some f" "ring_contents (d_ring d) = f # ring_contents r" "ring_wf r"
    using dequeue_frame_wf [OF assms q] by blast
  have "recycle_turn d = display_cb f (d\<lparr>d_ring := r\<rparr>)" by (simp add: recycle_turn_def q f(1))
  then show ?thesis using f by (simp add: flows_def held_def display_cb_def on_screen_def)
qed

lemma recycle_shown: "capture_buffer_recycle a ok p = Inr (l, p') \<Longrightarrow> shown p' = remove1 a (shown p)"
  by (auto simp: capture_buffer_recycle_def Let_def split: option.splits if_splits)

text \<open>What the callbacks keep, and what they take off the display.\<close>

lemma callbacks_inv:
  assumes "cap_inv p" "mset fs \<subseteq># mset (shown p)"
  shows "\<exists>ls p'. callbacks ok fs p = Inr (ls, p') \<and> cap_inv p' \<and> hung p' = hung p \<and>
    mset (shown p) = mset fs + mset (shown p') \<and>
    (list_all returning ls \<and> balanced p \<longrightarrow> balanced p')"
  using assms
proof (induction fs arbitrary: p)
  case (Cons a fs)
  have a: "a \<in> set (shown p)" using Cons.prems(2) by (auto dest: mset_subset_eqD)
  obtain l p1 where r: "capture_buffer_recycle a ok p = Inr (l, p1)" "cap_inv p1" "hung p1 = hung p"
    "l \<noteq> Kept \<and> balanced p \<longrightarrow> balanced p1" using recycle_inv [OF Cons.prems(1) a] by blast
  have sh: "mset (shown p) = add_mset a (mset (shown p1))"
    using recycle_shown [OF r(1)] a by simp
  then have "mset fs \<subseteq># mset (shown p1)" using Cons.prems(2) by simp
  from Cons.IH [OF r(2) this] obtain ls p2 where c: "callbacks ok fs p1 = Inr (ls, p2)" "cap_inv p2"
    "hung p2 = hung p1" "mset (shown p1) = mset fs + mset (shown p2)"
    "list_all returning ls \<and> balanced p1 \<longrightarrow> balanced p2" by blast
  moreover have "returning l \<Longrightarrow> l \<noteq> Kept" by (simp add: returning_def)
  ultimately show ?case using r sh by auto
qed simp

lemma alloc_loop_shown: "shown (snd (alloc_loop al n i p)) = shown p"
  by (induction n arbitrary: i p) (auto split: option.split)

lemma init_loop_shown: "init_loop st n i p = Inr (k, p') \<Longrightarrow> shown p' = shown p"
proof (induction n arbitrary: i p)
  case (Suc n)
  then show ?case
    by (auto simp: rbind_Inr_iff upd_cap_def need_def Let_def split: option.splits prod.splits if_splits)
qed simp

lemma setup_shown: "setup_capture_port a p = Inr (k, p') \<Longrightarrow> shown p' = shown p"
  using alloc_loop_shown [of "allocs a" _ 0 "p\<lparr>cbuf := []\<rparr>"]
  by (auto simp: setup_capture_port_def Let_def split: if_splits option.splits prod.splits dest!: init_loop_shown)
    (metis snd_conv)+

lemma res_change_shown: "handle_res_change r p = Inr p' \<Longrightarrow> shown p' = shown p"
  by (auto simp: handle_res_change_def Let_def rbind_Inr_iff split: if_splits prod.splits dest!: setup_shown)

lemma upd_cap_shown: "upd_cap a f p = Inr p' \<Longrightarrow> shown p' = shown p"
  by (auto simp: upd_cap_def split: option.splits)

lemma dqueue_shown:
  assumes "dqueue_capture i last_buf ev r p = Inr (l, p')"
  shows "shown p' = shown p @ (if l = Shown then [cbuf p ! i] else [])"
proof -
  from assms obtain a p1 where a: "at (cbuf p) i = Some a" and p1: "upd_cap a (\<lambda>b. b\<lparr>cb_queued := False\<rparr>) p = Inr p1"
    unfolding dqueue_capture_def rbind_Inr_iff need_def by (auto split: option.splits)
  define p2 where "p2 = p1\<lparr>drv := drv p1 - {i}, d_c_push_num := d_c_push_num p1 + 1\<rparr>"
  define p3 where "p3 = (if d_c_push_num p2 = 1 \<and> res_evt_pending p2 then p2\<lparr>res_evt_pending := False\<rparr> else p2)"
  have sh: "shown p3 = shown p" using upd_cap_shown [OF p1] by (simp add: p3_def p2_def)
  have ai: "cbuf p ! i = a" using a by (simp add: at_Some_iff)
  note e = assms [unfolded dqueue_capture_def a result_simps p1 Let_def, folded p2_def, folded p3_def]
  show ?thesis using e sh unfolding ai
    by (auto simp: rbind_Inr_iff split: if_splits dest!: upd_cap_shown res_change_shown)
qed

section \<open>The invariant of the pipeline\<close>

definition tracked :: "pipe \<Rightarrow> bool" where
  "tracked s \<longleftrightarrow> cap_inv (port s) \<and> ring_wf (d_ring (disp s)) \<and>
     mset (shown (port s)) = mset (sync s) + held (disp s) + mset (missed s)"

definition still_balanced :: "cap_port \<Rightarrow> bool" where
  "still_balanced p \<longleftrightarrow> hung p \<or> balanced p"

text \<open>
  An operation of the display that finds \<open>new\<close> frames outside of the sync queue, the display and the
  frames missed so far, and leaves \<open>lost\<close> of them behind.
\<close>

lemma display_op_inv:
  assumes inv: "cap_inv (port s)"
    and m: "mset (shown (port s)) = mset (sync s) + (held (disp s) + new) + m0" "mset (missed s) = m0 + lost"
    and fl: "flows (disp s) new (disp_step (disp s) e) lost"
  shows "\<exists>ls s'. display_op e ok s = Inr (ls, s') \<and> tracked s' \<and>
    (list_all returning ls \<and> still_balanced (port s) \<longrightarrow> still_balanced (port s'))"
proof -
  define d where "d = disp_step (disp s) e"
  obtain fs where fs: "given_back d = given_back (disp s) @ fs" "held (disp s) + new = mset fs + held d + lost"
    and wf: "ring_wf (d_ring d)" using fl by (auto simp: flows_def d_def)
  have "mset fs \<subseteq># mset (shown (port s))" using m(1) fs(2) by simp
  from callbacks_inv [OF inv this, of ok] obtain ls p' where c: "callbacks ok fs (port s) = Inr (ls, p')" "cap_inv p'"
    "hung p' = hung (port s)" "mset (shown (port s)) = mset fs + mset (shown p')"
    "list_all returning ls \<and> balanced (port s) \<longrightarrow> balanced p'" by blast
  have "display_op e ok s = Inr (ls, s\<lparr>port := p', disp := d\<rparr>)"
    by (simp add: display_op_def d_def [symmetric] fs(1) c(1))
  moreover have "mset fs + mset (shown p') = mset fs + (mset (sync s) + held d + mset (missed s))"
    unfolding c(4) [symmetric] m fs(2) by (simp add: ac_simps)
  then have "tracked (s\<lparr>port := p', disp := d\<rparr>)" using c(2) wf by (simp add: tracked_def)
  ultimately show ?thesis using c(3,5) by (auto simp: still_balanced_def)
qed

lemma decoder_op_inv:
  assumes "tracked s" "\<not> hung (port s)" "i \<in> drv (port s)" "fresh_allocs i (setup_ans r) (port s)"
  shows "\<exists>ls s'. decoder_op i last_buf ev r s = Inr (ls, s') \<and> tracked s' \<and>
    (list_all returning ls \<and> still_balanced (port s) \<longrightarrow> still_balanced (port s'))"
proof -
  have inv: "cap_inv (port s)" using assms(1) by (simp add: tracked_def)
  obtain l p' where d: "dqueue_capture i last_buf ev r (port s) = Inr (l, p')" "cap_inv p'"
    "l \<noteq> Lost \<and> l \<noteq> Finished \<and> balanced (port s) \<and> \<not> hung p' \<longrightarrow> balanced p'"
    using dqueue_inv [OF inv assms(2-4)] by blast
  have "decoder_op i last_buf ev r s = Inr ([l], s\<lparr>port := p', sync := (if l = Shown then sync s @ [cbuf (port s) ! i] else sync s)\<rparr>)"
    by (simp add: decoder_op_def d(1))
  then show ?thesis using assms(1,2) d(2,3) dqueue_shown [OF d(1)]
    by (auto simp: tracked_def still_balanced_def returning_def)
qed

lemma drop_inv:
  assumes "tracked s" "f \<in> set (sync s)"
  shows "\<exists>ls s'. sync_frame_free f ok (s\<lparr>sync := remove1 f (sync s)\<rparr>) = Inr (ls, s') \<and> tracked s' \<and>
    (list_all returning ls \<and> still_balanced (port s) \<longrightarrow> still_balanced (port s'))"
proof -
  have m: "mset (shown (port s)) = add_mset f (mset (remove1 f (sync s)) + held (disp s) + mset (missed s))"
    using assms by (simp add: tracked_def)
  then have sub: "mset [f] \<subseteq># mset (shown (port s))" by simp
  have inv: "cap_inv (port s)" using assms(1) by (simp add: tracked_def)
  from callbacks_inv [OF inv sub, of ok] obtain ls p' where c: "callbacks ok [f] (port s) = Inr (ls, p')" "cap_inv p'"
    "hung p' = hung (port s)" "mset (shown (port s)) = mset [f] + mset (shown p')"
    "list_all returning ls \<and> balanced (port s) \<longrightarrow> balanced p'" by blast
  have "sync_frame_free f ok (s\<lparr>sync := remove1 f (sync s)\<rparr>) = Inr (ls, s\<lparr>sync := remove1 f (sync s), port := p'\<rparr>)"
    using c(1) by (simp add: sync_frame_free_def)
  then show ?thesis using c m assms(1) by (auto simp: tracked_def still_balanced_def)
qed

text \<open>The frame popped is not the one on the screen.\<close>

lemma popped_not_on_screen:
  assumes "tracked s" "f \<in> set (sync s)" "running (disp s)"
  shows "f_p1 (disp s) \<noteq> Some f"
proof
  assume "f_p1 (disp s) = Some f"
  then have "0 < count (held (disp s)) f" using assms(3) by (simp add: held_def on_screen_def)
  moreover have "0 < count (mset (sync s)) f" using assms(2) by simp
  moreover have "count (mset (shown (port s))) f =
      count (mset (sync s)) f + count (held (disp s)) f + count (mset (missed s)) f"
    using assms(1) by (simp add: tracked_def)
  moreover have "count (mset (shown (port s))) f \<le> 1"
  proof -
    have "distinct (shown (port s))" using assms(1) by (simp add: tracked_def cap_inv_def)
    then show ?thesis by (simp add: distinct_count_atmost_1)
  qed
  ultimately show False by linarith
qed

lemma pipe_step_inv:
  assumes "pipe_step (Inr s) ls t" "tracked s"
  shows "\<exists>s'. t = Inr s' \<and> tracked s' \<and>
    (list_all returning ls \<and> still_balanced (port s) \<longrightarrow> still_balanced (port s'))"
  using assms(1)
proof cases
  case (pipe_event e)
  then show ?thesis using assms(2) cap_inv_cong(1,2) [of "priority_event e (port s)" "port s"]
    by (auto simp: tracked_def still_balanced_def priority_event_def)
next
  case (pipe_decode i r last_buf ev)
  then show ?thesis using decoder_op_inv [OF assms(2), of i r last_buf ev] by auto
next
  case (pipe_turn x ok)
  let ?s = "s\<lparr>missed := missed s @ left_behind x (disp s)\<rparr>"
  have "flows (disp ?s) {#} (disp_step (disp ?s) (Turn x)) (mset (left_behind x (disp s)))"
    using turn_flows [of "disp s" x] pipe_turn assms(2) by (simp add: tracked_def)
  from display_op_inv [OF _ _ _ this, of "mset (missed s)" ok] pipe_turn(3) assms(2) show ?thesis
    by (auto simp: tracked_def)
next
  case (pipe_frame f flip ok)
  let ?s = "s\<lparr>sync := remove1 f (sync s), missed := missed s @ (if flip then [] else [f])\<rparr>"
  have "flows (disp ?s) {#f#} (disp_step (disp ?s) (Turn (Frame f flip))) (if flip then {#} else {#f#})"
    using frame_flows [of "disp s" f flip] popped_not_on_screen [OF assms(2)] pipe_frame assms(2)
    by (simp add: tracked_def)
  moreover have "mset (shown (port ?s)) = mset (sync ?s) + (held (disp ?s) + {#f#}) + mset (missed s)"
    using assms(2) pipe_frame(2) by (simp add: tracked_def)
  moreover have "mset (missed ?s) = mset (missed s) + (if flip then {#} else {#f#})" by simp
  moreover have "cap_inv (port ?s)" using assms(2) by (simp add: tracked_def)
  ultimately have "\<exists>ls s'. display_op (Turn (Frame f flip)) ok ?s = Inr (ls, s') \<and> tracked s' \<and>
      (list_all returning ls \<and> still_balanced (port ?s) \<longrightarrow> still_balanced (port s'))"
    by (intro display_op_inv)
  then show ?thesis using pipe_frame(3) by auto
next
  case (pipe_again f flip ok)
  have "flows (disp s) {#} (disp_step (disp s) (Turn (Frame f flip))) {#}"
    using again_flows [of "disp s" f flip] pipe_again assms(2) by (simp add: tracked_def)
  from display_op_inv [OF _ _ _ this, of "mset (missed s)" ok] pipe_again(3) assms(2) show ?thesis
    by (auto simp: tracked_def)
next
  case (pipe_drop f ok)
  then show ?thesis using drop_inv [OF assms(2), of f ok] by auto
next
  case (pipe_recycle ok)
  have "flows (disp s) {#} (disp_step (disp s) Recycle) {#}"
    using recycle_flows [of "disp s"] assms(2) by (simp add: tracked_def)
  from display_op_inv [OF _ _ _ this, of "mset (missed s)" ok] pipe_recycle assms(2) show ?thesis
    by (auto simp: tracked_def)
qed

definition pipe_good :: "cap_fault + pipe \<Rightarrow> bool" where
  "pipe_good t \<longleftrightarrow> (\<exists>s. t = Inr s \<and> tracked s)"

definition pipe_balanced :: "cap_fault + pipe \<Rightarrow> bool" where
  "pipe_balanced t \<longleftrightarrow> (\<exists>s. t = Inr s \<and> tracked s \<and> still_balanced (port s))"

interpretation dg: invariant_system pipe_step pipe_good
  by unfold_locales (auto simp: pipe_good_def dest: pipe_step_inv)

interpretation db: invariant_system "\<lambda>s ls t. pipe_step s ls t \<and> list_all returning ls" pipe_balanced
proof
  fix s ls t assume "pipe_step s ls t \<and> list_all returning ls" "pipe_balanced s"
  then obtain u where "pipe_step (Inr u) ls t" "tracked u" "still_balanced (port u)" "list_all returning ls"
    by (auto simp: pipe_balanced_def)
  then show "pipe_balanced t" using pipe_step_inv [of u ls t] by (auto simp: pipe_balanced_def)
qed

definition started :: "cap_port \<Rightarrow> pipe" where
  "started p = \<lparr>port = p, sync = [], disp = fresh_display, missed = []\<rparr>"

lemma started_inv:
  assumes "handle_first_frame a son tok idle_port = Inr (0, p)" "first_allocs a"
  shows "pipe_good (Inr (started p))" "pipe_balanced (Inr (started p))"
proof -
  have p: "cap_inv p" "shown p = []" "still_balanced p"
    using first_frame_inv [OF assms] by (auto simp: still_balanced_def)
  have "tracked (started p)" using p(1,2) fresh_accounted
    by (simp add: tracked_def started_def held_def all_accounted_def fresh_display_def fresh_ring_def
        ring_contents_def on_screen_def)
  then show "pipe_good (Inr (started p))" "pipe_balanced (Inr (started p))"
    using p(3) by (auto simp: pipe_good_def pipe_balanced_def started_def)
qed

text \<open>A buffer is shown, put on the screen, outlives a change of resolution and is freed at the stop.\<close>

definition ended_pipe :: pipe where
  "ended_pipe = \<lparr>port = freed_port, sync = [],
     disp = fresh_display\<lparr>f_p1 := Some 10, first_rendered := True, flipped := [10], running := False, given_back := [10]\<rparr>,
     missed = []\<rparr>"

lemma pipe_example_run:
  "lts_run pipe_step (Inr (started two_queued)) [[Shown], [], [Changed], [Freed]] (Inr ended_pipe)"
proof -
  let ?d = "fresh_display\<lparr>f_p1 := Some 10, first_rendered := True, flipped := [10]\<rparr>"
  let ?s1 = "\<lparr>port = shown_port, sync = [10], disp = fresh_display, missed = []\<rparr>"
  let ?s2 = "\<lparr>port = shown_port, sync = [], disp = ?d, missed = []\<rparr>"
  let ?s3 = "\<lparr>port = changed_port, sync = [], disp = ?d, missed = []\<rparr>"
  have "cbuf two_queued = [10, 11]" by (simp add: two_queued_def)
  then have "pipe_step (Inr (started two_queued)) [Shown] (Inr ?s1)"
    using example_guards example_fresh(1) example_steps(1)
    by (intro pipe_decode [where i = 0 and r = "change_to 1 20" and last_buf = False and ev = None])
      (simp_all add: started_def decoder_op_def)
  moreover have "pipe_step (Inr ?s1) [] (Inr ?s2)"
    by (rule pipe_frame [where f = 10 and flip = True and ok = True])
      (simp_all add: display_op_def fresh_display_def)
  moreover have "pipe_step (Inr ?s2) [Changed] (Inr ?s3)"
    using example_guards example_fresh(2) example_steps(2)
    by (intro pipe_decode [where i = 1 and r = "change_to 1 20" and last_buf = True and ev = "Some Event_source_change"])
      (simp_all add: decoder_op_def)
  moreover have "pipe_step (Inr ?s3) [Freed] (Inr ended_pipe)"
    using example_steps(3)
    by (intro pipe_turn [where x = Stopped and ok = True])
      (simp_all add: display_op_def fresh_display_def give_back_shown_def display_cb_def left_behind_def ended_pipe_def)
  ultimately show ?thesis by (meson run_nil run_step)
qed

section \<open>Properties\<close>





end
