(* ===== verification/Hdmirx.thy ===== *)
theory Hdmirx
  imports C_Strings
begin

text \<open>
  What the capture source reads of the HDMI receiver (\<open>gst_streambox_src.c\<close>): the text of
  \<open>/sys/class/hdmirx/hdmirx0/info\<close> and the resolution, frame rate, colorimetry and signal-change
  message taken from it. The text of the file is an argument, \<open>None\<close> when it cannot be opened.
\<close>

section \<open>Resolution and frame rate\<close>

abbreviation info_lines :: "string \<Rightarrow> string list" where
  "info_lines t \<equiv> fgets_lines 256 t"

text \<open>The loop of \<open>hdmirx_get_source_resolution\<close>; it stops once both numbers are known.\<close>

fun resolution_loop :: "string list \<Rightarrow> u32 option \<Rightarrow> u32 option \<Rightarrow> u32 option \<times> u32 option" where
  "resolution_loop [] w h = (w, h)"
| "resolution_loop (l # ls) w h =
     (let (w', h') = (case sscanf_u ''Hactive: '' l of Some v \<Rightarrow> (Some v, h)
          | None \<Rightarrow> (case sscanf_u ''Vactive: '' l of Some v \<Rightarrow> (w, Some v) | None \<Rightarrow> (w, h)))
      in if w' \<noteq> None \<and> h' \<noteq> None then (w', h') else resolution_loop ls w' h')"

definition hdmirx_get_source_resolution :: "string option \<Rightarrow> (u32 \<times> u32) option" where
  "hdmirx_get_source_resolution f = (case f of None \<Rightarrow> None
     | Some t \<Rightarrow> (case resolution_loop (info_lines t) None None of
         (Some w, Some h) \<Rightarrow> if 0 < w \<and> 0 < h then Some (w, h) else None
       | _ \<Rightarrow> None))"

primrec frame_rate_loop :: "string list \<Rightarrow> u32" where
  "frame_rate_loop [] = 0"
| "frame_rate_loop (l # ls) = (case sscanf_u ''Frame Rate: '' l of Some v \<Rightarrow> v | None \<Rightarrow> frame_rate_loop ls)"

text \<open>The rate in hundredths as a fraction.\<close>

definition rate_fraction :: "u32 \<Rightarrow> u32 \<times> u32" where
  "rate_fraction r =
     (if r mod 100 = 0 then (r div 100, 1)
      else if r = 5994 \<or> r = 2997 \<or> r = 11988 \<or> r = 23976 then ((r + 6) div 100 * 1000, 1001)
      else ((r + 50) div 100, 1))"

definition hdmirx_get_source_framerate :: "string option \<Rightarrow> (u32 \<times> u32) option" where
  "hdmirx_get_source_framerate f = (case f of None \<Rightarrow> None
     | Some t \<Rightarrow> (let r = frame_rate_loop (info_lines t) in if 0 < r then Some (rate_fraction r) else None))"

section \<open>Colorimetry\<close>

fun color_loop :: "string list \<Rightarrow> u32 \<times> string \<times> string \<Rightarrow> u32 \<times> string \<times> string" where
  "color_loop [] acc = acc"
| "color_loop (l # ls) (depth, eotf, space) =
     (case sscanf_u ''Color Depth: '' l of Some v \<Rightarrow> color_loop ls (v, eotf, space)
      | None \<Rightarrow> (case sscanf_line63 '' HDR EOTF: '' l of Some s \<Rightarrow> color_loop ls (depth, s, space)
        | None \<Rightarrow> (case sscanf_line63 '' Color Space: '' l of Some s \<Rightarrow> color_loop ls (depth, eotf, s)
          | None \<Rightarrow> color_loop ls (depth, eotf, space))))"

text \<open>\<open>g_strstr_len\<close> on a whole string.\<close>

fun contains :: "string \<Rightarrow> string \<Rightarrow> bool" where
  "contains [] n \<longleftrightarrow> n = []"
| "contains (c # t) n \<longleftrightarrow> take (length n) (c # t) = n \<or> contains t n"

datatype source_mode = Source_vfmcap | Source_vdin1

text \<open>The results of \<open>create\<close>, of both paths of the source.\<close>

datatype flow = Flow_ok | Flow_error | Flow_flushing | Flow_eos

text \<open>
  \<open>colorimetry\<close> holds 64 bytes, so \<open>g_strlcpy\<close> keeps at most 63 characters; \<open>ovr\<close> is the
  environment variable \<open>STREAMBOX_COLORIMETRY\<close>.
\<close>

definition hdmirx_detect_colorimetry ::
    "string option \<Rightarrow> u32 \<Rightarrow> source_mode \<Rightarrow> bool \<Rightarrow> string option \<Rightarrow> string" where
  "hdmirx_detect_colorimetry f color_mode mode ten_bit ovr =
     (let init = (8, ''SDR'', '''');
          (depth, eotf, space) = (case f of None \<Rightarrow> init | Some t \<Rightarrow> color_loop (info_lines t) init);
          detected =
            (if color_mode = 1 \<or> color_mode = 2 then ''bt709''
             else if mode = Source_vdin1 \<and> \<not> ten_bit then ''bt709''
             else if contains eotf ''2084'' \<or> contains eotf ''HDR10'' \<or> contains eotf ''SMPTE_ST_2048''
               then ''bt2100-pq''
             else if contains eotf ''HLG'' then ''bt2100-hlg''
             else if 8 < depth then ''bt2020''
             else ''bt709'')
      in case ovr of Some s \<Rightarrow> if s \<noteq> [] then take 63 s else detected | None \<Rightarrow> detected)"

section \<open>The signal-change message\<close>

record hdmi_signal =
  si_width :: u32
  si_height :: u32
  si_frame_rate :: u32
  si_color_space :: string
  si_color_depth :: u32
  si_hdr_eotf :: string
  si_dolby_vision :: u32
  si_interlace :: u32

definition no_info :: hdmi_signal where
  "no_info = \<lparr>si_width = 0, si_height = 0, si_frame_rate = 0, si_color_space = '''', si_color_depth = 0,
     si_hdr_eotf = '''', si_dolby_vision = 0, si_interlace = 0\<rparr>"

definition info_line :: "string \<Rightarrow> hdmi_signal \<Rightarrow> hdmi_signal" where
  "info_line l i =
     (case sscanf_u ''Hactive: '' l of Some v \<Rightarrow> i\<lparr>si_width := v\<rparr>
      | None \<Rightarrow> (case sscanf_u ''Vactive: '' l of Some v \<Rightarrow> i\<lparr>si_height := v\<rparr>
      | None \<Rightarrow> (case sscanf_u ''Frame Rate: '' l of Some v \<Rightarrow> i\<lparr>si_frame_rate := v\<rparr>
      | None \<Rightarrow> (case sscanf_u ''Color Depth: '' l of Some v \<Rightarrow> i\<lparr>si_color_depth := v\<rparr>
      | None \<Rightarrow> (case sscanf_u ''Dolby Vision: '' l of Some v \<Rightarrow> i\<lparr>si_dolby_vision := v\<rparr>
      | None \<Rightarrow> (case sscanf_u ''Interlace: '' l of Some v \<Rightarrow> i\<lparr>si_interlace := v\<rparr>
      | None \<Rightarrow> (case sscanf_line63 '' Color Space: '' l of Some s \<Rightarrow> i\<lparr>si_color_space := s\<rparr>
      | None \<Rightarrow> (case sscanf_line63 '' HDR EOTF: '' l of Some s \<Rightarrow> i\<lparr>si_hdr_eotf := s\<rparr>
      | None \<Rightarrow> i))))))))"

text \<open>The fields of the message; a file that cannot be read leaves zeros and empty strings.\<close>

definition signal_change_info :: "string option \<Rightarrow> hdmi_signal" where
  "signal_change_info f = (case f of None \<Rightarrow> no_info | Some t \<Rightarrow> fold info_line (info_lines t) no_info)"

section \<open>Reading back what the receiver prints\<close>

text \<open>
  A file of the shape the parsers expect: one labelled line for each field. \<open>label_line\<close> is a line
  of it.
\<close>

definition label_line :: "string \<Rightarrow> string \<Rightarrow> string" where
  "label_line l v = l @ v @ [CHR 0x0A]"

abbreviation num :: "u32 \<Rightarrow> string" where
  "num v \<equiv> digits 20 (unat v)"

definition print_info :: "hdmi_signal \<Rightarrow> string" where
  "print_info i =
     label_line ''HDMI info'' [] @
     label_line ''Hactive: '' (num (si_width i)) @
     label_line ''Vactive: '' (num (si_height i)) @
     label_line ''Frame Rate: '' (num (si_frame_rate i)) @
     label_line ''Color Depth: '' (num (si_color_depth i)) @
     label_line ''Dolby Vision: '' (num (si_dolby_vision i)) @
     label_line ''Interlace: '' (num (si_interlace i)) @
     label_line '' Color Space: '' (si_color_space i) @
     label_line '' HDR EOTF: '' (si_hdr_eotf i)"

text \<open>A value of a text field that one line can carry.\<close>

definition text_value :: "string \<Rightarrow> bool" where
  "text_value s \<longleftrightarrow> s \<noteq> [] \<and> length s \<le> 63 \<and> \<not> is_space (hd s) \<and> CHR 0x0A \<notin> set s \<and> CHR 0x00 \<notin> set s"

lemma length_digits: "length (digits k n) \<le> k"
  by (induction k arbitrary: n) auto

lemma not_digits [simp]: "\<not> is_digit (CHR 0x0A)" "\<not> is_digit (CHR 0x00)"
  by (simp_all add: is_digit_def)

lemma spaces [simp]: "is_space (CHR 0x0A)" "is_space (CHR '' '')"
  by (simp_all add: is_space_def)

lemma cstr_num [simp]: "cstr (num v @ [CHR 0x0A]) = num v @ [CHR 0x0A]"
  by (subst cstr_append) (simp_all add: digits_no_char cstr_Cons)

lemma cstr_text [simp]: "text_value s \<Longrightarrow> cstr (s @ [CHR 0x0A]) = s @ [CHR 0x0A]"
  by (subst cstr_append) (simp_all add: text_value_def cstr_Cons)

lemma scan_u_num [simp]: "scan_u (num v @ [CHR 0x0A]) = Some v"
  using scan_u_digits [of "unat v" "CHR 0x0A" "[]"] unsigned_less [of v] by simp

lemma scan_line63_text [simp]: "text_value s \<Longrightarrow> scan_line63 (s @ [CHR 0x0A]) = Some s"
  unfolding scan_line63_def text_value_def by (subst takeWhile_append2) auto

lemma dropWhile_text [simp]: "text_value s \<Longrightarrow> dropWhile is_space (s @ t) = s @ t"
  unfolding text_value_def by (cases s) auto

lemma info_lines_label:
  assumes "length l \<le> 20" "length v \<le> 63" "CHR 0x0A \<notin> set l" "CHR 0x0A \<notin> set v"
  shows "info_lines (label_line l v @ t) = label_line l v # info_lines t"
  using fgets_lines_Cons [of "l @ v" 256 t] assms by (simp add: label_line_def)

lemma info_lines_num:
  "length l \<le> 20 \<Longrightarrow> CHR 0x0A \<notin> set l
    \<Longrightarrow> info_lines (label_line l (num v) @ t) = label_line l (num v) # info_lines t"
  using length_digits [of 20 "unat v"] by (intro info_lines_label) (auto simp: digits_no_char)

lemma info_lines_print:
  assumes "text_value (si_color_space i)" "text_value (si_hdr_eotf i)"
  shows "info_lines (print_info i) =
    [label_line ''HDMI info'' [], label_line ''Hactive: '' (num (si_width i)),
     label_line ''Vactive: '' (num (si_height i)), label_line ''Frame Rate: '' (num (si_frame_rate i)),
     label_line ''Color Depth: '' (num (si_color_depth i)),
     label_line ''Dolby Vision: '' (num (si_dolby_vision i)),
     label_line ''Interlace: '' (num (si_interlace i)),
     label_line '' Color Space: '' (si_color_space i), label_line '' HDR EOTF: '' (si_hdr_eotf i)]"
proof -
  have t: "info_lines (label_line l v) = [label_line l v]"
    if "length l \<le> 20" "length v \<le> 63" "CHR 0x0A \<notin> set l" "CHR 0x0A \<notin> set v" for l v
    using info_lines_label [OF that, of "[]"] by simp
  show ?thesis
    using assms unfolding print_info_def text_value_def
    by (simp add: info_lines_label info_lines_num t)
qed

lemmas scan_simps = sscanf_u_def sscanf_line63_def label_line_def cstr_Cons is_space_def

lemma info_line_labels [simp]:
  "info_line (label_line ''HDMI info'' []) i = i"
  "info_line (label_line ''Hactive: '' (num v)) i = i\<lparr>si_width := v\<rparr>"
  "info_line (label_line ''Vactive: '' (num v)) i = i\<lparr>si_height := v\<rparr>"
  "info_line (label_line ''Frame Rate: '' (num v)) i = i\<lparr>si_frame_rate := v\<rparr>"
  "info_line (label_line ''Color Depth: '' (num v)) i = i\<lparr>si_color_depth := v\<rparr>"
  "info_line (label_line ''Dolby Vision: '' (num v)) i = i\<lparr>si_dolby_vision := v\<rparr>"
  "info_line (label_line ''Interlace: '' (num v)) i = i\<lparr>si_interlace := v\<rparr>"
  "text_value s \<Longrightarrow> info_line (label_line '' Color Space: '' s) i = i\<lparr>si_color_space := s\<rparr>"
  "text_value s \<Longrightarrow> info_line (label_line '' HDR EOTF: '' s) i = i\<lparr>si_hdr_eotf := s\<rparr>"
  by (simp_all add: info_line_def scan_simps)

lemma resolution_print [simp]:
  "resolution_loop (label_line ''HDMI info'' [] # label_line ''Hactive: '' (num w) #
     label_line ''Vactive: '' (num h) # ls) None None = (Some w, Some h)"
  by (simp add: scan_simps)

lemma frame_rate_print [simp]:
  "frame_rate_loop (label_line ''HDMI info'' [] # label_line ''Hactive: '' (num w) #
     label_line ''Vactive: '' (num h) # label_line ''Frame Rate: '' (num r) # ls) = r"
  by (simp add: scan_simps)



section \<open>Frame rates\<close>

lemma rate_fraction_nat:
  "rate_fraction r = (let r' = unat r in
     if r' mod 100 = 0 then (r div 100, 1)
     else if r' = 5994 \<or> r' = 2997 \<or> r' = 11988 \<or> r' = 23976
       then ((r + 6) div 100 * 1000, 1001)
     else ((r + 50) div 100, 1))"
proof -
  have m: "r mod 100 = 0 \<longleftrightarrow> unat r mod 100 = 0"
    by (simp add: word_unat_eq_iff unat_mod_distrib)
  show ?thesis unfolding rate_fraction_def Let_def m by (simp add: word_unat_eq_iff)
qed

lemma round_to_100: "\<bar>int ((m + 50) div 100) * 100 - int m\<bar> \<le> 50"
  by linarith

text \<open>
  The fraction chosen for a frame rate in hundredths. Whole rates are exact, 59.94 and 29.97 Hz
  become 60000/1001 and 30000/1001, and every other rate is rounded to a whole rate at most half a
  frame per second away, except 119.88 and 239.76 Hz: for these the code means 120000/1001 and
  240000/1001 but the rounding falls short and gives 119000/1001 (118.88 Hz) and 239000/1001
  (238.76 Hz).
\<close>

theorem framerate_fraction:
  "(let r' = unat r; (n, d) = rate_fraction r in
     if r' mod 100 = 0 then unat n * 100 = r' \<and> d = 1
     else if r' = 5994 then (n, d) = (60000, 1001)
     else if r' = 2997 then (n, d) = (30000, 1001)
     else if r' = 11988 then (n, d) = (119000, 1001)
     else if r' = 23976 then (n, d) = (239000, 1001)
     else 2 ^ 32 - 50 \<le> r' \<or> (d = 1 \<and> \<bar>int (unat n) * 100 - int r'\<bar> \<le> 50))"
proof -
  have q: "unat (r div 100) * 100 = unat r" if "unat r mod 100 = 0"
    using that by (simp add: unat_div_distrib dvd_div_mult_self mod_eq_0_iff_dvd)
  have special: "(r + 6) div 100 * 1000 = (word_of_nat k + 6) div 100 * 1000" if "unat r = k" for k
    using that by auto
  have ntsc: "unat r = 5994 \<Longrightarrow> (r + 6) div 100 * 1000 = 60000"
    "unat r = 2997 \<Longrightarrow> (r + 6) div 100 * 1000 = 30000"
    "unat r = 11988 \<Longrightarrow> (r + 6) div 100 * 1000 = 119000"
    "unat r = 23976 \<Longrightarrow> (r + 6) div 100 * 1000 = 239000"
    by (simp_all add: special)
  have g: "2 ^ 32 - 50 \<le> unat r \<or> \<bar>int (unat ((r + 50) div 100)) * 100 - int (unat r)\<bar> \<le> 50"
  proof (cases "unat r < 2 ^ 32 - 50")
    case True
    have "unat (r + 50) = unat r + 50" using True by (subst unat_add_lem [THEN iffD1]) auto
    then show ?thesis using round_to_100 [of "unat r"] by (simp add: unat_div_distrib)
  qed simp
  show ?thesis
    unfolding rate_fraction_nat Let_def using q g ntsc by (simp split: if_splits)
qed

end
