(* ===== verification/Streambox_Model.thy ===== *)
theory Streambox_Model
  imports Fifo_Spec Hdmirx
begin

text \<open>
  Path B of the capture source \<open>streamboxsrc\<close> (\<open>gst-plugin-vfmcap/gst_streambox_src.c\<close>): frames of the
  V4L2 device \<open>vdin1\<close> are handed downstream, in 8 bit as they are and in 10 bit after a conversion on
  the GPU into a pool of four output buffers, with one conversion in flight while downstream works on
  the frame before it.

  A DMA buffer is a number. \<open>fdt\<close> says which DMA buffer is behind an open descriptor, \<open>content\<close> which
  captured frame (by its serial number) a DMA buffer holds. Vulkan buffers are imports of DMA buffers,
  so a cache entry and a GPU job name the DMA buffers they touch. The environment is part of the state:
  \<open>drvq\<close> what the driver holds, \<open>gpu\<close> the job running on each slot, \<open>down\<close> the buffers downstream holds.
  Three flags record that the environment left its contract, \<open>env_broke\<close> (the kernel gave out a buffer
  it did not hold, or a descriptor in use), \<open>gpu_timed_out\<close> (a wait for the GPU failed) and
  \<open>stale_release\<close> (downstream released a buffer of an earlier session into a later one);
  \<open>vk_misuse\<close> records a use of Vulkan objects that the GPU is still working on.

  Answers of system calls and of Vulkan are arguments. What happens during a \<open>poll\<close> is a list of turns:
  operations of other threads, the result of the poll and, when the code goes on to it, of \<open>DQBUF\<close>; a
  list of turns that ends before the call returns is the result \<open>None\<close>. Other threads act during polls
  and between calls. The field \<open>queued\<close> of a buffer is written and never read, durations and the
  timing output do not influence anything, and the geometry passed to the shader is not modelled.
\<close>

section \<open>State\<close>

datatype box_fault = Vdin1_bufs_overrun

datatype loan_kind = P010_loan | Vdin1_loan

record loan =
  l_kind :: loan_kind
  l_index :: nat
  l_dmabuf :: nat
  l_serial :: nat

record vk_entry =
  ce_fd :: int
  ce_dmabuf :: nat
  ce_size :: u64
  ce_valid :: bool
  ce_last_used :: u64

record gpu_job =
  j_in :: nat
  j_out :: nat

record box =
  output_p010 :: bool
  num_buffers :: nat
  color_mode :: u32
  box_width :: u32
  box_height :: u32
  fps :: "u32 \<times> u32"
  colorimetry :: string
  vdin1_fd :: bool
  vdin1_bufs :: "int list"
  vdin1_10bit :: bool
  vdin1_pixfmt :: u32
  vdin1_sizeimage :: u32
  vdin1_prev :: "u32 \<times> u32 \<times> u32"
  vdin1_fmt_poll_counter :: u64
  vk_initialized :: bool
  vk_slot :: nat
  vk_frame_count :: u64
  vk_async_pending :: bool
  vk_async_out_pool_idx :: int
  vk_async_vdin1_idx :: nat
  vk_async_in_fd :: int
  vk_input_cache :: "vk_entry list"
  vk_output_pool_cache :: "vk_entry list"
  p010_out_fds :: "int list"
  p010_out_free :: "bool list"
  streaming :: bool
  flushing :: bool
  flush_pipe :: bool
  caps_set :: bool
  frame_count :: u64
  signal_monitor :: bool
  posts :: "(string \<times> hdmi_signal) list"
  fdt :: "int \<rightharpoonup> nat"
  fresh :: nat
  content :: "nat \<Rightarrow> nat"
  drvq :: "nat \<rightharpoonup> nat"
  gpu :: "nat \<Rightarrow> gpu_job option"
  down :: "loan list"
  seq :: nat
  delivered :: "nat list"
  env_broke :: bool
  gpu_timed_out :: bool
  stale_release :: bool
  vk_misuse :: bool

text \<open>The DMA buffers behind capture buffer \<open>i\<close> and output buffer \<open>i\<close>.\<close>

definition vdm :: "box \<Rightarrow> nat \<Rightarrow> nat" where
  "vdm b i = the (fdt b (vdin1_bufs b ! i))"

definition pdm :: "box \<Rightarrow> nat \<Rightarrow> nat" where
  "pdm b i = the (fdt b (p010_out_fds b ! i))"

section \<open>The driver\<close>

text \<open>
  \<open>VIDIOC_QBUF\<close> with the descriptor of buffer \<open>i\<close>: the driver refuses a buffer it already holds.
  \<open>VIDIOC_DQBUF\<close> that returns buffer \<open>i\<close>: the next frame is in it.
\<close>

definition drv_qbuf :: "bool \<Rightarrow> nat \<Rightarrow> box \<Rightarrow> box" where
  "drv_qbuf ok i b =
     (if ok \<and> drvq b i = None then b\<lparr>drvq := (drvq b)(i := fdt b (vdin1_bufs b ! i))\<rparr> else b)"

definition drv_dqbuf :: "nat \<Rightarrow> box \<Rightarrow> box" where
  "drv_dqbuf i b = (case drvq b i of
       Some d \<Rightarrow> b\<lparr>drvq := (drvq b)(i := None), content := (content b)(d := seq b), seq := Suc (seq b)\<rparr>
     | None \<Rightarrow> b\<lparr>env_broke := True\<rparr>)"

definition vdin1_streamoff :: "box \<Rightarrow> box" where
  "vdin1_streamoff b = (if vdin1_fd b then b\<lparr>drvq := Map.empty\<rparr> else b)"

section \<open>The pool of output buffers\<close>

definition pool_put :: "nat \<Rightarrow> box \<Rightarrow> box" where
  "pool_put i b = b\<lparr>p010_out_free := (p010_out_free b)[i := True]\<rparr>"

text \<open>The first free position from \<open>i\<close> on.\<close>

fun pool_first_free :: "bool list \<Rightarrow> nat \<Rightarrow> nat option" where
  "pool_first_free [] i = None"
| "pool_first_free (f # fs) i = (if f then Some i else pool_first_free fs (Suc i))"

definition p010_pool_acquire :: "box \<Rightarrow> (nat \<times> box) option" where
  "p010_pool_acquire b = (case pool_first_free (p010_out_free b) 0 of None \<Rightarrow> None
     | Some i \<Rightarrow> Some (i, b\<lparr>p010_out_free := (p010_out_free b)[i := False]\<rparr>))"

text \<open>The callbacks that run when downstream drops its last reference to a buffer.\<close>

definition p010_buf_release :: "loan \<Rightarrow> box \<Rightarrow> box" where
  "p010_buf_release l b =
     (if l_index l < length (p010_out_free b)
      then pool_put (l_index l)
             (if l_dmabuf l = pdm b (l_index l) then b else b\<lparr>stale_release := True\<rparr>)
      else b)"

definition path_b_buf_release :: "bool \<Rightarrow> loan \<Rightarrow> box \<Rightarrow> box" where
  "path_b_buf_release ok l b =
     (if vdin1_fd b \<and> streaming b \<and> l_index l < length (vdin1_bufs b)
      then drv_qbuf ok (l_index l)
             (if l_dmabuf l = vdm b (l_index l) then b else b\<lparr>stale_release := True\<rparr>)
      else b)"

text \<open>Downstream releases the buffer at position \<open>k\<close> of what it holds.\<close>

definition release_loan :: "nat \<Rightarrow> bool \<Rightarrow> box \<Rightarrow> box" where
  "release_loan k ok b =
     (if k < length (down b) then
        let l = down b ! k; b1 = b\<lparr>down := take k (down b) @ drop (Suc k) (down b)\<rparr> in
        if l_kind l = P010_loan then p010_buf_release l b1 else path_b_buf_release ok l b1
      else b)"

text \<open>A buffer goes downstream.\<close>

definition push_buffer :: "loan_kind \<Rightarrow> nat \<Rightarrow> nat \<Rightarrow> box \<Rightarrow> box" where
  "push_buffer k i d b =
     b\<lparr>down := down b @ [\<lparr>l_kind = k, l_index = i, l_dmabuf = d, l_serial = content b d\<rparr>],
       delivered := delivered b @ [content b d]\<rparr>"

section \<open>Vulkan\<close>

record submit_answer =
  sub_dup :: bool
  sub_import :: bool
  sub_record :: bool
  sub_queue :: bool

text \<open>
  The cache of imported capture buffers, searched by descriptor and size. A new entry takes the next
  position while there are fewer than eight, then the place of the entry used longest ago. When the
  duplicate or the import fails the position stays invalid.
\<close>

fun cache_find :: "vk_entry list \<Rightarrow> int \<Rightarrow> u64 \<Rightarrow> nat \<Rightarrow> nat option" where
  "cache_find [] fd sz i = None"
| "cache_find (e # es) fd sz i =
     (if ce_valid e \<and> ce_fd e = fd \<and> ce_size e = sz then Some i else cache_find es fd sz (Suc i))"

fun cache_oldest :: "vk_entry list \<Rightarrow> u64 \<Rightarrow> nat option \<Rightarrow> nat \<Rightarrow> nat option" where
  "cache_oldest [] oldest slot i = slot"
| "cache_oldest (e # es) oldest slot i =
     (if ce_last_used e < oldest then cache_oldest es (ce_last_used e) (Some i) (Suc i)
      else cache_oldest es oldest slot (Suc i))"

definition invalid_entry :: vk_entry where
  "invalid_entry = \<lparr>ce_fd = - 1, ce_dmabuf = 0, ce_size = 0, ce_valid = False, ce_last_used = 0\<rparr>"

text \<open>Destroying the import of a DMA buffer that a running job uses is a misuse.\<close>

definition job_uses :: "box \<Rightarrow> nat \<Rightarrow> bool" where
  "job_uses b d \<longleftrightarrow> (\<exists>s \<in> {0, 1}. \<exists>j. gpu b s = Some j \<and> (j_in j = d \<or> j_out j = d))"

definition vdin1_vk_cache_entry_destroy :: "vk_entry \<Rightarrow> box \<Rightarrow> box" where
  "vdin1_vk_cache_entry_destroy e b =
     (if ce_valid e \<and> job_uses b (ce_dmabuf e) then b\<lparr>vk_misuse := True\<rparr> else b)"

definition cache_slot :: "box \<Rightarrow> nat \<times> box" where
  "cache_slot b =
     (let es = vk_input_cache b in
      if length es < 8 then (length es, b\<lparr>vk_input_cache := es @ [invalid_entry]\<rparr>)
      else let i = (case cache_oldest es (- 1) None 0 of Some i \<Rightarrow> i | None \<Rightarrow> 0) in
           (i, (vdin1_vk_cache_entry_destroy (es ! i) b)
                 \<lparr>vk_input_cache := es[i := (es ! i)\<lparr>ce_valid := False, ce_fd := - 1\<rparr>]\<rparr>))"

definition vdin1_vk_input_cache_get :: "submit_answer \<Rightarrow> int \<Rightarrow> u64 \<Rightarrow> box \<Rightarrow> nat option \<times> box" where
  "vdin1_vk_input_cache_get a fd sz b =
     (let es = vk_input_cache b in
      case cache_find es fd sz 0 of
        Some i \<Rightarrow> (Some i, b\<lparr>vk_input_cache := es[i := (es ! i)\<lparr>ce_last_used := vk_frame_count b\<rparr>]\<rparr>)
      | None \<Rightarrow>
          let (slot, b1) = cache_slot b in
          if \<not> sub_dup a \<or> \<not> sub_import a then (None, b1)
          else (Some slot, b1\<lparr>vk_input_cache := (vk_input_cache b1)[slot :=
                  \<lparr>ce_fd = fd, ce_dmabuf = the (fdt b fd), ce_size = sz, ce_valid = True,
                   ce_last_used = vk_frame_count b\<rparr>]\<rparr>))"

text \<open>The job running on a slot ends: the output holds the frame of the input.\<close>

definition gpu_finish :: "nat \<Rightarrow> box \<Rightarrow> box" where
  "gpu_finish s b = (case gpu b s of None \<Rightarrow> b
     | Some j \<Rightarrow> b\<lparr>gpu := (gpu b)(s := None), content := (content b)(j_out j := content b (j_in j))\<rparr>)"

definition vdin1_vk_submit_async :: "submit_answer \<Rightarrow> int \<Rightarrow> nat \<Rightarrow> nat \<Rightarrow> box \<Rightarrow> bool \<times> box" where
  "vdin1_vk_submit_async a in_fd out slot b =
     (if \<not> vk_initialized b then (False, b)
      else if length (p010_out_fds b) \<le> out \<or> \<not> ce_valid (vk_output_pool_cache b ! out) then (False, b)
      else case vdin1_vk_input_cache_get a in_fd (ucast (box_width b) * ucast (box_height b) * 5 div 2) b of
        (None, b1) \<Rightarrow> (False, b1)
      | (Some i, b1) \<Rightarrow>
          let b2 = (if gpu b1 slot = None then b1 else b1\<lparr>vk_misuse := True\<rparr>) in
          if sub_record a \<and> sub_queue a then
            (True, b2\<lparr>gpu := (gpu b2)(slot := Some \<lparr>j_in = ce_dmabuf (vk_input_cache b2 ! i),
                                                 j_out = ce_dmabuf (vk_output_pool_cache b2 ! out)\<rparr>)\<rparr>)
          else (False, b2))"

definition vdin1_vk_wait_async :: "bool \<Rightarrow> nat \<Rightarrow> box \<Rightarrow> bool \<times> box" where
  "vdin1_vk_wait_async ok slot b =
     (if ok then (True, gpu_finish slot b) else (False, b\<lparr>gpu_timed_out := True\<rparr>))"

definition vdin1_vk_convert_sync :: "submit_answer \<Rightarrow> bool \<Rightarrow> int \<Rightarrow> nat \<Rightarrow> box \<Rightarrow> bool \<times> box" where
  "vdin1_vk_convert_sync a ok in_fd out b =
     (let slot = vk_slot b; (s, b1) = vdin1_vk_submit_async a in_fd out slot b in
      if \<not> s then (False, b1)
      else let (w, b2) = vdin1_vk_wait_async ok slot b1 in
      if \<not> w then (False, b2) else (True, b2\<lparr>vk_frame_count := vk_frame_count b2 + 1\<rparr>))"

text \<open>\<open>vkDeviceWaitIdle\<close> ends every job before the imports are destroyed.\<close>

definition vdin1_vk_cleanup :: "box \<Rightarrow> box" where
  "vdin1_vk_cleanup b =
     (if \<not> vk_initialized b then b
      else let b1 = gpu_finish 1 (gpu_finish 0 b);
               b2 = fold vdin1_vk_cache_entry_destroy (vk_input_cache b1) b1 in
      b2\<lparr>vk_input_cache := [], vk_initialized := False, vk_async_pending := False\<rparr>)"

definition vdin1_vk_init :: "bool \<Rightarrow> box \<Rightarrow> bool \<times> box" where
  "vdin1_vk_init ok b =
     (if vk_initialized b then (True, b)
      else if \<not> ok then (False, b)
      else (True, b\<lparr>vk_slot := 0, vk_input_cache := [], vk_frame_count := 0, vk_async_pending := False,
              vk_async_out_pool_idx := - 1, vk_async_vdin1_idx := 0, vk_async_in_fd := - 1,
              vk_initialized := True\<rparr>))"

section \<open>Signal events and format changes\<close>

datatype sig_event = Source_change u32 | Other_sig_event

datatype sig_action = Signal_none | Signal_changed | Signal_lost

definition signal_event_step :: "sig_event \<Rightarrow> sig_action \<Rightarrow> sig_action" where
  "signal_event_step e act = (case e of
       Source_change c \<Rightarrow> if c AND 1 \<noteq> 0 then Signal_changed
         else if c = 0 then (if act \<noteq> Signal_changed then Signal_lost else act)
         else act
     | Other_sig_event \<Rightarrow> act)"

text \<open>The events are those waiting at the monitor, all of which are taken.\<close>

definition handle_signal_event :: "sig_event list \<Rightarrow> sig_action" where
  "handle_signal_event evs = fold signal_event_step evs Signal_none"

definition VDIN1_FMT_POLL_INTERVAL :: u64 where
  "VDIN1_FMT_POLL_INTERVAL = 60"

definition vdin1_check_format_change :: "(u32 \<times> u32 \<times> u32) option \<Rightarrow> box \<Rightarrow> bool \<times> box" where
  "vdin1_check_format_change fmt b =
     (let b1 = b\<lparr>vdin1_fmt_poll_counter := vdin1_fmt_poll_counter b + 1\<rparr> in
      if vdin1_fmt_poll_counter b1 mod VDIN1_FMT_POLL_INTERVAL \<noteq> 0 then (False, b1)
      else case fmt of None \<Rightarrow> (False, b1) | Some f \<Rightarrow> (f \<noteq> vdin1_prev b1, b1))"

definition post_signal_change_message :: "string option \<Rightarrow> string \<Rightarrow> box \<Rightarrow> box" where
  "post_signal_change_message file reason b = b\<lparr>posts := posts b @ [(reason, signal_change_info file)]\<rparr>"

section \<open>Flushing\<close>

definition gst_streambox_src_unlock :: "box \<Rightarrow> box" where
  "gst_streambox_src_unlock b = b\<lparr>flushing := True, flush_pipe := True\<rparr>"

definition gst_streambox_src_unlock_stop :: "box \<Rightarrow> box" where
  "gst_streambox_src_unlock_stop b = b\<lparr>flushing := False, flush_pipe := False\<rparr>"

section \<open>Waiting for a frame\<close>

datatype other_op = Other_release nat bool | Other_unlock

primrec other_act :: "other_op \<Rightarrow> box \<Rightarrow> box" where
  "other_act (Other_release k ok) b = release_loan k ok b"
| "other_act Other_unlock b = gst_streambox_src_unlock b"

text \<open>
  The result of \<open>poll\<close>: interrupted, failed, or returned with the events of the monitor (\<open>None\<close> when
  \<open>POLLPRI\<close> is not set) and whether any other descriptor than the flush pipe was reported.
\<close>

datatype poll_result = Poll_eintr | Poll_fail | Poll_ret bool "sig_event list option"

datatype dq_result = Dq_again | Dq_fail | Dq_buf nat

record poll_turn =
  t_others :: "other_op list"
  t_poll :: poll_result
  t_dq :: dq_result

datatype polled = Got_flush | Got_poll_error | Got_signal sig_action | Got_timeout | Got_dq_error
  | Got_frame nat

text \<open>
  The loop from \<open>retry\<close> to a dequeued buffer, with the number of timeouts it allows and of those
  seen. The loop that waits for the second frame is the same with three timeouts instead of five.
\<close>

fun poll_dqbuf :: "nat \<Rightarrow> poll_turn list \<Rightarrow> nat \<Rightarrow> box \<Rightarrow> (polled \<times> poll_turn list \<times> box) option" where
  "poll_dqbuf lim [] n b = (if flushing b then Some (Got_flush, [], b) else None)"
| "poll_dqbuf lim (t # ts) n b =
     (if flushing b then Some (Got_flush, t # ts, b)
      else let b1 = fold other_act (t_others t) b in
      case t_poll t of
        Poll_eintr \<Rightarrow> poll_dqbuf lim ts n b1
      | Poll_fail \<Rightarrow> Some (Got_poll_error, ts, b1)
      | Poll_ret reported pri \<Rightarrow>
          let events = (if signal_monitor b1 then pri else None);
              act = (case events of None \<Rightarrow> Signal_none | Some evs \<Rightarrow> handle_signal_event evs) in
          if flushing b1 \<or> flush_pipe b1 then Some (Got_flush, ts, b1)
          else if act \<noteq> Signal_none then Some (Got_signal act, ts, b1)
          else if \<not> reported \<and> events = None then
            (if lim \<le> Suc n then Some (Got_timeout, ts, b1) else poll_dqbuf lim ts (Suc n) b1)
          else case t_dq t of
              Dq_again \<Rightarrow> poll_dqbuf lim ts n b1
            | Dq_fail \<Rightarrow> Some (Got_dq_error, ts, b1)
            | Dq_buf i \<Rightarrow>
                (let b2 = drv_dqbuf i b1 in
                 if length (vdin1_bufs b2) \<le> i \<or> vdin1_bufs b2 ! i < 0 then Some (Got_dq_error, ts, b2)
                 else Some (Got_frame i, ts, b2)))"

section \<open>Delivering frames\<close>

text \<open>
  The answers of one call of \<open>create\<close>: the format, when it is polled; the text of the receiver's
  info file; the first and the second submission to the GPU, the wait for the GPU, the first and the
  second \<open>QBUF\<close>, and whether the descriptor was duplicated and wrapped.
\<close>

record answers =
  a_fmt :: "(u32 \<times> u32 \<times> u32) option"
  a_info :: "string option"
  a_sub1 :: submit_answer
  a_sub2 :: submit_answer
  a_wait :: bool
  a_q1 :: bool
  a_q2 :: bool
  a_dup :: bool
  a_mem :: bool

text \<open>Waiting for the job in flight, giving back its buffers and posting the reason.\<close>

definition drain_async :: "answers \<Rightarrow> box \<Rightarrow> box" where
  "drain_async a b =
     (let b1 = snd (vdin1_vk_wait_async (a_wait a) (1 - vk_slot b) b);
          i = vk_async_vdin1_idx b1;
          b2 = (if i < length (vdin1_bufs b1) \<and> vdin1_fd b1 then drv_qbuf (a_q1 a) i b1 else b1);
          out = vk_async_out_pool_idx b2;
          b3 = (if 0 \<le> out \<and> nat out < length (p010_out_free b2) then pool_put (nat out) b2 else b2) in
      b3\<lparr>vk_async_pending := False\<rparr>)"

definition clean_exit :: "answers \<Rightarrow> string \<Rightarrow> box \<Rightarrow> flow \<times> box" where
  "clean_exit a reason b =
     (let b1 = (if vdin1_10bit b \<and> vk_async_pending b \<and> vk_initialized b then drain_async a b else b)
      in (Flow_eos, vdin1_streamoff (post_signal_change_message (a_info a) reason b1)))"

definition qbuf_return :: "answers \<Rightarrow> nat \<Rightarrow> box \<Rightarrow> flow \<times> box" where
  "qbuf_return a idx b = (Flow_error, drv_qbuf (a_q2 a) idx b)"

definition count_frame :: "box \<Rightarrow> box" where
  "count_frame b = b\<lparr>frame_count := frame_count b + 1, vk_frame_count := vk_frame_count b + 1\<rparr>"

text \<open>Submitting a conversion and remembering it, the last step of every call that overlaps.\<close>

definition submit_next :: "submit_answer \<Rightarrow> nat \<Rightarrow> nat \<Rightarrow> box \<Rightarrow> bool \<times> box" where
  "submit_next s idx out b =
     (let (ok, b1) = vdin1_vk_submit_async s (vdin1_bufs b ! idx) out (vk_slot b) b in
      if \<not> ok then (False, b1)
      else (True, b1\<lparr>vk_async_pending := True, vk_async_out_pool_idx := int out,
              vk_async_vdin1_idx := idx, vk_async_in_fd := vdin1_bufs b1 ! idx,
              vk_slot := 1 - vk_slot b1\<rparr>))"

text \<open>
  Acquiring an output buffer for a frame and submitting it; when the pool is exhausted or the
  submission fails the frame is dropped: its buffer goes back to the driver. Steps 4 and 5 of a
  frame, and step 5 of priming.
\<close>

definition overlap_frame :: "answers \<Rightarrow> nat \<Rightarrow> box \<Rightarrow> box" where
  "overlap_frame a idx b =
     (case p010_pool_acquire b of
        None \<Rightarrow> drv_qbuf (a_q2 a) idx (b\<lparr>vk_async_pending := False\<rparr>)
      | Some (out, b1) \<Rightarrow>
          let (ok, b2) = submit_next (a_sub2 a) idx out b1 in
          if ok then b2
          else drv_qbuf (a_q2 a) idx ((pool_put out b2)\<lparr>vk_async_pending := False\<rparr>))"

text \<open>The second frame of priming; whatever happens, the first frame is returned.\<close>

definition prime_second :: "answers \<Rightarrow> poll_turn list \<Rightarrow> box \<Rightarrow> box option" where
  "prime_second a ts b =
     (case poll_dqbuf 3 ts 0 b of None \<Rightarrow> None
      | Some (Got_frame idx2, _, b1) \<Rightarrow> Some (overlap_frame a idx2 b1)
      | Some (_, _, b1) \<Rightarrow> Some b1)"

definition create_prime :: "answers \<Rightarrow> nat \<Rightarrow> poll_turn list \<Rightarrow> box \<Rightarrow> (flow \<times> box) option" where
  "create_prime a idx ts b =
     (case p010_pool_acquire b of
        None \<Rightarrow> Some (qbuf_return a idx b)
      | Some (out, b1) \<Rightarrow>
          let (ok, b2) = vdin1_vk_convert_sync (a_sub1 a) (a_wait a) (vdin1_bufs b1 ! idx) out b1 in
          if \<not> ok then Some (qbuf_return a idx (pool_put out b2))
          else let b3 = drv_qbuf (a_q1 a) idx b2 in
          if \<not> a_dup a \<or> \<not> a_mem a then Some (Flow_error, pool_put out b3)
          else (case prime_second a ts (count_frame b3) of None \<Rightarrow> None
                | Some b4 \<Rightarrow> Some (Flow_ok, push_buffer P010_loan out (pdm b3 out) b4)))"

text \<open>
  A frame while a job is in flight: the frame of the job is returned, the new frame submitted. The
  model clears \<open>vk_async_pending\<close> when the wait returns; in the code every path after it sets the flag.
\<close>

definition create_steady :: "answers \<Rightarrow> nat \<Rightarrow> box \<Rightarrow> flow \<times> box" where
  "create_steady a idx b =
     (let out = nat (vk_async_out_pool_idx b);
          pidx = vk_async_vdin1_idx b;
          (ok, b1) = vdin1_vk_wait_async (a_wait a) (1 - vk_slot b) b;
          b2 = b1\<lparr>vk_async_pending := False\<rparr> in
      if \<not> ok then qbuf_return a idx (drv_qbuf (a_q1 a) pidx (pool_put out b2))
      else let b3 = drv_qbuf (a_q1 a) pidx b2 in
      if \<not> a_dup a \<or> \<not> a_mem a then qbuf_return a idx (pool_put out b3)
      else (Flow_ok, push_buffer P010_loan out (pdm b3 out) (overlap_frame a idx (count_frame b3))))"

text \<open>8 bit: the capture buffer itself is lent downstream.\<close>

definition create_8bit :: "answers \<Rightarrow> nat \<Rightarrow> box \<Rightarrow> flow \<times> box" where
  "create_8bit a idx b =
     (if \<not> a_dup a \<or> \<not> a_mem a then qbuf_return a idx b
      else (Flow_ok, push_buffer Vdin1_loan idx (vdm b idx) (b\<lparr>frame_count := frame_count b + 1\<rparr>)))"

definition create_path_b :: "poll_turn list \<Rightarrow> answers \<Rightarrow> box \<Rightarrow> (flow \<times> box) option" where
  "create_path_b ts a b =
     (if \<not> vdin1_fd b then Some (Flow_error, b)
      else let (changed, b1) = vdin1_check_format_change (a_fmt a) (b\<lparr>caps_set := True\<rparr>) in
      if changed then Some (clean_exit a ''format-changed'' b1)
      else case poll_dqbuf 5 ts 0 b1 of None \<Rightarrow> None
        | Some (r, ts', b2) \<Rightarrow>
           (case r of
              Got_flush \<Rightarrow> Some (Flow_flushing, b2)
            | Got_poll_error \<Rightarrow> Some (Flow_error, b2)
            | Got_signal act \<Rightarrow>
                Some (clean_exit a (if act = Signal_lost then ''signal-lost'' else ''signal-changed'') b2)
            | Got_timeout \<Rightarrow> Some (clean_exit a ''signal-timeout'' b2)
            | Got_dq_error \<Rightarrow> Some (Flow_error, b2)
            | Got_frame idx \<Rightarrow>
                if vdin1_10bit b2 then
                  (if \<not> vk_async_pending b2 then create_prime a idx ts' b2 else Some (create_steady a idx b2))
                else Some (create_8bit a idx b2)))"

definition gst_streambox_src_create :: "poll_turn list \<Rightarrow> answers \<Rightarrow> box \<Rightarrow> (flow \<times> box) option" where
  "gst_streambox_src_create ts a b =
     (if \<not> streaming b then Some (Flow_error, b)
      else if flushing b then Some (Flow_flushing, b)
      else create_path_b ts a b)"

section \<open>Starting and stopping\<close>

definition V4L2_PIX_FMT_AMLY :: u32 where
  "V4L2_PIX_FMT_AMLY = 0x594C4D41"

text \<open>
  The answers of \<open>start\<close>. A new DMA buffer is behind the descriptor an allocation returns, and the
  kernel returns descriptors that are not in use.
\<close>

record start_answers =
  sa_pipe :: bool
  sa_open :: bool
  sa_querycap :: bool
  sa_input :: bool
  sa_info :: "string option"
  sa_fmt0 :: "(u32 \<times> u32 \<times> u32) option"
  sa_s_fmt :: bool
  sa_g_fmt :: "(u32 \<times> u32 \<times> u32) option"
  sa_sizeimage :: "u32 option"
  sa_env_color :: "string option"
  sa_reqbufs :: "nat \<Rightarrow> nat option"
  sa_alloc :: "nat \<Rightarrow> int option"
  sa_qbuf :: "nat \<Rightarrow> bool"
  sa_streamon :: bool
  sa_vk_init :: bool
  sa_p010_alloc :: "nat \<Rightarrow> int option"
  sa_p010_dup :: "nat \<Rightarrow> bool"
  sa_p010_import :: "nat \<Rightarrow> bool"
  sa_monitor :: bool
  sa_subscribe :: bool

definition alloc_cma_dmabuf :: "int option \<Rightarrow> box \<Rightarrow> (int \<times> box) option" where
  "alloc_cma_dmabuf r b = (case r of None \<Rightarrow> None
     | Some fd \<Rightarrow> Some (fd, b\<lparr>fdt := (fdt b)(fd \<mapsto> fresh b), fresh := Suc (fresh b),
                            env_broke := (env_broke b \<or> fd < 0 \<or> fdt b fd \<noteq> None)\<rparr>))"

definition close_fd :: "int \<Rightarrow> box \<Rightarrow> box" where
  "close_fd fd b = b\<lparr>fdt := (fdt b)(fd := None)\<rparr>"

text \<open>The loop of \<open>p010_pool_init\<close> over the four buffers.\<close>

fun p010_pool_loop :: "start_answers \<Rightarrow> nat \<Rightarrow> nat \<Rightarrow> box \<Rightarrow> bool \<times> box" where
  "p010_pool_loop a 0 i b = (True, b)"
| "p010_pool_loop a (Suc n) i b =
     (case alloc_cma_dmabuf (sa_p010_alloc a i) b of None \<Rightarrow> (False, b)
      | Some (fd, b1) \<Rightarrow>
          let b2 = b1\<lparr>p010_out_fds := p010_out_fds b1 @ [fd], p010_out_free := p010_out_free b1 @ [True]\<rparr> in
          if \<not> sa_p010_dup a i \<or> \<not> sa_p010_import a i then
            (False, b2\<lparr>vk_output_pool_cache := vk_output_pool_cache b2 @ [invalid_entry]\<rparr>)
          else p010_pool_loop a n (Suc i)
            (b2\<lparr>vk_output_pool_cache := vk_output_pool_cache b2 @
               [\<lparr>ce_fd = fd, ce_dmabuf = the (fdt b2 fd),
                 ce_size = ucast (box_width b2 * box_height b2 * 3), ce_valid = True, ce_last_used = 0\<rparr>]\<rparr>))"

definition p010_pool_init :: "start_answers \<Rightarrow> box \<Rightarrow> bool \<times> box" where
  "p010_pool_init a b =
     p010_pool_loop a 4 0 (b\<lparr>p010_out_fds := [], p010_out_free := [], vk_output_pool_cache := []\<rparr>)"

definition p010_pool_cleanup :: "box \<Rightarrow> box" where
  "p010_pool_cleanup b =
     (let b1 = fold vdin1_vk_cache_entry_destroy (vk_output_pool_cache b) b;
          b2 = fold close_fd (p010_out_fds b1) b1 in
      b2\<lparr>p010_out_fds := [], p010_out_free := [], vk_output_pool_cache := []\<rparr>)"

definition vdin1_set_format :: "start_answers \<Rightarrow> u32 \<Rightarrow> u32 \<Rightarrow> box \<Rightarrow> bool \<times> box" where
  "vdin1_set_format a w h b =
     (if \<not> sa_s_fmt a then (False, b)
      else case sa_g_fmt a of None \<Rightarrow> (False, b)
      | Some (w', h', pf) \<Rightarrow>
          (True, b\<lparr>box_width := w', box_height := h', vdin1_pixfmt := pf,
             vdin1_sizeimage := (case sa_sizeimage a of Some z \<Rightarrow> z
               | None \<Rightarrow> if output_p010 b then w * h * 5 div 2 else w * h * 3 div 2),
             vdin1_10bit := (pf = V4L2_PIX_FMT_AMLY)\<rparr>))"

text \<open>The number granted is not compared with the eight elements of \<open>vdin1_bufs\<close>.\<close>

definition vdin1_reqbufs :: "start_answers \<Rightarrow> nat \<Rightarrow> box \<Rightarrow> bool \<times> box" where
  "vdin1_reqbufs a req_count b = (case sa_reqbufs a req_count of None \<Rightarrow> (False, b)
     | Some n \<Rightarrow> if n < 3 then (False, b) else (True, b\<lparr>vdin1_bufs := replicate n (- 1)\<rparr>))"

fun alloc_dmabufs_loop :: "start_answers \<Rightarrow> nat \<Rightarrow> nat \<Rightarrow> box \<Rightarrow> box_fault + bool \<times> box" where
  "alloc_dmabufs_loop a 0 i b = Inr (True, b)"
| "alloc_dmabufs_loop a (Suc n) i b =
     (case alloc_cma_dmabuf (sa_alloc a i) b of None \<Rightarrow> Inr (False, b)
      | Some (fd, b1) \<Rightarrow>
          if 8 \<le> i then Inl Vdin1_bufs_overrun
          else alloc_dmabufs_loop a n (Suc i) (b1\<lparr>vdin1_bufs := (vdin1_bufs b1)[i := fd]\<rparr>))"

definition vdin1_alloc_dmabufs :: "start_answers \<Rightarrow> box \<Rightarrow> box_fault + bool \<times> box" where
  "vdin1_alloc_dmabufs a b = alloc_dmabufs_loop a (length (vdin1_bufs b)) 0 b"

definition vdin1_free_dmabufs :: "box \<Rightarrow> box_fault + box" where
  "vdin1_free_dmabufs b =
     (if 8 < length (vdin1_bufs b) then Inl Vdin1_bufs_overrun
      else Inr ((fold (\<lambda>fd b. if 0 \<le> fd then close_fd fd b else b) (vdin1_bufs b) b)\<lparr>vdin1_bufs := []\<rparr>))"

fun qbuf_loop :: "start_answers \<Rightarrow> nat \<Rightarrow> nat \<Rightarrow> box \<Rightarrow> bool \<times> box" where
  "qbuf_loop a 0 i b = (True, b)"
| "qbuf_loop a (Suc n) i b =
     (if \<not> sa_qbuf a i then (False, b) else qbuf_loop a n (Suc i) (drv_qbuf True i b))"

definition vdin1_qbuf_all :: "start_answers \<Rightarrow> box \<Rightarrow> bool \<times> box" where
  "vdin1_qbuf_all a b = qbuf_loop a (length (vdin1_bufs b)) 0 b"

text \<open>Closing the device takes back everything the driver held.\<close>

definition close_vdin1 :: "box \<Rightarrow> box" where
  "close_vdin1 b = b\<lparr>vdin1_fd := False, drvq := Map.empty\<rparr>"

definition start_fail :: "box \<Rightarrow> box_fault + bool \<times> box" where
  "start_fail b =
     rbind (vdin1_free_dmabufs (vdin1_vk_cleanup (p010_pool_cleanup (b\<lparr>signal_monitor := False\<rparr>)))) (\<lambda>b1.
       Inr (False, close_vdin1 b1))"

definition source_size :: "start_answers \<Rightarrow> u32 \<times> u32" where
  "source_size a =
     (let (w, h) = (case hdmirx_get_source_resolution (sa_info a) of Some wh \<Rightarrow> wh
        | None \<Rightarrow> (case sa_fmt0 a of Some (w, h, _) \<Rightarrow> (w, h) | None \<Rightarrow> (0, 0)))
      in if w = 0 \<or> h = 0 then (1920, 1080) else (w, h))"

text \<open>Vulkan and the output pool, in 10 bit only.\<close>

definition start_vulkan :: "start_answers \<Rightarrow> box \<Rightarrow> bool \<times> box" where
  "start_vulkan a b =
     (if \<not> vdin1_10bit b then (True, b)
      else case vdin1_vk_init (sa_vk_init a) b of
        (False, b1) \<Rightarrow> (False, vdin1_streamoff b1)
      | (True, b1) \<Rightarrow> (case p010_pool_init a b1 of
            (False, b2) \<Rightarrow> (False, vdin1_streamoff b2)
          | (True, b2) \<Rightarrow> (True, b2)))"

text \<open>Buffers, streaming, Vulkan and the output pool; the result tells whether to go on.\<close>

definition start_buffers :: "start_answers \<Rightarrow> box \<Rightarrow> box_fault + bool \<times> box" where
  "start_buffers a b =
     (case vdin1_reqbufs a (min (num_buffers b) 8) b of (False, b1) \<Rightarrow> Inr (False, b1)
      | (True, b1) \<Rightarrow> rbind (vdin1_alloc_dmabufs a b1) (\<lambda>(ok2, b2).
          if \<not> ok2 then Inr (False, b2)
          else case vdin1_qbuf_all a b2 of (False, b3) \<Rightarrow> Inr (False, b3)
          | (True, b3) \<Rightarrow> if \<not> sa_streamon a then Inr (False, b3) else Inr (start_vulkan a b3)))"

definition start_path_b :: "start_answers \<Rightarrow> box \<Rightarrow> box_fault + bool \<times> box" where
  "start_path_b a b =
     (if \<not> sa_open a then Inr (False, b)
      else let b0 = b\<lparr>vdin1_fd := True\<rparr> in
      if \<not> sa_querycap a \<or> \<not> sa_input a then Inr (False, close_vdin1 b0)
      else let (w, h) = source_size a in
      case vdin1_set_format a w h b0 of
        (False, b1) \<Rightarrow> Inr (False, close_vdin1 b1)
      | (True, b1) \<Rightarrow>
        let b2 = b1\<lparr>vdin1_prev := (box_width b1, box_height b1, vdin1_pixfmt b1), vdin1_fmt_poll_counter := 0,
                    colorimetry := hdmirx_detect_colorimetry (sa_info a) (color_mode b1) Source_vdin1
                      (vdin1_10bit b1) (sa_env_color a)\<rparr> in
        rbind (start_buffers a b2) (\<lambda>(ok, b3).
          if \<not> ok then start_fail b3
          else Inr (True, b3\<lparr>signal_monitor := (sa_monitor a \<and> sa_subscribe a), streaming := True,
            fps := (case hdmirx_get_source_framerate (sa_info a) of Some f \<Rightarrow> f | None \<Rightarrow> (60, 1))\<rparr>)))"

definition gst_streambox_src_start :: "start_answers \<Rightarrow> box \<Rightarrow> box_fault + bool \<times> box" where
  "gst_streambox_src_start a b =
     (if \<not> sa_pipe a then Inr (False, b)
      else start_path_b a (b\<lparr>flushing := False, frame_count := 0, caps_set := False, colorimetry := []\<rparr>))"

definition stop_path_b :: "answers \<Rightarrow> box \<Rightarrow> box_fault + box" where
  "stop_path_b a b =
     (let b1 = (if vk_async_pending b \<and> vk_initialized b then drain_async a b else b);
          b2 = vdin1_vk_cleanup (p010_pool_cleanup b1) in
      rbind (if vdin1_fd b2
             then rbind (vdin1_free_dmabufs (vdin1_streamoff b2)) (\<lambda>b3. Inr (close_vdin1 b3))
             else Inr b2) (\<lambda>b4.
      Inr (b4\<lparr>signal_monitor := False\<rparr>)))"

definition gst_streambox_src_stop :: "answers \<Rightarrow> box \<Rightarrow> box_fault + box" where
  "gst_streambox_src_stop a b =
     rbind (stop_path_b a b) (\<lambda>b1. Inr (b1\<lparr>streaming := False, caps_set := False\<rparr>))"

section \<open>Executions\<close>

text \<open>
  The operations in the order in which the base class and downstream call them. \<open>start\<close> is called on
  a stopped source; calls do not overlap each other, except for what other threads do during polls.
\<close>

datatype box_op = Op_create "poll_turn list" answers flow | Op_release nat bool | Op_unlock | Op_unlock_stop
  | Op_start start_answers bool | Op_stop answers

inductive box_step :: "box \<Rightarrow> box_op \<Rightarrow> box \<Rightarrow> bool" where
  step_create: "gst_streambox_src_create ts a b = Some (r, b') \<Longrightarrow> box_step b (Op_create ts a r) b'"
| step_release: "box_step b (Op_release k ok) (release_loan k ok b)"
| step_unlock: "box_step b Op_unlock (gst_streambox_src_unlock b)"
| step_unlock_stop: "box_step b Op_unlock_stop (gst_streambox_src_unlock_stop b)"
| step_start: "\<not> vdin1_fd b \<Longrightarrow> gst_streambox_src_start a b = Inr (ok, b') \<Longrightarrow> box_step b (Op_start a ok) b'"
| step_stop: "gst_streambox_src_stop a b = Inr b' \<Longrightarrow> box_step b (Op_stop a) b'"

inductive_cases box_step_createE: "box_step b (Op_create ts a r) b'"
inductive_cases box_step_releaseE: "box_step b (Op_release k ok) b'"

end
