(* ===== verification/Streambox_Inv.thy ===== *)
theory Streambox_Inv
  imports Streambox_Model
begin

text \<open>
  The invariant of path B of the capture source and its preservation by the steps from which the
  operations are composed. It says where every buffer is: a capture buffer is with the driver, read
  by the running job, lent downstream or in the hands of the running call, and never in two of these
  places; an output buffer is in exactly one of the pool, the running job, downstream, or the call. It
  also says which frame is in which buffer. \<open>hv\<close> and \<open>hp\<close> are the capture and output buffers the
  running call has in its hands, each with the serial number of the frame it is going to pass on.
\<close>

section \<open>The invariant\<close>

definition env_sound :: "box \<Rightarrow> bool" where
  "env_sound b \<longleftrightarrow> \<not> env_broke b \<and> \<not> gpu_timed_out b \<and> \<not> stale_release b"

type_synonym hand = "(nat \<times> nat option) list"

primrec sers :: "hand \<Rightarrow> nat list" where
  "sers [] = []"
| "sers (x # xs) = (case snd x of None \<Rightarrow> sers xs | Some s \<Rightarrow> s # sers xs)"

text \<open>Buffers, descriptors and imports fit together.\<close>

definition wired :: "box \<Rightarrow> bool" where
  "wired b \<longleftrightarrow>
     length (p010_out_free b) = length (p010_out_fds b) \<and>
     length (vk_output_pool_cache b) = length (p010_out_fds b) \<and>
     set (vdin1_bufs b @ p010_out_fds b) \<subseteq> dom (fdt b) \<and>
     distinct (vdin1_bufs b @ p010_out_fds b) \<and>
     inj_on (fdt b) (dom (fdt b)) \<and>
     (\<forall>fd d. fdt b fd = Some d \<longrightarrow> 0 \<le> fd \<and> d < fresh b) \<and>
     (\<forall>k < length (p010_out_fds b). ce_valid (vk_output_pool_cache b ! k) \<and>
        ce_dmabuf (vk_output_pool_cache b ! k) = pdm b k) \<and>
     (\<forall>e \<in> set (vk_input_cache b). ce_valid e \<longrightarrow> fdt b (ce_fd e) = Some (ce_dmabuf e)) \<and>
     (\<forall>i d. drvq b i = Some d \<longrightarrow> i < length (vdin1_bufs b) \<and> d = vdm b i) \<and>
     length (vdin1_bufs b) \<le> 8 \<and> vk_slot b < 2 \<and>
     (vk_initialized b \<or> vk_input_cache b = []) \<and>
     (\<not> vdin1_fd b \<longrightarrow> vdin1_bufs b = [] \<and> p010_out_fds b = [] \<and> \<not> vk_initialized b)"

text \<open>At most one job runs, it is the remembered one, and it runs on the other slot.\<close>

definition jobs :: "box \<Rightarrow> bool" where
  "jobs b \<longleftrightarrow>
     (vk_async_pending b \<longrightarrow> vk_initialized b \<and> vdin1_10bit b \<and> vk_async_vdin1_idx b < length (vdin1_bufs b) \<and>
        0 \<le> vk_async_out_pool_idx b \<and> nat (vk_async_out_pool_idx b) < length (p010_out_fds b)) \<and>
     (\<forall>s. gpu b s = (if vk_async_pending b \<and> s = 1 - vk_slot b
        then Some \<lparr>j_in = vdm b (vk_async_vdin1_idx b), j_out = pdm b (nat (vk_async_out_pool_idx b))\<rparr>
        else None)) \<and>
     \<not> vk_misuse b"

definition cur_p :: "box \<Rightarrow> nat \<Rightarrow> loan \<Rightarrow> bool" where
  "cur_p b k l \<longleftrightarrow> l_kind l = P010_loan \<and> l_index l = k \<and> l_dmabuf l = pdm b k"

definition cur_v :: "box \<Rightarrow> nat \<Rightarrow> loan \<Rightarrow> bool" where
  "cur_v b i l \<longleftrightarrow> l_kind l = Vdin1_loan \<and> l_index l = i \<and> l_dmabuf l = vdm b i"

definition pool_place :: "hand \<Rightarrow> box \<Rightarrow> nat \<Rightarrow> nat" where
  "pool_place hp b k = of_bool (p010_out_free b ! k) +
     of_bool (vk_async_pending b \<and> nat (vk_async_out_pool_idx b) = k) +
     length (filter (cur_p b k) (down b)) + count_list (map fst hp) k"

definition vdin_place :: "hand \<Rightarrow> box \<Rightarrow> nat \<Rightarrow> nat" where
  "vdin_place hv b i = of_bool (drvq b i \<noteq> None) +
     of_bool (vk_async_pending b \<and> vk_async_vdin1_idx b = i) +
     length (filter (cur_v b i) (down b)) + count_list (map fst hv) i"

definition places :: "hand \<Rightarrow> hand \<Rightarrow> box \<Rightarrow> bool" where
  "places hv hp b \<longleftrightarrow>
     (\<forall>k < length (p010_out_fds b). pool_place hp b k = 1) \<and>
     (\<forall>i < length (vdin1_bufs b). vdin_place hv b i \<le> 1) \<and>
     (\<forall>x \<in> set hp. fst x < length (p010_out_fds b)) \<and>
     (\<forall>x \<in> set hv. fst x < length (vdin1_bufs b))"

text \<open>What downstream holds keeps its frame; a buffer of this session is known by its position.\<close>

definition loan_ok :: "box \<Rightarrow> loan \<Rightarrow> bool" where
  "loan_ok b l \<longleftrightarrow> l_dmabuf l < fresh b \<and> content b (l_dmabuf l) = l_serial l \<and>
     (\<forall>i < length (vdin1_bufs b). l_dmabuf l = vdm b i \<longrightarrow> cur_v b i l) \<and>
     (\<forall>k < length (p010_out_fds b). l_dmabuf l = pdm b k \<longrightarrow> cur_p b k l)"

definition in_hand :: "hand \<Rightarrow> hand \<Rightarrow> box \<Rightarrow> bool" where
  "in_hand hv hp b \<longleftrightarrow>
     (\<forall>i s. (i, Some s) \<in> set hv \<longrightarrow> content b (vdm b i) = s) \<and>
     (\<forall>k s. (k, Some s) \<in> set hp \<longrightarrow> content b (pdm b k) = s)"

text \<open>The frames on their way, oldest first: delivered, converted, being converted, captured.\<close>

definition in_flight :: "box \<Rightarrow> nat list" where
  "in_flight b = (if vk_async_pending b then [content b (vdm b (vk_async_vdin1_idx b))] else [])"

definition line :: "hand \<Rightarrow> hand \<Rightarrow> box \<Rightarrow> nat list" where
  "line hv hp b = delivered b @ sers hp @ in_flight b @ sers hv"

definition ascending :: "nat list \<Rightarrow> nat \<Rightarrow> bool" where
  "ascending xs n \<longleftrightarrow> sorted_wrt (<) xs \<and> (\<forall>x \<in> set xs. x < n)"

definition ordered :: "hand \<Rightarrow> hand \<Rightarrow> box \<Rightarrow> bool" where
  "ordered hv hp b \<longleftrightarrow> ascending (line hv hp b) (seq b)"

definition good :: "hand \<Rightarrow> hand \<Rightarrow> box \<Rightarrow> bool" where
  "good hv hp b \<longleftrightarrow> wired b \<and> jobs b \<and> places hv hp b \<and> (\<forall>l \<in> set (down b). loan_ok b l) \<and>
     in_hand hv hp b \<and> ordered hv hp b"

definition ok :: "hand \<Rightarrow> hand \<Rightarrow> box \<Rightarrow> bool" where
  "ok hv hp b \<longleftrightarrow> (env_sound b \<longrightarrow> good hv hp b)"

section \<open>Fields the invariant does not mention\<close>

text \<open>The DMA buffers of a session change with the descriptors only.\<close>

lemma vdm_frame [simp]:
  "vdm (b\<lparr>flushing := x0\<rparr>) = vdm b"
  "vdm (b\<lparr>flush_pipe := x1\<rparr>) = vdm b"
  "vdm (b\<lparr>caps_set := x2\<rparr>) = vdm b"
  "vdm (b\<lparr>frame_count := x3\<rparr>) = vdm b"
  "vdm (b\<lparr>vk_frame_count := x4\<rparr>) = vdm b"
  "vdm (b\<lparr>vdin1_fmt_poll_counter := x5\<rparr>) = vdm b"
  "vdm (b\<lparr>posts := x6\<rparr>) = vdm b"
  "vdm (b\<lparr>signal_monitor := x7\<rparr>) = vdm b"
  "vdm (b\<lparr>streaming := x8\<rparr>) = vdm b"
  "vdm (b\<lparr>fps := x9\<rparr>) = vdm b"
  "vdm (b\<lparr>colorimetry := x10\<rparr>) = vdm b"
  "vdm (b\<lparr>vdin1_prev := x11\<rparr>) = vdm b"
  "vdm (b\<lparr>vdin1_fd := x12\<rparr>) = vdm b"
  "vdm (b\<lparr>vk_initialized := x13\<rparr>) = vdm b"
  "vdm (b\<lparr>vk_slot := x14\<rparr>) = vdm b"
  "vdm (b\<lparr>vk_async_pending := x15\<rparr>) = vdm b"
  "vdm (b\<lparr>vk_async_out_pool_idx := x16\<rparr>) = vdm b"
  "vdm (b\<lparr>vk_async_vdin1_idx := x17\<rparr>) = vdm b"
  "vdm (b\<lparr>vk_async_in_fd := x18\<rparr>) = vdm b"
  "vdm (b\<lparr>vk_input_cache := x19\<rparr>) = vdm b"
  "vdm (b\<lparr>vk_output_pool_cache := x20\<rparr>) = vdm b"
  "vdm (b\<lparr>p010_out_free := x21\<rparr>) = vdm b"
  "vdm (b\<lparr>content := x22\<rparr>) = vdm b"
  "vdm (b\<lparr>drvq := x23\<rparr>) = vdm b"
  "vdm (b\<lparr>gpu := x24\<rparr>) = vdm b"
  "vdm (b\<lparr>down := x25\<rparr>) = vdm b"
  "vdm (b\<lparr>seq := x26\<rparr>) = vdm b"
  "vdm (b\<lparr>delivered := x27\<rparr>) = vdm b"
  "vdm (b\<lparr>env_broke := x28\<rparr>) = vdm b"
  "vdm (b\<lparr>gpu_timed_out := x29\<rparr>) = vdm b"
  "vdm (b\<lparr>stale_release := x30\<rparr>) = vdm b"
  "vdm (b\<lparr>vk_misuse := x31\<rparr>) = vdm b"
  by (simp_all add: vdm_def fun_eq_iff)

lemma pdm_frame [simp]:
  "pdm (b\<lparr>flushing := x0\<rparr>) = pdm b"
  "pdm (b\<lparr>flush_pipe := x1\<rparr>) = pdm b"
  "pdm (b\<lparr>caps_set := x2\<rparr>) = pdm b"
  "pdm (b\<lparr>frame_count := x3\<rparr>) = pdm b"
  "pdm (b\<lparr>vk_frame_count := x4\<rparr>) = pdm b"
  "pdm (b\<lparr>vdin1_fmt_poll_counter := x5\<rparr>) = pdm b"
  "pdm (b\<lparr>posts := x6\<rparr>) = pdm b"
  "pdm (b\<lparr>signal_monitor := x7\<rparr>) = pdm b"
  "pdm (b\<lparr>streaming := x8\<rparr>) = pdm b"
  "pdm (b\<lparr>fps := x9\<rparr>) = pdm b"
  "pdm (b\<lparr>colorimetry := x10\<rparr>) = pdm b"
  "pdm (b\<lparr>vdin1_prev := x11\<rparr>) = pdm b"
  "pdm (b\<lparr>vdin1_fd := x12\<rparr>) = pdm b"
  "pdm (b\<lparr>vk_initialized := x13\<rparr>) = pdm b"
  "pdm (b\<lparr>vk_slot := x14\<rparr>) = pdm b"
  "pdm (b\<lparr>vk_async_pending := x15\<rparr>) = pdm b"
  "pdm (b\<lparr>vk_async_out_pool_idx := x16\<rparr>) = pdm b"
  "pdm (b\<lparr>vk_async_vdin1_idx := x17\<rparr>) = pdm b"
  "pdm (b\<lparr>vk_async_in_fd := x18\<rparr>) = pdm b"
  "pdm (b\<lparr>vk_input_cache := x19\<rparr>) = pdm b"
  "pdm (b\<lparr>vk_output_pool_cache := x20\<rparr>) = pdm b"
  "pdm (b\<lparr>p010_out_free := x21\<rparr>) = pdm b"
  "pdm (b\<lparr>content := x22\<rparr>) = pdm b"
  "pdm (b\<lparr>drvq := x23\<rparr>) = pdm b"
  "pdm (b\<lparr>gpu := x24\<rparr>) = pdm b"
  "pdm (b\<lparr>down := x25\<rparr>) = pdm b"
  "pdm (b\<lparr>seq := x26\<rparr>) = pdm b"
  "pdm (b\<lparr>delivered := x27\<rparr>) = pdm b"
  "pdm (b\<lparr>env_broke := x28\<rparr>) = pdm b"
  "pdm (b\<lparr>gpu_timed_out := x29\<rparr>) = pdm b"
  "pdm (b\<lparr>stale_release := x30\<rparr>) = pdm b"
  "pdm (b\<lparr>vk_misuse := x31\<rparr>) = pdm b"
  by (simp_all add: pdm_def fun_eq_iff)

lemma cur_p_cong: "pdm b' = pdm b \<Longrightarrow> cur_p b' = cur_p b"
  by (simp add: cur_p_def fun_eq_iff)

lemma cur_v_cong: "vdm b' = vdm b \<Longrightarrow> cur_v b' = cur_v b"
  by (simp add: cur_v_def fun_eq_iff)

lemma cur_p_frame [simp]:
  "cur_p (b\<lparr>flushing := x0\<rparr>) = cur_p b"
  "cur_p (b\<lparr>flush_pipe := x1\<rparr>) = cur_p b"
  "cur_p (b\<lparr>caps_set := x2\<rparr>) = cur_p b"
  "cur_p (b\<lparr>frame_count := x3\<rparr>) = cur_p b"
  "cur_p (b\<lparr>vk_frame_count := x4\<rparr>) = cur_p b"
  "cur_p (b\<lparr>vdin1_fmt_poll_counter := x5\<rparr>) = cur_p b"
  "cur_p (b\<lparr>posts := x6\<rparr>) = cur_p b"
  "cur_p (b\<lparr>signal_monitor := x7\<rparr>) = cur_p b"
  "cur_p (b\<lparr>streaming := x8\<rparr>) = cur_p b"
  "cur_p (b\<lparr>fps := x9\<rparr>) = cur_p b"
  "cur_p (b\<lparr>colorimetry := x10\<rparr>) = cur_p b"
  "cur_p (b\<lparr>vdin1_prev := x11\<rparr>) = cur_p b"
  "cur_p (b\<lparr>vdin1_fd := x12\<rparr>) = cur_p b"
  "cur_p (b\<lparr>vk_initialized := x13\<rparr>) = cur_p b"
  "cur_p (b\<lparr>vk_slot := x14\<rparr>) = cur_p b"
  "cur_p (b\<lparr>vk_async_pending := x15\<rparr>) = cur_p b"
  "cur_p (b\<lparr>vk_async_out_pool_idx := x16\<rparr>) = cur_p b"
  "cur_p (b\<lparr>vk_async_vdin1_idx := x17\<rparr>) = cur_p b"
  "cur_p (b\<lparr>vk_async_in_fd := x18\<rparr>) = cur_p b"
  "cur_p (b\<lparr>vk_input_cache := x19\<rparr>) = cur_p b"
  "cur_p (b\<lparr>vk_output_pool_cache := x20\<rparr>) = cur_p b"
  "cur_p (b\<lparr>p010_out_free := x21\<rparr>) = cur_p b"
  "cur_p (b\<lparr>content := x22\<rparr>) = cur_p b"
  "cur_p (b\<lparr>drvq := x23\<rparr>) = cur_p b"
  "cur_p (b\<lparr>gpu := x24\<rparr>) = cur_p b"
  "cur_p (b\<lparr>down := x25\<rparr>) = cur_p b"
  "cur_p (b\<lparr>seq := x26\<rparr>) = cur_p b"
  "cur_p (b\<lparr>delivered := x27\<rparr>) = cur_p b"
  "cur_p (b\<lparr>env_broke := x28\<rparr>) = cur_p b"
  "cur_p (b\<lparr>gpu_timed_out := x29\<rparr>) = cur_p b"
  "cur_p (b\<lparr>stale_release := x30\<rparr>) = cur_p b"
  "cur_p (b\<lparr>vk_misuse := x31\<rparr>) = cur_p b"
  by (rule cur_p_cong; simp)+

lemma cur_v_frame [simp]:
  "cur_v (b\<lparr>flushing := x0\<rparr>) = cur_v b"
  "cur_v (b\<lparr>flush_pipe := x1\<rparr>) = cur_v b"
  "cur_v (b\<lparr>caps_set := x2\<rparr>) = cur_v b"
  "cur_v (b\<lparr>frame_count := x3\<rparr>) = cur_v b"
  "cur_v (b\<lparr>vk_frame_count := x4\<rparr>) = cur_v b"
  "cur_v (b\<lparr>vdin1_fmt_poll_counter := x5\<rparr>) = cur_v b"
  "cur_v (b\<lparr>posts := x6\<rparr>) = cur_v b"
  "cur_v (b\<lparr>signal_monitor := x7\<rparr>) = cur_v b"
  "cur_v (b\<lparr>streaming := x8\<rparr>) = cur_v b"
  "cur_v (b\<lparr>fps := x9\<rparr>) = cur_v b"
  "cur_v (b\<lparr>colorimetry := x10\<rparr>) = cur_v b"
  "cur_v (b\<lparr>vdin1_prev := x11\<rparr>) = cur_v b"
  "cur_v (b\<lparr>vdin1_fd := x12\<rparr>) = cur_v b"
  "cur_v (b\<lparr>vk_initialized := x13\<rparr>) = cur_v b"
  "cur_v (b\<lparr>vk_slot := x14\<rparr>) = cur_v b"
  "cur_v (b\<lparr>vk_async_pending := x15\<rparr>) = cur_v b"
  "cur_v (b\<lparr>vk_async_out_pool_idx := x16\<rparr>) = cur_v b"
  "cur_v (b\<lparr>vk_async_vdin1_idx := x17\<rparr>) = cur_v b"
  "cur_v (b\<lparr>vk_async_in_fd := x18\<rparr>) = cur_v b"
  "cur_v (b\<lparr>vk_input_cache := x19\<rparr>) = cur_v b"
  "cur_v (b\<lparr>vk_output_pool_cache := x20\<rparr>) = cur_v b"
  "cur_v (b\<lparr>p010_out_free := x21\<rparr>) = cur_v b"
  "cur_v (b\<lparr>content := x22\<rparr>) = cur_v b"
  "cur_v (b\<lparr>drvq := x23\<rparr>) = cur_v b"
  "cur_v (b\<lparr>gpu := x24\<rparr>) = cur_v b"
  "cur_v (b\<lparr>down := x25\<rparr>) = cur_v b"
  "cur_v (b\<lparr>seq := x26\<rparr>) = cur_v b"
  "cur_v (b\<lparr>delivered := x27\<rparr>) = cur_v b"
  "cur_v (b\<lparr>env_broke := x28\<rparr>) = cur_v b"
  "cur_v (b\<lparr>gpu_timed_out := x29\<rparr>) = cur_v b"
  "cur_v (b\<lparr>stale_release := x30\<rparr>) = cur_v b"
  "cur_v (b\<lparr>vk_misuse := x31\<rparr>) = cur_v b"
  by (rule cur_v_cong; simp)+

text \<open>The fields the invariant reads.\<close>

lemma ok_cong:
  assumes "vdin1_fd b' = vdin1_fd b"
    "vdin1_10bit b' = vdin1_10bit b"
    "vdin1_bufs b' = vdin1_bufs b"
    "vk_initialized b' = vk_initialized b"
    "vk_slot b' = vk_slot b"
    "vk_async_pending b' = vk_async_pending b"
    "vk_async_out_pool_idx b' = vk_async_out_pool_idx b"
    "vk_async_vdin1_idx b' = vk_async_vdin1_idx b"
    "vk_input_cache b' = vk_input_cache b"
    "vk_output_pool_cache b' = vk_output_pool_cache b"
    "p010_out_fds b' = p010_out_fds b"
    "p010_out_free b' = p010_out_free b"
    "fdt b' = fdt b"
    "fresh b' = fresh b"
    "content b' = content b"
    "drvq b' = drvq b"
    "gpu b' = gpu b"
    "down b' = down b"
    "seq b' = seq b"
    "delivered b' = delivered b"
    "env_broke b' = env_broke b"
    "gpu_timed_out b' = gpu_timed_out b"
    "stale_release b' = stale_release b"
    "vk_misuse b' = vk_misuse b"
  shows "ok hv hp b' = ok hv hp b"
proof -
  have d: "vdm b' = vdm b" "pdm b' = pdm b" using assms by (simp_all add: vdm_def pdm_def fun_eq_iff)
  have c: "cur_p b' = cur_p b" "cur_v b' = cur_v b" by (rule cur_p_cong cur_v_cong, rule d)+
  show ?thesis using assms d c
    by (simp add: ok_def good_def env_sound_def wired_def jobs_def places_def pool_place_def vdin_place_def
        loan_ok_def in_hand_def ordered_def line_def in_flight_def)
qed

lemma ok_frame [simp]:
  "ok hv hp (b\<lparr>flushing := x0\<rparr>) = ok hv hp b"
  "ok hv hp (b\<lparr>flush_pipe := x1\<rparr>) = ok hv hp b"
  "ok hv hp (b\<lparr>caps_set := x2\<rparr>) = ok hv hp b"
  "ok hv hp (b\<lparr>frame_count := x3\<rparr>) = ok hv hp b"
  "ok hv hp (b\<lparr>vk_frame_count := x4\<rparr>) = ok hv hp b"
  "ok hv hp (b\<lparr>vdin1_fmt_poll_counter := x5\<rparr>) = ok hv hp b"
  "ok hv hp (b\<lparr>posts := x6\<rparr>) = ok hv hp b"
  "ok hv hp (b\<lparr>signal_monitor := x7\<rparr>) = ok hv hp b"
  "ok hv hp (b\<lparr>streaming := x8\<rparr>) = ok hv hp b"
  "ok hv hp (b\<lparr>fps := x9\<rparr>) = ok hv hp b"
  "ok hv hp (b\<lparr>colorimetry := x10\<rparr>) = ok hv hp b"
  "ok hv hp (b\<lparr>vdin1_prev := x11\<rparr>) = ok hv hp b"
  "ok hv hp (b\<lparr>vk_async_in_fd := x12\<rparr>) = ok hv hp b"
  "ok hv hp (b\<lparr>box_width := x13\<rparr>) = ok hv hp b"
  "ok hv hp (b\<lparr>box_height := x14\<rparr>) = ok hv hp b"
  "ok hv hp (b\<lparr>vdin1_pixfmt := x15\<rparr>) = ok hv hp b"
  "ok hv hp (b\<lparr>vdin1_sizeimage := x16\<rparr>) = ok hv hp b"
  by (rule ok_cong; simp)+

text \<open>Updates that leave a part of the invariant alone.\<close>

lemma wired_frame [simp]:
  "wired (b\<lparr>vk_async_pending := x0\<rparr>) = wired b"
  "wired (b\<lparr>vk_async_out_pool_idx := x1\<rparr>) = wired b"
  "wired (b\<lparr>vk_async_vdin1_idx := x2\<rparr>) = wired b"
  "wired (b\<lparr>content := x3\<rparr>) = wired b"
  "wired (b\<lparr>gpu := x4\<rparr>) = wired b"
  "wired (b\<lparr>down := x5\<rparr>) = wired b"
  "wired (b\<lparr>seq := x6\<rparr>) = wired b"
  "wired (b\<lparr>delivered := x7\<rparr>) = wired b"
  "wired (b\<lparr>env_broke := x8\<rparr>) = wired b"
  "wired (b\<lparr>gpu_timed_out := x9\<rparr>) = wired b"
  "wired (b\<lparr>stale_release := x10\<rparr>) = wired b"
  "wired (b\<lparr>vk_misuse := x11\<rparr>) = wired b"
  "wired (b\<lparr>vk_frame_count := x12\<rparr>) = wired b"
  "wired (b\<lparr>vk_async_in_fd := x13\<rparr>) = wired b"
  by (simp_all add: wired_def)

lemma jobs_frame [simp]:
  "jobs (b\<lparr>vk_input_cache := x0\<rparr>) = jobs b"
  "jobs (b\<lparr>vk_output_pool_cache := x1\<rparr>) = jobs b"
  "jobs (b\<lparr>p010_out_free := x2\<rparr>) = jobs b"
  "jobs (b\<lparr>content := x3\<rparr>) = jobs b"
  "jobs (b\<lparr>drvq := x4\<rparr>) = jobs b"
  "jobs (b\<lparr>down := x5\<rparr>) = jobs b"
  "jobs (b\<lparr>seq := x6\<rparr>) = jobs b"
  "jobs (b\<lparr>delivered := x7\<rparr>) = jobs b"
  "jobs (b\<lparr>env_broke := x8\<rparr>) = jobs b"
  "jobs (b\<lparr>gpu_timed_out := x9\<rparr>) = jobs b"
  "jobs (b\<lparr>stale_release := x10\<rparr>) = jobs b"
  "jobs (b\<lparr>vk_frame_count := x11\<rparr>) = jobs b"
  "jobs (b\<lparr>vk_async_in_fd := x12\<rparr>) = jobs b"
  by (simp_all add: jobs_def)

lemma pool_place_frame [simp]:
  "pool_place hp (b\<lparr>vk_initialized := x0\<rparr>) = pool_place hp b"
  "pool_place hp (b\<lparr>vk_slot := x1\<rparr>) = pool_place hp b"
  "pool_place hp (b\<lparr>vk_async_vdin1_idx := x2\<rparr>) = pool_place hp b"
  "pool_place hp (b\<lparr>vk_input_cache := x3\<rparr>) = pool_place hp b"
  "pool_place hp (b\<lparr>vk_output_pool_cache := x4\<rparr>) = pool_place hp b"
  "pool_place hp (b\<lparr>content := x5\<rparr>) = pool_place hp b"
  "pool_place hp (b\<lparr>drvq := x6\<rparr>) = pool_place hp b"
  "pool_place hp (b\<lparr>gpu := x7\<rparr>) = pool_place hp b"
  "pool_place hp (b\<lparr>seq := x8\<rparr>) = pool_place hp b"
  "pool_place hp (b\<lparr>delivered := x9\<rparr>) = pool_place hp b"
  "pool_place hp (b\<lparr>env_broke := x10\<rparr>) = pool_place hp b"
  "pool_place hp (b\<lparr>gpu_timed_out := x11\<rparr>) = pool_place hp b"
  "pool_place hp (b\<lparr>stale_release := x12\<rparr>) = pool_place hp b"
  "pool_place hp (b\<lparr>vk_misuse := x13\<rparr>) = pool_place hp b"
  "pool_place hp (b\<lparr>vk_frame_count := x14\<rparr>) = pool_place hp b"
  "pool_place hp (b\<lparr>vk_async_in_fd := x15\<rparr>) = pool_place hp b"
  by (simp_all add: pool_place_def fun_eq_iff)

lemma vdin_place_frame [simp]:
  "vdin_place hv (b\<lparr>vk_initialized := x0\<rparr>) = vdin_place hv b"
  "vdin_place hv (b\<lparr>vk_slot := x1\<rparr>) = vdin_place hv b"
  "vdin_place hv (b\<lparr>vk_async_out_pool_idx := x2\<rparr>) = vdin_place hv b"
  "vdin_place hv (b\<lparr>vk_input_cache := x3\<rparr>) = vdin_place hv b"
  "vdin_place hv (b\<lparr>vk_output_pool_cache := x4\<rparr>) = vdin_place hv b"
  "vdin_place hv (b\<lparr>p010_out_free := x5\<rparr>) = vdin_place hv b"
  "vdin_place hv (b\<lparr>content := x6\<rparr>) = vdin_place hv b"
  "vdin_place hv (b\<lparr>gpu := x7\<rparr>) = vdin_place hv b"
  "vdin_place hv (b\<lparr>seq := x8\<rparr>) = vdin_place hv b"
  "vdin_place hv (b\<lparr>delivered := x9\<rparr>) = vdin_place hv b"
  "vdin_place hv (b\<lparr>env_broke := x10\<rparr>) = vdin_place hv b"
  "vdin_place hv (b\<lparr>gpu_timed_out := x11\<rparr>) = vdin_place hv b"
  "vdin_place hv (b\<lparr>stale_release := x12\<rparr>) = vdin_place hv b"
  "vdin_place hv (b\<lparr>vk_misuse := x13\<rparr>) = vdin_place hv b"
  "vdin_place hv (b\<lparr>vk_frame_count := x14\<rparr>) = vdin_place hv b"
  "vdin_place hv (b\<lparr>vk_async_in_fd := x15\<rparr>) = vdin_place hv b"
  by (simp_all add: vdin_place_def fun_eq_iff)

lemma loan_ok_frame [simp]:
  "loan_ok (b\<lparr>vk_initialized := x0\<rparr>) = loan_ok b"
  "loan_ok (b\<lparr>vk_slot := x1\<rparr>) = loan_ok b"
  "loan_ok (b\<lparr>vk_async_pending := x2\<rparr>) = loan_ok b"
  "loan_ok (b\<lparr>vk_async_out_pool_idx := x3\<rparr>) = loan_ok b"
  "loan_ok (b\<lparr>vk_async_vdin1_idx := x4\<rparr>) = loan_ok b"
  "loan_ok (b\<lparr>vk_input_cache := x5\<rparr>) = loan_ok b"
  "loan_ok (b\<lparr>vk_output_pool_cache := x6\<rparr>) = loan_ok b"
  "loan_ok (b\<lparr>p010_out_free := x7\<rparr>) = loan_ok b"
  "loan_ok (b\<lparr>drvq := x8\<rparr>) = loan_ok b"
  "loan_ok (b\<lparr>gpu := x9\<rparr>) = loan_ok b"
  "loan_ok (b\<lparr>down := x10\<rparr>) = loan_ok b"
  "loan_ok (b\<lparr>seq := x11\<rparr>) = loan_ok b"
  "loan_ok (b\<lparr>delivered := x12\<rparr>) = loan_ok b"
  "loan_ok (b\<lparr>env_broke := x13\<rparr>) = loan_ok b"
  "loan_ok (b\<lparr>gpu_timed_out := x14\<rparr>) = loan_ok b"
  "loan_ok (b\<lparr>stale_release := x15\<rparr>) = loan_ok b"
  "loan_ok (b\<lparr>vk_misuse := x16\<rparr>) = loan_ok b"
  "loan_ok (b\<lparr>vk_frame_count := x17\<rparr>) = loan_ok b"
  "loan_ok (b\<lparr>vk_async_in_fd := x18\<rparr>) = loan_ok b"
  by (simp_all add: loan_ok_def fun_eq_iff)

lemma in_hand_frame [simp]:
  "in_hand hv hp (b\<lparr>vk_initialized := x0\<rparr>) = in_hand hv hp b"
  "in_hand hv hp (b\<lparr>vk_slot := x1\<rparr>) = in_hand hv hp b"
  "in_hand hv hp (b\<lparr>vk_async_pending := x2\<rparr>) = in_hand hv hp b"
  "in_hand hv hp (b\<lparr>vk_async_out_pool_idx := x3\<rparr>) = in_hand hv hp b"
  "in_hand hv hp (b\<lparr>vk_async_vdin1_idx := x4\<rparr>) = in_hand hv hp b"
  "in_hand hv hp (b\<lparr>vk_input_cache := x5\<rparr>) = in_hand hv hp b"
  "in_hand hv hp (b\<lparr>vk_output_pool_cache := x6\<rparr>) = in_hand hv hp b"
  "in_hand hv hp (b\<lparr>p010_out_free := x7\<rparr>) = in_hand hv hp b"
  "in_hand hv hp (b\<lparr>drvq := x8\<rparr>) = in_hand hv hp b"
  "in_hand hv hp (b\<lparr>gpu := x9\<rparr>) = in_hand hv hp b"
  "in_hand hv hp (b\<lparr>down := x10\<rparr>) = in_hand hv hp b"
  "in_hand hv hp (b\<lparr>seq := x11\<rparr>) = in_hand hv hp b"
  "in_hand hv hp (b\<lparr>delivered := x12\<rparr>) = in_hand hv hp b"
  "in_hand hv hp (b\<lparr>env_broke := x13\<rparr>) = in_hand hv hp b"
  "in_hand hv hp (b\<lparr>gpu_timed_out := x14\<rparr>) = in_hand hv hp b"
  "in_hand hv hp (b\<lparr>stale_release := x15\<rparr>) = in_hand hv hp b"
  "in_hand hv hp (b\<lparr>vk_misuse := x16\<rparr>) = in_hand hv hp b"
  "in_hand hv hp (b\<lparr>vk_frame_count := x17\<rparr>) = in_hand hv hp b"
  "in_hand hv hp (b\<lparr>vk_async_in_fd := x18\<rparr>) = in_hand hv hp b"
  by (simp_all add: in_hand_def)

lemma line_frame [simp]:
  "line hv hp (b\<lparr>vk_initialized := x0\<rparr>) = line hv hp b"
  "line hv hp (b\<lparr>vk_slot := x1\<rparr>) = line hv hp b"
  "line hv hp (b\<lparr>vk_async_out_pool_idx := x2\<rparr>) = line hv hp b"
  "line hv hp (b\<lparr>vk_input_cache := x3\<rparr>) = line hv hp b"
  "line hv hp (b\<lparr>vk_output_pool_cache := x4\<rparr>) = line hv hp b"
  "line hv hp (b\<lparr>p010_out_free := x5\<rparr>) = line hv hp b"
  "line hv hp (b\<lparr>drvq := x6\<rparr>) = line hv hp b"
  "line hv hp (b\<lparr>gpu := x7\<rparr>) = line hv hp b"
  "line hv hp (b\<lparr>down := x8\<rparr>) = line hv hp b"
  "line hv hp (b\<lparr>seq := x9\<rparr>) = line hv hp b"
  "line hv hp (b\<lparr>env_broke := x10\<rparr>) = line hv hp b"
  "line hv hp (b\<lparr>gpu_timed_out := x11\<rparr>) = line hv hp b"
  "line hv hp (b\<lparr>stale_release := x12\<rparr>) = line hv hp b"
  "line hv hp (b\<lparr>vk_misuse := x13\<rparr>) = line hv hp b"
  "line hv hp (b\<lparr>vk_frame_count := x14\<rparr>) = line hv hp b"
  "line hv hp (b\<lparr>vk_async_in_fd := x15\<rparr>) = line hv hp b"
  by (simp_all add: line_def in_flight_def)

text \<open>What the steps leave alone.\<close>

lemma drv_qbuf_sel [simp]:
  "output_p010 (drv_qbuf q i b) = output_p010 b"
  "num_buffers (drv_qbuf q i b) = num_buffers b"
  "color_mode (drv_qbuf q i b) = color_mode b"
  "box_width (drv_qbuf q i b) = box_width b"
  "box_height (drv_qbuf q i b) = box_height b"
  "fps (drv_qbuf q i b) = fps b"
  "colorimetry (drv_qbuf q i b) = colorimetry b"
  "vdin1_fd (drv_qbuf q i b) = vdin1_fd b"
  "vdin1_bufs (drv_qbuf q i b) = vdin1_bufs b"
  "vdin1_10bit (drv_qbuf q i b) = vdin1_10bit b"
  "vdin1_pixfmt (drv_qbuf q i b) = vdin1_pixfmt b"
  "vdin1_sizeimage (drv_qbuf q i b) = vdin1_sizeimage b"
  "vdin1_prev (drv_qbuf q i b) = vdin1_prev b"
  "vdin1_fmt_poll_counter (drv_qbuf q i b) = vdin1_fmt_poll_counter b"
  "vk_initialized (drv_qbuf q i b) = vk_initialized b"
  "vk_slot (drv_qbuf q i b) = vk_slot b"
  "vk_frame_count (drv_qbuf q i b) = vk_frame_count b"
  "vk_async_pending (drv_qbuf q i b) = vk_async_pending b"
  "vk_async_out_pool_idx (drv_qbuf q i b) = vk_async_out_pool_idx b"
  "vk_async_vdin1_idx (drv_qbuf q i b) = vk_async_vdin1_idx b"
  "vk_async_in_fd (drv_qbuf q i b) = vk_async_in_fd b"
  "vk_input_cache (drv_qbuf q i b) = vk_input_cache b"
  "vk_output_pool_cache (drv_qbuf q i b) = vk_output_pool_cache b"
  "p010_out_fds (drv_qbuf q i b) = p010_out_fds b"
  "p010_out_free (drv_qbuf q i b) = p010_out_free b"
  "streaming (drv_qbuf q i b) = streaming b"
  "flushing (drv_qbuf q i b) = flushing b"
  "flush_pipe (drv_qbuf q i b) = flush_pipe b"
  "caps_set (drv_qbuf q i b) = caps_set b"
  "frame_count (drv_qbuf q i b) = frame_count b"
  "signal_monitor (drv_qbuf q i b) = signal_monitor b"
  "posts (drv_qbuf q i b) = posts b"
  "fdt (drv_qbuf q i b) = fdt b"
  "fresh (drv_qbuf q i b) = fresh b"
  "content (drv_qbuf q i b) = content b"
  "gpu (drv_qbuf q i b) = gpu b"
  "down (drv_qbuf q i b) = down b"
  "seq (drv_qbuf q i b) = seq b"
  "delivered (drv_qbuf q i b) = delivered b"
  "env_broke (drv_qbuf q i b) = env_broke b"
  "gpu_timed_out (drv_qbuf q i b) = gpu_timed_out b"
  "stale_release (drv_qbuf q i b) = stale_release b"
  "vk_misuse (drv_qbuf q i b) = vk_misuse b"
  by (simp_all add: drv_qbuf_def)

lemma pool_put_sel [simp]:
  "output_p010 (pool_put k b) = output_p010 b"
  "num_buffers (pool_put k b) = num_buffers b"
  "color_mode (pool_put k b) = color_mode b"
  "box_width (pool_put k b) = box_width b"
  "box_height (pool_put k b) = box_height b"
  "fps (pool_put k b) = fps b"
  "colorimetry (pool_put k b) = colorimetry b"
  "vdin1_fd (pool_put k b) = vdin1_fd b"
  "vdin1_bufs (pool_put k b) = vdin1_bufs b"
  "vdin1_10bit (pool_put k b) = vdin1_10bit b"
  "vdin1_pixfmt (pool_put k b) = vdin1_pixfmt b"
  "vdin1_sizeimage (pool_put k b) = vdin1_sizeimage b"
  "vdin1_prev (pool_put k b) = vdin1_prev b"
  "vdin1_fmt_poll_counter (pool_put k b) = vdin1_fmt_poll_counter b"
  "vk_initialized (pool_put k b) = vk_initialized b"
  "vk_slot (pool_put k b) = vk_slot b"
  "vk_frame_count (pool_put k b) = vk_frame_count b"
  "vk_async_pending (pool_put k b) = vk_async_pending b"
  "vk_async_out_pool_idx (pool_put k b) = vk_async_out_pool_idx b"
  "vk_async_vdin1_idx (pool_put k b) = vk_async_vdin1_idx b"
  "vk_async_in_fd (pool_put k b) = vk_async_in_fd b"
  "vk_input_cache (pool_put k b) = vk_input_cache b"
  "vk_output_pool_cache (pool_put k b) = vk_output_pool_cache b"
  "p010_out_fds (pool_put k b) = p010_out_fds b"
  "streaming (pool_put k b) = streaming b"
  "flushing (pool_put k b) = flushing b"
  "flush_pipe (pool_put k b) = flush_pipe b"
  "caps_set (pool_put k b) = caps_set b"
  "frame_count (pool_put k b) = frame_count b"
  "signal_monitor (pool_put k b) = signal_monitor b"
  "posts (pool_put k b) = posts b"
  "fdt (pool_put k b) = fdt b"
  "fresh (pool_put k b) = fresh b"
  "content (pool_put k b) = content b"
  "drvq (pool_put k b) = drvq b"
  "gpu (pool_put k b) = gpu b"
  "down (pool_put k b) = down b"
  "seq (pool_put k b) = seq b"
  "delivered (pool_put k b) = delivered b"
  "env_broke (pool_put k b) = env_broke b"
  "gpu_timed_out (pool_put k b) = gpu_timed_out b"
  "stale_release (pool_put k b) = stale_release b"
  "vk_misuse (pool_put k b) = vk_misuse b"
  by (simp_all add: pool_put_def)

lemma gpu_finish_sel [simp]:
  "output_p010 (gpu_finish s b) = output_p010 b"
  "num_buffers (gpu_finish s b) = num_buffers b"
  "color_mode (gpu_finish s b) = color_mode b"
  "box_width (gpu_finish s b) = box_width b"
  "box_height (gpu_finish s b) = box_height b"
  "fps (gpu_finish s b) = fps b"
  "colorimetry (gpu_finish s b) = colorimetry b"
  "vdin1_fd (gpu_finish s b) = vdin1_fd b"
  "vdin1_bufs (gpu_finish s b) = vdin1_bufs b"
  "vdin1_10bit (gpu_finish s b) = vdin1_10bit b"
  "vdin1_pixfmt (gpu_finish s b) = vdin1_pixfmt b"
  "vdin1_sizeimage (gpu_finish s b) = vdin1_sizeimage b"
  "vdin1_prev (gpu_finish s b) = vdin1_prev b"
  "vdin1_fmt_poll_counter (gpu_finish s b) = vdin1_fmt_poll_counter b"
  "vk_initialized (gpu_finish s b) = vk_initialized b"
  "vk_slot (gpu_finish s b) = vk_slot b"
  "vk_frame_count (gpu_finish s b) = vk_frame_count b"
  "vk_async_pending (gpu_finish s b) = vk_async_pending b"
  "vk_async_out_pool_idx (gpu_finish s b) = vk_async_out_pool_idx b"
  "vk_async_vdin1_idx (gpu_finish s b) = vk_async_vdin1_idx b"
  "vk_async_in_fd (gpu_finish s b) = vk_async_in_fd b"
  "vk_input_cache (gpu_finish s b) = vk_input_cache b"
  "vk_output_pool_cache (gpu_finish s b) = vk_output_pool_cache b"
  "p010_out_fds (gpu_finish s b) = p010_out_fds b"
  "p010_out_free (gpu_finish s b) = p010_out_free b"
  "streaming (gpu_finish s b) = streaming b"
  "flushing (gpu_finish s b) = flushing b"
  "flush_pipe (gpu_finish s b) = flush_pipe b"
  "caps_set (gpu_finish s b) = caps_set b"
  "frame_count (gpu_finish s b) = frame_count b"
  "signal_monitor (gpu_finish s b) = signal_monitor b"
  "posts (gpu_finish s b) = posts b"
  "fdt (gpu_finish s b) = fdt b"
  "fresh (gpu_finish s b) = fresh b"
  "drvq (gpu_finish s b) = drvq b"
  "down (gpu_finish s b) = down b"
  "seq (gpu_finish s b) = seq b"
  "delivered (gpu_finish s b) = delivered b"
  "env_broke (gpu_finish s b) = env_broke b"
  "gpu_timed_out (gpu_finish s b) = gpu_timed_out b"
  "stale_release (gpu_finish s b) = stale_release b"
  "vk_misuse (gpu_finish s b) = vk_misuse b"
  by (simp_all add: gpu_finish_def split: option.split)

lemma drv_dqbuf_sel [simp]:
  "output_p010 (drv_dqbuf i b) = output_p010 b"
  "num_buffers (drv_dqbuf i b) = num_buffers b"
  "color_mode (drv_dqbuf i b) = color_mode b"
  "box_width (drv_dqbuf i b) = box_width b"
  "box_height (drv_dqbuf i b) = box_height b"
  "fps (drv_dqbuf i b) = fps b"
  "colorimetry (drv_dqbuf i b) = colorimetry b"
  "vdin1_fd (drv_dqbuf i b) = vdin1_fd b"
  "vdin1_bufs (drv_dqbuf i b) = vdin1_bufs b"
  "vdin1_10bit (drv_dqbuf i b) = vdin1_10bit b"
  "vdin1_pixfmt (drv_dqbuf i b) = vdin1_pixfmt b"
  "vdin1_sizeimage (drv_dqbuf i b) = vdin1_sizeimage b"
  "vdin1_prev (drv_dqbuf i b) = vdin1_prev b"
  "vdin1_fmt_poll_counter (drv_dqbuf i b) = vdin1_fmt_poll_counter b"
  "vk_initialized (drv_dqbuf i b) = vk_initialized b"
  "vk_slot (drv_dqbuf i b) = vk_slot b"
  "vk_frame_count (drv_dqbuf i b) = vk_frame_count b"
  "vk_async_pending (drv_dqbuf i b) = vk_async_pending b"
  "vk_async_out_pool_idx (drv_dqbuf i b) = vk_async_out_pool_idx b"
  "vk_async_vdin1_idx (drv_dqbuf i b) = vk_async_vdin1_idx b"
  "vk_async_in_fd (drv_dqbuf i b) = vk_async_in_fd b"
  "vk_input_cache (drv_dqbuf i b) = vk_input_cache b"
  "vk_output_pool_cache (drv_dqbuf i b) = vk_output_pool_cache b"
  "p010_out_fds (drv_dqbuf i b) = p010_out_fds b"
  "p010_out_free (drv_dqbuf i b) = p010_out_free b"
  "streaming (drv_dqbuf i b) = streaming b"
  "flushing (drv_dqbuf i b) = flushing b"
  "flush_pipe (drv_dqbuf i b) = flush_pipe b"
  "caps_set (drv_dqbuf i b) = caps_set b"
  "frame_count (drv_dqbuf i b) = frame_count b"
  "signal_monitor (drv_dqbuf i b) = signal_monitor b"
  "posts (drv_dqbuf i b) = posts b"
  "fdt (drv_dqbuf i b) = fdt b"
  "fresh (drv_dqbuf i b) = fresh b"
  "gpu (drv_dqbuf i b) = gpu b"
  "down (drv_dqbuf i b) = down b"
  "delivered (drv_dqbuf i b) = delivered b"
  "gpu_timed_out (drv_dqbuf i b) = gpu_timed_out b"
  "stale_release (drv_dqbuf i b) = stale_release b"
  "vk_misuse (drv_dqbuf i b) = vk_misuse b"
  by (simp_all add: drv_dqbuf_def split: option.split)

lemma p010_buf_release_sel [simp]:
  "output_p010 (p010_buf_release l b) = output_p010 b"
  "num_buffers (p010_buf_release l b) = num_buffers b"
  "color_mode (p010_buf_release l b) = color_mode b"
  "box_width (p010_buf_release l b) = box_width b"
  "box_height (p010_buf_release l b) = box_height b"
  "fps (p010_buf_release l b) = fps b"
  "colorimetry (p010_buf_release l b) = colorimetry b"
  "vdin1_fd (p010_buf_release l b) = vdin1_fd b"
  "vdin1_bufs (p010_buf_release l b) = vdin1_bufs b"
  "vdin1_10bit (p010_buf_release l b) = vdin1_10bit b"
  "vdin1_pixfmt (p010_buf_release l b) = vdin1_pixfmt b"
  "vdin1_sizeimage (p010_buf_release l b) = vdin1_sizeimage b"
  "vdin1_prev (p010_buf_release l b) = vdin1_prev b"
  "vdin1_fmt_poll_counter (p010_buf_release l b) = vdin1_fmt_poll_counter b"
  "vk_initialized (p010_buf_release l b) = vk_initialized b"
  "vk_slot (p010_buf_release l b) = vk_slot b"
  "vk_frame_count (p010_buf_release l b) = vk_frame_count b"
  "vk_async_pending (p010_buf_release l b) = vk_async_pending b"
  "vk_async_out_pool_idx (p010_buf_release l b) = vk_async_out_pool_idx b"
  "vk_async_vdin1_idx (p010_buf_release l b) = vk_async_vdin1_idx b"
  "vk_async_in_fd (p010_buf_release l b) = vk_async_in_fd b"
  "vk_input_cache (p010_buf_release l b) = vk_input_cache b"
  "vk_output_pool_cache (p010_buf_release l b) = vk_output_pool_cache b"
  "p010_out_fds (p010_buf_release l b) = p010_out_fds b"
  "streaming (p010_buf_release l b) = streaming b"
  "flushing (p010_buf_release l b) = flushing b"
  "flush_pipe (p010_buf_release l b) = flush_pipe b"
  "caps_set (p010_buf_release l b) = caps_set b"
  "frame_count (p010_buf_release l b) = frame_count b"
  "signal_monitor (p010_buf_release l b) = signal_monitor b"
  "posts (p010_buf_release l b) = posts b"
  "fdt (p010_buf_release l b) = fdt b"
  "fresh (p010_buf_release l b) = fresh b"
  "content (p010_buf_release l b) = content b"
  "drvq (p010_buf_release l b) = drvq b"
  "gpu (p010_buf_release l b) = gpu b"
  "down (p010_buf_release l b) = down b"
  "seq (p010_buf_release l b) = seq b"
  "delivered (p010_buf_release l b) = delivered b"
  "env_broke (p010_buf_release l b) = env_broke b"
  "gpu_timed_out (p010_buf_release l b) = gpu_timed_out b"
  "vk_misuse (p010_buf_release l b) = vk_misuse b"
  by (simp_all add: p010_buf_release_def)

lemma path_b_buf_release_sel [simp]:
  "output_p010 (path_b_buf_release q l b) = output_p010 b"
  "num_buffers (path_b_buf_release q l b) = num_buffers b"
  "color_mode (path_b_buf_release q l b) = color_mode b"
  "box_width (path_b_buf_release q l b) = box_width b"
  "box_height (path_b_buf_release q l b) = box_height b"
  "fps (path_b_buf_release q l b) = fps b"
  "colorimetry (path_b_buf_release q l b) = colorimetry b"
  "vdin1_fd (path_b_buf_release q l b) = vdin1_fd b"
  "vdin1_bufs (path_b_buf_release q l b) = vdin1_bufs b"
  "vdin1_10bit (path_b_buf_release q l b) = vdin1_10bit b"
  "vdin1_pixfmt (path_b_buf_release q l b) = vdin1_pixfmt b"
  "vdin1_sizeimage (path_b_buf_release q l b) = vdin1_sizeimage b"
  "vdin1_prev (path_b_buf_release q l b) = vdin1_prev b"
  "vdin1_fmt_poll_counter (path_b_buf_release q l b) = vdin1_fmt_poll_counter b"
  "vk_initialized (path_b_buf_release q l b) = vk_initialized b"
  "vk_slot (path_b_buf_release q l b) = vk_slot b"
  "vk_frame_count (path_b_buf_release q l b) = vk_frame_count b"
  "vk_async_pending (path_b_buf_release q l b) = vk_async_pending b"
  "vk_async_out_pool_idx (path_b_buf_release q l b) = vk_async_out_pool_idx b"
  "vk_async_vdin1_idx (path_b_buf_release q l b) = vk_async_vdin1_idx b"
  "vk_async_in_fd (path_b_buf_release q l b) = vk_async_in_fd b"
  "vk_input_cache (path_b_buf_release q l b) = vk_input_cache b"
  "vk_output_pool_cache (path_b_buf_release q l b) = vk_output_pool_cache b"
  "p010_out_fds (path_b_buf_release q l b) = p010_out_fds b"
  "p010_out_free (path_b_buf_release q l b) = p010_out_free b"
  "streaming (path_b_buf_release q l b) = streaming b"
  "flushing (path_b_buf_release q l b) = flushing b"
  "flush_pipe (path_b_buf_release q l b) = flush_pipe b"
  "caps_set (path_b_buf_release q l b) = caps_set b"
  "frame_count (path_b_buf_release q l b) = frame_count b"
  "signal_monitor (path_b_buf_release q l b) = signal_monitor b"
  "posts (path_b_buf_release q l b) = posts b"
  "fdt (path_b_buf_release q l b) = fdt b"
  "fresh (path_b_buf_release q l b) = fresh b"
  "content (path_b_buf_release q l b) = content b"
  "gpu (path_b_buf_release q l b) = gpu b"
  "down (path_b_buf_release q l b) = down b"
  "seq (path_b_buf_release q l b) = seq b"
  "delivered (path_b_buf_release q l b) = delivered b"
  "env_broke (path_b_buf_release q l b) = env_broke b"
  "gpu_timed_out (path_b_buf_release q l b) = gpu_timed_out b"
  "vk_misuse (path_b_buf_release q l b) = vk_misuse b"
  by (simp_all add: path_b_buf_release_def)

lemma release_loan_sel [simp]:
  "output_p010 (release_loan k q b) = output_p010 b"
  "num_buffers (release_loan k q b) = num_buffers b"
  "color_mode (release_loan k q b) = color_mode b"
  "box_width (release_loan k q b) = box_width b"
  "box_height (release_loan k q b) = box_height b"
  "fps (release_loan k q b) = fps b"
  "colorimetry (release_loan k q b) = colorimetry b"
  "vdin1_fd (release_loan k q b) = vdin1_fd b"
  "vdin1_bufs (release_loan k q b) = vdin1_bufs b"
  "vdin1_10bit (release_loan k q b) = vdin1_10bit b"
  "vdin1_pixfmt (release_loan k q b) = vdin1_pixfmt b"
  "vdin1_sizeimage (release_loan k q b) = vdin1_sizeimage b"
  "vdin1_prev (release_loan k q b) = vdin1_prev b"
  "vdin1_fmt_poll_counter (release_loan k q b) = vdin1_fmt_poll_counter b"
  "vk_initialized (release_loan k q b) = vk_initialized b"
  "vk_slot (release_loan k q b) = vk_slot b"
  "vk_frame_count (release_loan k q b) = vk_frame_count b"
  "vk_async_pending (release_loan k q b) = vk_async_pending b"
  "vk_async_out_pool_idx (release_loan k q b) = vk_async_out_pool_idx b"
  "vk_async_vdin1_idx (release_loan k q b) = vk_async_vdin1_idx b"
  "vk_async_in_fd (release_loan k q b) = vk_async_in_fd b"
  "vk_input_cache (release_loan k q b) = vk_input_cache b"
  "vk_output_pool_cache (release_loan k q b) = vk_output_pool_cache b"
  "p010_out_fds (release_loan k q b) = p010_out_fds b"
  "streaming (release_loan k q b) = streaming b"
  "flushing (release_loan k q b) = flushing b"
  "flush_pipe (release_loan k q b) = flush_pipe b"
  "caps_set (release_loan k q b) = caps_set b"
  "frame_count (release_loan k q b) = frame_count b"
  "signal_monitor (release_loan k q b) = signal_monitor b"
  "posts (release_loan k q b) = posts b"
  "fdt (release_loan k q b) = fdt b"
  "fresh (release_loan k q b) = fresh b"
  "content (release_loan k q b) = content b"
  "gpu (release_loan k q b) = gpu b"
  "seq (release_loan k q b) = seq b"
  "delivered (release_loan k q b) = delivered b"
  "env_broke (release_loan k q b) = env_broke b"
  "gpu_timed_out (release_loan k q b) = gpu_timed_out b"
  "vk_misuse (release_loan k q b) = vk_misuse b"
  by (simp_all add: release_loan_def Let_def)

lemma push_buffer_sel [simp]:
  "output_p010 (push_buffer k i d b) = output_p010 b"
  "num_buffers (push_buffer k i d b) = num_buffers b"
  "color_mode (push_buffer k i d b) = color_mode b"
  "box_width (push_buffer k i d b) = box_width b"
  "box_height (push_buffer k i d b) = box_height b"
  "fps (push_buffer k i d b) = fps b"
  "colorimetry (push_buffer k i d b) = colorimetry b"
  "vdin1_fd (push_buffer k i d b) = vdin1_fd b"
  "vdin1_bufs (push_buffer k i d b) = vdin1_bufs b"
  "vdin1_10bit (push_buffer k i d b) = vdin1_10bit b"
  "vdin1_pixfmt (push_buffer k i d b) = vdin1_pixfmt b"
  "vdin1_sizeimage (push_buffer k i d b) = vdin1_sizeimage b"
  "vdin1_prev (push_buffer k i d b) = vdin1_prev b"
  "vdin1_fmt_poll_counter (push_buffer k i d b) = vdin1_fmt_poll_counter b"
  "vk_initialized (push_buffer k i d b) = vk_initialized b"
  "vk_slot (push_buffer k i d b) = vk_slot b"
  "vk_frame_count (push_buffer k i d b) = vk_frame_count b"
  "vk_async_pending (push_buffer k i d b) = vk_async_pending b"
  "vk_async_out_pool_idx (push_buffer k i d b) = vk_async_out_pool_idx b"
  "vk_async_vdin1_idx (push_buffer k i d b) = vk_async_vdin1_idx b"
  "vk_async_in_fd (push_buffer k i d b) = vk_async_in_fd b"
  "vk_input_cache (push_buffer k i d b) = vk_input_cache b"
  "vk_output_pool_cache (push_buffer k i d b) = vk_output_pool_cache b"
  "p010_out_fds (push_buffer k i d b) = p010_out_fds b"
  "p010_out_free (push_buffer k i d b) = p010_out_free b"
  "streaming (push_buffer k i d b) = streaming b"
  "flushing (push_buffer k i d b) = flushing b"
  "flush_pipe (push_buffer k i d b) = flush_pipe b"
  "caps_set (push_buffer k i d b) = caps_set b"
  "frame_count (push_buffer k i d b) = frame_count b"
  "signal_monitor (push_buffer k i d b) = signal_monitor b"
  "posts (push_buffer k i d b) = posts b"
  "fdt (push_buffer k i d b) = fdt b"
  "fresh (push_buffer k i d b) = fresh b"
  "content (push_buffer k i d b) = content b"
  "drvq (push_buffer k i d b) = drvq b"
  "gpu (push_buffer k i d b) = gpu b"
  "seq (push_buffer k i d b) = seq b"
  "env_broke (push_buffer k i d b) = env_broke b"
  "gpu_timed_out (push_buffer k i d b) = gpu_timed_out b"
  "stale_release (push_buffer k i d b) = stale_release b"
  "vk_misuse (push_buffer k i d b) = vk_misuse b"
  by (simp_all add: push_buffer_def)

lemma drv_qbuf_parts [simp]:
  "vdm (drv_qbuf q i b) = vdm b" "pdm (drv_qbuf q i b) = pdm b"
  "jobs (drv_qbuf q i b) = jobs b" "pool_place hp (drv_qbuf q i b) = pool_place hp b"
  "loan_ok (drv_qbuf q i b) = loan_ok b" "in_hand hv hp (drv_qbuf q i b) = in_hand hv hp b"
  "line hv hp (drv_qbuf q i b) = line hv hp b" "env_sound (drv_qbuf q i b) = env_sound b"
  by (simp_all add: drv_qbuf_def env_sound_def)

lemma pool_put_parts [simp]:
  "vdm (pool_put k b) = vdm b" "pdm (pool_put k b) = pdm b"
  "jobs (pool_put k b) = jobs b" "vdin_place hv (pool_put k b) = vdin_place hv b"
  "loan_ok (pool_put k b) = loan_ok b" "in_hand hv hp (pool_put k b) = in_hand hv hp b"
  "line hv hp (pool_put k b) = line hv hp b" "env_sound (pool_put k b) = env_sound b"
  by (simp_all add: pool_put_def env_sound_def)

lemma hand_None [simp]:
  "line hv ((k, None) # hp) b = line hv hp b" "line ((k, None) # hv) hp b = line hv hp b"
  "in_hand hv ((k, None) # hp) b = in_hand hv hp b" "in_hand ((k, None) # hv) hp b = in_hand hv hp b"
  by (simp_all add: line_def in_hand_def)

section \<open>Buffers are distinct\<close>

lemma vdm_fdt: "wired b \<Longrightarrow> i < length (vdin1_bufs b) \<Longrightarrow> fdt b (vdin1_bufs b ! i) = Some (vdm b i)"
  by (auto simp: wired_def vdm_def dom_def subset_iff dest!: nth_mem)

lemma pdm_fdt: "wired b \<Longrightarrow> k < length (p010_out_fds b) \<Longrightarrow> fdt b (p010_out_fds b ! k) = Some (pdm b k)"
  by (auto simp: wired_def pdm_def dom_def subset_iff dest!: nth_mem)

lemma fdt_inj: "wired b \<Longrightarrow> fdt b x = Some d \<Longrightarrow> fdt b y = Some d \<Longrightarrow> x = y"
  by (auto simp: wired_def dest!: inj_onD [where x = x and y = y])

lemma vdm_inj:
  "wired b \<Longrightarrow> i < length (vdin1_bufs b) \<Longrightarrow> j < length (vdin1_bufs b) \<Longrightarrow> vdm b i = vdm b j \<longleftrightarrow> i = j"
  using fdt_inj [of b "vdin1_bufs b ! i" "vdm b i" "vdin1_bufs b ! j"] vdm_fdt [of b]
  by (auto simp: wired_def nth_eq_iff_index_eq)

lemma pdm_inj:
  "wired b \<Longrightarrow> i < length (p010_out_fds b) \<Longrightarrow> j < length (p010_out_fds b) \<Longrightarrow> pdm b i = pdm b j \<longleftrightarrow> i = j"
  using fdt_inj [of b "p010_out_fds b ! i" "pdm b i" "p010_out_fds b ! j"] pdm_fdt [of b]
  by (auto simp: wired_def nth_eq_iff_index_eq)

lemma vdm_pdm:
  assumes "wired b" "i < length (vdin1_bufs b)" "k < length (p010_out_fds b)"
  shows "vdm b i \<noteq> pdm b k"
proof
  assume "vdm b i = pdm b k"
  then have "vdin1_bufs b ! i = p010_out_fds b ! k"
    using fdt_inj [of b] vdm_fdt [OF assms(1,2)] pdm_fdt [OF assms(1,3)] assms(1) by metis
  then show False using assms nth_mem [of i "vdin1_bufs b"] nth_mem [of k "p010_out_fds b"]
    by (auto simp: wired_def)
qed

lemmas dm_distinct = vdm_inj pdm_inj vdm_pdm vdm_pdm [symmetric]

section \<open>The steps\<close>

lemma first_free_Some:
  "pool_first_free fs i = Some k \<Longrightarrow> i \<le> k \<and> k - i < length fs \<and> fs ! (k - i)"
proof (induction fs arbitrary: i)
  case (Cons f fs)
  show ?case
  proof (cases f)
    case False
    then have "Suc i \<le> k \<and> k - Suc i < length fs \<and> fs ! (k - Suc i)" using Cons by simp
    then show ?thesis by (auto simp: Suc_diff_Suc [symmetric])
  qed (use Cons in simp)
qed simp

lemma first_free_None: "pool_first_free fs i = None \<longleftrightarrow> True \<notin> set fs"
  by (induction fs arbitrary: i) auto

lemma ok_acquire:
  assumes "ok hv hp b" "p010_pool_acquire b = Some (k, b')"
  shows "ok hv ((k, None) # hp) b'"
proof -
  from assms(2) have k: "k < length (p010_out_free b)" "p010_out_free b ! k"
    and b': "b' = b\<lparr>p010_out_free := (p010_out_free b)[k := False]\<rparr>"
    using first_free_Some [of "p010_out_free b" 0 k]
    by (auto simp: p010_pool_acquire_def split: option.splits)
  show ?thesis unfolding ok_def
  proof
    assume "env_sound b'"
    then have g: "good hv hp b" using assms(1) by (simp add: ok_def env_sound_def b')
    then have len: "length (p010_out_free b) = length (p010_out_fds b)" by (simp add: good_def wired_def)
    have "pool_place ((k, None) # hp) b' j = pool_place hp b j" if "j < length (p010_out_fds b)" for j
      using k that len by (auto simp: pool_place_def b' nth_list_update)
    then have "places hv ((k, None) # hp) b'"
      using g k len by (simp add: good_def places_def b')
    moreover have "wired b'" using g by (simp add: good_def wired_def b')
    moreover have "in_hand hv ((k, None) # hp) b'" "ordered hv ((k, None) # hp) b'"
      using g by (simp_all add: good_def ordered_def b')
    ultimately show "good hv ((k, None) # hp) b'" using g by (simp add: good_def b')
  qed
qed

lemma ascending_drop: "ascending (xs @ ys @ zs) n \<Longrightarrow> ascending (xs @ zs) n"
  by (auto simp: ascending_def sorted_wrt_append)

lemma ascending_snoc: "ascending xs n \<Longrightarrow> ascending (xs @ [n]) (Suc n)"
  by (auto simp: ascending_def sorted_wrt_append)

lemma sers_Cons: "sers ((k, s) # h) = (case s of None \<Rightarrow> [] | Some x \<Rightarrow> [x]) @ sers h"
  by (simp split: option.splits)

lemma ordered_drop_p: "ordered hv ((k, s) # hp) b \<Longrightarrow> ordered hv hp b"
  using ascending_drop [of "delivered b" "case s of None \<Rightarrow> [] | Some x \<Rightarrow> [x]"
      "sers hp @ in_flight b @ sers hv" "seq b"]
  unfolding ordered_def line_def sers_Cons by simp

lemma ordered_drop_v: "ordered ((i, s) # hv) hp b \<Longrightarrow> ordered hv hp b"
  using ascending_drop [of "delivered b @ sers hp @ in_flight b" "case s of None \<Rightarrow> [] | Some x \<Rightarrow> [x]"
      "sers hv" "seq b"]
  unfolding ordered_def line_def sers_Cons by simp

lemma held_drop_p: "in_hand hv (x # hp) b \<Longrightarrow> in_hand hv hp b"
  by (simp add: in_hand_def)

lemma held_drop_v: "in_hand (x # hv) hp b \<Longrightarrow> in_hand hv hp b"
  by (simp add: in_hand_def)

lemma ok_pool_put:
  assumes "ok hv ((k, s) # hp) b"
  shows "ok hv hp (pool_put k b)"
  unfolding ok_def
proof
  let ?b = "pool_put k b"
  assume "env_sound ?b"
  then have g: "good hv ((k, s) # hp) b" using assms by (simp add: ok_def env_sound_def pool_put_def)
  then have len: "length (p010_out_free b) = length (p010_out_fds b)" and k: "k < length (p010_out_fds b)"
    and pk: "pool_place ((k, s) # hp) b k = 1"
    by (simp_all add: good_def wired_def places_def)
  then have "\<not> p010_out_free b ! k" by (auto simp: pool_place_def)
  then have "pool_place hp ?b j = pool_place ((k, s) # hp) b j" if "j < length (p010_out_fds b)" for j
    using k that len by (auto simp: pool_place_def pool_put_def nth_list_update)
  then have "places hv hp ?b"
    using g k len by (simp add: good_def places_def pool_put_def)
  moreover have "ordered hv hp ?b" "in_hand hv hp ?b"
    using ordered_drop_p [of hv k s hp b] held_drop_p [of hv "(k, s)" hp b] g
    by (simp_all add: good_def ordered_def pool_put_def)
  moreover have "wired ?b" using g by (simp add: good_def wired_def pool_put_def)
  ultimately show "good hv hp ?b"
    using g by (simp add: good_def pool_put_def)
qed

lemma ok_qbuf:
  assumes "ok ((i, s) # hv) hp b"
  shows "ok hv hp (drv_qbuf q i b)"
  unfolding ok_def
proof
  let ?b = "drv_qbuf q i b"
  assume "env_sound ?b"
  then have g: "good ((i, s) # hv) hp b" using assms
    by (simp add: ok_def env_sound_def drv_qbuf_def split: if_splits)
  then have i: "i < length (vdin1_bufs b)" and w: "wired b" by (simp_all add: good_def places_def)
  then have d: "fdt b (vdin1_bufs b ! i) = Some (vdm b i)" by (simp add: vdm_fdt)
  have "vdin_place hv ?b j \<le> vdin_place ((i, s) # hv) b j" for j
    by (simp add: vdin_place_def drv_qbuf_def)
  then have "vdin_place hv ?b j \<le> 1" if "j < length (vdin1_bufs b)" for j
    using g that unfolding good_def places_def by (meson order_trans)
  then have "places hv hp ?b"
    using g by (simp add: good_def places_def)
  moreover have "ordered hv hp ?b" "in_hand hv hp ?b"
    using ordered_drop_v [of i s hv hp b] held_drop_v [of "(i, s)" hv hp b] g
    by (simp_all add: good_def ordered_def)
  moreover have "wired ?b"
  proof (cases "q \<and> drvq b i = None")
    case True
    then show ?thesis using w i d unfolding wired_def drv_qbuf_def by simp
  qed (use w in \<open>auto simp: drv_qbuf_def\<close>)
  ultimately show "good hv hp ?b"
    using g by (simp add: good_def)
qed

lemma count_list_pos: "x \<in> set xs \<Longrightarrow> 1 \<le> count_list xs x"
  by (metis count_list_0_iff less_one not_le)

text \<open>A capture or output buffer that has another place is not downstream.\<close>

lemma vdin_not_down:
  assumes g: "good hv hp b" and i: "i < length (vdin1_bufs b)" and l: "l \<in> set (down b)"
    and p: "drvq b i \<noteq> None \<or> vk_async_pending b \<and> vk_async_vdin1_idx b = i \<or> i \<in> fst ` set hv"
  shows "l_dmabuf l \<noteq> vdm b i"
proof
  assume "l_dmabuf l = vdm b i"
  then have "cur_v b i l" using g i l by (auto simp: good_def loan_ok_def)
  then have f: "1 \<le> length (filter (cur_v b i) (down b))"
    using l by (auto simp: Suc_le_eq filter_empty_conv)
  have "1 \<le> of_bool (drvq b i \<noteq> None) + of_bool (vk_async_pending b \<and> vk_async_vdin1_idx b = i) + count_list (map fst hv) i"
    using p count_list_pos [of i "map fst hv"] by (elim disjE) simp_all
  then have "2 \<le> vdin_place hv b i" using f unfolding vdin_place_def by linarith
  then show False using g i by (auto simp: good_def places_def)
qed

lemma pool_not_down:
  assumes g: "good hv hp b" and k: "k < length (p010_out_fds b)" and l: "l \<in> set (down b)"
    and p: "p010_out_free b ! k \<or> vk_async_pending b \<and> nat (vk_async_out_pool_idx b) = k \<or> k \<in> fst ` set hp"
  shows "l_dmabuf l \<noteq> pdm b k"
proof
  assume "l_dmabuf l = pdm b k"
  then have "cur_p b k l" using g k l by (auto simp: good_def loan_ok_def)
  then have f: "1 \<le> length (filter (cur_p b k) (down b))"
    using l by (auto simp: Suc_le_eq filter_empty_conv)
  have "1 \<le> of_bool (p010_out_free b ! k) + of_bool (vk_async_pending b \<and> nat (vk_async_out_pool_idx b) = k) + count_list (map fst hp) k"
    using p count_list_pos [of k "map fst hp"] by (elim disjE) simp_all
  then have "2 \<le> pool_place hp b k" using f unfolding pool_place_def by linarith
  then show False using g k by (auto simp: good_def places_def)
qed

lemma ok_dqbuf:
  assumes "ok [] hp b"
  shows "ok [(i, Some (seq b))] hp (drv_dqbuf i b)"
  unfolding ok_def
proof
  let ?b = "drv_dqbuf i b"
  assume snd: "env_sound ?b"
  then obtain d where d: "drvq b i = Some d" by (cases "drvq b i") (auto simp: drv_dqbuf_def env_sound_def)
  then have b: "?b = b\<lparr>drvq := (drvq b)(i := None), content := (content b)(d := seq b), seq := Suc (seq b)\<rparr>"
    by (simp add: drv_dqbuf_def)
  with snd have g: "good [] hp b" using assms by (simp add: ok_def env_sound_def)
  then have w: "wired b" by (simp add: good_def)
  with d have i: "i < length (vdin1_bufs b)" and di: "d = vdm b i" by (auto simp: wired_def)
  have "vdin_place [(i, Some (seq b))] ?b j = vdin_place [] b j" for j
    using d by (auto simp: vdin_place_def b)
  then have "places [(i, Some (seq b))] hp ?b"
    using g i by (simp add: good_def places_def b)
  moreover have "wired ?b" using w by (auto simp: b wired_def)
  moreover have "\<forall>l \<in> set (down ?b). loan_ok ?b l"
  proof
    fix l assume l: "l \<in> set (down ?b)"
    then have "l_dmabuf l \<noteq> d" using vdin_not_down [OF g i] d di by (simp add: b)
    then show "loan_ok ?b l" using g l by (simp add: good_def loan_ok_def b)
  qed
  moreover have p: "\<not> (vk_async_pending b \<and> vk_async_vdin1_idx b = i)"
    using g i d by (auto simp: good_def places_def vdin_place_def)
  then have "in_flight ?b = in_flight b"
    using g i vdm_inj [OF w i, of "vk_async_vdin1_idx b"] by (auto simp: in_flight_def b di good_def jobs_def)
  then have "ordered [(i, Some (seq b))] hp ?b"
    using ascending_snoc [of "line [] hp b" "seq b"] g by (simp add: good_def ordered_def line_def b)
  moreover have "content b (pdm b k) = content ?b (pdm b k)" if "(k, s) \<in> set hp" for k s
  proof -
    from that g have "k < length (p010_out_fds b)" by (auto simp: good_def places_def)
    then show ?thesis using vdm_pdm [OF w i, of k] by (auto simp: b di)
  qed
  then have "in_hand [(i, Some (seq b))] hp ?b" using g by (auto simp: good_def in_hand_def b di)
  ultimately show "good [(i, Some (seq b))] hp ?b" using g by (simp add: good_def b)
qed

lemma filter_remove:
  "k < length xs \<Longrightarrow>
   length (filter P (take k xs @ drop (Suc k) xs)) + of_bool (P (xs ! k)) = length (filter P xs)"
  by (subst (4) id_take_nth_drop [of k xs]) simp_all

section \<open>Releases and deliveries\<close>

lemma good_remove:
  assumes g: "good hv hp b" and "places hv hp (b\<lparr>down := ls\<rparr>)" "set ls \<subseteq> set (down b)"
  shows "good hv hp (b\<lparr>down := ls\<rparr>)"
  using assms unfolding good_def ordered_def by (simp add: subset_iff)

lemma sound_release:
  "env_sound (p010_buf_release l b) \<Longrightarrow> env_sound b" "env_sound (path_b_buf_release q l b) \<Longrightarrow> env_sound b"
  by (simp_all add: p010_buf_release_def path_b_buf_release_def env_sound_def split: if_splits)

lemma sound_down [simp]: "env_sound (b\<lparr>down := x\<rparr>) = env_sound b"
  by (simp add: env_sound_def)

lemma ok_p010_release:
  assumes k: "k < length (down b)" "l_kind (down b ! k) = P010_loan" and o: "ok hv hp b"
  shows "ok hv hp (p010_buf_release (down b ! k) (b\<lparr>down := take k (down b) @ drop (Suc k) (down b)\<rparr>))"
    (is "ok hv hp (p010_buf_release ?l ?b)")
  unfolding ok_def
proof
  let ?r = "p010_buf_release ?l ?b"
  let ?i = "l_index ?l"
  assume snd: "env_sound ?r"
  then have g: "good hv hp b"
    using o sound_release(1) [OF snd] by (simp add: ok_def)
  then have w: "wired b" and pl: "places hv hp b" by (simp_all add: good_def)
  have v: "vdin_place hv ?b i = vdin_place hv b i" for i
    using filter_remove [OF k(1), of "cur_v b i"] k(2) by (simp add: vdin_place_def cur_v_def)
  have sub: "set (take k (down b) @ drop (Suc k) (down b)) \<subseteq> set (down b)"
    by (auto dest: in_set_takeD in_set_dropD)
  have f: "length (filter (cur_p b j) (down b)) =
      length (filter (cur_p b j) (down ?b)) + of_bool (cur_p b j ?l)" for j
    using filter_remove [OF k(1), of "cur_p b j"] by simp
  show "good hv hp ?r"
  proof (cases "?i < length (p010_out_free b)")
    case True
    then have i: "?i < length (p010_out_fds b)" using w by (simp add: wired_def)
    have d: "l_dmabuf ?l = pdm b ?i"
      by (rule ccontr) (use snd True in \<open>simp add: p010_buf_release_def env_sound_def\<close>)
    have r: "?r = pool_put ?i ?b" using d True by (simp add: p010_buf_release_def)
    have c: "cur_p b j ?l \<longleftrightarrow> j = ?i" for j using d k(2) by (auto simp: cur_p_def)
    have "\<not> p010_out_free b ! ?i"
      using f [of ?i] pl i c by (auto simp: places_def pool_place_def)
    then have "pool_place hp (pool_put ?i ?b) j = pool_place hp b j" if "j < length (p010_out_fds b)" for j
      using f [of j] c [of j] True by (auto simp: pool_place_def pool_put_def nth_list_update)
    then have "places hv hp (pool_put ?i ?b)" using pl v by (simp add: places_def)
    moreover have "wired (pool_put ?i ?b)" using w by (simp add: wired_def pool_put_def)
    moreover have "\<forall>l \<in> set (down ?b). loan_ok b l" using g sub unfolding good_def by auto
    ultimately show ?thesis unfolding r using g by (simp add: good_def ordered_def)
  next
    case False
    then have "\<not> cur_p b j ?l" if "j < length (p010_out_fds b)" for j
      using that w by (auto simp: cur_p_def wired_def)
    then have "pool_place hp ?b j = pool_place hp b j" if "j < length (p010_out_fds b)" for j
      using f [of j] that by (simp add: pool_place_def)
    then have "places hv hp ?b" using pl v by (simp add: places_def)
    then show ?thesis using False good_remove [OF g _ sub] by (simp add: p010_buf_release_def)
  qed
qed

lemma ok_path_b_release:
  assumes k: "k < length (down b)" "l_kind (down b ! k) = Vdin1_loan" and o: "ok hv hp b"
  shows "ok hv hp (path_b_buf_release q (down b ! k) (b\<lparr>down := take k (down b) @ drop (Suc k) (down b)\<rparr>))"
    (is "ok hv hp (path_b_buf_release q ?l ?b)")
  unfolding ok_def
proof
  let ?r = "path_b_buf_release q ?l ?b"
  let ?i = "l_index ?l"
  assume snd: "env_sound ?r"
  then have g: "good hv hp b"
    using o sound_release(2) [OF snd] by (simp add: ok_def)
  then have w: "wired b" and pl: "places hv hp b" by (simp_all add: good_def)
  have p: "pool_place hp ?b i = pool_place hp b i" for i
    using filter_remove [OF k(1), of "cur_p b i"] k(2) by (simp add: pool_place_def cur_p_def)
  have sub: "set (take k (down b) @ drop (Suc k) (down b)) \<subseteq> set (down b)"
    by (auto dest: in_set_takeD in_set_dropD)
  have f: "length (filter (cur_v b j) (down b)) =
      length (filter (cur_v b j) (down ?b)) + of_bool (cur_v b j ?l)" for j
    using filter_remove [OF k(1), of "cur_v b j"] by simp
  have le: "vdin_place hv ?b j + of_bool (cur_v b j ?l) = vdin_place hv b j" for j
    using f [of j] by (simp add: vdin_place_def)
  have vb: "vdin_place hv ?b j \<le> 1" if "j < length (vdin1_bufs b)" for j
  proof -
    have "vdin_place hv b j \<le> 1" using pl that unfolding places_def by blast
    then show ?thesis using le [of j] by linarith
  qed
  show "good hv hp ?r"
  proof (cases "vdin1_fd b \<and> streaming b \<and> ?i < length (vdin1_bufs b)")
    case True
    have d: "l_dmabuf ?l = vdm b ?i"
      by (rule ccontr) (use snd True in \<open>simp add: path_b_buf_release_def env_sound_def\<close>)
    have r: "?r = drv_qbuf q ?i ?b" using d True by (simp add: path_b_buf_release_def)
    have "cur_v b ?i ?l" using d k(2) by (simp add: cur_v_def)
    moreover have "vdin_place hv b ?i \<le> 1" using pl True unfolding places_def by blast
    ultimately have z: "vdin_place hv ?b ?i = 0" using le [of ?i] by simp
    have "vdin_place ((?i, None) # hv) ?b j \<le> 1" if "j < length (vdin1_bufs b)" for j
      using z vb [OF that] by (cases "j = ?i") (simp_all add: vdin_place_def)
    then have "places ((?i, None) # hv) hp ?b"
      using pl True p by (simp add: places_def)
    moreover have "\<forall>l \<in> set (down ?b). loan_ok b l" using g sub unfolding good_def by auto
    ultimately have "good ((?i, None) # hv) hp ?b"
      using g by (simp add: good_def ordered_def)
    then have "ok hv hp (drv_qbuf q ?i ?b)" by (intro ok_qbuf [where s = None]) (simp add: ok_def)
    then show ?thesis using snd r by (simp add: ok_def)
  next
    case False
    have "places hv hp ?b" using pl vb p by (simp add: places_def)
    moreover have "?r = ?b" unfolding path_b_buf_release_def using False by (subst if_not_P) simp_all
    ultimately show ?thesis using good_remove [OF g _ sub] by simp
  qed
qed

lemma ok_release:
  assumes "ok hv hp b"
  shows "ok hv hp (release_loan k q b)"
proof (cases "k < length (down b)")
  case True
  then show ?thesis
    using ok_p010_release [OF True _ assms] ok_path_b_release [OF True _ assms, of q]
    by (cases "l_kind (down b ! k)") (simp_all add: release_loan_def Let_def)
qed (simp add: release_loan_def assms)

lemma ok_deliver_p010:
  assumes "ok hv [(k, Some s)] b"
  shows "ok hv [] (push_buffer P010_loan k (pdm b k) b)"
  unfolding ok_def
proof
  let ?b = "push_buffer P010_loan k (pdm b k) b"
  assume "env_sound ?b"
  then have g: "good hv [(k, Some s)] b" using assms by (simp add: ok_def env_sound_def push_buffer_def)
  then have w: "wired b" and k: "k < length (p010_out_fds b)" and s: "content b (pdm b k) = s"
    by (simp_all add: good_def places_def in_hand_def)
  have "pool_place [] ?b j = pool_place [(k, Some s)] b j" for j
    by (auto simp: pool_place_def push_buffer_def cur_p_def)
  moreover have "vdin_place hv ?b j = vdin_place hv b j" for j
    by (simp add: vdin_place_def push_buffer_def cur_v_def)
  ultimately have "places hv [] ?b" using g by (simp add: good_def places_def push_buffer_def)
  moreover have "loan_ok b \<lparr>l_kind = P010_loan, l_index = k, l_dmabuf = pdm b k, l_serial = content b (pdm b k)\<rparr>"
    using w k dm_distinct [OF w] pdm_fdt [OF w k] by (auto simp: loan_ok_def cur_p_def wired_def)
  moreover have "line hv [] ?b = line hv [(k, Some s)] b"
    using s by (simp add: line_def in_flight_def push_buffer_def)
  ultimately show "good hv [] ?b"
    using g by (simp add: good_def ordered_def push_buffer_def in_hand_def)
qed

lemma ok_deliver_vdin1:
  assumes "ok [(i, Some s)] [] b" "\<not> vk_async_pending b"
  shows "ok [] [] (push_buffer Vdin1_loan i (vdm b i) b)"
  unfolding ok_def
proof
  let ?b = "push_buffer Vdin1_loan i (vdm b i) b"
  assume "env_sound ?b"
  then have g: "good [(i, Some s)] [] b" using assms by (simp add: ok_def env_sound_def push_buffer_def)
  then have w: "wired b" and k: "i < length (vdin1_bufs b)" and s: "content b (vdm b i) = s"
    by (simp_all add: good_def places_def in_hand_def)
  have "vdin_place [] ?b j = vdin_place [(i, Some s)] b j" for j
    by (auto simp: vdin_place_def push_buffer_def cur_v_def)
  moreover have "pool_place hp ?b j = pool_place hp b j" for j hp
    by (simp add: pool_place_def push_buffer_def cur_p_def)
  ultimately have "places [] [] ?b" using g by (simp add: good_def places_def push_buffer_def)
  moreover have "loan_ok b \<lparr>l_kind = Vdin1_loan, l_index = i, l_dmabuf = vdm b i, l_serial = content b (vdm b i)\<rparr>"
    using w k dm_distinct [OF w] vdm_fdt [OF w k] by (auto simp: loan_ok_def cur_v_def wired_def)
  moreover have "line [] [] ?b = line [(i, Some s)] [] b"
    using s assms(2) by (simp add: line_def in_flight_def push_buffer_def)
  ultimately show "good [] [] ?b"
    using g by (simp add: good_def ordered_def push_buffer_def in_hand_def)
qed

section \<open>Conversions\<close>

text \<open>What Vulkan calls leave alone.\<close>

lemma cache_entry_destroy_sel [simp]:
  "output_p010 (vdin1_vk_cache_entry_destroy e b) = output_p010 b"
  "num_buffers (vdin1_vk_cache_entry_destroy e b) = num_buffers b"
  "color_mode (vdin1_vk_cache_entry_destroy e b) = color_mode b"
  "box_width (vdin1_vk_cache_entry_destroy e b) = box_width b"
  "box_height (vdin1_vk_cache_entry_destroy e b) = box_height b"
  "fps (vdin1_vk_cache_entry_destroy e b) = fps b"
  "colorimetry (vdin1_vk_cache_entry_destroy e b) = colorimetry b"
  "vdin1_fd (vdin1_vk_cache_entry_destroy e b) = vdin1_fd b"
  "vdin1_bufs (vdin1_vk_cache_entry_destroy e b) = vdin1_bufs b"
  "vdin1_10bit (vdin1_vk_cache_entry_destroy e b) = vdin1_10bit b"
  "vdin1_pixfmt (vdin1_vk_cache_entry_destroy e b) = vdin1_pixfmt b"
  "vdin1_sizeimage (vdin1_vk_cache_entry_destroy e b) = vdin1_sizeimage b"
  "vdin1_prev (vdin1_vk_cache_entry_destroy e b) = vdin1_prev b"
  "vdin1_fmt_poll_counter (vdin1_vk_cache_entry_destroy e b) = vdin1_fmt_poll_counter b"
  "vk_initialized (vdin1_vk_cache_entry_destroy e b) = vk_initialized b"
  "vk_slot (vdin1_vk_cache_entry_destroy e b) = vk_slot b"
  "vk_frame_count (vdin1_vk_cache_entry_destroy e b) = vk_frame_count b"
  "vk_async_pending (vdin1_vk_cache_entry_destroy e b) = vk_async_pending b"
  "vk_async_out_pool_idx (vdin1_vk_cache_entry_destroy e b) = vk_async_out_pool_idx b"
  "vk_async_vdin1_idx (vdin1_vk_cache_entry_destroy e b) = vk_async_vdin1_idx b"
  "vk_async_in_fd (vdin1_vk_cache_entry_destroy e b) = vk_async_in_fd b"
  "vk_input_cache (vdin1_vk_cache_entry_destroy e b) = vk_input_cache b"
  "vk_output_pool_cache (vdin1_vk_cache_entry_destroy e b) = vk_output_pool_cache b"
  "p010_out_fds (vdin1_vk_cache_entry_destroy e b) = p010_out_fds b"
  "p010_out_free (vdin1_vk_cache_entry_destroy e b) = p010_out_free b"
  "streaming (vdin1_vk_cache_entry_destroy e b) = streaming b"
  "flushing (vdin1_vk_cache_entry_destroy e b) = flushing b"
  "flush_pipe (vdin1_vk_cache_entry_destroy e b) = flush_pipe b"
  "caps_set (vdin1_vk_cache_entry_destroy e b) = caps_set b"
  "frame_count (vdin1_vk_cache_entry_destroy e b) = frame_count b"
  "signal_monitor (vdin1_vk_cache_entry_destroy e b) = signal_monitor b"
  "posts (vdin1_vk_cache_entry_destroy e b) = posts b"
  "fdt (vdin1_vk_cache_entry_destroy e b) = fdt b"
  "fresh (vdin1_vk_cache_entry_destroy e b) = fresh b"
  "content (vdin1_vk_cache_entry_destroy e b) = content b"
  "drvq (vdin1_vk_cache_entry_destroy e b) = drvq b"
  "gpu (vdin1_vk_cache_entry_destroy e b) = gpu b"
  "down (vdin1_vk_cache_entry_destroy e b) = down b"
  "seq (vdin1_vk_cache_entry_destroy e b) = seq b"
  "delivered (vdin1_vk_cache_entry_destroy e b) = delivered b"
  "env_broke (vdin1_vk_cache_entry_destroy e b) = env_broke b"
  "gpu_timed_out (vdin1_vk_cache_entry_destroy e b) = gpu_timed_out b"
  "stale_release (vdin1_vk_cache_entry_destroy e b) = stale_release b"
  by (simp_all add: vdin1_vk_cache_entry_destroy_def)

lemma cache_slot_sel [simp]:
  "output_p010 (snd (cache_slot b)) = output_p010 b"
  "num_buffers (snd (cache_slot b)) = num_buffers b"
  "color_mode (snd (cache_slot b)) = color_mode b"
  "box_width (snd (cache_slot b)) = box_width b"
  "box_height (snd (cache_slot b)) = box_height b"
  "fps (snd (cache_slot b)) = fps b"
  "colorimetry (snd (cache_slot b)) = colorimetry b"
  "vdin1_fd (snd (cache_slot b)) = vdin1_fd b"
  "vdin1_bufs (snd (cache_slot b)) = vdin1_bufs b"
  "vdin1_10bit (snd (cache_slot b)) = vdin1_10bit b"
  "vdin1_pixfmt (snd (cache_slot b)) = vdin1_pixfmt b"
  "vdin1_sizeimage (snd (cache_slot b)) = vdin1_sizeimage b"
  "vdin1_prev (snd (cache_slot b)) = vdin1_prev b"
  "vdin1_fmt_poll_counter (snd (cache_slot b)) = vdin1_fmt_poll_counter b"
  "vk_initialized (snd (cache_slot b)) = vk_initialized b"
  "vk_slot (snd (cache_slot b)) = vk_slot b"
  "vk_frame_count (snd (cache_slot b)) = vk_frame_count b"
  "vk_async_pending (snd (cache_slot b)) = vk_async_pending b"
  "vk_async_out_pool_idx (snd (cache_slot b)) = vk_async_out_pool_idx b"
  "vk_async_vdin1_idx (snd (cache_slot b)) = vk_async_vdin1_idx b"
  "vk_async_in_fd (snd (cache_slot b)) = vk_async_in_fd b"
  "vk_output_pool_cache (snd (cache_slot b)) = vk_output_pool_cache b"
  "p010_out_fds (snd (cache_slot b)) = p010_out_fds b"
  "p010_out_free (snd (cache_slot b)) = p010_out_free b"
  "streaming (snd (cache_slot b)) = streaming b"
  "flushing (snd (cache_slot b)) = flushing b"
  "flush_pipe (snd (cache_slot b)) = flush_pipe b"
  "caps_set (snd (cache_slot b)) = caps_set b"
  "frame_count (snd (cache_slot b)) = frame_count b"
  "signal_monitor (snd (cache_slot b)) = signal_monitor b"
  "posts (snd (cache_slot b)) = posts b"
  "fdt (snd (cache_slot b)) = fdt b"
  "fresh (snd (cache_slot b)) = fresh b"
  "content (snd (cache_slot b)) = content b"
  "drvq (snd (cache_slot b)) = drvq b"
  "gpu (snd (cache_slot b)) = gpu b"
  "down (snd (cache_slot b)) = down b"
  "seq (snd (cache_slot b)) = seq b"
  "delivered (snd (cache_slot b)) = delivered b"
  "env_broke (snd (cache_slot b)) = env_broke b"
  "gpu_timed_out (snd (cache_slot b)) = gpu_timed_out b"
  "stale_release (snd (cache_slot b)) = stale_release b"
  by (simp_all add: cache_slot_def Let_def)

lemma cache_get_sel [simp]:
  "output_p010 (snd (vdin1_vk_input_cache_get a fd sz b)) = output_p010 b"
  "num_buffers (snd (vdin1_vk_input_cache_get a fd sz b)) = num_buffers b"
  "color_mode (snd (vdin1_vk_input_cache_get a fd sz b)) = color_mode b"
  "box_width (snd (vdin1_vk_input_cache_get a fd sz b)) = box_width b"
  "box_height (snd (vdin1_vk_input_cache_get a fd sz b)) = box_height b"
  "fps (snd (vdin1_vk_input_cache_get a fd sz b)) = fps b"
  "colorimetry (snd (vdin1_vk_input_cache_get a fd sz b)) = colorimetry b"
  "vdin1_fd (snd (vdin1_vk_input_cache_get a fd sz b)) = vdin1_fd b"
  "vdin1_bufs (snd (vdin1_vk_input_cache_get a fd sz b)) = vdin1_bufs b"
  "vdin1_10bit (snd (vdin1_vk_input_cache_get a fd sz b)) = vdin1_10bit b"
  "vdin1_pixfmt (snd (vdin1_vk_input_cache_get a fd sz b)) = vdin1_pixfmt b"
  "vdin1_sizeimage (snd (vdin1_vk_input_cache_get a fd sz b)) = vdin1_sizeimage b"
  "vdin1_prev (snd (vdin1_vk_input_cache_get a fd sz b)) = vdin1_prev b"
  "vdin1_fmt_poll_counter (snd (vdin1_vk_input_cache_get a fd sz b)) = vdin1_fmt_poll_counter b"
  "vk_initialized (snd (vdin1_vk_input_cache_get a fd sz b)) = vk_initialized b"
  "vk_slot (snd (vdin1_vk_input_cache_get a fd sz b)) = vk_slot b"
  "vk_frame_count (snd (vdin1_vk_input_cache_get a fd sz b)) = vk_frame_count b"
  "vk_async_pending (snd (vdin1_vk_input_cache_get a fd sz b)) = vk_async_pending b"
  "vk_async_out_pool_idx (snd (vdin1_vk_input_cache_get a fd sz b)) = vk_async_out_pool_idx b"
  "vk_async_vdin1_idx (snd (vdin1_vk_input_cache_get a fd sz b)) = vk_async_vdin1_idx b"
  "vk_async_in_fd (snd (vdin1_vk_input_cache_get a fd sz b)) = vk_async_in_fd b"
  "vk_output_pool_cache (snd (vdin1_vk_input_cache_get a fd sz b)) = vk_output_pool_cache b"
  "p010_out_fds (snd (vdin1_vk_input_cache_get a fd sz b)) = p010_out_fds b"
  "p010_out_free (snd (vdin1_vk_input_cache_get a fd sz b)) = p010_out_free b"
  "streaming (snd (vdin1_vk_input_cache_get a fd sz b)) = streaming b"
  "flushing (snd (vdin1_vk_input_cache_get a fd sz b)) = flushing b"
  "flush_pipe (snd (vdin1_vk_input_cache_get a fd sz b)) = flush_pipe b"
  "caps_set (snd (vdin1_vk_input_cache_get a fd sz b)) = caps_set b"
  "frame_count (snd (vdin1_vk_input_cache_get a fd sz b)) = frame_count b"
  "signal_monitor (snd (vdin1_vk_input_cache_get a fd sz b)) = signal_monitor b"
  "posts (snd (vdin1_vk_input_cache_get a fd sz b)) = posts b"
  "fdt (snd (vdin1_vk_input_cache_get a fd sz b)) = fdt b"
  "fresh (snd (vdin1_vk_input_cache_get a fd sz b)) = fresh b"
  "content (snd (vdin1_vk_input_cache_get a fd sz b)) = content b"
  "drvq (snd (vdin1_vk_input_cache_get a fd sz b)) = drvq b"
  "gpu (snd (vdin1_vk_input_cache_get a fd sz b)) = gpu b"
  "down (snd (vdin1_vk_input_cache_get a fd sz b)) = down b"
  "seq (snd (vdin1_vk_input_cache_get a fd sz b)) = seq b"
  "delivered (snd (vdin1_vk_input_cache_get a fd sz b)) = delivered b"
  "env_broke (snd (vdin1_vk_input_cache_get a fd sz b)) = env_broke b"
  "gpu_timed_out (snd (vdin1_vk_input_cache_get a fd sz b)) = gpu_timed_out b"
  "stale_release (snd (vdin1_vk_input_cache_get a fd sz b)) = stale_release b"
  by (simp_all add: vdin1_vk_input_cache_get_def Let_def split_def split: option.split)

lemma submit_sel [simp]:
  "output_p010 (snd (vdin1_vk_submit_async a fd k slot b)) = output_p010 b"
  "num_buffers (snd (vdin1_vk_submit_async a fd k slot b)) = num_buffers b"
  "color_mode (snd (vdin1_vk_submit_async a fd k slot b)) = color_mode b"
  "box_width (snd (vdin1_vk_submit_async a fd k slot b)) = box_width b"
  "box_height (snd (vdin1_vk_submit_async a fd k slot b)) = box_height b"
  "fps (snd (vdin1_vk_submit_async a fd k slot b)) = fps b"
  "colorimetry (snd (vdin1_vk_submit_async a fd k slot b)) = colorimetry b"
  "vdin1_fd (snd (vdin1_vk_submit_async a fd k slot b)) = vdin1_fd b"
  "vdin1_bufs (snd (vdin1_vk_submit_async a fd k slot b)) = vdin1_bufs b"
  "vdin1_10bit (snd (vdin1_vk_submit_async a fd k slot b)) = vdin1_10bit b"
  "vdin1_pixfmt (snd (vdin1_vk_submit_async a fd k slot b)) = vdin1_pixfmt b"
  "vdin1_sizeimage (snd (vdin1_vk_submit_async a fd k slot b)) = vdin1_sizeimage b"
  "vdin1_prev (snd (vdin1_vk_submit_async a fd k slot b)) = vdin1_prev b"
  "vdin1_fmt_poll_counter (snd (vdin1_vk_submit_async a fd k slot b)) = vdin1_fmt_poll_counter b"
  "vk_initialized (snd (vdin1_vk_submit_async a fd k slot b)) = vk_initialized b"
  "vk_slot (snd (vdin1_vk_submit_async a fd k slot b)) = vk_slot b"
  "vk_frame_count (snd (vdin1_vk_submit_async a fd k slot b)) = vk_frame_count b"
  "vk_async_pending (snd (vdin1_vk_submit_async a fd k slot b)) = vk_async_pending b"
  "vk_async_out_pool_idx (snd (vdin1_vk_submit_async a fd k slot b)) = vk_async_out_pool_idx b"
  "vk_async_vdin1_idx (snd (vdin1_vk_submit_async a fd k slot b)) = vk_async_vdin1_idx b"
  "vk_async_in_fd (snd (vdin1_vk_submit_async a fd k slot b)) = vk_async_in_fd b"
  "vk_output_pool_cache (snd (vdin1_vk_submit_async a fd k slot b)) = vk_output_pool_cache b"
  "p010_out_fds (snd (vdin1_vk_submit_async a fd k slot b)) = p010_out_fds b"
  "p010_out_free (snd (vdin1_vk_submit_async a fd k slot b)) = p010_out_free b"
  "streaming (snd (vdin1_vk_submit_async a fd k slot b)) = streaming b"
  "flushing (snd (vdin1_vk_submit_async a fd k slot b)) = flushing b"
  "flush_pipe (snd (vdin1_vk_submit_async a fd k slot b)) = flush_pipe b"
  "caps_set (snd (vdin1_vk_submit_async a fd k slot b)) = caps_set b"
  "frame_count (snd (vdin1_vk_submit_async a fd k slot b)) = frame_count b"
  "signal_monitor (snd (vdin1_vk_submit_async a fd k slot b)) = signal_monitor b"
  "posts (snd (vdin1_vk_submit_async a fd k slot b)) = posts b"
  "fdt (snd (vdin1_vk_submit_async a fd k slot b)) = fdt b"
  "fresh (snd (vdin1_vk_submit_async a fd k slot b)) = fresh b"
  "content (snd (vdin1_vk_submit_async a fd k slot b)) = content b"
  "drvq (snd (vdin1_vk_submit_async a fd k slot b)) = drvq b"
  "down (snd (vdin1_vk_submit_async a fd k slot b)) = down b"
  "seq (snd (vdin1_vk_submit_async a fd k slot b)) = seq b"
  "delivered (snd (vdin1_vk_submit_async a fd k slot b)) = delivered b"
  "env_broke (snd (vdin1_vk_submit_async a fd k slot b)) = env_broke b"
  "gpu_timed_out (snd (vdin1_vk_submit_async a fd k slot b)) = gpu_timed_out b"
  "stale_release (snd (vdin1_vk_submit_async a fd k slot b)) = stale_release b"
  by (simp_all add: vdin1_vk_submit_async_def Let_def split_def split: option.split)

lemma cache_find_Some:
  "cache_find es fd sz i = Some k
    \<Longrightarrow> i \<le> k \<and> k - i < length es \<and> ce_valid (es ! (k - i)) \<and> ce_fd (es ! (k - i)) = fd"
proof (induction es arbitrary: i)
  case (Cons e es)
  show ?case
  proof (cases "ce_valid e \<and> ce_fd e = fd \<and> ce_size e = sz")
    case False
    then have "cache_find es fd sz (Suc i) = Some k" using Cons.prems by auto
    from Cons.IH [OF this] show ?thesis by (auto simp: Suc_diff_Suc [symmetric])
  qed (use Cons in auto)
qed simp

lemma cache_oldest_bound:
  "cache_oldest es t slot i = Some k \<Longrightarrow> slot = Some k \<or> i \<le> k \<and> k < i + length es"
  by (induction es arbitrary: t slot i) (fastforce split: if_splits)+

definition cache_ok :: "box \<Rightarrow> vk_entry list \<Rightarrow> bool" where
  "cache_ok b c \<longleftrightarrow> (\<forall>e \<in> set c. ce_valid e \<longrightarrow> fdt b (ce_fd e) = Some (ce_dmabuf e))"

lemma cache_ok_update:
  "cache_ok b c \<Longrightarrow> \<not> ce_valid e \<or> fdt b (ce_fd e) = Some (ce_dmabuf e) \<Longrightarrow> cache_ok b (c[i := e])"
  by (auto simp: cache_ok_def dest: set_update_subset_insert [THEN subsetD])

lemma idle_gpu: "jobs b \<Longrightarrow> \<not> vk_async_pending b \<Longrightarrow> gpu b = (\<lambda>_. None)"
  by (auto simp: jobs_def)

lemma idle_destroy: "gpu b = (\<lambda>_. None) \<Longrightarrow> vdin1_vk_cache_entry_destroy e b = b"
  by (simp add: vdin1_vk_cache_entry_destroy_def job_uses_def)

lemma cache_slot_idle:
  assumes c: "cache_ok b (vk_input_cache b)" and idle: "gpu b = (\<lambda>_. None)"
  obtains slot es where "cache_slot b = (slot, b\<lparr>vk_input_cache := es\<rparr>)" "slot < length es" "cache_ok b es"
proof (cases "length (vk_input_cache b) < 8")
  case True
  have "cache_ok b (vk_input_cache b @ [invalid_entry])"
    using c by (simp add: cache_ok_def invalid_entry_def)
  then show ?thesis using True
    by (intro that [of "length (vk_input_cache b)" "vk_input_cache b @ [invalid_entry]"]) (simp_all add: cache_slot_def Let_def)
next
  case False
  let ?es = "vk_input_cache b"
  let ?i = "case cache_oldest ?es (- 1) None 0 of Some i \<Rightarrow> i | None \<Rightarrow> 0"
  have "?i < length ?es"
    using cache_oldest_bound [of ?es "- 1" None 0] False by (auto split: option.splits)
  then show ?thesis
    using False idle_destroy [OF idle]
    by (intro that [of ?i "?es[?i := (?es ! ?i)\<lparr>ce_valid := False, ce_fd := - 1\<rparr>]"])
       (simp_all add: cache_slot_def Let_def cache_ok_update [OF c])
qed

lemma cache_get:
  assumes c: "cache_ok b (vk_input_cache b)" and idle: "gpu b = (\<lambda>_. None)" and d: "fdt b fd = Some d"
    and get: "vdin1_vk_input_cache_get a fd sz b = (r, b')"
  obtains es where "b' = b\<lparr>vk_input_cache := es\<rparr>" "cache_ok b es"
    "\<And>i. r = Some i \<Longrightarrow> ce_dmabuf (es ! i) = d"
proof (cases "cache_find (vk_input_cache b) fd sz 0")
  case (Some k)
  let ?es = "vk_input_cache b"
  let ?es' = "?es[k := (?es ! k)\<lparr>ce_last_used := vk_frame_count b\<rparr>]"
  have k: "k < length ?es" "ce_valid (?es ! k)" "ce_fd (?es ! k) = fd"
    using cache_find_Some [OF Some] by simp_all
  then have "?es ! k \<in> set ?es" by simp
  with c k d have e: "ce_dmabuf (?es ! k) = d" by (auto simp: cache_ok_def)
  have "cache_ok b ?es'" using k d e by (intro cache_ok_update [OF c]) simp
  moreover have "(r, b') = (Some k, b\<lparr>vk_input_cache := ?es'\<rparr>)"
    using Some unfolding get [symmetric] by (simp add: vdin1_vk_input_cache_get_def Let_def)
  ultimately show ?thesis using k e by (intro that [of ?es']) simp_all
next
  case None
  obtain slot es where cs: "cache_slot b = (slot, b\<lparr>vk_input_cache := es\<rparr>)" "slot < length es"
    "cache_ok b es" by (rule cache_slot_idle [OF c idle])
  let ?new = "\<lparr>ce_fd = fd, ce_dmabuf = the (fdt b fd), ce_size = sz, ce_valid = True,
    ce_last_used = vk_frame_count b\<rparr>"
  show ?thesis
  proof (cases "sub_dup a \<and> sub_import a")
    case True
    have "cache_ok b (es[slot := ?new])" using d by (intro cache_ok_update [OF cs(3)]) simp
    moreover have "(r, b') = (Some slot, b\<lparr>vk_input_cache := es[slot := ?new]\<rparr>)"
      using None True unfolding get [symmetric] by (simp add: vdin1_vk_input_cache_get_def Let_def cs(1))
    ultimately show ?thesis using cs(2) d by (intro that [of "es[slot := ?new]"]) simp_all
  next
    case False
    then have "(r, b') = (None, b\<lparr>vk_input_cache := es\<rparr>)"
      using None unfolding get [symmetric] by (simp add: vdin1_vk_input_cache_get_def Let_def cs(1))
    then show ?thesis using cs(3) by (intro that [of es]) simp_all
  qed
qed

text \<open>A submission while no job runs.\<close>

lemma submit_async:
  assumes g: "good hv hp b" and idle: "\<not> vk_async_pending b"
    and i: "i < length (vdin1_bufs b)" and k: "k < length (p010_out_fds b)"
    and s: "vdin1_vk_submit_async a (vdin1_bufs b ! i) k (vk_slot b) b = (r, b')"
  obtains es where "cache_ok b es"
    "b' = b\<lparr>vk_input_cache := es, gpu := (if r then (\<lambda>_. None)(vk_slot b := Some \<lparr>j_in = vdm b i, j_out = pdm b k\<rparr>)
                                        else gpu b)\<rparr>"
    "vk_initialized b \<or> \<not> r \<and> es = vk_input_cache b"
proof -
  have w: "wired b" and gp: "gpu b = (\<lambda>_. None)" using g idle idle_gpu by (simp_all add: good_def)
  have c: "cache_ok b (vk_input_cache b)" using w by (simp add: wired_def cache_ok_def)
  have dk: "ce_dmabuf (vk_output_pool_cache b ! k) = pdm b k" using w k by (simp add: wired_def)
  show ?thesis
  proof (cases "vk_initialized b \<and> k < length (p010_out_fds b) \<and> ce_valid (vk_output_pool_cache b ! k)")
    case False
    then have "r = False" "b' = b" using s by (auto simp: vdin1_vk_submit_async_def split: if_splits)
    then show ?thesis using that [OF c] by simp
  next
    case True
    let ?sz = "ucast (box_width b) * ucast (box_height b) * 5 div 2"
    obtain x b1 where get: "vdin1_vk_input_cache_get a (vdin1_bufs b ! i) ?sz b = (x, b1)" by fastforce
    from c gp vdm_fdt [OF w i] get obtain es where es: "b1 = b\<lparr>vk_input_cache := es\<rparr>" "cache_ok b es"
      "\<And>i'. x = Some i' \<Longrightarrow> ce_dmabuf (es ! i') = vdm b i" by (rule cache_get) blast
    show ?thesis
    proof (cases x)
      case None
      then have "r = False" "b' = b1" using s get True by (auto simp: vdin1_vk_submit_async_def)
      then show ?thesis using that [OF es(2)] es(1) True by simp
    next
      case (Some i')
      let ?g = "(\<lambda>_. None)(vk_slot b := Some \<lparr>j_in = vdm b i, j_out = pdm b k\<rparr>)"
      have "vdin1_vk_submit_async a (vdin1_bufs b ! i) k (vk_slot b) b =
          (if sub_record a \<and> sub_queue a then (True, b\<lparr>vk_input_cache := es, gpu := ?g\<rparr>)
           else (False, b\<lparr>vk_input_cache := es\<rparr>))"
        using get True es(1) es(3) [OF Some] dk gp Some
        by (simp add: vdin1_vk_submit_async_def Let_def)
      then have "(r, b') = (if sub_record a \<and> sub_queue a then (True, b\<lparr>vk_input_cache := es, gpu := ?g\<rparr>)
           else (False, b\<lparr>vk_input_cache := es\<rparr>))" using s by simp
      then have "b' = b\<lparr>vk_input_cache := es, gpu := (if r then ?g else gpu b)\<rparr>"
        by (cases "sub_record a \<and> sub_queue a") simp_all
      then show ?thesis using that [OF es(2)] True by blast
    qed
  qed
qed

lemma good_cache:
  "good hv hp b \<Longrightarrow> cache_ok b es \<Longrightarrow> vk_initialized b \<or> es = vk_input_cache b
    \<Longrightarrow> good hv hp (b\<lparr>vk_input_cache := es\<rparr>)"
  by (auto simp: good_def wired_def cache_ok_def places_def ordered_def)

text \<open>Writing an output buffer that neither downstream nor a finished frame uses.\<close>

lemma good_content:
  assumes g: "good hv hp b" and k: "k < length (p010_out_fds b)"
    and free: "\<forall>l \<in> set (down b). l_dmabuf l \<noteq> pdm b k" and hp: "\<forall>s. (k, Some s) \<notin> set hp"
  shows "good hv hp (b\<lparr>content := (content b)(pdm b k := c)\<rparr>)" (is "good hv hp ?b")
proof -
  have w: "wired b" using g by (simp add: good_def)
  have "\<forall>l \<in> set (down b). loan_ok ?b l" using g free by (simp add: good_def loan_ok_def)
  moreover have "in_flight ?b = in_flight b"
    using g vdm_pdm [OF w _ k] by (auto simp: in_flight_def good_def jobs_def)
  then have "line hv hp ?b = line hv hp b" by (simp add: line_def)
  moreover have "in_hand hv hp ?b"
    unfolding in_hand_def
  proof (intro conjI allI impI)
    fix i s assume i: "(i, Some s) \<in> set hv"
    then have "vdm b i \<noteq> pdm b k" using g vdm_pdm [OF w _ k] by (force simp: good_def places_def)
    then show "content ?b (vdm ?b i) = s" using g i by (simp add: good_def in_hand_def)
  next
    fix j s assume j: "(j, Some s) \<in> set hp"
    then have "j < length (p010_out_fds b)" using g by (force simp: good_def places_def)
    moreover have "j \<noteq> k" using j hp by blast
    ultimately have "pdm b j \<noteq> pdm b k" using pdm_inj [OF w] k by blast
    then show "content ?b (pdm ?b j) = s" using g j by (simp add: good_def in_hand_def)
  qed
  ultimately show ?thesis using g by (simp add: good_def places_def ordered_def)
qed

lemma env_sound_frame [simp]:
  "env_sound (b\<lparr>vk_input_cache := es\<rparr>) = env_sound b" "env_sound (b\<lparr>gpu := gp\<rparr>) = env_sound b"
  "env_sound (b\<lparr>content := c\<rparr>) = env_sound b" "env_sound (b\<lparr>vk_frame_count := f\<rparr>) = env_sound b"
  "env_sound (b\<lparr>vk_async_pending := p\<rparr>) = env_sound b" "env_sound (b\<lparr>vk_async_out_pool_idx := x\<rparr>) = env_sound b"
  "env_sound (b\<lparr>vk_async_vdin1_idx := y\<rparr>) = env_sound b" "env_sound (b\<lparr>vk_async_in_fd := z\<rparr>) = env_sound b"
  "env_sound (b\<lparr>vk_slot := s\<rparr>) = env_sound b" "env_sound (b\<lparr>drvq := q\<rparr>) = env_sound b"
  by (simp_all add: env_sound_def)

lemma sound_submit: "env_sound (snd (vdin1_vk_submit_async a fd k slot b)) = env_sound b"
  by (simp add: env_sound_def)

text \<open>The first conversion of a priming call.\<close>

lemma ok_convert_sync:
  assumes o: "ok [(i, Some s)] [(k, None)] b" and idle: "\<not> vk_async_pending b"
    and r: "vdin1_vk_convert_sync a w (vdin1_bufs b ! i) k b = (r, b')"
  shows "if r then ok [(i, None)] [(k, Some s)] b' else ok [(i, Some s)] [(k, None)] b'"
proof (cases "env_sound b'")
  case False
  then show ?thesis by (simp add: ok_def)
next
  case True
  obtain t b1 where sub: "vdin1_vk_submit_async a (vdin1_bufs b ! i) k (vk_slot b) b = (t, b1)" by fastforce
  have "env_sound b1"
    using True r sub by (auto simp: vdin1_vk_convert_sync_def vdin1_vk_wait_async_def gpu_finish_def Let_def
        env_sound_def split: if_splits option.splits)
  then have g: "good [(i, Some s)] [(k, None)] b"
    using o sub sound_submit [of a "vdin1_bufs b ! i" k "vk_slot b" b] by (simp add: ok_def)
  then have i: "i < length (vdin1_bufs b)" and k: "k < length (p010_out_fds b)"
    and s: "content b (vdm b i) = s" by (simp_all add: good_def places_def in_hand_def)
  obtain es where es: "cache_ok b es"
    and b1: "b1 = b\<lparr>vk_input_cache := es, gpu := (if t then (\<lambda>_. None)(vk_slot b :=
       Some \<lparr>j_in = vdm b i, j_out = pdm b k\<rparr>) else gpu b)\<rparr>"
    and ini: "vk_initialized b \<or> \<not> t \<and> es = vk_input_cache b"
    by (rule submit_async [OF g idle i k sub])
  have gp: "gpu b = (\<lambda>_. None)" using g idle idle_gpu by (simp add: good_def)
  then have gc: "good [(i, Some s)] [(k, None)] (b\<lparr>vk_input_cache := es\<rparr>)" using ini good_cache [OF g es] by blast
  show ?thesis
  proof (cases "t \<and> w")
    case True
    let ?d = "b\<lparr>vk_input_cache := es, gpu := \<lambda>_. None\<rparr>"
    let ?c = "?d\<lparr>content := (content b)(pdm b k := s)\<rparr>"
    have r': "(r, b') = (True, ?c\<lparr>vk_frame_count := vk_frame_count b + 1\<rparr>)"
      unfolding r [symmetric] using sub b1 True s
      by (simp add: vdin1_vk_convert_sync_def vdin1_vk_wait_async_def gpu_finish_def Let_def)
    have "?d = b\<lparr>vk_input_cache := es\<rparr>" using gp by (cases b) simp
    then have d: "good [(i, Some s)] [(k, None)] ?d" using gc by simp
    have "good [(i, Some s)] [(k, None)] ?c"
      using pool_not_down [OF g k] k good_content [OF d, of k s] by simp
    then have "good [(i, None)] [(k, Some s)] ?c"
      using idle unfolding good_def places_def ordered_def line_def in_flight_def in_hand_def
        pool_place_def vdin_place_def by simp
    then have "ok [(i, None)] [(k, Some s)] ?c" by (simp add: ok_def)
    then show ?thesis using r' by simp
  next
    case False
    then have "\<not> t \<or> gpu_timed_out b'"
      using r sub by (auto simp: vdin1_vk_convert_sync_def vdin1_vk_wait_async_def Let_def)
    then have t: "\<not> t" using \<open>env_sound b'\<close> by (auto simp: env_sound_def)
    then have "(r, b') = (False, b\<lparr>vk_input_cache := es\<rparr>)"
      using r sub b1 by (simp add: vdin1_vk_convert_sync_def Let_def)
    then show ?thesis using gc by (simp add: ok_def)
  qed
qed

text \<open>Remembering a submitted job passes its buffers and its frame from the call to the job.\<close>

lemma good_pending:
  assumes g: "good [(i, Some s)] ((k, None) # hp) b" and idle: "\<not> vk_async_pending b"
    and es: "cache_ok b es" and ten: "vdin1_10bit b" "vk_initialized b"
  shows "good [] hp (b\<lparr>vk_input_cache := es,
     gpu := (\<lambda>_. None)(vk_slot b := Some \<lparr>j_in = vdm b i, j_out = pdm b k\<rparr>), vk_async_pending := True,
     vk_async_out_pool_idx := int k, vk_async_vdin1_idx := i, vk_async_in_fd := fd, vk_slot := 1 - vk_slot b\<rparr>)"
    (is "good [] hp ?b")
proof -
  have i: "i < length (vdin1_bufs b)" and k: "k < length (p010_out_fds b)"
    and s: "content b (vdm b i) = s" and sl: "vk_slot b < 2"
    using g by (simp_all add: good_def places_def in_hand_def wired_def)
  have slot: "Suc 0 - (Suc 0 - vk_slot b) = vk_slot b" using sl by simp
  have pp: "pool_place hp ?b j = pool_place ((k, None) # hp) b j" for j
    using idle by (simp add: pool_place_def)
  have vp: "vdin_place [] ?b j = vdin_place [(i, Some s)] b j" for j
    using idle by (simp add: vdin_place_def)
  have "places [] hp ?b" using g unfolding good_def places_def pp vp by simp
  moreover have "wired ?b" using g es i ten unfolding good_def wired_def cache_ok_def by auto
  moreover have "jobs ?b" using g i k ten unfolding good_def jobs_def by (simp add: slot)
  moreover have "line [] hp ?b = line [(i, Some s)] ((k, None) # hp) b"
    using idle s by (simp add: line_def in_flight_def)
  ultimately show ?thesis using g by (simp add: good_def ordered_def in_hand_def)
qed

lemma ok_submit_next:
  assumes o: "ok [(i, Some s)] ((k, None) # hp) b" and idle: "\<not> vk_async_pending b" and ten: "vdin1_10bit b"
    and r: "submit_next a i k b = (r, b')"
  shows "if r then ok [] hp b' else ok [(i, Some s)] ((k, None) # hp) b'"
proof (cases "env_sound b")
  case False
  have "env_sound b' = env_sound b"
    using r sound_submit [of a "vdin1_bufs b ! i" k "vk_slot b" b]
    by (auto simp: submit_next_def split: prod.splits if_splits)
  then show ?thesis using False by (simp add: ok_def)
next
  case True
  then have g: "good [(i, Some s)] ((k, None) # hp) b" using o by (simp add: ok_def)
  then have i: "i < length (vdin1_bufs b)" and k: "k < length (p010_out_fds b)"
    by (simp_all add: good_def places_def)
  obtain t b1 where sub: "vdin1_vk_submit_async a (vdin1_bufs b ! i) k (vk_slot b) b = (t, b1)" by fastforce
  obtain es where es: "cache_ok b es"
    and b1: "b1 = b\<lparr>vk_input_cache := es, gpu := (if t then (\<lambda>_. None)(vk_slot b :=
       Some \<lparr>j_in = vdm b i, j_out = pdm b k\<rparr>) else gpu b)\<rparr>"
    and ini: "vk_initialized b \<or> \<not> t \<and> es = vk_input_cache b"
    by (rule submit_async [OF g idle i k sub])
  have gc: "good [(i, Some s)] ((k, None) # hp) (b\<lparr>vk_input_cache := es\<rparr>)" using ini good_cache [OF g es] by blast
  show ?thesis
  proof (cases t)
    case True
    from good_pending [OF g idle es ten, of "vdin1_bufs b ! i"]
    have "good [] hp b'" "r" using r sub b1 True ini by (auto simp: submit_next_def)
    then show ?thesis by (simp add: ok_def)
  next
    case False
    then have "(r, b') = (False, b\<lparr>vk_input_cache := es\<rparr>)"
      unfolding r [symmetric] using sub b1 by (simp add: submit_next_def)
    then show ?thesis using gc by (simp add: ok_def)
  qed
qed

text \<open>The end of the remembered job passes its buffers and its frame to the call.\<close>

lemma ok_wait:
  assumes o: "ok hv [] b" and p: "vk_async_pending b"
  shows "ok ((vk_async_vdin1_idx b, None) # hv)
     [(nat (vk_async_out_pool_idx b), Some (content b (vdm b (vk_async_vdin1_idx b))))]
     ((gpu_finish (1 - vk_slot b) b)\<lparr>vk_async_pending := False\<rparr>)"
  unfolding ok_def
proof
  let ?i = "vk_async_vdin1_idx b" and ?k = "nat (vk_async_out_pool_idx b)"
  let ?s = "content b (vdm b ?i)"
  let ?h = "(gpu_finish (1 - vk_slot b) b)\<lparr>vk_async_pending := False\<rparr>"
  let ?f = "b\<lparr>gpu := (gpu b)(1 - vk_slot b := None), content := (content b)(pdm b ?k := ?s),
      vk_async_pending := False\<rparr>"
  assume "env_sound ?h"
  then have "env_sound b" by (simp add: gpu_finish_def env_sound_def split: option.splits)
  then have g: "good hv [] b" using o by (simp add: ok_def)
  then have w: "wired b" and jb: "jobs b" by (simp_all add: good_def)
  then have i: "?i < length (vdin1_bufs b)" and k: "?k < length (p010_out_fds b)"
    and j: "gpu b (1 - vk_slot b) = Some \<lparr>j_in = vdm b ?i, j_out = pdm b ?k\<rparr>"
    using p by (simp_all add: jobs_def)
  have f: "?h = ?f" using j by (simp add: gpu_finish_def)
  have lines: "line hv [(?k, Some ?s)] ?f = line hv [] b"
    using p by (simp add: line_def in_flight_def)
  have "pool_place [(?k, Some ?s)] ?f j = pool_place [] b j" for j
    using p by (simp add: pool_place_def)
  moreover have "vdin_place ((?i, None) # hv) ?f j = vdin_place hv b j" for j
    using p by (simp add: vdin_place_def)
  ultimately have "places ((?i, None) # hv) [(?k, Some ?s)] ?f"
    using g i k by (simp add: good_def places_def)
  moreover have "jobs ?f" using jb p by (auto simp: jobs_def)
  moreover have "wired ?f" using w by simp
  moreover have "\<forall>l \<in> set (down ?f). loan_ok ?f l"
    using pool_not_down [OF g k] g p by (simp add: good_def loan_ok_def)
  moreover have "in_hand hv [(?k, Some ?s)] ?f"
    using g vdm_pdm [OF w _ k] by (force simp: good_def in_hand_def places_def)
  ultimately show "good ((?i, None) # hv) [(?k, Some ?s)] ?h"
    unfolding f using g lines by (simp add: good_def ordered_def)
qed

end
