(* ===== verification/Streambox_Ops.thy ===== *)
theory Streambox_Ops
  imports Streambox_Inv
begin

text \<open>
  Every operation of path B of the capture source keeps the invariant of \<open>Streambox_Inv\<close>, from the
  wait for a frame up to \<open>create\<close>, \<open>start\<close> and \<open>stop\<close>.
\<close>

section \<open>Waiting for a frame\<close>

lemma ok_other: "ok hv hp b \<Longrightarrow> ok hv hp (other_act x b)"
  by (cases x) (simp_all add: ok_release gst_streambox_src_unlock_def)

lemma ok_others: "ok hv hp b \<Longrightarrow> ok hv hp (fold other_act xs b)"
  by (induction xs arbitrary: b) (simp_all add: ok_other)

text \<open>What a wait leaves alone.\<close>

definition same_session :: "box \<Rightarrow> box \<Rightarrow> bool" where
  "same_session b b' \<longleftrightarrow> fdt b' = fdt b \<and> vdin1_bufs b' = vdin1_bufs b \<and> p010_out_fds b' = p010_out_fds b \<and>
     vdin1_10bit b' = vdin1_10bit b \<and> vdin1_fd b' = vdin1_fd b \<and> delivered b' = delivered b \<and>
     vk_initialized b' = vk_initialized b \<and> posts b' = posts b"

definition same_call :: "box \<Rightarrow> box \<Rightarrow> bool" where
  "same_call b b' \<longleftrightarrow> same_session b b' \<and> vk_async_pending b' = vk_async_pending b \<and>
     vk_async_vdin1_idx b' = vk_async_vdin1_idx b \<and> vk_async_out_pool_idx b' = vk_async_out_pool_idx b"

lemma same_session_refl [simp]: "same_session b b"
  by (simp add: same_session_def)

lemma same_session_trans: "same_session a b \<Longrightarrow> same_session b c \<Longrightarrow> same_session a c"
  by (simp add: same_session_def)

lemma same_call_refl [simp]: "same_call b b"
  by (simp add: same_call_def)

lemma same_call_trans: "same_call a b \<Longrightarrow> same_call b c \<Longrightarrow> same_call a c"
  by (simp add: same_call_def same_session_def)

lemma same_session_dm: "same_session b b' \<Longrightarrow> vdm b' = vdm b \<and> pdm b' = pdm b"
  by (simp add: same_session_def vdm_def pdm_def fun_eq_iff)

lemma same_call_other: "same_call b (other_act x b)"
  by (cases x) (simp_all add: same_call_def same_session_def gst_streambox_src_unlock_def)

lemma same_call_others: "same_call b (fold other_act xs b)"
proof (induction xs arbitrary: b)
  case (Cons x xs)
  then show ?case using same_call_trans [OF same_call_other Cons.IH] by simp
qed simp

lemma same_call_dqbuf: "same_call b (drv_dqbuf i b)"
  by (simp add: same_call_def same_session_def)

text \<open>A dequeued buffer that the code rejects was not the driver's to give.\<close>

lemma ok_bad_index:
  assumes "ok [] hp b" "length (vdin1_bufs b) \<le> i \<or> vdin1_bufs b ! i < 0"
  shows "ok hv hp' (drv_dqbuf i b)"
proof -
  have "ok [(i, Some (seq b))] hp (drv_dqbuf i b)" using ok_dqbuf [OF assms(1)] .
  moreover have "\<not> good [(i, Some (seq b))] hp (drv_dqbuf i b)"
  proof
    assume g: "good [(i, Some (seq b))] hp (drv_dqbuf i b)"
    then have i: "i < length (vdin1_bufs b)" by (simp add: good_def places_def)
    have w: "wired (drv_dqbuf i b)" using g by (simp add: good_def)
    then have "0 \<le> vdin1_bufs b ! i" using vdm_fdt [OF w] i by (simp add: wired_def)
    then show False using assms(2) i by simp
  qed
  ultimately show ?thesis by (simp add: ok_def)
qed

definition polled_ok :: "hand \<Rightarrow> polled \<Rightarrow> box \<Rightarrow> bool" where
  "polled_ok hp r b \<longleftrightarrow> (case r of Got_frame i \<Rightarrow> \<exists>s. ok [(i, Some s)] hp b | _ \<Rightarrow> ok [] hp b)"

lemma ok_poll:
  assumes "ok [] hp b" "poll_dqbuf lim ts n b = Some (r, ts', b')"
  shows "polled_ok hp r b' \<and> same_call b b'"
  using assms
proof (induction ts arbitrary: n b)
  case Nil
  then show ?case by (auto simp: polled_ok_def split: if_splits)
next
  case (Cons t ts)
  show ?case
  proof (cases "flushing b")
    case True
    then show ?thesis using Cons.prems by (auto simp: polled_ok_def)
  next
    case fl: False
    define b1 where "b1 = fold other_act (t_others t) b"
    have o1: "ok [] hp b1" and s1: "same_call b b1"
      using ok_others [OF Cons.prems(1)] same_call_others by (simp_all add: b1_def)
    have through: "polled_ok hp r b' \<and> same_call b b'" if "polled_ok hp r b' \<and> same_call b1 b'"
      using that s1 same_call_trans by blast
    have rec: "polled_ok hp r b' \<and> same_call b b'" if "poll_dqbuf lim ts m b1 = Some (r, ts', b')" for m
      using that Cons.IH [OF o1] through by blast
    have fin: "polled_ok hp r b' \<and> same_call b b'" if "\<forall>i. r \<noteq> Got_frame i" "b' = b1"
      using that o1 s1 by (cases r) (auto simp: polled_ok_def)
    note eq = Cons.prems(2) [unfolded poll_dqbuf.simps b1_def [symmetric] Let_def]
    show ?thesis
    proof (cases "t_poll t")
      case Poll_eintr
      then show ?thesis using eq fl rec by simp
    next
      case Poll_fail
      then show ?thesis using eq fl fin by simp
    next
      case (Poll_ret reported pri)
      let ?ev = "if signal_monitor b1 then pri else None"
      let ?act = "case ?ev of None \<Rightarrow> Signal_none | Some evs \<Rightarrow> handle_signal_event evs"
      consider (ends) "flushing b1 \<or> flush_pipe b1 \<or> ?act \<noteq> Signal_none"
        | (silent) "\<not> (flushing b1 \<or> flush_pipe b1)" "?act = Signal_none" "\<not> reported \<and> ?ev = None"
        | (ready) "\<not> (flushing b1 \<or> flush_pipe b1)" "?act = Signal_none" "\<not> (\<not> reported \<and> ?ev = None)"
        by blast
      then show ?thesis
      proof cases
        case ends
        then show ?thesis using eq fl Poll_ret fin by (auto split: if_splits)
      next
        case silent
        then show ?thesis using eq fl Poll_ret fin rec by (simp split: if_splits)
      next
        case ready
        show ?thesis
        proof (cases "t_dq t")
          case Dq_again
          then show ?thesis using eq fl Poll_ret ready rec by simp
        next
          case Dq_fail
          then show ?thesis using eq fl Poll_ret ready fin by simp
        next
          case (Dq_buf i)
          have "polled_ok hp r b' \<and> same_call b1 b'"
          proof (cases "length (vdin1_bufs b1) \<le> i \<or> vdin1_bufs b1 ! i < 0")
            case True
            then have "r = Got_dq_error" "b' = drv_dqbuf i b1"
              using eq fl Poll_ret ready Dq_buf by auto
            then show ?thesis using ok_bad_index [OF o1 True] same_call_dqbuf by (simp add: polled_ok_def)
          next
            case False
            then have "r = Got_frame i" "b' = drv_dqbuf i b1"
              using eq fl Poll_ret ready Dq_buf by auto
            then show ?thesis using ok_dqbuf [OF o1, of i] same_call_dqbuf by (auto simp: polled_ok_def)
          qed
          then show ?thesis by (rule through)
        qed
      qed
    qed
  qed
qed

section \<open>Ending the session of frames\<close>

lemma pending_commute:
  "(drv_qbuf q i b)\<lparr>vk_async_pending := x\<rparr> = drv_qbuf q i (b\<lparr>vk_async_pending := x\<rparr>)"
  "(pool_put k b)\<lparr>vk_async_pending := x\<rparr> = pool_put k (b\<lparr>vk_async_pending := x\<rparr>)"
  by (simp_all add: drv_qbuf_def pool_put_def)

text \<open>A state outside the contract stays outside.\<close>

lemma ok_unsound: "\<not> env_sound b \<Longrightarrow> ok hv hp b"
  by (simp add: ok_def)

lemma env_sound_others [simp]:
  "env_sound (b\<lparr>posts := ps\<rparr>) = env_sound b" "env_sound (b\<lparr>frame_count := fc\<rparr>) = env_sound b"
  "\<not> env_sound (b\<lparr>gpu_timed_out := True\<rparr>)"
  by (simp_all add: env_sound_def)

lemma ok_drain:
  assumes o: "ok [] [] b" and p: "vk_async_pending b"
  shows "ok [] [] (drain_async a b)"
proof (cases "a_wait a \<and> env_sound b")
  case False
  have "\<not> env_sound (drain_async a b)"
    using False by (auto simp: drain_async_def vdin1_vk_wait_async_def Let_def gpu_finish_def env_sound_def
        split: option.splits)
  then show ?thesis by (rule ok_unsound)
next
  case True
  then have g: "good [] [] b" using o by (simp add: ok_def)
  let ?i = "vk_async_vdin1_idx b" and ?k = "nat (vk_async_out_pool_idx b)"
  have i: "?i < length (vdin1_bufs b)" and k: "?k < length (p010_out_free b)" "0 \<le> vk_async_out_pool_idx b"
    using g p by (simp_all add: good_def jobs_def wired_def)
  have fd: "vdin1_fd b" using g i by (auto simp: good_def wired_def)
  have "drain_async a b = pool_put ?k (drv_qbuf (a_q1 a) ?i
      ((gpu_finish (1 - vk_slot b) b)\<lparr>vk_async_pending := False\<rparr>))"
    using True i k fd by (simp add: drain_async_def vdin1_vk_wait_async_def Let_def pending_commute)
  then show ?thesis using ok_pool_put [OF ok_qbuf [OF ok_wait [OF o p]]] by simp
qed

lemma ok_streamoff: "ok [] [] b \<Longrightarrow> ok [] [] (vdin1_streamoff b)"
proof (cases "vdin1_fd b")
  case True
  assume o: "ok [] [] b"
  show ?thesis unfolding ok_def
  proof
    assume "env_sound (vdin1_streamoff b)"
    then have g: "good [] [] b" using o True by (simp add: ok_def vdin1_streamoff_def)
    let ?b = "b\<lparr>drvq := Map.empty\<rparr>"
    have le: "vdin_place [] ?b i \<le> vdin_place [] b i" for i by (simp add: vdin_place_def)
    have "vdin_place [] ?b i \<le> 1" if "i < length (vdin1_bufs b)" for i
      using g that le [of i] unfolding good_def places_def by (meson order_trans)
    then have "places [] [] ?b" using g by (simp add: good_def places_def)
    then show "good [] [] (vdin1_streamoff b)"
      using g True by (simp add: good_def wired_def ordered_def vdin1_streamoff_def)
  qed
qed (simp add: vdin1_streamoff_def)

lemma ok_clean_exit:
  assumes "ok [] [] b"
  shows "ok [] [] (snd (clean_exit a reason b))"
  using ok_drain [OF assms, of a] assms
  by (auto simp: clean_exit_def Let_def post_signal_change_message_def intro!: ok_streamoff)

section \<open>Delivering frames\<close>

lemma same_call_submit: "vdin1_vk_submit_async a fd k slot b = (r, b') \<Longrightarrow> same_call b b'"
  using submit_sel [of a fd k slot b] by (simp add: same_call_def same_session_def del: submit_sel)

lemma submit_next_same:
  assumes "submit_next s i k b = (r, b')"
  shows "same_session b b' \<and> (\<not> r \<longrightarrow> vk_async_pending b' = vk_async_pending b)"
proof -
  obtain t b1 where sub: "vdin1_vk_submit_async s (vdin1_bufs b ! i) k (vk_slot b) b = (t, b1)" by fastforce
  then show ?thesis
    using assms same_call_submit [OF sub] by (auto simp: submit_next_def same_call_def same_session_def split: if_splits)
qed

lemma ok_overlap:
  assumes o: "ok [(i, Some s)] hp b" and idle: "\<not> vk_async_pending b" and ten: "vdin1_10bit b"
  shows "ok [] hp (overlap_frame a i b)"
proof (cases "p010_pool_acquire b")
  case None
  have "b\<lparr>vk_async_pending := False\<rparr> = b" using idle by (cases b) simp
  then show ?thesis using None ok_qbuf [OF o] by (simp add: overlap_frame_def)
next
  case (Some kb)
  then obtain k b1 where acq: "p010_pool_acquire b = Some (k, b1)" by (cases kb) auto
  have o1: "ok [(i, Some s)] ((k, None) # hp) b1" using ok_acquire [OF o acq] .
  have b1: "\<not> vk_async_pending b1" "vdin1_10bit b1"
    using acq idle ten by (auto simp: p010_pool_acquire_def split: option.splits)
  obtain r b2 where sub: "submit_next (a_sub2 a) i k b1 = (r, b2)" by fastforce
  have o2: "if r then ok [] hp b2 else ok [(i, Some s)] ((k, None) # hp) b2"
    by (rule ok_submit_next [OF o1 b1 sub])
  show ?thesis
  proof (cases r)
    case True
    then show ?thesis using o2 acq sub by (simp add: overlap_frame_def)
  next
    case False
    have "\<not> vk_async_pending b2" using submit_next_same [OF sub] False b1 by simp
    then have "b2\<lparr>vk_async_pending := False\<rparr> = b2" by (cases b2) simp
    then show ?thesis
      using o2 False acq sub ok_qbuf [OF ok_pool_put] by (simp add: overlap_frame_def pending_commute)
  qed
qed

lemma same_session_overlap: "same_session b (overlap_frame a i b)"
proof (cases "p010_pool_acquire b")
  case None
  then show ?thesis by (simp add: overlap_frame_def same_session_def)
next
  case (Some kb)
  then obtain k b1 where acq: "p010_pool_acquire b = Some (k, b1)" by (cases kb) auto
  have s1: "same_session b b1"
    using acq by (auto simp: p010_pool_acquire_def same_session_def split: option.splits)
  obtain r b2 where sub: "submit_next (a_sub2 a) i k b1 = (r, b2)" by fastforce
  then have "same_session b b2" using submit_next_same s1 same_session_trans by blast
  then show ?thesis using acq sub by (simp add: overlap_frame_def same_session_def)
qed

lemma ok_prime_second:
  assumes o: "ok [] hp b" and idle: "\<not> vk_async_pending b" and ten: "vdin1_10bit b"
    and r: "prime_second a ts b = Some b'"
  shows "ok [] hp b' \<and> same_session b b'"
proof -
  from r obtain x ts' b1 where p: "poll_dqbuf 3 ts 0 b = Some (x, ts', b1)"
    by (auto simp: prime_second_def split: option.splits)
  have o1: "polled_ok hp x b1" and s1: "same_call b b1" using ok_poll [OF o p] by simp_all
  show ?thesis
  proof (cases "\<exists>i. x = Got_frame i")
    case True
    then obtain i where i: "x = Got_frame i" ..
    then obtain s where "ok [(i, Some s)] hp b1" using o1 by (auto simp: polled_ok_def)
    moreover have "b' = overlap_frame a i b1" using r p i by (simp add: prime_second_def)
    moreover have "\<not> vk_async_pending b1" "vdin1_10bit b1" "same_session b b1"
      using s1 idle ten by (simp_all add: same_call_def same_session_def)
    ultimately show ?thesis
      using ok_overlap same_session_trans [OF _ same_session_overlap] by blast
  next
    case False
    then have "b' = b1" using r p by (cases x) (simp_all add: prime_second_def)
    then show ?thesis using o1 s1 False by (cases x) (simp_all add: polled_ok_def same_call_def)
  qed
qed

lemma ok_qbuf_return: "ok [(i, s)] [] b \<Longrightarrow> ok [] [] (snd (qbuf_return a i b))"
  by (simp add: qbuf_return_def ok_qbuf)

lemma ok_count_frame [simp]: "ok hv hp (count_frame b) = ok hv hp b"
  by (simp add: count_frame_def)

lemma same_call_convert_sync:
  assumes "vdin1_vk_convert_sync a w fd k b = (r, b')"
  shows "same_call b b'"
proof -
  obtain t b1 where sub: "vdin1_vk_submit_async a fd k (vk_slot b) b = (t, b1)" by fastforce
  have "same_call b1 b'"
    using assms sub
    by (cases t; cases w)
       (auto simp: vdin1_vk_convert_sync_def vdin1_vk_wait_async_def same_call_def same_session_def)
  then show ?thesis using same_call_submit [OF sub] same_call_trans by blast
qed

lemma ok_create_prime:
  assumes o: "ok [(i, Some s)] [] b" and idle: "\<not> vk_async_pending b" and ten: "vdin1_10bit b"
    and r: "create_prime a i ts b = Some (f, b')"
  shows "ok [] [] b'"
proof (cases "p010_pool_acquire b")
  case None
  then show ?thesis using r ok_qbuf_return [OF o, of a] by (simp add: create_prime_def)
next
  case (Some kb)
  then obtain k b1 where acq: "p010_pool_acquire b = Some (k, b1)" by (cases kb) auto
  have o1: "ok [(i, Some s)] [(k, None)] b1" using ok_acquire [OF o acq] .
  have b1: "\<not> vk_async_pending b1" "vdin1_10bit b1"
    using acq idle ten by (auto simp: p010_pool_acquire_def split: option.splits)
  obtain c b2 where cv: "vdin1_vk_convert_sync (a_sub1 a) (a_wait a) (vdin1_bufs b1 ! i) k b1 = (c, b2)"
    by fastforce
  have o2: "if c then ok [(i, None)] [(k, Some s)] b2 else ok [(i, Some s)] [(k, None)] b2"
    by (rule ok_convert_sync [OF o1 b1(1) cv])
  have b2: "\<not> vk_async_pending b2" "vdin1_10bit b2" using same_call_convert_sync [OF cv] b1 by (simp_all add: same_call_def same_session_def)
  show ?thesis
  proof (cases c)
    case False
    then show ?thesis
      using r acq cv o2 ok_qbuf_return [OF ok_pool_put, of i "Some s" k None b2 a] by (simp add: create_prime_def)
  next
    case True
    define b3 where "b3 = drv_qbuf (a_q1 a) i b2"
    have o3: "ok [] [(k, Some s)] b3" using o2 True by (simp add: b3_def ok_qbuf)
    note eq = r [unfolded create_prime_def acq]
    show ?thesis
    proof (cases "a_dup a \<and> a_mem a")
      case False
      then have "b' = pool_put k b3" using eq cv True by (auto simp: b3_def [symmetric])
      then show ?thesis using ok_pool_put [OF o3] by simp
    next
      case wrap: True
      then obtain b4 where sec: "prime_second a ts (count_frame b3) = Some b4"
        and b': "b' = push_buffer P010_loan k (pdm b3 k) b4"
        using eq cv True by (auto simp: b3_def [symmetric] split: option.splits)
      have "ok [] [(k, Some s)] b4 \<and> same_session (count_frame b3) b4"
        using o3 b2 by (intro ok_prime_second [OF _ _ _ sec]) (simp_all add: b3_def count_frame_def)
      moreover then have "pdm b4 = pdm b3"
        using same_session_dm [of "count_frame b3" b4] by (simp add: count_frame_def)
      ultimately show ?thesis using ok_deliver_p010 [of "[]" k s b4] by (simp add: b')
    qed
  qed
qed

lemma ok_create_steady:
  assumes o: "ok [(i, Some s)] [] b" and p: "vk_async_pending b" and ten: "vdin1_10bit b"
  shows "ok [] [] (snd (create_steady a i b))"
proof (cases "a_wait a")
  case False
  have "\<not> env_sound (snd (create_steady a i b))"
    using False by (simp add: create_steady_def vdin1_vk_wait_async_def qbuf_return_def)
  then show ?thesis by (rule ok_unsound)
next
  case True
  let ?k = "nat (vk_async_out_pool_idx b)"
  let ?p = "content b (vdm b (vk_async_vdin1_idx b))"
  define b3 where "b3 = drv_qbuf (a_q1 a) (vk_async_vdin1_idx b)
    ((gpu_finish (1 - vk_slot b) b)\<lparr>vk_async_pending := False\<rparr>)"
  have o3: "ok [(i, Some s)] [(?k, Some ?p)] b3"
    unfolding b3_def by (rule ok_qbuf [OF ok_wait [OF o p]])
  have b3: "\<not> vk_async_pending b3" "vdin1_10bit b3" using ten by (simp_all add: b3_def)
  have eq: "create_steady a i b =
      (if \<not> a_dup a \<or> \<not> a_mem a then qbuf_return a i (pool_put ?k b3)
       else (Flow_ok, push_buffer P010_loan ?k (pdm b3 ?k) (overlap_frame a i (count_frame b3))))"
    using True by (simp add: create_steady_def vdin1_vk_wait_async_def b3_def Let_def)
  show ?thesis
  proof (cases "a_dup a \<and> a_mem a")
    case False
    then show ?thesis using eq ok_qbuf_return [OF ok_pool_put [OF o3], of a] by auto
  next
    case True
    let ?b4 = "overlap_frame a i (count_frame b3)"
    have "ok [] [(?k, Some ?p)] ?b4"
      using o3 b3 by (intro ok_overlap [where s = s]) (simp_all add: count_frame_def)
    moreover have "pdm ?b4 = pdm b3"
      using same_session_dm [OF same_session_overlap [of "count_frame b3" a i]] by (simp add: count_frame_def)
    ultimately show ?thesis using eq True ok_deliver_p010 [of "[]" ?k ?p ?b4] by simp
  qed
qed

lemma ok_create_8bit:
  assumes o: "ok [(i, Some s)] [] b" and eight: "\<not> vdin1_10bit b"
  shows "ok [] [] (snd (create_8bit a i b))"
proof (cases "env_sound b")
  case True
  then have "\<not> vk_async_pending b" using o eight by (auto simp: ok_def good_def jobs_def)
  then show ?thesis
    using ok_qbuf_return [OF o, of a] ok_deliver_vdin1 [of i s "b\<lparr>frame_count := frame_count b + 1\<rparr>"] o
    by (simp add: create_8bit_def)
next
  case False
  then have "\<not> env_sound (snd (create_8bit a i b))"
    by (simp add: create_8bit_def qbuf_return_def env_sound_def)
  then show ?thesis by (rule ok_unsound)
qed

lemma ok_create_path_b:
  assumes o: "ok [] [] b" and r: "create_path_b ts a b = Some (f, b')"
  shows "ok [] [] b'"
proof (cases "vdin1_fd b")
  case False
  then show ?thesis using o r by (simp add: create_path_b_def)
next
  case fd: True
  obtain ch b1 where fc: "vdin1_check_format_change (a_fmt a) (b\<lparr>caps_set := True\<rparr>) = (ch, b1)" by fastforce
  have "b1 = b\<lparr>caps_set := True, vdin1_fmt_poll_counter := vdin1_fmt_poll_counter b + 1\<rparr>"
    using fc by (auto simp: vdin1_check_format_change_def Let_def split: if_splits option.splits)
  then have o1: "ok [] [] b1" using o by simp
  show ?thesis
  proof (cases ch)
    case True
    then have "clean_exit a ''format-changed'' b1 = (f, b')" using r fd fc by (simp add: create_path_b_def)
    then show ?thesis using ok_clean_exit [OF o1, of a "''format-changed''"] by simp
  next
    case False
    then obtain x ts' b2 where p: "poll_dqbuf 5 ts 0 b1 = Some (x, ts', b2)"
      using r fd fc by (auto simp: create_path_b_def split: option.splits)
    have o2: "polled_ok [] x b2" using ok_poll [OF o1 p] by simp
    note eq = r [unfolded create_path_b_def fc]
    show ?thesis
    proof (cases "\<exists>i. x = Got_frame i")
      case True
      then obtain i s where i: "x = Got_frame i" and oi: "ok [(i, Some s)] [] b2"
        using o2 by (auto simp: polled_ok_def)
      show ?thesis
      proof (cases "vdin1_10bit b2")
        case True
        then show ?thesis
          using eq fd False p i ok_create_prime [OF oi, of a ts'] ok_create_steady [OF oi, of a]
          by (auto split: if_splits)
      next
        case eight: False
        then have "create_8bit a i b2 = (f, b')" using eq fd False p i by simp
        then show ?thesis using ok_create_8bit [OF oi eight, of a] by simp
      qed
    next
      case nf: False
      then have "ok [] [] b2" using o2 by (cases x) (simp_all add: polled_ok_def)
      then show ?thesis
        using eq fd False p nf ok_clean_exit [of b2 a] by (cases x) (auto simp: clean_exit_def)
    qed
  qed
qed

lemma ok_create:
  "ok [] [] b \<Longrightarrow> gst_streambox_src_create ts a b = Some (f, b') \<Longrightarrow> ok [] [] b'"
  using ok_create_path_b [of b ts a f b'] by (auto simp: gst_streambox_src_create_def split: if_splits)

end
