(* ===== verification/Streambox_Session.thy ===== *)
theory Streambox_Session
  imports Streambox_Ops
begin

text \<open>
  Starting and stopping path B of the capture source keep the invariant of \<open>Streambox_Inv\<close>: a
  successful start hands every capture buffer to the driver and fills the pool with new DMA buffers,
  and a failed start or a stop leaves nothing open.
\<close>

section \<open>What a start or stop carries over\<close>

definition fdt_ok :: "box \<Rightarrow> bool" where
  "fdt_ok b \<longleftrightarrow> inj_on (fdt b) (dom (fdt b)) \<and> (\<forall>fd d. fdt b fd = Some d \<longrightarrow> 0 \<le> fd \<and> d < fresh b)"

definition carried :: "box \<Rightarrow> box \<Rightarrow> bool" where
  "carried b b' \<longleftrightarrow> content b' = content b \<and> down b' = down b \<and> seq b' = seq b \<and> delivered b' = delivered b \<and>
     gpu b' = gpu b \<and> vk_misuse b' = vk_misuse b \<and> gpu_timed_out b' = gpu_timed_out b \<and>
     stale_release b' = stale_release b \<and> fresh b \<le> fresh b' \<and>
     (\<not> env_broke b' \<longrightarrow> \<not> env_broke b \<and> (fdt_ok b \<longrightarrow> fdt_ok b'))"

lemma carried_refl [simp]: "carried b b"
  by (simp add: carried_def)

lemma carried_trans: "carried a b \<Longrightarrow> carried b c \<Longrightarrow> carried a c"
  by (auto simp: carried_def)

lemma carried_sound: "carried b b' \<Longrightarrow> env_sound b' \<Longrightarrow> env_sound b"
  by (simp add: carried_def env_sound_def)

definition closed :: "box \<Rightarrow> bool" where
  "closed b \<longleftrightarrow> vdin1_bufs b = [] \<and> p010_out_fds b = [] \<and> p010_out_free b = [] \<and> vk_output_pool_cache b = [] \<and>
     vk_input_cache b = [] \<and> drvq b = Map.empty \<and> \<not> vk_async_pending b \<and> \<not> vk_initialized b \<and> vk_slot b < 2"

lemma good_closed:
  assumes g: "good [] [] b" and idle: "\<not> vk_async_pending b" and c: "carried b b'" "closed b'" "env_sound b'"
  shows "good [] [] b'"
proof -
  have gp: "gpu b' = (\<lambda>_. None)" using idle_gpu [of b] g idle c(1) by (simp add: good_def carried_def)
  have f: "fdt_ok b'" using c g by (simp add: carried_def fdt_ok_def env_sound_def good_def wired_def)
  have "wired b'" using c(2) f by (simp add: wired_def closed_def fdt_ok_def)
  moreover have "\<not> vk_misuse b'" using c(1) g by (simp add: carried_def good_def jobs_def)
  then have "jobs b'" using c(2) gp by (simp add: jobs_def closed_def)
  moreover have "places [] [] b'" using c(2) by (simp add: places_def closed_def)
  moreover have "\<forall>l \<in> set (down b'). loan_ok b' l"
    using c g by (auto simp: loan_ok_def closed_def carried_def good_def intro: less_le_trans)
  moreover have "line [] [] b' = line [] [] b" using c idle by (simp add: line_def in_flight_def carried_def closed_def)
  ultimately show ?thesis using g c(1) by (simp add: good_def in_hand_def ordered_def carried_def)
qed

section \<open>Closing\<close>

lemma fold_destroy_idle: "gpu b = (\<lambda>_. None) \<Longrightarrow> fold vdin1_vk_cache_entry_destroy es b = b"
  by (induction es) (simp_all add: idle_destroy)

lemma fold_close: "fold close_fd fds b = b\<lparr>fdt := fdt b |` (- set fds)\<rparr>"
proof (induction fds arbitrary: b)
  case Nil
  then show ?case by (cases b) simp
next
  case (Cons fd fds)
  have eq: "fdt (close_fd fd b) |` (- set fds) = fdt b |` (- set (fd # fds))"
    by (auto simp: close_fd_def restrict_map_def fun_eq_iff)
  have "fold close_fd (fd # fds) b = (close_fd fd b)\<lparr>fdt := fdt (close_fd fd b) |` (- set fds)\<rparr>"
    using Cons.IH by simp
  moreover have "(close_fd fd b)\<lparr>fdt := m\<rparr> = b\<lparr>fdt := m\<rparr>" for m by (simp add: close_fd_def)
  ultimately show ?case unfolding eq by simp
qed

lemma fold_close_valid:
  "fold (\<lambda>fd b. if 0 \<le> fd then close_fd fd b else b) fds b = b\<lparr>fdt := fdt b |` (- {fd \<in> set fds. 0 \<le> fd})\<rparr>"
proof -
  have "fold (\<lambda>fd b. if 0 \<le> fd then close_fd fd b else b) fds b = fold close_fd (filter (\<lambda>fd. 0 \<le> fd) fds) b"
    by (induction fds arbitrary: b) simp_all
  then show ?thesis by (simp add: fold_close)
qed

lemma fdt_ok_restrict: "fdt_ok b \<Longrightarrow> fdt_ok (b\<lparr>fdt := fdt b |` S\<rparr>)"
  by (auto simp: fdt_ok_def inj_on_def restrict_map_def split: if_splits) (metis domI)

lemma carried_close:
  assumes "fdt b' = fdt b |` S" "fresh b' = fresh b" "content b' = content b" "down b' = down b" "seq b' = seq b"
    "delivered b' = delivered b" "gpu b' = gpu b" "vk_misuse b' = vk_misuse b"
    "gpu_timed_out b' = gpu_timed_out b" "stale_release b' = stale_release b" "env_broke b' = env_broke b"
  shows "carried b b'"
proof -
  have "fdt_ok b'" if "fdt_ok b"
    using fdt_ok_restrict [OF that, of S] assms(1,2) by (simp add: fdt_ok_def)
  then show ?thesis using assms by (simp add: carried_def)
qed

lemma pool_cleanup_idle:
  assumes "gpu b = (\<lambda>_. None)"
  shows "p010_pool_cleanup b = b\<lparr>fdt := fdt b |` (- set (p010_out_fds b)), p010_out_fds := [],
    p010_out_free := [], vk_output_pool_cache := []\<rparr>"
  using fold_destroy_idle [OF assms] by (simp add: p010_pool_cleanup_def fold_close)

lemma carried_pool_cleanup: "gpu b = (\<lambda>_. None) \<Longrightarrow> carried b (p010_pool_cleanup b)"
  by (rule carried_close [where S = "- set (p010_out_fds b)"]) (simp_all add: pool_cleanup_idle)

lemma vk_cleanup_idle:
  assumes "gpu b = (\<lambda>_. None)"
  shows "vdin1_vk_cleanup b = (if vk_initialized b
    then b\<lparr>vk_input_cache := [], vk_initialized := False, vk_async_pending := False\<rparr> else b)"
  using fold_destroy_idle [OF assms] assms by (simp add: vdin1_vk_cleanup_def gpu_finish_def Let_def)

lemma carried_vk_cleanup: "gpu b = (\<lambda>_. None) \<Longrightarrow> carried b (vdin1_vk_cleanup b)"
  by (simp add: vk_cleanup_idle carried_def fdt_ok_def)

lemma free_dmabufs:
  assumes "vdin1_free_dmabufs b = Inr b'"
  shows "b' = b\<lparr>fdt := fdt b |` (- {fd \<in> set (vdin1_bufs b). 0 \<le> fd}), vdin1_bufs := []\<rparr>"
  using assms by (simp add: vdin1_free_dmabufs_def fold_close_valid split: if_splits)

lemma carried_free_dmabufs: "vdin1_free_dmabufs b = Inr b' \<Longrightarrow> carried b b'"
  by (rule carried_close [where S = "- {fd \<in> set (vdin1_bufs b). 0 \<le> fd}"]) (drule free_dmabufs, simp)+

text \<open>The three releases together, as \<open>stop\<close> and a failing \<open>start\<close> call them.\<close>

lemma release_all:
  assumes gp: "gpu b = (\<lambda>_. None)" and b2: "b2 = vdin1_vk_cleanup (p010_pool_cleanup b)"
    and r: "vdin1_free_dmabufs (b2\<lparr>drvq := q\<rparr>) = Inr b3"
    and p: "vk_async_pending b \<longrightarrow> vk_initialized b" "vk_initialized b \<or> vk_input_cache b = []" "vk_slot b < 2"
  shows "carried b b3 \<and> closed (close_vdin1 b3) \<and> carried b3 (close_vdin1 b3)"
proof -
  have c1: "carried b (p010_pool_cleanup b)" using carried_pool_cleanup [OF gp] .
  have gp1: "gpu (p010_pool_cleanup b) = (\<lambda>_. None)" using c1 gp by (simp add: carried_def)
  have c2: "carried (p010_pool_cleanup b) b2" unfolding b2 using carried_vk_cleanup [OF gp1] .
  have c2q: "carried b2 (b2\<lparr>drvq := q\<rparr>)" by (simp add: carried_def fdt_ok_def)
  have c3: "carried (b2\<lparr>drvq := q\<rparr>) b3" using carried_free_dmabufs [OF r] .
  have "carried b b3" using c1 c2 c2q c3 carried_trans by blast
  moreover have "closed (close_vdin1 b3)"
  proof -
    define b1 where "b1 = p010_pool_cleanup b"
    have "p010_out_fds b1 = [] \<and> p010_out_free b1 = [] \<and> vk_output_pool_cache b1 = [] \<and>
        vk_initialized b1 = vk_initialized b \<and> vk_async_pending b1 = vk_async_pending b \<and>
        vk_input_cache b1 = vk_input_cache b \<and> vk_slot b1 = vk_slot b"
      by (simp add: b1_def pool_cleanup_idle [OF gp])
    moreover have "b2 = (if vk_initialized b1
        then b1\<lparr>vk_input_cache := [], vk_initialized := False, vk_async_pending := False\<rparr> else b1)"
      using vk_cleanup_idle [OF gp1] by (simp add: b2 b1_def)
    ultimately show ?thesis
      using free_dmabufs [OF r] p by (cases "vk_initialized b") (simp_all add: closed_def close_vdin1_def)
  qed
  moreover have "carried b3 (close_vdin1 b3)" by (simp add: carried_def close_vdin1_def fdt_ok_def)
  ultimately show ?thesis by blast
qed

section \<open>Stopping\<close>

lemma drain_idle [simp]: "\<not> vk_async_pending (drain_async a b)"
  by (simp add: drain_async_def Let_def)

lemma sound_frame2 [simp]:
  "env_sound (b\<lparr>fdt := x1\<rparr>) = env_sound b" "env_sound (b\<lparr>p010_out_fds := x2\<rparr>) = env_sound b"
  "env_sound (b\<lparr>p010_out_free := x3\<rparr>) = env_sound b" "env_sound (b\<lparr>vk_output_pool_cache := x4\<rparr>) = env_sound b"
  "env_sound (b\<lparr>vk_initialized := x5\<rparr>) = env_sound b" "env_sound (b\<lparr>vdin1_bufs := x6\<rparr>) = env_sound b"
  "env_sound (b\<lparr>signal_monitor := x7\<rparr>) = env_sound b" "env_sound (b\<lparr>streaming := x8\<rparr>) = env_sound b"
  "env_sound (b\<lparr>caps_set := x9\<rparr>) = env_sound b" "env_sound (b\<lparr>vdin1_fd := x10\<rparr>) = env_sound b"
  "env_sound (b\<lparr>fps := x11\<rparr>) = env_sound b"
  by (simp_all add: env_sound_def)

lemma sound_destroy: "env_sound (fold vdin1_vk_cache_entry_destroy es b) = env_sound b"
  by (induction es arbitrary: b) (simp_all add: env_sound_def)

lemma sound_cleanup:
  "env_sound (p010_pool_cleanup b) = env_sound b" "env_sound (vdin1_vk_cleanup b) = env_sound b"
  "env_sound (close_vdin1 b) = env_sound b" "env_sound (vdin1_streamoff b) = env_sound b"
  by (simp_all add: p010_pool_cleanup_def vdin1_vk_cleanup_def close_vdin1_def vdin1_streamoff_def Let_def
      fold_close sound_destroy) (simp_all add: env_sound_def)

lemma cleanup_fd:
  "vdin1_fd (vdin1_vk_cleanup (p010_pool_cleanup b)) = vdin1_fd b"
proof -
  have "vdin1_fd (fold vdin1_vk_cache_entry_destroy es b) = vdin1_fd b" for es b
    by (induction es arbitrary: b) simp_all
  then show ?thesis by (simp add: p010_pool_cleanup_def vdin1_vk_cleanup_def Let_def fold_close)
qed

lemma ok_stop:
  assumes o: "ok [] [] b" and r: "gst_streambox_src_stop a b = Inr b'"
  shows "ok [] [] b' \<and> (env_sound b' \<longrightarrow> \<not> vdin1_fd b' \<and> closed b')"
proof (cases "env_sound b'")
  case False
  then show ?thesis using ok_unsound by blast
next
  case snd: True
  define b1 where "b1 = (if vk_async_pending b \<and> vk_initialized b then drain_async a b else b)"
  define b2 where "b2 = vdin1_vk_cleanup (p010_pool_cleanup b1)"
  have o1: "ok [] [] b1" using ok_drain [OF o] o by (simp add: b1_def)
  obtain b4 where b': "b' = b4\<lparr>signal_monitor := False, streaming := False, caps_set := False\<rparr>"
    and fr: "(if vdin1_fd b2 then rbind (vdin1_free_dmabufs (vdin1_streamoff b2)) (\<lambda>b3. Inr (close_vdin1 b3))
      else Inr b2) = Inr b4"
    using r unfolding gst_streambox_src_stop_def stop_path_b_def Let_def b1_def [symmetric] b2_def [symmetric]
    by (auto simp: rbind_Inr_iff)
  have "env_sound b4" using snd by (simp add: b')
  then have s1: "env_sound b1"
    using fr by (auto simp: b2_def sound_cleanup rbind_Inr_iff dest!: free_dmabufs split: if_splits)
  then have g1: "good [] [] b1" using o1 by (simp add: ok_def)
  have i1: "\<not> vk_async_pending b1" using g1 by (auto simp: b1_def good_def jobs_def split: if_splits)
  have gp: "gpu b1 = (\<lambda>_. None)" using g1 i1 idle_gpu by (simp add: good_def)
  have "carried b1 b4 \<and> closed b4 \<and> \<not> vdin1_fd b4"
  proof (cases "vdin1_fd b1")
    case True
    then obtain b3 where b3: "vdin1_free_dmabufs (b2\<lparr>drvq := Map.empty\<rparr>) = Inr b3" "b4 = close_vdin1 b3"
      using fr by (auto simp: b2_def cleanup_fd rbind_Inr_iff vdin1_streamoff_def)
    have "carried b1 b3 \<and> closed (close_vdin1 b3) \<and> carried b3 (close_vdin1 b3)"
      using i1 g1 by (intro release_all [OF gp b2_def b3(1)]) (simp_all add: good_def wired_def)
    then show ?thesis using b3(2) carried_trans by (auto simp: close_vdin1_def)
  next
    case False
    then have c: "p010_out_fds b1 = []" "p010_out_free b1 = []" "vk_output_pool_cache b1 = []" "vdin1_bufs b1 = []"
      "\<not> vk_initialized b1" "vk_input_cache b1 = []" "drvq b1 = Map.empty" "vk_slot b1 < 2"
      using g1 by (auto simp: good_def wired_def fun_eq_iff)
    have "b4 = b2" using fr False by (simp add: b2_def cleanup_fd)
    moreover have "p010_pool_cleanup b1 = b1"
      using c by (simp add: pool_cleanup_idle [OF gp]) (cases b1, simp add: restrict_map_def)
    then have "b2 = b1" using c by (simp add: b2_def vdin1_vk_cleanup_def)
    ultimately show ?thesis using c i1 False by (simp add: closed_def)
  qed
  then have c: "carried b1 b'" "closed b'" "\<not> vdin1_fd b'"
    by (simp_all add: b' carried_def closed_def fdt_ok_def)
  then show ?thesis using good_closed [OF g1 i1 c(1,2) snd] by (simp add: ok_def)
qed

section \<open>Starting\<close>

text \<open>New descriptors for new DMA buffers.\<close>

definition allocated :: "int list \<Rightarrow> box \<Rightarrow> box \<Rightarrow> bool" where
  "allocated fds b b' \<longleftrightarrow> distinct fds \<and> set fds \<inter> dom (fdt b) = {} \<and>
     (\<forall>fd \<in> dom (fdt b). fdt b' fd = fdt b fd) \<and> (\<forall>fd \<in> set fds. \<exists>d. fdt b' fd = Some d \<and> fresh b \<le> d)"

text \<open>What the allocations leave alone.\<close>

definition unmoved :: "box \<Rightarrow> box \<Rightarrow> bool" where
  "unmoved b b' \<longleftrightarrow> drvq b' = drvq b \<and> vk_async_pending b' = vk_async_pending b \<and> vk_initialized b' = vk_initialized b \<and>
     vk_input_cache b' = vk_input_cache b \<and> vdin1_fd b' = vdin1_fd b \<and> vdin1_10bit b' = vdin1_10bit b \<and>
     vk_slot b' = vk_slot b"

lemma alloc_dmabuf:
  assumes "alloc_cma_dmabuf r b = Some (fd, b')"
  shows "b' = b\<lparr>fdt := (fdt b)(fd \<mapsto> fresh b), fresh := Suc (fresh b),
      env_broke := (env_broke b \<or> fd < 0 \<or> fdt b fd \<noteq> None)\<rparr>"
  using assms by (auto simp: alloc_cma_dmabuf_def split: option.splits)

lemma alloc_sel:
  assumes "alloc_cma_dmabuf r b = Some (fd, b')"
  shows "vdin1_bufs b' = vdin1_bufs b" "p010_out_fds b' = p010_out_fds b" "p010_out_free b' = p010_out_free b"
    "vk_output_pool_cache b' = vk_output_pool_cache b" "fdt b' = (fdt b)(fd \<mapsto> fresh b)" "unmoved b b'"
    "\<not> env_broke b' \<Longrightarrow> fdt b fd = None"
  using alloc_dmabuf [OF assms] by (simp_all add: unmoved_def)

lemma carried_alloc:
  assumes "alloc_cma_dmabuf r b = Some (fd, b')"
  shows "carried b b'"
proof -
  note eq = alloc_dmabuf [OF assms]
  have "fdt_ok b'" if "fdt_ok b" "\<not> env_broke b'"
    using that unfolding eq
    by (auto simp: fdt_ok_def inj_on_def less_Suc_eq) (metis domI less_irrefl)+
  then show ?thesis unfolding carried_def by (simp add: eq)
qed

lemma allocated_Nil [simp]: "allocated [] b b"
  by (simp add: allocated_def)

lemma allocated_cong:
  "fdt b1 = fdt b \<Longrightarrow> fresh b1 = fresh b \<Longrightarrow> fdt b2 = fdt b' \<Longrightarrow> allocated fds b1 b2 = allocated fds b b'"
  by (simp add: allocated_def)

lemma allocated_append:
  assumes "allocated fds b b1" "allocated fds' b1 b'" "fresh b \<le> fresh b1"
  shows "allocated (fds @ fds') b b'"
proof -
  have a1: "distinct fds" "set fds \<inter> dom (fdt b) = {}"
    and o1: "\<And>fd. fd \<in> dom (fdt b) \<Longrightarrow> fdt b1 fd = fdt b fd"
    and n1: "\<And>fd. fd \<in> set fds \<Longrightarrow> \<exists>d. fdt b1 fd = Some d \<and> fresh b \<le> d"
    using assms(1) by (simp_all add: allocated_def)
  have a2: "distinct fds'" "set fds' \<inter> dom (fdt b1) = {}"
    and o2: "\<And>fd. fd \<in> dom (fdt b1) \<Longrightarrow> fdt b' fd = fdt b1 fd"
    and n2: "\<And>fd. fd \<in> set fds' \<Longrightarrow> \<exists>d. fdt b' fd = Some d \<and> fresh b1 \<le> d"
    using assms(2) by (simp_all add: allocated_def)
  have d: "set fds \<subseteq> dom (fdt b1)" "dom (fdt b) \<subseteq> dom (fdt b1)" using n1 o1 by fastforce+
  have "\<exists>d. fdt b' fd = Some d \<and> fresh b \<le> d" if "fd \<in> set fds" for fd
    using n1 [OF that] o2 [of fd] d(1) that by (metis subsetD)
  moreover have "\<exists>d. fdt b' fd = Some d \<and> fresh b \<le> d" if "fd \<in> set fds'" for fd
    using n2 [OF that] assms(3) by (meson order_trans)
  moreover have "fdt b' fd = fdt b fd" if "fd \<in> dom (fdt b)" for fd
    using o1 [OF that] o2 [of fd] d(2) that by auto
  moreover have "distinct (fds @ fds')" "set (fds @ fds') \<inter> dom (fdt b) = {}"
    subgoal using a1 a2 d by auto
    subgoal unfolding set_append using a1(2) a2(2) d(2) by blast
    done
  ultimately show ?thesis unfolding allocated_def by auto
qed

lemma allocated_one:
  "fdt b fd = None \<Longrightarrow> fdt b' = (fdt b)(fd \<mapsto> fresh b) \<Longrightarrow> allocated [fd] b b'"
  by (auto simp: allocated_def)

lemma carried_list:
  "carried (b\<lparr>vdin1_bufs := x\<rparr>) b' \<longleftrightarrow> carried b b'" "carried b (b'\<lparr>vdin1_bufs := x\<rparr>) \<longleftrightarrow> carried b b'"
  "carried b (b'\<lparr>p010_out_fds := x\<rparr>) \<longleftrightarrow> carried b b'" "carried b (b'\<lparr>p010_out_free := y\<rparr>) \<longleftrightarrow> carried b b'"
  "carried b (b'\<lparr>vk_output_pool_cache := z\<rparr>) \<longleftrightarrow> carried b b'"
  by (simp_all add: carried_def fdt_ok_def)

lemma alloc_loop:
  assumes "alloc_dmabufs_loop a n i b = Inr (ok', b')" "i + n \<le> length (vdin1_bufs b)"
  shows "carried b b' \<and> unmoved b b' \<and> p010_out_fds b' = p010_out_fds b \<and> p010_out_free b' = p010_out_free b \<and>
    vk_output_pool_cache b' = vk_output_pool_cache b \<and>
    (ok' \<and> \<not> env_broke b' \<longrightarrow> (\<exists>fds. length fds = n \<and> allocated fds b b' \<and> (n = 0 \<or> i + n \<le> 8) \<and>
       vdin1_bufs b' = take i (vdin1_bufs b) @ fds @ drop (i + n) (vdin1_bufs b)))"
  using assms
proof (induction n arbitrary: i b)
  case 0
  then show ?case by (auto simp: unmoved_def)
next
  case (Suc n)
  show ?case
  proof (cases "alloc_cma_dmabuf (sa_alloc a i) b")
    case None
    then show ?thesis using Suc.prems by (auto simp: unmoved_def)
  next
    case (Some fb)
    obtain fd b1 where al: "alloc_cma_dmabuf (sa_alloc a i) b = Some (fd, b1)" using Some by (cases fb) auto
    note b1 = alloc_sel [OF al]
    define c where "c = b1\<lparr>vdin1_bufs := (vdin1_bufs b1)[i := fd]\<rparr>"
    have i8: "i < 8" and lp: "alloc_dmabufs_loop a n (Suc i) c = Inr (ok', b')"
      using Suc.prems(1) al by (simp_all add: c_def split: if_splits)
    have bufs: "vdin1_bufs c = (vdin1_bufs b)[i := fd]" using b1(1) by (simp add: c_def)
    have IH: "carried c b'" "unmoved c b'" "p010_out_fds b' = p010_out_fds c" "p010_out_free b' = p010_out_free c"
      "vk_output_pool_cache b' = vk_output_pool_cache c"
      "ok' \<and> \<not> env_broke b' \<longrightarrow> (\<exists>fds. length fds = n \<and> allocated fds c b' \<and> (n = 0 \<or> Suc i + n \<le> 8) \<and>
         vdin1_bufs b' = take (Suc i) (vdin1_bufs c) @ fds @ drop (Suc i + n) (vdin1_bufs c))"
      using Suc.IH [OF lp] Suc.prems(2) bufs by simp_all
    have cc: "carried b c" using carried_alloc [OF al] by (simp add: c_def carried_list)
    have q: "unmoved b c" using b1(6) by (simp add: unmoved_def c_def)
    have "\<exists>fds. length fds = Suc n \<and> allocated fds b b' \<and> i + Suc n \<le> 8 \<and>
       vdin1_bufs b' = take i (vdin1_bufs b) @ fds @ drop (i + Suc n) (vdin1_bufs b)"
      if ok: "ok'" "\<not> env_broke b'"
    proof -
      obtain fds where fds: "length fds = n" "allocated fds c b'" "n = 0 \<or> Suc i + n \<le> 8"
        "vdin1_bufs b' = take (Suc i) (vdin1_bufs c) @ fds @ drop (Suc i + n) (vdin1_bufs c)"
        using IH(6) ok by blast
      have "\<not> env_broke b1" using IH(1) ok(2) by (simp add: carried_def c_def)
      then have "allocated [fd] b c" using b1(5,7) by (intro allocated_one) (simp_all add: c_def)
      then have "allocated ([fd] @ fds) b b'" using cc by (intro allocated_append [OF _ fds(2)]) (simp_all add: carried_def)
      moreover have "vdin1_bufs b' = take i (vdin1_bufs b) @ (fd # fds) @ drop (i + Suc n) (vdin1_bufs b)"
        using fds(4) bufs Suc.prems(2) by (simp add: take_Suc_conv_app_nth)
      ultimately show ?thesis using fds(1,3) i8 by (intro exI [of _ "fd # fds"]) auto
    qed
    then show ?thesis
      using carried_trans [OF cc IH(1)] q IH(2-5) b1(2-4) by (auto simp: unmoved_def c_def)
  qed
qed

lemma p010_loop:
  assumes "p010_pool_loop a n i b = (ok', b')"
  shows "carried b b' \<and> unmoved b b' \<and> vdin1_bufs b' = vdin1_bufs b \<and>
    (ok' \<and> \<not> env_broke b' \<longrightarrow> (\<exists>fds es. length fds = n \<and> allocated fds b b' \<and>
       p010_out_fds b' = p010_out_fds b @ fds \<and> p010_out_free b' = p010_out_free b @ replicate n True \<and>
       vk_output_pool_cache b' = vk_output_pool_cache b @ es \<and> length es = n \<and>
       (\<forall>k < n. ce_valid (es ! k) \<and> fdt b' (fds ! k) = Some (ce_dmabuf (es ! k)))))"
  using assms
proof (induction n arbitrary: i b)
  case 0
  then show ?case by (auto simp: unmoved_def)
next
  case (Suc n)
  show ?case
  proof (cases "alloc_cma_dmabuf (sa_p010_alloc a i) b")
    case None
    then show ?thesis using Suc.prems by (auto simp: unmoved_def)
  next
    case (Some fb)
    obtain fd b1 where al: "alloc_cma_dmabuf (sa_p010_alloc a i) b = Some (fd, b1)" using Some by (cases fb) auto
    note b1 = alloc_sel [OF al]
    define b2 where "b2 = b1\<lparr>p010_out_fds := p010_out_fds b1 @ [fd], p010_out_free := p010_out_free b1 @ [True]\<rparr>"
    show ?thesis
    proof (cases "sa_p010_dup a i \<and> sa_p010_import a i")
      case False
      then have "b' = b2\<lparr>vk_output_pool_cache := vk_output_pool_cache b2 @ [invalid_entry]\<rparr>" "\<not> ok'"
        using Suc.prems al by (simp_all add: b2_def)
      then show ?thesis using b1(1,6) carried_alloc [OF al] by (simp add: b2_def unmoved_def carried_list)
    next
      case True
      define e where "e = \<lparr>ce_fd = fd, ce_dmabuf = the (fdt b2 fd),
         ce_size = ucast (box_width b2 * box_height b2 * 3), ce_valid = True, ce_last_used = 0\<rparr>"
      define c where "c = b2\<lparr>vk_output_pool_cache := vk_output_pool_cache b2 @ [e]\<rparr>"
      have lp: "p010_pool_loop a n (Suc i) c = (ok', b')"
        using Suc.prems al True by (simp add: b2_def c_def e_def)
      note IH = Suc.IH [OF lp]
      have cc: "carried b c" using carried_alloc [OF al] by (simp add: c_def b2_def carried_list)
      have q: "unmoved b c" "vdin1_bufs c = vdin1_bufs b" using b1(1,6) by (simp_all add: unmoved_def c_def b2_def)
      have lists: "p010_out_fds c = p010_out_fds b @ [fd]" "p010_out_free c = p010_out_free b @ [True]"
        "vk_output_pool_cache c = vk_output_pool_cache b @ [e]" "fdt c = (fdt b)(fd \<mapsto> fresh b)"
        using b1(2-5) by (simp_all add: c_def b2_def)
      have "\<exists>fds es. length fds = Suc n \<and> allocated fds b b' \<and>
         p010_out_fds b' = p010_out_fds b @ fds \<and> p010_out_free b' = p010_out_free b @ replicate (Suc n) True \<and>
         vk_output_pool_cache b' = vk_output_pool_cache b @ es \<and> length es = Suc n \<and>
         (\<forall>k < Suc n. ce_valid (es ! k) \<and> fdt b' (fds ! k) = Some (ce_dmabuf (es ! k)))"
        if ok: "ok'" "\<not> env_broke b'"
      proof -
        obtain fds es where fds: "length fds = n" "allocated fds c b'" "p010_out_fds b' = p010_out_fds c @ fds"
          "p010_out_free b' = p010_out_free c @ replicate n True"
          "vk_output_pool_cache b' = vk_output_pool_cache c @ es" "length es = n"
          "\<forall>k < n. ce_valid (es ! k) \<and> fdt b' (fds ! k) = Some (ce_dmabuf (es ! k))"
          using IH ok by blast
        have "\<not> env_broke b1" using IH ok(2) by (simp add: carried_def c_def b2_def)
        then have "allocated [fd] b c" using b1(7) lists by (intro allocated_one) simp_all
        then have "allocated ([fd] @ fds) b b'" using cc by (intro allocated_append [OF _ fds(2)]) (simp_all add: carried_def)
        moreover have "fdt b' fd = Some (ce_dmabuf e)" "ce_valid e"
          using fds(2) b1(5) lists by (auto simp: allocated_def e_def b2_def)
        then have "ce_valid ((e # es) ! k) \<and> fdt b' ((fd # fds) ! k) = Some (ce_dmabuf ((e # es) ! k))"
          if "k < Suc n" for k using that fds(7) by (cases k) simp_all
        ultimately show ?thesis using fds lists by (intro exI [of _ "fd # fds"] exI [of _ "e # es"]) simp
      qed
      then show ?thesis using carried_trans [OF cc] IH q by (auto simp: unmoved_def)
    qed
  qed
qed

lemma qbuf_loop:
  assumes "qbuf_loop a n i b = (ok', b')"
  shows "\<exists>q. b' = b\<lparr>drvq := q\<rparr> \<and> (\<forall>j d. q j = Some d \<longrightarrow>
    drvq b j = Some d \<or> j < i + n \<and> fdt b (vdin1_bufs b ! j) = Some d)"
  using assms
proof (induction n arbitrary: i b)
  case 0
  then show ?case by (intro exI [of _ "drvq b"]) (cases b, simp)
next
  case (Suc n)
  show ?case
  proof (cases "sa_qbuf a i")
    case False
    then show ?thesis using Suc.prems by (intro exI [of _ "drvq b"]) (cases b, simp)
  next
    case True
    let ?c = "drv_qbuf True i b"
    from Suc.IH [of "Suc i" ?c] Suc.prems True obtain q where q: "b' = ?c\<lparr>drvq := q\<rparr>"
      "\<forall>j d. q j = Some d \<longrightarrow> drvq ?c j = Some d \<or> j < Suc i + n \<and> fdt b (vdin1_bufs b ! j) = Some d"
      by auto
    have "b' = b\<lparr>drvq := q\<rparr>" using q(1) by (simp add: drv_qbuf_def split: if_splits)
    moreover have "drvq ?c j = Some d \<Longrightarrow> drvq b j = Some d \<or> j = i \<and> fdt b (vdin1_bufs b ! j) = Some d" for j d
      by (simp add: drv_qbuf_def split: if_splits)
    ultimately show ?thesis using q(2) by (intro exI [of _ q]) fastforce
  qed
qed

text \<open>What a successful start has set up.\<close>

definition new_session :: "box \<Rightarrow> box \<Rightarrow> bool" where
  "new_session b b' \<longleftrightarrow> allocated (vdin1_bufs b' @ p010_out_fds b') b b' \<and> length (vdin1_bufs b') \<le> 8 \<and>
     p010_out_free b' = replicate (length (p010_out_fds b')) True \<and>
     length (vk_output_pool_cache b') = length (p010_out_fds b') \<and>
     (\<forall>k < length (p010_out_fds b'). ce_valid (vk_output_pool_cache b' ! k) \<and>
        fdt b' (p010_out_fds b' ! k) = Some (ce_dmabuf (vk_output_pool_cache b' ! k))) \<and>
     vk_input_cache b' = [] \<and>
     (\<forall>i d. drvq b' i = Some d \<longrightarrow> i < length (vdin1_bufs b') \<and> fdt b' (vdin1_bufs b' ! i) = Some d)"

lemma good_started:
  assumes g: "good [] [] b" and idle: "\<not> vk_async_pending b" and c: "carried b b'" and n: "new_session b b'"
    and b': "\<not> vk_async_pending b'" "vk_slot b' < 2" "vdin1_fd b'" "env_sound b'"
  shows "good [] [] b'"
proof -
  have gp: "gpu b' = (\<lambda>_. None)" using idle_gpu [of b] g idle c by (simp add: good_def carried_def)
  have f: "fdt_ok b'" using c b' g by (simp add: carried_def fdt_ok_def env_sound_def good_def wired_def)
  have al: "allocated (vdin1_bufs b' @ p010_out_fds b') b b'" using n by (simp add: new_session_def)
  have dm: "\<exists>d. fdt b' fd = Some d \<and> fresh b \<le> d" if "fd \<in> set (vdin1_bufs b' @ p010_out_fds b')" for fd
    using al that by (simp only: allocated_def)
  have vn: "fresh b \<le> vdm b' i" if "i < length (vdin1_bufs b')" for i
    using dm [of "vdin1_bufs b' ! i"] that by (auto simp: vdm_def)
  have pn: "fresh b \<le> pdm b' k" if "k < length (p010_out_fds b')" for k
    using dm [of "p010_out_fds b' ! k"] that by (auto simp: pdm_def)
  have old: "l_dmabuf l < fresh b" if "l \<in> set (down b')" for l
    using that c g by (simp add: carried_def good_def loan_ok_def)
  have "set (vdin1_bufs b' @ p010_out_fds b') \<subseteq> dom (fdt b')" using dm by blast
  then have "wired b'"
    using n f b' al unfolding wired_def new_session_def fdt_ok_def allocated_def vdm_def pdm_def by auto
  moreover have "jobs b'"
    using c g b' gp by (simp add: jobs_def) (simp add: carried_def good_def jobs_def)
  moreover have "filter (cur_v b' i) (down b') = []" if "i < length (vdin1_bufs b')" for i
    using vn [OF that] by (auto simp: filter_empty_conv cur_v_def dest!: old)
  moreover have "filter (cur_p b' k) (down b') = []" if "k < length (p010_out_fds b')" for k
    using pn [OF that] by (auto simp: filter_empty_conv cur_p_def dest!: old)
  ultimately have p: "places [] [] b'" and w: "wired b'" "jobs b'"
    using n b' by (simp_all add: places_def pool_place_def vdin_place_def new_session_def)
  have "\<forall>l \<in> set (down b'). loan_ok b' l"
  proof
    fix l assume l: "l \<in> set (down b')"
    have "content b' (l_dmabuf l) = l_serial l" "l_dmabuf l < fresh b'"
      using l c g old [OF l] by (auto simp: carried_def good_def loan_ok_def)
    then show "loan_ok b' l" using vn pn old [OF l] by (force simp: loan_ok_def)
  qed
  moreover have "line [] [] b' = line [] [] b"
    using c b' idle by (simp add: line_def in_flight_def carried_def)
  ultimately show ?thesis using p w g c by (simp add: good_def in_hand_def ordered_def carried_def)
qed

text \<open>The conditions under which everything can be released again.\<close>

definition releasable :: "box \<Rightarrow> bool" where
  "releasable b \<longleftrightarrow> \<not> vk_async_pending b \<and> (vk_initialized b \<or> vk_input_cache b = []) \<and> vk_slot b < 2"

lemma quiet_releasable: "unmoved b b' \<Longrightarrow> releasable b \<Longrightarrow> releasable b'"
  by (simp add: unmoved_def releasable_def)

lemma start_vulkan:
  assumes s: "start_vulkan a b = (ok', b')" and r: "releasable b" "\<not> vk_initialized b"
    and e: "p010_out_fds b = []" "p010_out_free b = []" "vk_output_pool_cache b = []"
  shows "carried b b' \<and> releasable b' \<and> vdin1_fd b' = vdin1_fd b \<and> vdin1_bufs b' = vdin1_bufs b \<and>
    (ok' \<and> \<not> env_broke b' \<longrightarrow> drvq b' = drvq b \<and> vk_input_cache b' = [] \<and>
       (\<exists>fds es. allocated fds b b' \<and> p010_out_fds b' = fds \<and> p010_out_free b' = replicate (length fds) True \<and>
        vk_output_pool_cache b' = es \<and> length es = length fds \<and>
        (\<forall>k < length fds. ce_valid (es ! k) \<and> fdt b' (fds ! k) = Some (ce_dmabuf (es ! k)))))"
proof (cases "vdin1_10bit b \<and> sa_vk_init a")
  case False
  then have "(ok', b') = (\<not> vdin1_10bit b, if vdin1_10bit b then vdin1_streamoff b else b)"
    unfolding s [symmetric] using r(2) by (simp add: start_vulkan_def vdin1_vk_init_def)
  then show ?thesis
    using r e by (auto simp: carried_def fdt_ok_def releasable_def vdin1_streamoff_def)
next
  case True
  define b1 where "b1 = b\<lparr>vk_slot := 0, vk_input_cache := [], vk_frame_count := 0, vk_async_pending := False,
     vk_async_out_pool_idx := - 1, vk_async_vdin1_idx := 0, vk_async_in_fd := - 1, vk_initialized := True\<rparr>"
  define c where "c = b1\<lparr>p010_out_fds := [], p010_out_free := [], vk_output_pool_cache := []\<rparr>"
  obtain t b2 where lp: "p010_pool_loop a 4 0 c = (t, b2)" by fastforce
  have r': "(ok', b') = (t, if t then b2 else vdin1_streamoff b2)"
    unfolding s [symmetric] using True r(2) lp
    by (cases t) (simp_all add: start_vulkan_def vdin1_vk_init_def p010_pool_init_def b1_def [symmetric] c_def [symmetric])
  note L = p010_loop [OF lp]
  have cc: "carried b c" by (simp add: carried_def fdt_ok_def c_def b1_def)
  have c2: "carried b b2" using carried_trans [OF cc] L by blast
  have r2: "releasable b2" using L by (simp add: unmoved_def releasable_def c_def b1_def)
  have f2: "vdin1_fd b2 = vdin1_fd b" "vdin1_bufs b2 = vdin1_bufs b" "drvq b2 = drvq b" "vk_input_cache b2 = []"
    using L by (simp_all add: unmoved_def c_def b1_def)
  have n2: "\<exists>fds es. allocated fds b b2 \<and> p010_out_fds b2 = fds \<and> p010_out_free b2 = replicate (length fds) True \<and>
      vk_output_pool_cache b2 = es \<and> length es = length fds \<and>
      (\<forall>k < length fds. ce_valid (es ! k) \<and> fdt b2 (fds ! k) = Some (ce_dmabuf (es ! k)))"
    if "t" "\<not> env_broke b2"
  proof -
    from L that obtain fds es where f: "length fds = 4" "allocated fds c b2" "p010_out_fds b2 = fds"
      "p010_out_free b2 = replicate 4 True" "vk_output_pool_cache b2 = es" "length es = 4"
      "\<forall>k < 4. ce_valid (es ! k) \<and> fdt b2 (fds ! k) = Some (ce_dmabuf (es ! k))"
      by (auto simp: c_def)
    moreover have "allocated fds b b2" using f(2) by (simp add: allocated_def c_def b1_def)
    ultimately show ?thesis by metis
  qed
  show ?thesis
  proof (cases t)
    case True
    then have "ok'" "b' = b2" using r' by simp_all
    then show ?thesis using c2 r2 f2 n2 [OF True] by simp
  next
    case False
    then have b': "\<not> ok'" "b' = vdin1_streamoff b2" using r' by simp_all
    have "carried b2 (vdin1_streamoff b2)" by (simp add: carried_def fdt_ok_def vdin1_streamoff_def)
    then have "carried b b'" using carried_trans [OF c2] b' by simp
    moreover have "releasable b'" using r2 b' by (simp add: vdin1_streamoff_def releasable_def)
    ultimately show ?thesis using f2 b' by (simp add: vdin1_streamoff_def)
  qed
qed

lemma new_session_intro:
  assumes al2: "allocated (vdin1_bufs b2) b b2" and al3: "allocated (p010_out_fds b') b2 b'"
    and n8: "length (vdin1_bufs b2) \<le> 8" and le: "fresh b \<le> fresh b2"
    and b': "vdin1_bufs b' = vdin1_bufs b2" "p010_out_free b' = replicate (length (p010_out_fds b')) True"
      "length (vk_output_pool_cache b') = length (p010_out_fds b')" "vk_input_cache b' = []"
      "\<forall>k < length (p010_out_fds b'). ce_valid (vk_output_pool_cache b' ! k) \<and>
         fdt b' (p010_out_fds b' ! k) = Some (ce_dmabuf (vk_output_pool_cache b' ! k))"
    and q: "\<forall>i d. drvq b' i = Some d \<longrightarrow> i < length (vdin1_bufs b2) \<and> fdt b2 (vdin1_bufs b2 ! i) = Some d"
  shows "new_session b b'"
proof -
  have "allocated (vdin1_bufs b' @ p010_out_fds b') b b'"
    using allocated_append [OF al2 al3 le] b'(1) by simp
  moreover have "fdt b' (vdin1_bufs b2 ! i) = fdt b2 (vdin1_bufs b2 ! i)" if "i < length (vdin1_bufs b2)" for i
  proof -
    have "vdin1_bufs b2 ! i \<in> dom (fdt b2)" using al2 that by (force simp: allocated_def)
    then show ?thesis using al3 by (simp add: allocated_def)
  qed
  ultimately show ?thesis using b' n8 q by (simp add: new_session_def)
qed

lemma start_buffers:
  assumes s: "start_buffers a b = Inr (ok', b')" and c: "closed b"
  shows "carried b b' \<and> releasable b' \<and> vdin1_fd b' = vdin1_fd b \<and> (ok' \<and> env_sound b' \<longrightarrow> new_session b b')"
proof -
  have rb: "releasable b" using c by (simp add: closed_def releasable_def)
  obtain t1 b1 where rq: "vdin1_reqbufs a (min (num_buffers b) 8) b = (t1, b1)" by fastforce
  show ?thesis
  proof (cases t1)
    case False
    then have "b1 = b" using rq by (auto simp: vdin1_reqbufs_def split: option.splits if_splits)
    then show ?thesis using s rq False rb by (simp add: start_buffers_def)
  next
    case True
    then obtain n where b1: "b1 = b\<lparr>vdin1_bufs := replicate n (- 1)\<rparr>"
      using rq by (auto simp: vdin1_reqbufs_def split: option.splits if_splits)
    obtain t2 b2 where al: "alloc_dmabufs_loop a n 0 b1 = Inr (t2, b2)"
      using s rq True b1 by (auto simp: start_buffers_def rbind_Inr_iff vdin1_alloc_dmabufs_def)
    have L: "carried b1 b2 \<and> unmoved b1 b2 \<and> p010_out_fds b2 = p010_out_fds b1 \<and> p010_out_free b2 = p010_out_free b1 \<and>
      vk_output_pool_cache b2 = vk_output_pool_cache b1 \<and>
      (t2 \<and> \<not> env_broke b2 \<longrightarrow> (\<exists>fds. length fds = n \<and> allocated fds b1 b2 \<and> (n = 0 \<or> n \<le> 8) \<and> vdin1_bufs b2 = fds))"
      using alloc_loop [OF al] b1 by auto
    have c2: "carried b b2" using L b1 by (simp add: carried_list)
    have e2: "releasable b2" "vdin1_fd b2 = vdin1_fd b" "\<not> vk_initialized b2" "p010_out_fds b2 = []"
        "p010_out_free b2 = []" "vk_output_pool_cache b2 = []" "drvq b2 = Map.empty"
      using L b1 rb c by (simp_all add: unmoved_def releasable_def closed_def)
    show ?thesis
    proof (cases t2)
      case False
      then have "b' = b2" "\<not> ok'" using s rq True b1 al
        by (auto simp: start_buffers_def vdin1_alloc_dmabufs_def)
      then show ?thesis using c2 e2 by simp
    next
      case t2: True
      obtain t3 b3 where qa: "qbuf_loop a (length (vdin1_bufs b2)) 0 b2 = (t3, b3)" by fastforce
      obtain q where b3: "b3 = b2\<lparr>drvq := q\<rparr>" and q: "\<forall>j d. q j = Some d \<longrightarrow>
          drvq b2 j = Some d \<or> j < length (vdin1_bufs b2) \<and> fdt b2 (vdin1_bufs b2 ! j) = Some d"
        using qbuf_loop [OF qa] by auto
      have "carried b2 b3" by (simp add: b3 carried_def fdt_ok_def)
      then have c3: "carried b b3" by (rule carried_trans [OF c2])
      have e3: "releasable b3" "vdin1_fd b3 = vdin1_fd b" using e2 by (simp_all add: b3 releasable_def)
      show ?thesis
      proof (cases "t3 \<and> sa_streamon a")
        case False
        then have "b' = b3" "\<not> ok'" using s rq True b1 al t2 qa
          by (auto simp: start_buffers_def vdin1_alloc_dmabufs_def vdin1_qbuf_all_def split: bool.splits)
        then show ?thesis using c3 e3 by simp
      next
        case t3: True
        then have gq: "start_vulkan a b3 = (ok', b')" using s rq True b1 al t2 qa
          by (simp add: start_buffers_def vdin1_alloc_dmabufs_def vdin1_qbuf_all_def)
        have G: "carried b3 b' \<and> releasable b' \<and> vdin1_fd b' = vdin1_fd b3 \<and> vdin1_bufs b' = vdin1_bufs b3 \<and>
          (ok' \<and> \<not> env_broke b' \<longrightarrow> drvq b' = drvq b3 \<and> vk_input_cache b' = [] \<and>
           (\<exists>fds es. allocated fds b3 b' \<and> p010_out_fds b' = fds \<and> p010_out_free b' = replicate (length fds) True \<and>
            vk_output_pool_cache b' = es \<and> length es = length fds \<and>
            (\<forall>k < length fds. ce_valid (es ! k) \<and> fdt b' (fds ! k) = Some (ce_dmabuf (es ! k)))))"
          using e2 e3 by (intro start_vulkan [OF gq]) (simp_all add: b3)
        have "new_session b b'" if ok: "ok'" "env_sound b'"
        proof -
          have nb: "\<not> env_broke b'" "\<not> env_broke b2" using ok(2) G by (simp_all add: env_sound_def carried_def b3)
          have al2: "allocated (vdin1_bufs b2) b b2" and n8: "length (vdin1_bufs b2) \<le> 8"
            using L t2 nb(2) b1 by (auto simp: allocated_def)
          have al3: "allocated (p010_out_fds b') b2 b'" using G ok nb by (auto simp: allocated_def b3)
          have le: "fresh b \<le> fresh b2" using c2 by (simp add: carried_def)
          show ?thesis
            using q e2(7) G ok(1) nb(1) by (intro new_session_intro [OF al2 al3 n8 le]) (auto simp: b3)
        qed
        then show ?thesis using G carried_trans [OF c3] e3(2) by simp
      qed
    qed
  qed
qed

lemma closed_of_good:
  assumes g: "good [] [] b" and fd: "\<not> vdin1_fd b"
  shows "closed b"
proof -
  have w: "wired b" "jobs b" using g by (simp_all add: good_def)
  then have e: "vdin1_bufs b = []" "p010_out_fds b = []" "\<not> vk_initialized b" using fd by (simp_all add: wired_def)
  have "drvq b i = None" for i using w(1) e(1) by (cases "drvq b i") (auto simp: wired_def)
  then have "drvq b = Map.empty" by blast
  then show ?thesis using w e by (simp add: closed_def wired_def jobs_def)
qed

lemma start_fail:
  assumes "start_fail b = Inr (ok', b')" "gpu b = (\<lambda>_. None)" "releasable b"
  shows "\<not> ok' \<and> carried b b' \<and> closed b' \<and> \<not> vdin1_fd b'"
proof -
  let ?m = "b\<lparr>signal_monitor := False\<rparr>"
  obtain b1 where f: "vdin1_free_dmabufs (vdin1_vk_cleanup (p010_pool_cleanup ?m)) = Inr b1"
    and b': "\<not> ok'" "b' = close_vdin1 b1"
    using assms(1) by (auto simp: start_fail_def rbind_Inr_iff)
  define b2 where "b2 = vdin1_vk_cleanup (p010_pool_cleanup ?m)"
  have "b2\<lparr>drvq := drvq b2\<rparr> = b2" by (cases b2) simp
  then have f2: "vdin1_free_dmabufs (b2\<lparr>drvq := drvq b2\<rparr>) = Inr b1" using f by (simp add: b2_def)
  have r: "carried ?m b1 \<and> closed (close_vdin1 b1) \<and> carried b1 (close_vdin1 b1)"
    using assms(2,3) by (intro release_all [OF _ b2_def f2]) (simp_all add: releasable_def)
  have "carried b ?m" by (simp add: carried_def fdt_ok_def)
  then have "carried b (close_vdin1 b1)" using r by (meson carried_trans)
  moreover have "\<not> vdin1_fd (close_vdin1 b1)" by (simp add: close_vdin1_def)
  ultimately show ?thesis using b' r by simp
qed

lemma start_path_b:
  assumes s: "start_path_b a b = Inr (ok', b')" and c: "closed b" "\<not> vdin1_fd b" and gp: "gpu b = (\<lambda>_. None)"
  shows "carried b b' \<and> (if ok' then vdin1_fd b' \<and> releasable b' \<and> (env_sound b' \<longrightarrow> new_session b b')
    else closed b' \<and> \<not> vdin1_fd b')"
proof -
  define b0 where "b0 = b\<lparr>vdin1_fd := True\<rparr>"
  obtain w h where wh: "source_size a = (w, h)" by fastforce
  obtain t b1 where sf: "vdin1_set_format a w h b0 = (t, b1)" by fastforce
  have b1: "carried b b1" "closed b1" "vdin1_fd b1" "fdt b1 = fdt b" "fresh b1 = fresh b"
    using sf c by (auto simp: vdin1_set_format_def b0_def carried_def closed_def fdt_ok_def
        split: if_splits option.splits)
  have cl: "carried b (close_vdin1 x) \<and> closed (close_vdin1 x) \<and> \<not> vdin1_fd (close_vdin1 x)"
    if "carried b x" "closed x" for x
    using that by (simp add: close_vdin1_def carried_def closed_def fdt_ok_def)
  consider (shut) "\<not> sa_open a" | (refused) "sa_open a" "\<not> sa_querycap a \<or> \<not> sa_input a"
    | (format) "sa_open a" "sa_querycap a" "sa_input a" "\<not> t"
    | (go) "sa_open a" "sa_querycap a" "sa_input a" "t" by blast
  then show ?thesis
  proof cases
    case shut
    then show ?thesis using s c by (simp add: start_path_b_def)
  next
    case refused
    then have "\<not> ok'" "b' = close_vdin1 b0" using s by (auto simp: start_path_b_def b0_def)
    then show ?thesis using cl [of b0] c by (simp add: b0_def carried_def closed_def fdt_ok_def)
  next
    case format
    then have "\<not> ok'" "b' = close_vdin1 b1" using s wh sf by (auto simp: start_path_b_def b0_def)
    then show ?thesis using cl [OF b1(1,2)] by simp
  next
    case go
    let ?col = "hdmirx_detect_colorimetry (sa_info a) (color_mode b1) Source_vdin1 (vdin1_10bit b1) (sa_env_color a)"
    define b2 where "b2 = b1\<lparr>vdin1_prev := (box_width b1, box_height b1, vdin1_pixfmt b1),
       vdin1_fmt_poll_counter := 0, colorimetry := ?col\<rparr>"
    obtain t3 b3 where sb: "start_buffers a b2 = Inr (t3, b3)"
      and fin: "(if \<not> t3 then start_fail b3 else Inr (True, b3\<lparr>signal_monitor := (sa_monitor a \<and> sa_subscribe a),
        streaming := True, fps := (case hdmirx_get_source_framerate (sa_info a) of Some f \<Rightarrow> f | None \<Rightarrow> (60, 1))\<rparr>))
        = Inr (ok', b')"
      using s go wh sf by (auto simp: start_path_b_def b0_def [symmetric] b2_def rbind_Inr_iff)
    have c2: "carried b b2" "closed b2" "vdin1_fd b2"
      using b1 by (simp_all add: b2_def carried_def closed_def fdt_ok_def)
    have S: "carried b2 b3" "releasable b3" "vdin1_fd b3" "t3 \<and> env_sound b3 \<longrightarrow> new_session b2 b3"
      using start_buffers [OF sb c2(2)] c2(3) by simp_all
    have c3: "carried b b3" using carried_trans [OF c2(1) S(1)] .
    show ?thesis
    proof (cases t3)
      case False
      have "gpu b3 = (\<lambda>_. None)" using c3 gp by (simp add: carried_def)
      then show ?thesis using start_fail [of b3 ok' b'] fin False S(2) carried_trans [OF c3] by auto
    next
      case True
      then have b': "ok'" "b' = b3\<lparr>signal_monitor := (sa_monitor a \<and> sa_subscribe a), streaming := True,
          fps := (case hdmirx_get_source_framerate (sa_info a) of Some f \<Rightarrow> f | None \<Rightarrow> (60, 1))\<rparr>"
        using fin by simp_all
      have "new_session b b'" if "env_sound b'"
        using S(4) True that b1(4,5) by (simp add: b' new_session_def allocated_def b2_def)
      moreover have "carried b b'" using c3 by (simp add: b' carried_def fdt_ok_def)
      ultimately show ?thesis using S(2,3) b' by (simp add: releasable_def)
    qed
  qed
qed

text \<open>A start that begins outside the contract ends outside it.\<close>

lemma sound_start_gpu: "start_vulkan a b = (ok', b') \<Longrightarrow> env_sound b' \<Longrightarrow> env_sound b"
proof -
  assume s: "start_vulkan a b = (ok', b')" and snd: "env_sound b'"
  obtain t b1 where vi: "vdin1_vk_init (sa_vk_init a) b = (t, b1)" by fastforce
  have s1: "env_sound b1 = env_sound b" using vi by (auto simp: vdin1_vk_init_def env_sound_def split: if_splits)
  obtain u b2 where pi: "p010_pool_init a b1 = (u, b2)" by fastforce
  have "env_sound b2 \<Longrightarrow> env_sound b1"
    using carried_sound p010_loop [OF pi [unfolded p010_pool_init_def]] by (fastforce simp: env_sound_def)
  then show ?thesis
    using s snd vi pi s1 sound_cleanup(4)
    by (cases "vdin1_10bit b"; cases t; cases u) (auto simp: start_vulkan_def)
qed

lemma sound_start_buffers:
  assumes s: "start_buffers a b = Inr (ok', b')" and snd: "env_sound b'"
  shows "env_sound b"
proof -
  obtain t1 b1 where rq: "vdin1_reqbufs a (min (num_buffers b) 8) b = (t1, b1)" by fastforce
  have s1: "env_sound b1 = env_sound b"
    using rq by (auto simp: vdin1_reqbufs_def split: option.splits if_splits)
  show ?thesis
  proof (cases t1)
    case True
    then obtain t2 b2 where al: "alloc_dmabufs_loop a (length (vdin1_bufs b1)) 0 b1 = Inr (t2, b2)"
      using s rq by (auto simp: start_buffers_def rbind_Inr_iff vdin1_alloc_dmabufs_def)
    have s2: "env_sound b2 \<Longrightarrow> env_sound b1" using alloc_loop [OF al] carried_sound by auto
    obtain t3 b3 where qa: "qbuf_loop a (length (vdin1_bufs b2)) 0 b2 = (t3, b3)" by fastforce
    have s3: "env_sound b3 = env_sound b2" using qbuf_loop [OF qa] by auto
    have "env_sound b2"
      using s rq True al qa s3 snd sound_start_gpu [of a b3 ok' b']
      by (cases t2; cases t3) (auto simp: start_buffers_def vdin1_alloc_dmabufs_def vdin1_qbuf_all_def split: if_splits)
    then show ?thesis using s1 s2 by simp
  qed (use s rq s1 snd in \<open>simp add: start_buffers_def\<close>)
qed

lemma sound_start_fail: "start_fail b = Inr (ok', b') \<Longrightarrow> env_sound b' \<Longrightarrow> env_sound b"
  by (auto simp: start_fail_def rbind_Inr_iff sound_cleanup dest!: free_dmabufs)

lemma sound_start_path_b:
  assumes s: "start_path_b a b = Inr (ok', b')" and snd: "env_sound b'"
  shows "env_sound b"
proof -
  define b0 where "b0 = b\<lparr>vdin1_fd := True\<rparr>"
  obtain w h where wh: "source_size a = (w, h)" by fastforce
  obtain t b1 where sf: "vdin1_set_format a w h b0 = (t, b1)" by fastforce
  have s1: "env_sound b1 = env_sound b"
    using sf by (auto simp: vdin1_set_format_def b0_def env_sound_def split: if_splits option.splits)
  have s0: "env_sound b0 = env_sound b" by (simp add: b0_def)
  let ?b2 = "b1\<lparr>vdin1_prev := (box_width b1, box_height b1, vdin1_pixfmt b1), vdin1_fmt_poll_counter := 0,
    colorimetry := hdmirx_detect_colorimetry (sa_info a) (color_mode b1) Source_vdin1 (vdin1_10bit b1)
      (sa_env_color a)\<rparr>"
  have s2: "env_sound ?b2 = env_sound b1" by (simp add: env_sound_def)
  note eq = s [unfolded start_path_b_def Let_def b0_def [symmetric] wh]
  show ?thesis
  proof (cases "sa_open a \<and> sa_querycap a \<and> sa_input a \<and> t")
    case False
    then show ?thesis using eq sf snd s0 s1 sound_cleanup(3) by (auto split: if_splits bool.splits)
  next
    case True
    then obtain t3 b3 where sb: "start_buffers a ?b2 = Inr (t3, b3)"
      and fin: "(if \<not> t3 then start_fail b3 else Inr (True, b3\<lparr>signal_monitor := (sa_monitor a \<and> sa_subscribe a),
        streaming := True, fps := (case hdmirx_get_source_framerate (sa_info a) of Some f \<Rightarrow> f | None \<Rightarrow> (60, 1))\<rparr>))
        = Inr (ok', b')"
      using eq sf by (auto simp: rbind_Inr_iff)
    have "env_sound b3" using fin snd sound_start_fail [of b3 ok' b'] by (auto split: if_splits)
    then show ?thesis using sound_start_buffers [OF sb] s1 s2 by simp
  qed
qed

lemma ok_start:
  assumes o: "ok [] [] b" and cl: "\<not> vdin1_fd b" and r: "gst_streambox_src_start a b = Inr (ok', b')"
  shows "ok [] [] b'"
  unfolding ok_def
proof
  assume snd: "env_sound b'"
  show "good [] [] b'"
  proof (cases "sa_pipe a")
    case False
    then show ?thesis using o r snd by (auto simp: gst_streambox_src_start_def ok_def)
  next
    case True
    define b0 where "b0 = b\<lparr>flushing := False, frame_count := 0, caps_set := False, colorimetry := []\<rparr>"
    have o0: "ok [] [] b0" using o by (simp add: b0_def)
    have f0: "\<not> vdin1_fd b0" using cl by (simp add: b0_def)
    have s: "start_path_b a b0 = Inr (ok', b')" using r True by (simp add: gst_streambox_src_start_def b0_def)
    have s0: "env_sound b0"
    proof (rule ccontr)
      assume "\<not> env_sound b0"
      then show False using sound_start_path_b [OF s] snd by blast
    qed
    then have g0: "good [] [] b0" using o0 by (simp add: ok_def)
    have i0: "\<not> vk_async_pending b0" using closed_of_good [OF g0 f0] by (simp add: closed_def)
    have gp: "gpu b0 = (\<lambda>_. None)" using g0 i0 idle_gpu by (simp add: good_def)
    note S = start_path_b [OF s closed_of_good [OF g0 f0] f0 gp]
    show ?thesis
    proof (cases ok')
      case True
      then show ?thesis using S snd by (intro good_started [OF g0 i0]) (simp_all add: releasable_def)
    next
      case False
      then show ?thesis using S snd by (intro good_closed [OF g0 i0]) simp_all
    qed
  qed
qed

end
