(* ===== verification/Streambox_Example.thy ===== *)
theory Streambox_Example
  imports Streambox_Session
begin

text \<open>
  The initial state of the capture source and one session, evaluated: a start with three capture
  buffers in 10 bit, and the first call of \<open>create\<close>, which delivers frame 0 and leaves frame 1 with
  the GPU. The properties are applied to it.
\<close>

section \<open>The source after construction\<close>

text \<open>The element after construction, with the values of its properties.\<close>

definition box_init :: "bool \<Rightarrow> nat \<Rightarrow> u32 \<Rightarrow> box" where
  "box_init p010 bufs mode = \<lparr>output_p010 = p010, num_buffers = bufs, color_mode = mode, box_width = 0,
     box_height = 0, fps = (0, 0), colorimetry = [], vdin1_fd = False, vdin1_bufs = [], vdin1_10bit = False,
     vdin1_pixfmt = 0, vdin1_sizeimage = 0, vdin1_prev = (0, 0, 0), vdin1_fmt_poll_counter = 0,
     vk_initialized = False, vk_slot = 0, vk_frame_count = 0, vk_async_pending = False,
     vk_async_out_pool_idx = - 1, vk_async_vdin1_idx = 0, vk_async_in_fd = - 1, vk_input_cache = [],
     vk_output_pool_cache = [], p010_out_fds = [], p010_out_free = [], streaming = False, flushing = False,
     flush_pipe = False, caps_set = False, frame_count = 0, signal_monitor = False, posts = [],
     fdt = Map.empty, fresh = 0, content = (\<lambda>_. 0), drvq = Map.empty, gpu = (\<lambda>_. None), down = [], seq = 0,
     delivered = [], env_broke = False, gpu_timed_out = False, stale_release = False, vk_misuse = False\<rparr>"

lemma box_init_sel [simp]:
  "output_p010 (box_init p010 bufs mode) = p010"
  "num_buffers (box_init p010 bufs mode) = bufs"
  "color_mode (box_init p010 bufs mode) = mode"
  "box_width (box_init p010 bufs mode) = 0"
  "box_height (box_init p010 bufs mode) = 0"
  "fps (box_init p010 bufs mode) = (0, 0)"
  "colorimetry (box_init p010 bufs mode) = []"
  "vdin1_fd (box_init p010 bufs mode) = False"
  "vdin1_bufs (box_init p010 bufs mode) = []"
  "vdin1_10bit (box_init p010 bufs mode) = False"
  "vdin1_pixfmt (box_init p010 bufs mode) = 0"
  "vdin1_sizeimage (box_init p010 bufs mode) = 0"
  "vdin1_prev (box_init p010 bufs mode) = (0, 0, 0)"
  "vdin1_fmt_poll_counter (box_init p010 bufs mode) = 0"
  "vk_initialized (box_init p010 bufs mode) = False"
  "vk_slot (box_init p010 bufs mode) = 0"
  "vk_frame_count (box_init p010 bufs mode) = 0"
  "vk_async_pending (box_init p010 bufs mode) = False"
  "vk_async_out_pool_idx (box_init p010 bufs mode) = - 1"
  "vk_async_vdin1_idx (box_init p010 bufs mode) = 0"
  "vk_async_in_fd (box_init p010 bufs mode) = - 1"
  "vk_input_cache (box_init p010 bufs mode) = []"
  "vk_output_pool_cache (box_init p010 bufs mode) = []"
  "p010_out_fds (box_init p010 bufs mode) = []"
  "p010_out_free (box_init p010 bufs mode) = []"
  "streaming (box_init p010 bufs mode) = False"
  "flushing (box_init p010 bufs mode) = False"
  "flush_pipe (box_init p010 bufs mode) = False"
  "caps_set (box_init p010 bufs mode) = False"
  "frame_count (box_init p010 bufs mode) = 0"
  "signal_monitor (box_init p010 bufs mode) = False"
  "posts (box_init p010 bufs mode) = []"
  "fdt (box_init p010 bufs mode) = Map.empty"
  "fresh (box_init p010 bufs mode) = 0"
  "content (box_init p010 bufs mode) = (\<lambda>_. 0)"
  "drvq (box_init p010 bufs mode) = Map.empty"
  "gpu (box_init p010 bufs mode) = (\<lambda>_. None)"
  "down (box_init p010 bufs mode) = []"
  "seq (box_init p010 bufs mode) = 0"
  "delivered (box_init p010 bufs mode) = []"
  "env_broke (box_init p010 bufs mode) = False"
  "gpu_timed_out (box_init p010 bufs mode) = False"
  "stale_release (box_init p010 bufs mode) = False"
  "vk_misuse (box_init p010 bufs mode) = False"
  by (simp_all add: box_init_def)


definition demo_answers :: start_answers where
  "demo_answers = \<lparr>sa_pipe = True, sa_open = True, sa_querycap = True, sa_input = True, sa_info = None,
     sa_fmt0 = Some (1920, 1080, 0), sa_s_fmt = True, sa_g_fmt = Some (1920, 1080, V4L2_PIX_FMT_AMLY),
     sa_sizeimage = Some 5184000, sa_env_color = None, sa_reqbufs = (\<lambda>n. Some n), sa_alloc = (\<lambda>i. Some (10 + int i)),
     sa_qbuf = (\<lambda>_. True), sa_streamon = True, sa_vk_init = True, sa_p010_alloc = (\<lambda>i. Some (20 + int i)),
     sa_p010_dup = (\<lambda>_. True), sa_p010_import = (\<lambda>_. True), sa_monitor = True, sa_subscribe = True\<rparr>"

lemma demo_sel [simp]:
  "sa_alloc demo_answers i = Some (10 + int i)" "sa_qbuf demo_answers i"
  "sa_p010_alloc demo_answers i = Some (20 + int i)" "sa_p010_dup demo_answers i" "sa_p010_import demo_answers i"
  by (simp_all add: demo_answers_def)


abbreviation fd3 :: "int \<rightharpoonup> nat" where "fd3 \<equiv> [10 \<mapsto> 0, 11 \<mapsto> 1, 12 \<mapsto> 2]"
abbreviation fd7 :: "int \<rightharpoonup> nat" where "fd7 \<equiv> fd3(20 \<mapsto> 3, 21 \<mapsto> 4, 22 \<mapsto> 5, 23 \<mapsto> 6)"

lemma demo_alloc: "vdin1_bufs b = [-1,-1,-1] \<Longrightarrow> fdt b = Map.empty \<Longrightarrow> fresh b = 0 \<Longrightarrow> env_broke b = False \<Longrightarrow>
  vdin1_alloc_dmabufs demo_answers b = Inr (True, b\<lparr>vdin1_bufs := [10, 11, 12], fdt := fd3, fresh := 3\<rparr>)"
  by (cases b) (simp add: vdin1_alloc_dmabufs_def alloc_cma_dmabuf_def eval_nat_numeral)

lemma demo_qbufs: "vdin1_bufs b = [10, 11, 12] \<Longrightarrow> fdt b = fd3 \<Longrightarrow> drvq b = Map.empty \<Longrightarrow>
  vdin1_qbuf_all demo_answers b = (True, b\<lparr>drvq := [0 \<mapsto> 0, 1 \<mapsto> 1, 2 \<mapsto> 2]\<rparr>)"
  by (cases b) (simp add: vdin1_qbuf_all_def drv_qbuf_def eval_nat_numeral)

abbreviation demo_entry :: "nat \<Rightarrow> vk_entry" where
  "demo_entry k \<equiv> \<lparr>ce_fd = 20 + int k, ce_dmabuf = 3 + k, ce_size = 6220800, ce_valid = True, ce_last_used = 0\<rparr>"

lemma four: "(4 :: nat) = Suc (Suc (Suc (Suc 0)))"
  by simp

lemma demo_pool: "fdt b = fd3 \<Longrightarrow> fresh b = 3 \<Longrightarrow> env_broke b = False \<Longrightarrow> box_width b = 1920 \<Longrightarrow> box_height b = 1080 \<Longrightarrow>
  p010_pool_init demo_answers b = (True, b\<lparr>fdt := fd7, fresh := 7, p010_out_fds := [20, 21, 22, 23],
    p010_out_free := [True, True, True, True], vk_output_pool_cache := map demo_entry [0, 1, 2, 3]\<rparr>)"
  unfolding p010_pool_init_def by (subst four, cases b) (simp add: alloc_cma_dmabuf_def)


definition demo_started :: box where
  "demo_started = (box_init True 3 0)\<lparr>fdt := fd7, fresh := 7, p010_out_fds := [20, 21, 22, 23],
    p010_out_free := [True, True, True, True], vk_output_pool_cache := map demo_entry [0, 1, 2, 3],
    vdin1_bufs := [10, 11, 12], drvq := [0 \<mapsto> 0, 1 \<mapsto> 1, 2 \<mapsto> 2], vdin1_fd := True, box_width := 1920, box_height := 1080,
    vdin1_pixfmt := V4L2_PIX_FMT_AMLY, vdin1_sizeimage := 5184000, vdin1_10bit := True,
    vdin1_prev := (1920, 1080, V4L2_PIX_FMT_AMLY), colorimetry := ''bt709'', vk_initialized := True,
    signal_monitor := True, streaming := True, fps := (60, 1)\<rparr>"


lemma demo_start_path_b: "start_path_b demo_answers (box_init True 3 0) = Inr (True, demo_started)"
proof -
  have r: "vdin1_reqbufs demo_answers 3 b = (True, b\<lparr>vdin1_bufs := [- 1, - 1, - 1]\<rparr>)" for b
    by (simp add: vdin1_reqbufs_def demo_answers_def eval_nat_numeral)
  have c: "hdmirx_detect_colorimetry None 0 Source_vdin1 True None = ''bt709''"
    by (simp add: hdmirx_detect_colorimetry_def)
  have s: "source_size demo_answers = (1920, 1080)"
    by (simp add: source_size_def hdmirx_get_source_resolution_def demo_answers_def)
  have f: "sa_open demo_answers" "sa_querycap demo_answers" "sa_input demo_answers" "sa_s_fmt demo_answers"
    "sa_g_fmt demo_answers = Some (1920, 1080, V4L2_PIX_FMT_AMLY)" "sa_sizeimage demo_answers = Some 5184000"
    "sa_info demo_answers = None" "sa_env_color demo_answers = None" "sa_streamon demo_answers" "sa_vk_init demo_answers"
    "sa_monitor demo_answers" "sa_subscribe demo_answers"
    by (simp_all add: demo_answers_def)
  have len: "length [a, b, c] = 3" for a b c :: int by simp
  have min: "min 3 8 = (3 :: nat)" by simp
  show ?thesis
    unfolding start_path_b_def s
    by (simp add: f vdin1_set_format_def start_buffers_def min r demo_alloc demo_qbufs start_vulkan_def vdin1_vk_init_def demo_pool c
        hdmirx_get_source_framerate_def demo_started_def box_init_def)
qed

text \<open>The first call of \<open>create\<close>: two frames are ready, in the capture buffers 0 and 1.\<close>

definition all_good :: answers where
  "all_good = \<lparr>a_fmt = None, a_info = None,
     a_sub1 = \<lparr>sub_dup = True, sub_import = True, sub_record = True, sub_queue = True\<rparr>,
     a_sub2 = \<lparr>sub_dup = True, sub_import = True, sub_record = True, sub_queue = True\<rparr>,
     a_wait = True, a_q1 = True, a_q2 = True, a_dup = True, a_mem = True\<rparr>"

definition frame_ready :: "nat \<Rightarrow> poll_turn" where
  "frame_ready i = \<lparr>t_others = [], t_poll = Poll_ret True None, t_dq = Dq_buf i\<rparr>"

definition demo_primed :: box where
  "demo_primed = demo_started\<lparr>caps_set := True, vdin1_fmt_poll_counter := 1, frame_count := 1, vk_frame_count := 2,
     seq := 2, content := (\<lambda>_. 0)(0 := 0, 3 := 0, 1 := 1), drvq := [0 \<mapsto> 0, 2 \<mapsto> 2],
     p010_out_free := [False, False, True, True],
     vk_input_cache := [\<lparr>ce_fd = 10, ce_dmabuf = 0, ce_size = 5184000, ce_valid = True, ce_last_used = 0\<rparr>,
       \<lparr>ce_fd = 11, ce_dmabuf = 1, ce_size = 5184000, ce_valid = True, ce_last_used = 2\<rparr>],
     gpu := (\<lambda>_. None)(0 := Some \<lparr>j_in = 1, j_out = 4\<rparr>), vk_async_pending := True, vk_async_out_pool_idx := 1,
     vk_async_vdin1_idx := 1, vk_async_in_fd := 11, vk_slot := 1,
     down := [\<lparr>l_kind = P010_loan, l_index = 0, l_dmabuf = 3, l_serial = 0\<rparr>], delivered := [0]\<rparr>"

lemma demo_create:
  "gst_streambox_src_create [frame_ready 0, frame_ready 1] all_good demo_started = Some (Flow_ok, demo_primed)"
  by (simp add: gst_streambox_src_create_def create_path_b_def demo_started_def vdin1_check_format_change_def
      VDIN1_FMT_POLL_INTERVAL_def frame_ready_def drv_dqbuf_def create_prime_def p010_pool_acquire_def
      vdin1_vk_convert_sync_def vdin1_vk_submit_async_def vdin1_vk_input_cache_get_def cache_slot_def
      all_good_def vdin1_vk_wait_async_def gpu_finish_def)
    (simp add: drv_qbuf_def prime_second_def drv_dqbuf_def count_frame_def overlap_frame_def submit_next_def
      p010_pool_acquire_def vdin1_vk_submit_async_def vdin1_vk_input_cache_get_def cache_slot_def push_buffer_def
      pdm_def demo_primed_def demo_started_def, simp add: box_init_def fun_eq_iff)

lemma demo_start: "gst_streambox_src_start demo_answers (box_init True 3 0) = Inr (True, demo_started)"
proof -
  have eq: "(box_init True 3 0)\<lparr>flushing := False, frame_count := 0, caps_set := False, colorimetry := []\<rparr> =
      box_init True 3 0"
    by (simp add: box_init_def)
  moreover have "sa_pipe demo_answers" by (simp add: demo_answers_def)
  ultimately show ?thesis unfolding gst_streambox_src_start_def eq by (simp add: demo_start_path_b)
qed

lemma demo_run:
  "lts_run box_step (box_init True 3 0)
     [Op_start demo_answers True, Op_create [frame_ready 0, frame_ready 1] all_good Flow_ok] demo_primed"
proof -
  have "box_step (box_init True 3 0) (Op_start demo_answers True) demo_started"
    by (rule step_start) (simp_all add: demo_start)
  moreover have "box_step demo_started (Op_create [frame_ready 0, frame_ready 1] all_good Flow_ok) demo_primed"
    by (rule step_create) (rule demo_create)
  ultimately show ?thesis by (blast intro: lts_run.intros)
qed

lemma demo_primed_sel:
  "env_sound demo_primed" "streaming demo_primed" "vdin1_fd demo_primed" "vdin1_10bit demo_primed" "\<not> flushing demo_primed"
  "\<not> flush_pipe demo_primed" "signal_monitor demo_primed" "vk_async_pending demo_primed" "seq demo_primed = 2"
  "delivered demo_primed = [0]" "in_flight demo_primed = [1]" "drvq demo_primed = [0 \<mapsto> 0, 2 \<mapsto> 2]"
  "vdin1_fmt_poll_counter demo_primed = 1" "p010_out_free demo_primed = [False, False, True, True]"
  "down demo_primed = [\<lparr>l_kind = P010_loan, l_index = 0, l_dmabuf = 3, l_serial = 0\<rparr>]" "posts demo_primed = []"
  by (simp_all add: demo_primed_def demo_started_def env_sound_def in_flight_def vdm_def)

end
