(* ===== verification/Streambox_Props.thy ===== *)
theory Streambox_Props
  imports Streambox_Example
begin

text \<open>
  The properties of path B of the capture source: over all executions, the buffers the GPU, the
  driver and downstream use are kept apart and frames arrive downstream unchanged and in order; the
  result of each call; the ends of a session; and the ways in which the code falls short.
\<close>

section \<open>Executions\<close>

lemma ok_init: "ok [] [] (box_init p n m)"
  by (simp add: ok_def good_def box_init_def wired_def jobs_def places_def in_hand_def ordered_def line_def
      in_flight_def ascending_def)

lemma ok_step: "box_step b l b' \<Longrightarrow> ok [] [] b \<Longrightarrow> ok [] [] b'"
proof (induction rule: box_step.induct)
  case (step_stop a b b')
  then show ?case using ok_stop by blast
next
  case (step_start b a ok' b')
  then show ?case using ok_start by blast
next
  case (step_create ts a b r b')
  then show ?case using ok_create by blast
qed (simp_all add: ok_release gst_streambox_src_unlock_def gst_streambox_src_unlock_stop_def)

interpretation box: invariant_system box_step "ok [] []"
  by unfold_locales (rule ok_step)

lemma run_good: "lts_run box_step (box_init p n m) ops b \<Longrightarrow> env_sound b \<Longrightarrow> good [] [] b"
  using box.run_inv [OF _ ok_init] by (simp add: ok_def)

section \<open>Buffers are kept apart\<close>

text \<open>
  What the GPU touches is with neither the driver nor downstream nor in the pool, what downstream holds
  the driver does not, at most one job runs, and no Vulkan object is used against its rules.
\<close>

definition buffers_separate :: "box \<Rightarrow> bool" where
  "buffers_separate b \<longleftrightarrow>
     (\<forall>s j. gpu b s = Some j \<longrightarrow>
        (\<forall>l \<in> set (down b). l_dmabuf l \<noteq> j_in j \<and> l_dmabuf l \<noteq> j_out j) \<and>
        (\<forall>i d. drvq b i = Some d \<longrightarrow> d \<noteq> j_in j \<and> d \<noteq> j_out j) \<and>
        (\<forall>k < length (p010_out_fds b). p010_out_free b ! k \<longrightarrow> pdm b k \<noteq> j_out j) \<and>
        (\<forall>s' j'. gpu b s' = Some j' \<longrightarrow> s' = s)) \<and>
     (\<forall>l \<in> set (down b). \<forall>i d. drvq b i = Some d \<longrightarrow> l_dmabuf l \<noteq> d) \<and>
     \<not> vk_misuse b"

lemma good_separate:
  assumes g: "good [] [] b"
  shows "buffers_separate b"
proof -
  have w: "wired b" and jb: "jobs b" using g by (simp_all add: good_def)
  have drv: "i < length (vdin1_bufs b) \<and> d = vdm b i" if "drvq b i = Some d" for i d
    using w that by (simp add: wired_def)
  have dd: "l_dmabuf l \<noteq> d" if "l \<in> set (down b)" "drvq b i = Some d" for l i d
    using vdin_not_down [OF g _ that(1), of i] drv [OF that(2)] that(2) by simp
  have gp: "(\<forall>l \<in> set (down b). l_dmabuf l \<noteq> j_in j \<and> l_dmabuf l \<noteq> j_out j) \<and>
      (\<forall>i d. drvq b i = Some d \<longrightarrow> d \<noteq> j_in j \<and> d \<noteq> j_out j) \<and>
      (\<forall>k < length (p010_out_fds b). p010_out_free b ! k \<longrightarrow> pdm b k \<noteq> j_out j) \<and>
      (\<forall>s' j'. gpu b s' = Some j' \<longrightarrow> s' = s)" if j: "gpu b s = Some j" for s j
  proof -
    let ?i = "vk_async_vdin1_idx b" and ?k = "nat (vk_async_out_pool_idx b)"
    have eq: "gpu b x = (if vk_async_pending b \<and> x = 1 - vk_slot b
        then Some \<lparr>j_in = vdm b ?i, j_out = pdm b ?k\<rparr> else None)" for x
      using jb unfolding jobs_def by blast
    have only: "vk_async_pending b \<and> x = 1 - vk_slot b" if "gpu b x = Some y" for x y
      using that eq [of x] by (metis option.distinct(1))
    note p = only [OF j, THEN conjunct1] and s = only [OF j, THEN conjunct2]
    have "Some j = Some \<lparr>j_in = vdm b ?i, j_out = pdm b ?k\<rparr>"
      unfolding j [symmetric] using eq [of s] only [OF j] by (subst eq, subst if_P) simp_all
    then have jj: "j = \<lparr>j_in = vdm b ?i, j_out = pdm b ?k\<rparr>" by simp
    have i: "?i < length (vdin1_bufs b)" and k: "?k < length (p010_out_fds b)"
      using jb p by (simp_all add: jobs_def)
    have "l_dmabuf l \<noteq> vdm b ?i \<and> l_dmabuf l \<noteq> pdm b ?k" if "l \<in> set (down b)" for l
      using vdin_not_down [OF g i that] pool_not_down [OF g k that] p by blast
    moreover have "d \<noteq> vdm b ?i \<and> d \<noteq> pdm b ?k" if "drvq b x = Some d" for x d
    proof -
      have "vdin_place [] b ?i \<le> 1" using g i unfolding good_def places_def by blast
      then have "drvq b ?i = None" using p by (simp add: vdin_place_def split: if_splits)
      then have "x \<noteq> ?i" using that by auto
      moreover have "x < length (vdin1_bufs b)" "d = vdm b x" using drv [OF that] by simp_all
      ultimately show ?thesis using vdm_inj [OF w _ i, of x] vdm_pdm [OF w _ k, of x] by simp
    qed
    moreover have "pdm b x \<noteq> pdm b ?k" if "x < length (p010_out_fds b)" "p010_out_free b ! x" for x
    proof -
      have "pool_place [] b ?k = 1" using g k unfolding good_def places_def by blast
      then have "\<not> p010_out_free b ! ?k" using p by (simp add: pool_place_def)
      then show ?thesis using that pdm_inj [OF w that(1) k] by blast
    qed
    moreover have "s' = s" if "gpu b s' = Some j'" for s' j'
      using only [OF that, THEN conjunct2] s by (rule trans [OF _ sym])
    ultimately show ?thesis unfolding jj by (intro conjI allI ballI impI) simp_all
  qed
  show ?thesis unfolding buffers_separate_def using gp dd jb unfolding jobs_def by blast
qed

text \<open>
  C3: In every execution of the source, across any number of starts, stops and failures, and as long
  as the kernel, the GPU and downstream keep to their contracts: the buffers a running conversion
  reads and writes are with neither the driver, downstream nor the pool; no buffer is with both the
  driver and downstream; at most one conversion runs; no Vulkan object is used while the GPU works on
  it; and every buffer of the output pool is in exactly one place, the free list, the conversion or
  downstream.
\<close>

theorem streambox_buffers_safe:
  assumes "lts_run box_step (box_init p n m) ops b" "env_sound b"
  shows "buffers_separate b \<and>
    (\<forall>k < length (p010_out_fds b). of_bool (p010_out_free b ! k) +
       of_bool (vk_async_pending b \<and> nat (vk_async_out_pool_idx b) = k) +
       length (filter (\<lambda>l. l_kind l = P010_loan \<and> l_index l = k \<and> l_dmabuf l = pdm b k) (down b)) = (1 :: nat))"
proof -
  have g: "good [] [] b" using run_good [OF assms] .
  have c: "cur_p b k = (\<lambda>l. l_kind l = P010_loan \<and> l_index l = k \<and> l_dmabuf l = pdm b k)" for k
    by (simp add: cur_p_def fun_eq_iff)
  show ?thesis
    using good_separate [OF g] g unfolding good_def places_def pool_place_def c by simp
qed

lemma streambox_buffers_safe_witness:
  "buffers_separate demo_primed \<and> env_sound demo_primed \<and> vk_async_pending demo_primed"
  using streambox_buffers_safe [OF demo_run] demo_primed_sel by simp

text \<open>
  C4: In every execution as above, frames reach downstream in the order of their capture and none
  twice, a frame that is being converted is younger than all delivered ones, and as long as
  downstream holds a buffer, the buffer keeps the frame it was delivered with.
\<close>

theorem streambox_frames_in_order:
  assumes "lts_run box_step (box_init p n m) ops b" "env_sound b"
  shows "sorted_wrt (<) (delivered b @ in_flight b) \<and> (\<forall>x \<in> set (delivered b @ in_flight b). x < seq b) \<and>
    (\<forall>l \<in> set (down b). content b (l_dmabuf l) = l_serial l)"
  using run_good [OF assms] by (simp add: good_def ordered_def line_def ascending_def loan_ok_def)

lemma streambox_frames_in_order_witness:
  "delivered demo_primed @ in_flight demo_primed = [0, 1] \<and> sorted_wrt (<) (delivered demo_primed @ in_flight demo_primed) \<and>
   content demo_primed 3 = 0"
  using streambox_frames_in_order [OF demo_run] demo_primed_sel by simp

end
