(* ===== verification/Streambox_Calls.thy ===== *)
theory Streambox_Calls
  imports Streambox_Props
begin

text \<open>
  What single calls of the capture source do: the steady call, in which the conversion of one frame
  overlaps with the delivery of the one before it; which calls deliver a buffer; when a call returns;
  how a session ends; what is left after it; and the places in which the code falls short.
\<close>

section \<open>The steady call\<close>

definition sub_good :: "submit_answer \<Rightarrow> bool" where
  "sub_good s \<longleftrightarrow> sub_dup s \<and> sub_import s \<and> sub_record s \<and> sub_queue s"

lemma submit_good:
  assumes "sub_good a" "vk_initialized b" "k < length (p010_out_fds b)" "ce_valid (vk_output_pool_cache b ! k)"
  shows "fst (vdin1_vk_submit_async a fd k slot b)"
proof -
  let ?sz = "ucast (box_width b) * ucast (box_height b) * 5 div 2"
  have "fst (vdin1_vk_input_cache_get a fd ?sz b) \<noteq> None"
    using assms(1) by (simp add: vdin1_vk_input_cache_get_def sub_good_def Let_def split: option.split prod.split)
  then obtain i b1 where "vdin1_vk_input_cache_get a fd ?sz b = (Some i, b1)"
    by (cases "vdin1_vk_input_cache_get a fd ?sz b") auto
  then show ?thesis using assms by (simp add: vdin1_vk_submit_async_def sub_good_def Let_def)
qed

lemma submit_next_good:
  assumes g: "good hv hp b" and idle: "\<not> vk_async_pending b" "vk_initialized b" and a: "sub_good a"
    and i: "i < length (vdin1_bufs b)" and k: "k < length (p010_out_fds b)"
  obtains es where "submit_next a i k b = (True, b\<lparr>vk_input_cache := es,
      gpu := (\<lambda>_. None)(vk_slot b := Some \<lparr>j_in = vdm b i, j_out = pdm b k\<rparr>), vk_async_pending := True,
      vk_async_out_pool_idx := int k, vk_async_vdin1_idx := i, vk_async_in_fd := vdin1_bufs b ! i,
      vk_slot := 1 - vk_slot b\<rparr>)"
proof -
  obtain r b1 where s: "vdin1_vk_submit_async a (vdin1_bufs b ! i) k (vk_slot b) b = (r, b1)" by fastforce
  have "ce_valid (vk_output_pool_cache b ! k)" using g k by (simp add: good_def wired_def)
  then have r: "r" using submit_good [OF a idle(2) k, of "vdin1_bufs b ! i" "vk_slot b"] s by simp
  obtain es where "b1 = b\<lparr>vk_input_cache := es, gpu := (if r then (\<lambda>_. None)(vk_slot b :=
      Some \<lparr>j_in = vdm b i, j_out = pdm b k\<rparr>) else gpu b)\<rparr>"
    using submit_async [OF g idle(1) i k s] by blast
  then show ?thesis using s r by (intro that [of es]) (simp add: submit_next_def)
qed

text \<open>A submission with a free output buffer: the frame is in flight, nothing else moves.\<close>

lemma overlap_good:
  assumes g: "good [(i, Some s)] hp b" and idle: "\<not> vk_async_pending b" "vk_initialized b"
    and a: "sub_good (a_sub2 a)" and free: "True \<in> set (p010_out_free b)" and snd: "env_sound b"
  defines "b' \<equiv> overlap_frame a i b"
  shows "vk_async_pending b'" "vk_async_vdin1_idx b' = i" "content b' = content b" "drvq b' = drvq b" "seq b' = seq b"
    "delivered b' = delivered b" "vdm b' = vdm b" "env_sound b'"
proof -
  obtain k where f: "pool_first_free (p010_out_free b) 0 = Some k"
    using free first_free_None [of "p010_out_free b" 0] by (cases "pool_first_free (p010_out_free b) 0") auto
  let ?b1 = "b\<lparr>p010_out_free := (p010_out_free b)[k := False]\<rparr>"
  have acq: "p010_pool_acquire b = Some (k, ?b1)" using f by (simp add: p010_pool_acquire_def)
  have w: "wired b" "i < length (vdin1_bufs b)" using g by (simp_all add: good_def places_def)
  have k: "k < length (p010_out_fds b)" using first_free_Some [OF f] w(1) by (simp add: wired_def)
  have g1: "good [(i, Some s)] ((k, None) # hp) ?b1"
    using ok_acquire [OF _ acq, of "[(i, Some s)]" hp] g snd by (simp add: ok_def)
  obtain es where "submit_next (a_sub2 a) i k ?b1 = (True, ?b1\<lparr>vk_input_cache := es,
      gpu := (\<lambda>_. None)(vk_slot ?b1 := Some \<lparr>j_in = vdm ?b1 i, j_out = pdm ?b1 k\<rparr>), vk_async_pending := True,
      vk_async_out_pool_idx := int k, vk_async_vdin1_idx := i, vk_async_in_fd := vdin1_bufs ?b1 ! i,
      vk_slot := 1 - vk_slot ?b1\<rparr>)"
    using submit_next_good [OF g1, of "a_sub2 a" i k] idle a w k by auto
  then have "b' = ?b1\<lparr>vk_input_cache := es,
      gpu := (\<lambda>_. None)(vk_slot ?b1 := Some \<lparr>j_in = vdm ?b1 i, j_out = pdm ?b1 k\<rparr>), vk_async_pending := True,
      vk_async_out_pool_idx := int k, vk_async_vdin1_idx := i, vk_async_in_fd := vdin1_bufs ?b1 ! i,
      vk_slot := 1 - vk_slot ?b1\<rparr>" unfolding b'_def overlap_frame_def acq by simp
  then show "vk_async_pending b'" "vk_async_vdin1_idx b' = i" "content b' = content b" "drvq b' = drvq b"
    "seq b' = seq b" "delivered b' = delivered b" "vdm b' = vdm b" "env_sound b'"
    using snd by (simp_all add: env_sound_def)
qed

text \<open>The wait for the frame, and the job that ends.\<close>

lemma steady_good:
  assumes g: "good [(i, Some s)] [] b" and p: "vk_async_pending b" and snd: "env_sound b"
    and free: "True \<in> set (p010_out_free b)"
    and a: "a_wait a" "a_q1 a" "a_dup a" "a_mem a" "sub_good (a_sub2 a)"
  shows "\<exists>b'. create_steady a i b = (Flow_ok, b') \<and> env_sound b' \<and> delivered b' = delivered b @ in_flight b \<and>
    in_flight b' = [content b (vdm b i)] \<and> seq b' = seq b \<and>
    drvq b' = (drvq b)(vk_async_vdin1_idx b \<mapsto> vdm b (vk_async_vdin1_idx b))"
proof -
  let ?k = "nat (vk_async_out_pool_idx b)" and ?j = "vk_async_vdin1_idx b"
  let ?p = "content b (vdm b ?j)"
  have w: "wired b" "jobs b" and i: "i < length (vdin1_bufs b)" using g by (simp_all add: good_def places_def)
  have j: "?j < length (vdin1_bufs b)" and k: "?k < length (p010_out_fds b)" and ini: "vk_initialized b"
    and ten: "vdin1_10bit b" and gp: "gpu b (1 - vk_slot b) = Some \<lparr>j_in = vdm b ?j, j_out = pdm b ?k\<rparr>"
    using w(2) p by (simp_all add: jobs_def)
  have "vdin_place [(i, Some s)] b ?j \<le> 1" using g j unfolding good_def places_def by blast
  then have dj: "drvq b ?j = None" using p by (simp add: vdin_place_def split: if_splits)
  define b3 where "b3 = drv_qbuf (a_q1 a) ?j ((gpu_finish (1 - vk_slot b) b)\<lparr>vk_async_pending := False\<rparr>)"
  have b3: "b3 = b\<lparr>gpu := (gpu b)(1 - vk_slot b := None), content := (content b)(pdm b ?k := ?p),
      vk_async_pending := False, drvq := (drvq b)(?j \<mapsto> vdm b ?j)\<rparr>"
    using gp dj a(2) vdm_fdt [OF w(1) j] by (simp add: b3_def gpu_finish_def drv_qbuf_def)
  have s3: "env_sound b3" using snd by (simp add: b3 env_sound_def)
  have "ok [(i, Some s)] [] b" using g by (simp add: ok_def)
  then have "ok [(i, Some s)] [(?k, Some ?p)] b3"
    unfolding b3_def by (intro ok_qbuf [OF ok_wait [OF _ p]])
  then have g3: "good [(i, Some s)] [(?k, Some ?p)] (count_frame b3)"
    using s3 ok_count_frame [of "[(i, Some s)]" _ b3] by (simp add: ok_def) (simp add: env_sound_def count_frame_def)
  have idle: "\<not> vk_async_pending (count_frame b3)" "vk_initialized (count_frame b3)"
    "True \<in> set (p010_out_free (count_frame b3))" "env_sound (count_frame b3)"
    using ini free s3 by (simp_all add: b3 count_frame_def env_sound_def)
  note ov = overlap_good [OF g3 idle(1,2) a(5) idle(3,4)]
  let ?b' = "push_buffer P010_loan ?k (pdm b3 ?k) (overlap_frame a i (count_frame b3))"
  have "create_steady a i b = (Flow_ok, ?b')"
    using a by (simp add: create_steady_def vdin1_vk_wait_async_def b3_def Let_def)
  moreover have "env_sound ?b'" using ov(8) by (simp add: push_buffer_def env_sound_def)
  moreover have "delivered ?b' = delivered b @ in_flight b"
    using ov p by (simp add: push_buffer_def count_frame_def b3 in_flight_def)
  moreover have "in_flight ?b' = [content b (vdm b i)]"
    using ov vdm_pdm [OF w(1) i k] by (simp add: in_flight_def push_buffer_def count_frame_def b3)
  moreover have "seq ?b' = seq b" "drvq ?b' = (drvq b)(?j \<mapsto> vdm b ?j)"
    using ov by (simp_all add: push_buffer_def count_frame_def b3)
  ultimately show ?thesis by blast
qed

text \<open>
  C5: The steady call of a 10 bit session: a conversion is in flight, the driver has a frame ready, an
  output buffer is free and every system call succeeds. Then the call delivers exactly the frame that
  was in flight, the new frame is in flight when it returns, the capture buffer of the delivered frame
  is back with the driver and no other buffer moved.
\<close>

theorem streambox_steady_call:
  assumes run: "lts_run box_step (box_init p n m) ops b" "env_sound b"
    and b: "streaming b" "\<not> flushing b" "\<not> flush_pipe b" "vk_async_pending b"
    and ready: "drvq b i \<noteq> None" and free: "True \<in> set (p010_out_free b)"
    and a: "a_fmt a = None \<or> a_fmt a = Some (vdin1_prev b)" "a_wait a" "a_q1 a" "a_dup a" "a_mem a"
      "sub_good (a_sub2 a)"
  shows "\<exists>b'. gst_streambox_src_create (frame_ready i # ts) a b = Some (Flow_ok, b') \<and> env_sound b' \<and>
    delivered b' = delivered b @ in_flight b \<and> in_flight b' = [seq b] \<and> seq b' = Suc (seq b) \<and>
    drvq b' = (drvq b)(i := None, vk_async_vdin1_idx b \<mapsto> vdm b (vk_async_vdin1_idx b))"
proof -
  have g: "good [] [] b" using run_good [OF run] .
  then have w: "wired b" and jb: "jobs b" by (simp_all add: good_def)
  have ini: "vk_initialized b" "vdin1_10bit b" using jb b(4) by (simp_all add: jobs_def)
  have fd: "vdin1_fd b" using w ini(1) by (auto simp: wired_def)
  obtain d where d: "drvq b i = Some d" using ready by blast
  then have i: "i < length (vdin1_bufs b)" and dv: "d = vdm b i" using w by (simp_all add: wired_def)
  have nn: "0 \<le> vdin1_bufs b ! i" using vdm_fdt [OF w i] w by (auto simp: wired_def)
  let ?c = "b\<lparr>caps_set := True, vdin1_fmt_poll_counter := vdin1_fmt_poll_counter b + 1\<rparr>"
  let ?b2 = "drv_dqbuf i ?c"
  have chk: "vdin1_check_format_change (a_fmt a) (b\<lparr>caps_set := True\<rparr>) = (False, ?c)"
    using a(1) by (auto simp: vdin1_check_format_change_def Let_def)
  have b2: "?b2 = ?c\<lparr>drvq := (drvq b)(i := None), content := (content b)(d := seq b), seq := Suc (seq b)\<rparr>"
    using d by (simp add: drv_dqbuf_def)
  have "poll_dqbuf 5 (frame_ready i # ts) 0 ?c = Some (Got_frame i, ts, ?b2)"
    using b i nn by (simp add: frame_ready_def b2)
  then have cr: "gst_streambox_src_create (frame_ready i # ts) a b = Some (create_steady a i ?b2)"
    using b ini fd chk by (simp add: gst_streambox_src_create_def create_path_b_def b2)
  have "ok [] [] b" using g by (simp add: ok_def)
  then have "ok [] [] ?c" by simp
  then have "ok [(i, Some (seq b))] [] ?b2" using ok_dqbuf [of "[]" ?c i] by simp
  moreover have s2: "env_sound ?b2" using run(2) by (simp add: b2 env_sound_def)
  ultimately have "good [(i, Some (seq b))] [] ?b2" by (simp add: ok_def)
  from steady_good [OF this _ s2 _ a(2-6)] b(4) free
  obtain b' where b': "create_steady a i ?b2 = (Flow_ok, b')" "env_sound b'" "delivered b' = delivered ?b2 @ in_flight ?b2"
    "in_flight b' = [content ?b2 (vdm ?b2 i)]" "seq b' = seq ?b2"
    "drvq b' = (drvq ?b2)(vk_async_vdin1_idx ?b2 \<mapsto> vdm ?b2 (vk_async_vdin1_idx ?b2))"
    by (auto simp: b2)
  have "vdin_place [] b (vk_async_vdin1_idx b) \<le> 1" "vk_async_vdin1_idx b < length (vdin1_bufs b)"
    using g jb b(4) unfolding good_def places_def jobs_def by blast+
  then have "vk_async_vdin1_idx b \<noteq> i" "vdm b (vk_async_vdin1_idx b) \<noteq> vdm b i"
    using d b(4) vdm_inj [OF w _ i] by (auto simp: vdin_place_def)
  then have "in_flight ?b2 = in_flight b" using b(4) by (simp add: in_flight_def b2 dv)
  then show ?thesis using cr b' by (simp add: b2 dv)
qed

lemma streambox_steady_call_witness:
  "\<exists>b'. gst_streambox_src_create [frame_ready 2] all_good demo_primed = Some (Flow_ok, b') \<and>
     delivered b' = [0, 1] \<and> in_flight b' = [2]"
proof -
  have "sub_good (a_sub2 all_good)" "a_fmt all_good = None" "a_wait all_good" "a_q1 all_good" "a_dup all_good"
    "a_mem all_good" by (simp_all add: all_good_def sub_good_def)
  then show ?thesis using streambox_steady_call [OF demo_run, of 2 all_good "[]"] demo_primed_sel by auto
qed

section \<open>Which calls deliver a buffer\<close>

lemma poll_same: "poll_dqbuf lim ts n b = Some (r, ts', b') \<Longrightarrow> same_call b b'"
proof (induction ts arbitrary: n b)
  case (Cons t ts)
  let ?b1 = "fold other_act (t_others t) b"
  have s1: "same_call b ?b1" by (rule same_call_others)
  have rec: "same_call b b'" if "poll_dqbuf lim ts m ?b1 = Some (r, ts', b')" for m
    using Cons.IH [OF that] s1 same_call_trans by blast
  have dq: "same_call b (drv_dqbuf i ?b1)" for i using s1 same_call_dqbuf same_call_trans by blast
  show ?case
    using Cons.prems rec s1 dq
    by (auto simp: Let_def split: if_splits poll_result.splits option.splits dq_result.splits)
qed (simp split: if_splits)

lemma same_clean_exit:
  assumes "clean_exit a reason b = (r, b')"
  shows "r = Flow_eos \<and> delivered b' = delivered b \<and> posts b' = posts b @ [(reason, signal_change_info (a_info a))]"
proof -
  have "delivered (drain_async a b) = delivered b" "posts (drain_async a b) = posts b"
    by (simp_all add: drain_async_def Let_def vdin1_vk_wait_async_def)
  then show ?thesis
    using assms by (auto simp: clean_exit_def Let_def post_signal_change_message_def vdin1_streamoff_def split: if_splits)
qed

text \<open>A call that delivers: one buffer more, holding the frame it is delivered with.\<close>

definition one_delivered :: "box \<Rightarrow> box \<Rightarrow> bool" where
  "one_delivered b b' \<longleftrightarrow> (\<exists>ls l. down b' = ls @ [l] \<and> delivered b' = delivered b @ [l_serial l] \<and>
     content b' (l_dmabuf l) = l_serial l)"

lemma one_delivered_deliver: "delivered b4 = delivered b \<Longrightarrow> one_delivered b (push_buffer k i d b4)"
  by (simp add: one_delivered_def push_buffer_def)

lemma prime_second_same: "prime_second a ts b = Some b' \<Longrightarrow> same_session b b'"
  using poll_same [of 3 ts 0 b] same_session_overlap same_session_trans
  by (fastforce simp: prime_second_def same_call_def split: option.splits prod.splits polled.splits)

lemma create_prime_result:
  assumes "create_prime a i ts b = Some (r, b')"
  shows "posts b' = posts b \<and> (r = Flow_ok \<and> one_delivered b b' \<or> r = Flow_error \<and> delivered b' = delivered b)"
proof (cases "p010_pool_acquire b")
  case None
  then show ?thesis using assms by (auto simp: create_prime_def qbuf_return_def)
next
  case (Some kb)
  then obtain k b1 where acq: "p010_pool_acquire b = Some (k, b1)" by (cases kb) auto
  have s1: "same_session b b1"
    using acq by (auto simp: p010_pool_acquire_def same_session_def split: option.splits)
  obtain ok2 b2 where cv: "vdin1_vk_convert_sync (a_sub1 a) (a_wait a) (vdin1_bufs b1 ! i) k b1 = (ok2, b2)"
    by fastforce
  have s2: "posts b2 = posts b" "delivered b2 = delivered b"
    using same_call_convert_sync [OF cv] s1 by (simp_all add: same_call_def same_session_def)
  let ?b3 = "drv_qbuf (a_q1 a) i b2"
  show ?thesis
  proof (cases "ok2 \<and> a_dup a \<and> a_mem a")
    case True
    then obtain b4 where b4: "prime_second a ts (count_frame ?b3) = Some b4"
      "r = Flow_ok" "b' = push_buffer P010_loan k (pdm ?b3 k) b4"
      using assms acq cv by (auto simp: create_prime_def Let_def split: option.splits)
    then have "delivered b4 = delivered b" "posts b4 = posts b"
      using prime_second_same [OF b4(1)] s2 by (simp_all add: same_session_def count_frame_def)
    then show ?thesis using b4 one_delivered_deliver by (simp add: push_buffer_def)
  next
    case False
    then show ?thesis using assms acq cv s2
      by (auto simp: create_prime_def Let_def qbuf_return_def split: if_splits)
  qed
qed

lemma create_steady_result:
  assumes "create_steady a i b = (r, b')"
  shows "posts b' = posts b \<and> (r = Flow_ok \<and> one_delivered b b' \<or> r = Flow_error \<and> delivered b' = delivered b)"
proof -
  let ?b3 = "drv_qbuf (a_q1 a) (vk_async_vdin1_idx b) ((gpu_finish (1 - vk_slot b) b)\<lparr>vk_async_pending := False\<rparr>)"
  let ?b4 = "overlap_frame a i (count_frame ?b3)"
  have "posts ?b4 = posts b" "delivered ?b4 = delivered b"
    using same_session_overlap [of "count_frame ?b3" a i] by (simp_all add: same_session_def count_frame_def)
  then show ?thesis using assms one_delivered_deliver [of ?b4 b]
    by (auto simp: create_steady_def vdin1_vk_wait_async_def Let_def qbuf_return_def push_buffer_def split: if_splits)
qed

lemma create_8bit_result:
  assumes "create_8bit a i b = (r, b')"
  shows "posts b' = posts b \<and> (r = Flow_ok \<and> one_delivered b b' \<or> r = Flow_error \<and> delivered b' = delivered b)"
  using assms one_delivered_deliver [of "b\<lparr>frame_count := frame_count b + 1\<rparr>" b]
  by (auto simp: create_8bit_def qbuf_return_def push_buffer_def split: if_splits)

definition exit_reason :: "string \<Rightarrow> bool" where
  "exit_reason s \<longleftrightarrow> s \<in> {''format-changed'', ''signal-lost'', ''signal-changed'', ''signal-timeout''}"



section \<open>When a call returns\<close>

text \<open>A poll that was not interrupted and is not followed by a \<open>DQBUF\<close> that says to try again.\<close>

definition decisive :: "poll_turn \<Rightarrow> bool" where
  "decisive t \<longleftrightarrow> t_poll t \<noteq> Poll_eintr \<and> t_dq t \<noteq> Dq_again"

lemma poll_returns:
  "n < lim \<Longrightarrow> lim \<le> n + length (filter decisive ts) \<Longrightarrow>
   \<exists>r ts' b'. poll_dqbuf lim ts n b = Some (r, ts', b') \<and>
     length (filter decisive ts) \<le> length (filter decisive ts') + (lim - n)"
proof (induction ts arbitrary: n b)
  case (Cons t ts)
  let ?b1 = "fold other_act (t_others t) b"
  let ?c = "length (filter decisive ts)"
  have rec: "\<exists>r ts' b'. poll_dqbuf lim ts m ?b1 = Some (r, ts', b') \<and>
      length (filter decisive (t # ts)) \<le> length (filter decisive ts') + (lim - n)"
    if "m = n \<and> \<not> decisive t \<or> m = Suc n \<and> m < lim" for m
  proof -
    have "m < lim" "lim \<le> m + ?c" using that Cons.prems by (auto split: if_splits)
    from Cons.IH [OF this, of ?b1] show ?thesis using that Cons.prems(1) by fastforce
  qed
  have fin: "length (filter decisive (t # ts)) \<le> ?c + (lim - n)" using Cons.prems(1) by (cases "decisive t") auto
  show ?case
  proof (cases "flushing b \<or> t_poll t = Poll_fail")
    case True
    then show ?thesis using fin Cons.prems by auto
  next
    case False
    show ?thesis
    proof (cases "t_poll t")
      case Poll_eintr
      then have "\<not> decisive t" by (simp add: decisive_def)
      then show ?thesis using rec [of n] False Poll_eintr by simp
    next
      case (Poll_ret rep pri)
      have dq: "t_dq t = Dq_again \<Longrightarrow> \<not> decisive t" by (simp add: decisive_def)
      show ?thesis
        using Poll_ret False rec [of n] rec [of "Suc n"] dq fin Cons.prems
        by (auto simp del: filter.simps simp: Let_def not_less_eq_eq [symmetric] split: if_splits dq_result.split)
    qed (use False in simp)
  qed
qed simp

text \<open>
  C22: Every call of \<open>create\<close> returns: eight polls, each of at most one second, that are not
  interrupted by a signal handler and not followed by a \<open>DQBUF\<close> that says to try again are enough,
  whatever else happens, in every state.
\<close>

theorem streambox_create_returns:
  assumes "8 \<le> length (filter decisive ts)"
  shows "\<exists>r b'. gst_streambox_src_create ts a b = Some (r, b')"
proof -
  obtain ch b1 where chk: "vdin1_check_format_change (a_fmt a) (b\<lparr>caps_set := True\<rparr>) = (ch, b1)" by fastforce
  obtain x ts' b2 where p: "poll_dqbuf 5 ts 0 b1 = Some (x, ts', b2)"
    and len: "length (filter decisive ts) \<le> length (filter decisive ts') + 5"
    using poll_returns [of 0 5 ts b1] assms by auto
  have ps: "prime_second a ts' c \<noteq> None" for c
  proof -
    obtain y us c' where "poll_dqbuf 3 ts' 0 c = Some (y, us, c')"
      using poll_returns [of 0 3 ts' c] assms len by auto
    then show ?thesis by (cases y) (simp_all add: prime_second_def)
  qed
  have "\<exists>r b'. create_prime a i ts' c = Some (r, b')" for i c
    by (simp add: create_prime_def qbuf_return_def Let_def ps split: option.split prod.split)
  then show ?thesis
    using chk p
    by (auto simp: gst_streambox_src_create_def create_path_b_def clean_exit_def Let_def create_steady_def
        qbuf_return_def create_8bit_def split: polled.split prod.split)
qed

lemma streambox_create_returns_witness:
  "\<exists>r b'. gst_streambox_src_create (\<lparr>t_others = [Other_unlock], t_poll = Poll_eintr, t_dq = Dq_again\<rparr> #
     replicate 8 \<lparr>t_others = [], t_poll = Poll_ret False None, t_dq = Dq_fail\<rparr>) all_good demo_primed = Some (r, b')"
  by (rule streambox_create_returns) (simp add: decisive_def)

section \<open>The end of a session\<close>

text \<open>What is left behind when a call ends the stream.\<close>

definition quiesced :: "box \<Rightarrow> bool" where
  "quiesced b \<longleftrightarrow> \<not> vk_async_pending b \<and> drvq b = Map.empty \<and> (\<forall>s. env_sound b \<longrightarrow> gpu b s = None)"

lemma clean_exit_quiet:
  assumes "vk_async_pending b \<longrightarrow> vdin1_10bit b \<and> vk_initialized b" "vdin1_fd b" "clean_exit a reason b = (r, b')"
  shows "\<not> vk_async_pending b' \<and> drvq b' = Map.empty"
proof -
  have "vdin1_fd (drain_async a b)" using assms(2) by (simp add: drain_async_def Let_def vdin1_vk_wait_async_def)
  then show ?thesis using assms
    by (cases "vk_async_pending b") (auto simp: clean_exit_def post_signal_change_message_def vdin1_streamoff_def Let_def)
qed

lemma sound_drain: "env_sound (drain_async a b) \<longleftrightarrow> env_sound b \<and> a_wait a"
  by (auto simp: drain_async_def Let_def vdin1_vk_wait_async_def env_sound_def)

lemma sound_clean_exit:
  "clean_exit a reason b = (r, b') \<Longrightarrow> env_sound b' \<longleftrightarrow>
     env_sound b \<and> (vdin1_10bit b \<and> vk_async_pending b \<and> vk_initialized b \<longrightarrow> a_wait a)"
  by (auto simp: clean_exit_def Let_def post_signal_change_message_def sound_cleanup sound_drain split: if_splits)

lemma pending_10bit: "jobs b \<Longrightarrow> vk_async_pending b \<longrightarrow> vdin1_10bit b \<and> vk_initialized b"
  by (simp add: jobs_def)

lemma quiesced_clean_exit:
  assumes o: "ok [] [] b" and s: "env_sound b" and fd: "vdin1_fd b" and r: "clean_exit a reason b = (r, b')"
  shows "quiesced b'"
proof -
  have jb: "jobs b" using o s by (simp add: ok_def good_def)
  have "\<not> vk_async_pending b' \<and> drvq b' = Map.empty"
    using clean_exit_quiet [OF pending_10bit [OF jb] fd r] .
  moreover have "ok [] [] b'" using ok_clean_exit [OF o, of a reason] r by simp
  ultimately show ?thesis using idle_gpu by (auto simp: quiesced_def ok_def good_def)
qed


abbreviation silence :: "poll_turn list" where
  "silence \<equiv> replicate 5 \<lparr>t_others = [], t_poll = Poll_ret False None, t_dq = Dq_again\<rparr>"


text \<open>A turn in which no frame and no event arrives and nobody asks to stop.\<close>

definition silent :: "poll_turn \<Rightarrow> bool" where
  "silent t \<longleftrightarrow> Other_unlock \<notin> set (t_others t) \<and> (t_poll t = Poll_eintr \<or> t_poll t = Poll_ret False None)"

lemma others_flush:
  "Other_unlock \<notin> set xs \<Longrightarrow> flushing (fold other_act xs b) = flushing b \<and> flush_pipe (fold other_act xs b) = flush_pipe b"
proof (induction xs arbitrary: b)
  case (Cons x xs)
  then show ?case by (cases x) simp_all
qed simp

lemma poll_silent:
  assumes "\<forall>t \<in> set ts. silent t" "n < lim" "lim \<le> n + length (filter (\<lambda>t. t_poll t \<noteq> Poll_eintr) ts)"
    "\<not> flushing b" "\<not> flush_pipe b"
  shows "\<exists>ts' b'. poll_dqbuf lim ts n b = Some (Got_timeout, ts', b')"
  using assms
proof (induction ts arbitrary: n b)
  case (Cons t ts)
  let ?b1 = "fold other_act (t_others t) b"
  have fl: "\<not> flushing ?b1" "\<not> flush_pipe ?b1"
    using others_flush [of "t_others t" b] Cons.prems by (simp_all add: silent_def)
  show ?case
  proof (cases "t_poll t = Poll_eintr")
    case True
    then show ?thesis using Cons.IH [of n ?b1] Cons.prems fl by simp
  next
    case False
    then have "t_poll t = Poll_ret False None" using Cons.prems(1) by (simp add: silent_def)
    then show ?thesis using Cons.IH [of "Suc n" ?b1] Cons.prems fl
      by (cases "lim \<le> Suc n") (simp_all add: Let_def)
  qed
qed simp



end
