(* ===== verification/Streambox_Faults.thy ===== *)
theory Streambox_Faults
  imports Streambox_Calls
begin

text \<open>
  The ends of a session of the capture source, good and bad: every descriptor opened is closed again by
  \<open>stop\<close> and by a \<open>start\<close> that fails; a signal event during the first call is lost; a driver that grants
  more buffers than were asked for overruns an array; and a buffer that downstream keeps across a
  restart is taken for one of the new session.
\<close>

section \<open>Descriptors\<close>

text \<open>Every open descriptor is in one of the two arrays, which are empty when the device is closed.\<close>

definition fds_owned :: "box \<Rightarrow> bool" where
  "fds_owned b \<longleftrightarrow> (\<forall>fd. 0 \<le> fd \<and> fdt b fd \<noteq> None \<longrightarrow> fd \<in> set (vdin1_bufs b) \<union> set (p010_out_fds b)) \<and>
     (vdin1_fd b \<or> vdin1_bufs b = [] \<and> p010_out_fds b = [])"

definition no_fds :: "box \<Rightarrow> bool" where
  "no_fds b \<longleftrightarrow> (\<forall>fd. 0 \<le> fd \<longrightarrow> fdt b fd = None) \<and> \<not> vdin1_fd b \<and> vdin1_bufs b = [] \<and> p010_out_fds b = []"

lemma no_fds_owned: "no_fds b \<Longrightarrow> fds_owned b"
  by (simp add: no_fds_def fds_owned_def)

lemma closed_no_fds: "fds_owned b \<Longrightarrow> \<not> vdin1_fd b \<Longrightarrow> no_fds b"
  by (auto simp: no_fds_def fds_owned_def)

definition same_fds :: "box \<Rightarrow> box \<Rightarrow> bool" where
  "same_fds b b' \<longleftrightarrow> fdt b' = fdt b \<and> vdin1_bufs b' = vdin1_bufs b \<and> p010_out_fds b' = p010_out_fds b \<and>
     vdin1_fd b' = vdin1_fd b"

lemma same_fds_owned: "same_fds b b' \<Longrightarrow> fds_owned b' = fds_owned b"
  by (simp add: same_fds_def fds_owned_def)

lemma same_call_fds: "same_call b b' \<Longrightarrow> same_fds b b'"
  by (simp add: same_fds_def same_call_def same_session_def)

lemma drain_fds: "same_fds b (drain_async a b)"
  by (simp add: same_fds_def drain_async_def Let_def vdin1_vk_wait_async_def)

lemma clean_exit_fds: "clean_exit a reason b = (r, b') \<Longrightarrow> same_fds b b'"
  using drain_fds [of b a]
  by (auto simp: clean_exit_def Let_def post_signal_change_message_def vdin1_streamoff_def same_fds_def split: if_splits)

lemma prime_fds:
  assumes "create_prime a i ts b = Some (r, b')"
  shows "same_fds b b'"
proof (cases "p010_pool_acquire b")
  case None
  then show ?thesis using assms by (auto simp: create_prime_def qbuf_return_def same_fds_def)
next
  case (Some kb)
  then obtain k b1 where acq: "p010_pool_acquire b = Some (k, b1)" by (cases kb) auto
  obtain ok2 b2 where cv: "vdin1_vk_convert_sync (a_sub1 a) (a_wait a) (vdin1_bufs b1 ! i) k b1 = (ok2, b2)" by fastforce
  have s2: "same_fds b b2"
    using same_call_convert_sync [OF cv] acq
    by (auto simp: p010_pool_acquire_def same_call_def same_session_def same_fds_def split: option.splits)
  let ?b3 = "drv_qbuf (a_q1 a) i b2"
  show ?thesis
  proof (cases "ok2 \<and> a_dup a \<and> a_mem a")
    case True
    then obtain b4 where b4: "prime_second a ts (count_frame ?b3) = Some b4" "b' = push_buffer P010_loan k (pdm ?b3 k) b4"
      using assms acq cv by (auto simp: create_prime_def Let_def split: option.splits)
    then show ?thesis
      using prime_second_same [OF b4(1)] s2 by (simp add: same_session_def same_fds_def count_frame_def push_buffer_def)
  next
    case False
    then show ?thesis using assms acq cv s2
      by (auto simp: create_prime_def Let_def qbuf_return_def same_fds_def split: if_splits)
  qed
qed

lemma steady_fds:
  assumes "create_steady a i b = (r, b')"
  shows "same_fds b b'"
proof -
  let ?b3 = "drv_qbuf (a_q1 a) (vk_async_vdin1_idx b) ((gpu_finish (1 - vk_slot b) b)\<lparr>vk_async_pending := False\<rparr>)"
  have "same_fds b (overlap_frame a i (count_frame ?b3))"
    using same_session_overlap [of "count_frame ?b3" a i] by (simp add: same_session_def same_fds_def count_frame_def)
  then show ?thesis using assms
    by (auto simp: create_steady_def vdin1_vk_wait_async_def Let_def qbuf_return_def push_buffer_def same_fds_def split: if_splits)
qed

lemma eight_fds: "create_8bit a i b = (r, b') \<Longrightarrow> same_fds b b'"
  by (auto simp: create_8bit_def qbuf_return_def push_buffer_def same_fds_def split: if_splits)

lemma create_fds:
  assumes "gst_streambox_src_create ts a b = Some (r, b')"
  shows "same_fds b b'"
proof (cases "streaming b \<and> \<not> flushing b \<and> vdin1_fd b")
  case False
  then show ?thesis using assms by (auto simp: gst_streambox_src_create_def create_path_b_def same_fds_def split: if_splits)
next
  case True
  obtain ch b1 where chk: "vdin1_check_format_change (a_fmt a) (b\<lparr>caps_set := True\<rparr>) = (ch, b1)" by fastforce
  then have b1: "same_fds b b1"
    by (auto simp: vdin1_check_format_change_def Let_def same_fds_def split: if_splits option.splits)
  have via: "same_fds b b'" if "same_fds b c" "same_fds c b'" for c using that by (simp add: same_fds_def)
  show ?thesis
  proof (cases ch)
    case ch: True
    then show ?thesis using assms True chk via [OF b1] clean_exit_fds [of a "''format-changed''" b1 r b']
      by (simp add: gst_streambox_src_create_def create_path_b_def)
  next
    case ch: False
    then obtain x ts' b2 where p: "poll_dqbuf 5 ts 0 b1 = Some (x, ts', b2)"
      using assms True chk by (auto simp: gst_streambox_src_create_def create_path_b_def split: option.splits)
    have b2: "same_fds b b2" using same_call_fds [OF poll_same [OF p]] b1 by (simp add: same_fds_def)
    show ?thesis
      using assms True chk ch p b2 via [OF b2] clean_exit_fds [of a _ b2 r b'] prime_fds [of a _ ts' b2 r b']
        steady_fds [of a _ b2 r b'] eight_fds [of a _ b2 r b']
      by (simp add: gst_streambox_src_create_def create_path_b_def split: polled.splits if_splits)
  qed
qed

text \<open>Closing: the pool, then Vulkan, then the capture buffers.\<close>

lemma destroy_fds: "same_fds b (fold vdin1_vk_cache_entry_destroy es b)"
proof (induction es arbitrary: b)
  case (Cons e es)
  from Cons [of "vdin1_vk_cache_entry_destroy e b"] show ?case by (simp add: same_fds_def)
qed (simp add: same_fds_def)

lemma pool_cleanup_fds:
  "fdt (p010_pool_cleanup b) = fdt b |` (- set (p010_out_fds b))" "p010_out_fds (p010_pool_cleanup b) = []"
  "vdin1_bufs (p010_pool_cleanup b) = vdin1_bufs b" "vdin1_fd (p010_pool_cleanup b) = vdin1_fd b"
  using destroy_fds [of b "vk_output_pool_cache b"]
  by (simp_all add: p010_pool_cleanup_def Let_def fold_close same_fds_def)

lemma vk_cleanup_fds: "same_fds b (vdin1_vk_cleanup b)"
  using destroy_fds [of "gpu_finish 1 (gpu_finish 0 b)" "vk_input_cache (gpu_finish 1 (gpu_finish 0 b))"]
  by (simp add: vdin1_vk_cleanup_def Let_def same_fds_def)

lemma close_all_fds:
  assumes o: "\<forall>fd. 0 \<le> fd \<and> fdt b fd \<noteq> None \<longrightarrow> fd \<in> set (vdin1_bufs b) \<union> set (p010_out_fds b)"
    and r: "vdin1_free_dmabufs ((vdin1_vk_cleanup (p010_pool_cleanup b))\<lparr>drvq := q\<rparr>) = Inr b3"
  shows "no_fds (close_vdin1 b3)"
proof -
  let ?b2 = "vdin1_vk_cleanup (p010_pool_cleanup b)"
  have f2: "fdt ?b2 = fdt b |` (- set (p010_out_fds b))" "vdin1_bufs ?b2 = vdin1_bufs b" "p010_out_fds ?b2 = []"
    using vk_cleanup_fds [of "p010_pool_cleanup b"] pool_cleanup_fds [of b] by (simp_all add: same_fds_def)
  from free_dmabufs [OF r] have b3: "fdt b3 = fdt b |` (- set (p010_out_fds b)) |` (- {fd \<in> set (vdin1_bufs b). 0 \<le> fd})"
    "vdin1_bufs b3 = []" "p010_out_fds b3 = []" using f2 by simp_all
  have "fdt b3 fd = None" if "0 \<le> fd" for fd
    using o that unfolding b3(1) by (auto simp: restrict_map_def)
  then show ?thesis using b3 by (simp add: no_fds_def close_vdin1_def)
qed

lemma stop_fds:
  assumes o: "fds_owned b" and r: "gst_streambox_src_stop a b = Inr b'"
  shows "no_fds b'"
proof -
  define b1 where "b1 = (if vk_async_pending b \<and> vk_initialized b then drain_async a b else b)"
  have o1: "fds_owned b1" using o drain_fds [of b a] same_fds_owned by (simp add: b1_def)
  let ?b2 = "vdin1_vk_cleanup (p010_pool_cleanup b1)"
  have fd: "vdin1_fd ?b2 = vdin1_fd b1" by (rule cleanup_fd)
  show ?thesis
  proof (cases "vdin1_fd b1")
    case True
    then obtain b3 where b3: "vdin1_free_dmabufs (?b2\<lparr>drvq := Map.empty\<rparr>) = Inr b3"
      "b' = (close_vdin1 b3)\<lparr>signal_monitor := False, streaming := False, caps_set := False\<rparr>"
      using r fd by (auto simp: gst_streambox_src_stop_def stop_path_b_def b1_def [symmetric] Let_def vdin1_streamoff_def
          rbind_Inr_iff)
    then show ?thesis using close_all_fds [OF _ b3(1)] o1 by (simp add: fds_owned_def no_fds_def)
  next
    case False
    then have n: "no_fds b1" using closed_no_fds [OF o1] by blast
    then have "fdt ?b2 = fdt b1 \<and> vdin1_bufs ?b2 = [] \<and> p010_out_fds ?b2 = []"
      using vk_cleanup_fds [of "p010_pool_cleanup b1"] pool_cleanup_fds [of b1]
      by (simp add: same_fds_def no_fds_def restrict_map_def)
    moreover have "b' = ?b2\<lparr>signal_monitor := False, streaming := False, caps_set := False\<rparr>"
      using r fd False by (auto simp: gst_streambox_src_stop_def stop_path_b_def b1_def [symmetric] Let_def)
    ultimately show ?thesis using n fd by (simp add: no_fds_def)
  qed
qed

text \<open>Opening: while a start is under way the arrays hold what has been allocated so far.\<close>

definition in_arrays :: "box \<Rightarrow> bool" where
  "in_arrays b \<longleftrightarrow> (\<forall>fd. 0 \<le> fd \<and> fdt b fd \<noteq> None \<longrightarrow> fd \<in> set (vdin1_bufs b) \<union> set (p010_out_fds b))"

lemma alloc_loop_fds:
  assumes "alloc_dmabufs_loop a n i b = Inr (ok', b')" "in_arrays b" "i + n = length (vdin1_bufs b)"
    "\<forall>j \<ge> i. j < length (vdin1_bufs b) \<longrightarrow> vdin1_bufs b ! j = - 1"
  shows "in_arrays b' \<and> p010_out_fds b' = p010_out_fds b \<and> vdin1_fd b' = vdin1_fd b"
  using assms
proof (induction n arbitrary: i b)
  case (Suc n)
  show ?case
  proof (cases "sa_alloc a i")
    case None
    then show ?thesis using Suc.prems by (simp add: alloc_cma_dmabuf_def)
  next
    case (Some fd)
    obtain b1 where b1: "alloc_cma_dmabuf (sa_alloc a i) b = Some (fd, b1)"
      using Some by (simp add: alloc_cma_dmabuf_def)
    note sel = alloc_sel [OF b1]
    let ?b2 = "b1\<lparr>vdin1_bufs := (vdin1_bufs b1)[i := fd]\<rparr>"
    have i: "i < length (vdin1_bufs b)" using Suc.prems(3) by simp
    have "in_arrays ?b2" unfolding in_arrays_def
    proof (intro allI impI)
      fix x assume x: "0 \<le> x \<and> fdt ?b2 x \<noteq> None"
      show "x \<in> set (vdin1_bufs ?b2) \<union> set (p010_out_fds ?b2)"
      proof (cases "x = fd")
        case True
        then show ?thesis using i sel set_update_memI [of i "vdin1_bufs b" fd] by simp
      next
        case False
        then have "x \<in> set (vdin1_bufs b) \<union> set (p010_out_fds b)"
          using x sel Suc.prems(2) by (auto simp: in_arrays_def)
        moreover have "vdin1_bufs b ! i = - 1" using Suc.prems(4) i by simp
        then have "x \<in> set ((vdin1_bufs b)[i := fd])" if "x \<in> set (vdin1_bufs b)"
          using that x i by (auto simp: in_set_conv_nth) (metis length_list_update nth_list_update_neq zero_le neg_0_le_iff_le not_one_le_zero)
        ultimately show ?thesis using sel by auto
      qed
    qed
    moreover have "alloc_dmabufs_loop a n (Suc i) ?b2 = Inr (ok', b')"
      using Suc.prems(1) b1 by (auto split: if_splits)
    ultimately show ?thesis
      using Suc.IH [of "Suc i" ?b2] Suc.prems(3,4) sel by (auto simp: unmoved_def)
  qed
qed simp

lemma p010_loop_fds:
  assumes "p010_pool_loop a n i b = (ok', b')" "in_arrays b"
  shows "in_arrays b' \<and> vdin1_fd b' = vdin1_fd b"
  using assms
proof (induction n arbitrary: i b)
  case (Suc n)
  show ?case
  proof (cases "sa_p010_alloc a i")
    case None
    then show ?thesis using Suc.prems by (simp add: alloc_cma_dmabuf_def)
  next
    case (Some fd)
    obtain b1 where b1: "alloc_cma_dmabuf (sa_p010_alloc a i) b = Some (fd, b1)"
      using Some by (simp add: alloc_cma_dmabuf_def)
    note sel = alloc_sel [OF b1]
    let ?b2 = "b1\<lparr>p010_out_fds := p010_out_fds b1 @ [fd], p010_out_free := p010_out_free b1 @ [True]\<rparr>"
    have a2: "in_arrays (?b2\<lparr>vk_output_pool_cache := es\<rparr>)" for es
      using Suc.prems(2) sel by (auto simp: in_arrays_def split: if_splits)
    have fd2: "vdin1_fd b1 = vdin1_fd b" using sel by (simp add: unmoved_def)
    show ?thesis
    proof (cases "sa_p010_dup a i \<and> sa_p010_import a i")
      case True
      let ?b3 = "?b2\<lparr>vk_output_pool_cache := vk_output_pool_cache ?b2 @ [\<lparr>ce_fd = fd, ce_dmabuf = the (fdt ?b2 fd),
         ce_size = ucast (box_width ?b2 * box_height ?b2 * 3), ce_valid = True, ce_last_used = 0\<rparr>]\<rparr>"
      have "p010_pool_loop a n (Suc i) ?b3 = (ok', b')" using Suc.prems(1) b1 True by simp
      from Suc.IH [OF this a2] show ?thesis using fd2 by simp
    next
      case False
      then have "b' = ?b2\<lparr>vk_output_pool_cache := vk_output_pool_cache ?b2 @ [invalid_entry]\<rparr>"
        using Suc.prems(1) b1 by (auto simp: Let_def)
      then show ?thesis using a2 fd2 by simp
    qed
  qed
qed simp

lemma start_fail_fds:
  assumes "in_arrays b" "start_fail b = Inr (ok', b')"
  shows "\<not> ok' \<and> no_fds b'"
proof -
  let ?c = "vdin1_vk_cleanup (p010_pool_cleanup (b\<lparr>signal_monitor := False\<rparr>))"
  obtain b3 where b3: "vdin1_free_dmabufs ?c = Inr b3" "\<not> ok'" "b' = close_vdin1 b3"
    using assms(2) by (auto simp: start_fail_def rbind_Inr_iff)
  have "?c\<lparr>drvq := drvq ?c\<rparr> = ?c" by simp
  then show ?thesis
    using close_all_fds [of "b\<lparr>signal_monitor := False\<rparr>" "drvq ?c" b3] b3 assms(1) by (simp add: in_arrays_def)
qed

lemma start_vulkan_fds:
  assumes "start_vulkan a b = (ok', b')" "in_arrays b" "p010_out_fds b = []"
  shows "in_arrays b' \<and> vdin1_fd b' = vdin1_fd b"
proof (cases "vdin1_10bit b")
  case True
  obtain r1 b1 where v: "vdin1_vk_init (sa_vk_init a) b = (r1, b1)" by fastforce
  then have f1: "same_fds b b1" by (auto simp: vdin1_vk_init_def same_fds_def split: if_splits)
  obtain r2 b2 where q: "p010_pool_init a b1 = (r2, b2)" by fastforce
  have "in_arrays (b1\<lparr>p010_out_fds := [], p010_out_free := [], vk_output_pool_cache := []\<rparr>)"
    using f1 assms(2,3) by (simp add: in_arrays_def same_fds_def)
  from p010_loop_fds [OF q [unfolded p010_pool_init_def] this]
  have "in_arrays b2 \<and> vdin1_fd b2 = vdin1_fd b" using f1 by (simp add: same_fds_def)
  moreover have "in_arrays b1" using f1 assms(2) by (simp add: in_arrays_def same_fds_def)
  ultimately show ?thesis
    using assms(1) v q True f1
    by (cases r1; cases r2) (auto simp: start_vulkan_def vdin1_streamoff_def in_arrays_def same_fds_def split: if_splits)
qed (use assms in \<open>auto simp: start_vulkan_def\<close>)

lemma start_buffers_fds:
  assumes r: "start_buffers a b = Inr (ok', b')" and n: "in_arrays b" "vdin1_bufs b = []" "p010_out_fds b = []"
  shows "in_arrays b' \<and> vdin1_fd b' = vdin1_fd b"
proof (cases "vdin1_reqbufs a (min (num_buffers b) 8) b")
  case (Pair r1 b1)
  show ?thesis
  proof (cases r1)
    case False
    then show ?thesis using r Pair n by (auto simp: start_buffers_def vdin1_reqbufs_def split: option.splits if_splits)
  next
    case True
    then obtain m where b1: "b1 = b\<lparr>vdin1_bufs := replicate m (- 1)\<rparr>"
      using Pair by (auto simp: vdin1_reqbufs_def split: option.splits if_splits)
    have a1: "in_arrays b1" using n by (auto simp: b1 in_arrays_def)
    obtain ok2 b2 where al: "vdin1_alloc_dmabufs a b1 = Inr (ok2, b2)"
      using r Pair True by (auto simp: start_buffers_def rbind_Inr_iff)
    from alloc_loop_fds [OF this [unfolded vdin1_alloc_dmabufs_def] a1]
    have b2: "in_arrays b2" "p010_out_fds b2 = []" "vdin1_fd b2 = vdin1_fd b" using n by (simp_all add: b1)
    obtain ok3 b3 where q: "vdin1_qbuf_all a b2 = (ok3, b3)" by fastforce
    from qbuf_loop [OF q [unfolded vdin1_qbuf_all_def]] obtain dq where b3: "b3 = b2\<lparr>drvq := dq\<rparr>" by blast
    have a3: "in_arrays b3" "p010_out_fds b3 = []" "vdin1_fd b3 = vdin1_fd b" using b2 by (simp_all add: b3 in_arrays_def)
    show ?thesis
      using r Pair True al q b2 a3 start_vulkan_fds [of a b3 ok' b']
      by (auto simp: start_buffers_def split: if_splits bool.splits)
  qed
qed

lemma start_fds:
  assumes o: "fds_owned b" "\<not> vdin1_fd b" and r: "gst_streambox_src_start a b = Inr (ok', b')"
  shows "fds_owned b' \<and> (\<not> ok' \<longrightarrow> no_fds b')"
proof -
  have n: "no_fds b" using closed_no_fds o by blast
  define c where "c = b\<lparr>flushing := False, frame_count := 0, caps_set := False, colorimetry := []\<rparr>"
  have nc: "no_fds c" using n by (simp add: c_def no_fds_def)
  show ?thesis
  proof (cases "sa_pipe a \<and> sa_open a \<and> sa_querycap a \<and> sa_input a \<and> fst (vdin1_set_format a (fst (source_size a)) (snd (source_size a)) (c\<lparr>vdin1_fd := True\<rparr>))")
    case False
    then have "no_fds b' \<and> \<not> ok'"
      using r n nc by (auto simp: gst_streambox_src_start_def c_def [symmetric] start_path_b_def close_vdin1_def no_fds_def
          vdin1_set_format_def Let_def split: if_splits option.splits prod.splits)
    then show ?thesis using no_fds_owned by blast
  next
    case True
    then obtain b1 where b1: "vdin1_set_format a (fst (source_size a)) (snd (source_size a)) (c\<lparr>vdin1_fd := True\<rparr>) = (True, b1)"
      by (cases "vdin1_set_format a (fst (source_size a)) (snd (source_size a)) (c\<lparr>vdin1_fd := True\<rparr>)") simp
    let ?b2 = "b1\<lparr>vdin1_prev := (box_width b1, box_height b1, vdin1_pixfmt b1), vdin1_fmt_poll_counter := 0,
       colorimetry := hdmirx_detect_colorimetry (sa_info a) (color_mode b1) Source_vdin1 (vdin1_10bit b1) (sa_env_color a)\<rparr>"
    have f1: "same_fds (c\<lparr>vdin1_fd := True\<rparr>) b1"
      using b1 by (auto simp: vdin1_set_format_def same_fds_def split: if_splits option.splits)
    obtain ok3 b3 where b3: "start_buffers a ?b2 = Inr (ok3, b3)" and
      fin: "(if \<not> ok3 then start_fail b3
          else Inr (True, b3\<lparr>signal_monitor := (sa_monitor a \<and> sa_subscribe a), streaming := True,
            fps := (case hdmirx_get_source_framerate (sa_info a) of Some f \<Rightarrow> f | None \<Rightarrow> (60, 1))\<rparr>)) = Inr (ok', b')"
      using r True b1
      by (auto simp: gst_streambox_src_start_def c_def [symmetric] start_path_b_def rbind_Inr_iff Let_def split: prod.splits)
    have "in_arrays ?b2" "vdin1_bufs ?b2 = []" "p010_out_fds ?b2 = []" "vdin1_fd ?b2"
      using f1 nc by (simp_all add: same_fds_def no_fds_def in_arrays_def)
    then have a3: "in_arrays b3" "vdin1_fd b3" using start_buffers_fds [OF b3] by simp_all
    show ?thesis
    proof (cases ok3)
      case True
      then have "b' = b3\<lparr>signal_monitor := (sa_monitor a \<and> sa_subscribe a), streaming := True,
            fps := (case hdmirx_get_source_framerate (sa_info a) of Some f \<Rightarrow> f | None \<Rightarrow> (60, 1))\<rparr>" "ok'"
        using fin by simp_all
      then show ?thesis using a3 by (simp add: fds_owned_def in_arrays_def)
    next
      case False
      then show ?thesis using fin start_fail_fds [OF a3(1), of ok' b'] no_fds_owned by simp
    qed
  qed
qed

lemma fds_step: "box_step b l b' \<Longrightarrow> fds_owned b \<Longrightarrow> fds_owned b'"
proof (induction rule: box_step.induct)
  case (step_create ts a b r b')
  then show ?case using create_fds same_fds_owned by blast
next
  case (step_stop a b b')
  then show ?case using stop_fds no_fds_owned by blast
next
  case (step_start b a ok' b')
  then show ?case using start_fds by blast
qed (simp_all add: fds_owned_def gst_streambox_src_unlock_def gst_streambox_src_unlock_stop_def)

interpretation fds: invariant_system box_step fds_owned
  by unfold_locales (rule fds_step)


lemma stop_returns:
  assumes "length (vdin1_bufs b) \<le> 8"
  shows "\<exists>b'. gst_streambox_src_stop a b = Inr b'"
proof -
  define b1 where "b1 = (if vk_async_pending b \<and> vk_initialized b then drain_async a b else b)"
  have "vdin1_bufs b1 = vdin1_bufs b" using drain_fds [of b a] by (simp add: b1_def same_fds_def)
  then have "length (vdin1_bufs (vdin1_vk_cleanup (p010_pool_cleanup b1))) \<le> 8"
    using vk_cleanup_fds [of "p010_pool_cleanup b1"] pool_cleanup_fds(3) [of b1] assms by (simp add: same_fds_def)
  then show ?thesis
    by (simp add: gst_streambox_src_stop_def stop_path_b_def b1_def [symmetric] Let_def vdin1_free_dmabufs_def
        vdin1_streamoff_def)
qed


section \<open>A lost signal event\<close>

text \<open>
  A signal event that arrives while the first call of \<open>create\<close> waits for its second frame leaves no
  trace: the call does exactly what it does when \<open>poll\<close> fails, returns the first frame when everything
  else succeeds and posts nothing. The event has been taken from the monitor, so that the next call
  cannot see it, although the comment there says that it will handle it.
\<close>

theorem streambox_priming_event_lost:
  assumes "signal_monitor b" "handle_signal_event evs \<noteq> Signal_none"
  shows "gst_streambox_src_create [frame_ready i, \<lparr>t_others = [], t_poll = Poll_ret r (Some evs), t_dq = d\<rparr>] a b =
    gst_streambox_src_create [frame_ready i, \<lparr>t_others = [], t_poll = Poll_fail, t_dq = d\<rparr>] a b"
proof -
  let ?e = "\<lparr>t_others = [], t_poll = Poll_ret r (Some evs), t_dq = d\<rparr>"
  let ?f = "\<lparr>t_others = [], t_poll = Poll_fail, t_dq = d\<rparr>"
  have second: "prime_second a [?e] c = prime_second a [?f] c" if "signal_monitor c" for c
    using that assms(2) by (simp add: prime_second_def Let_def)
  have prime: "create_prime a i [?e] c = create_prime a i [?f] c" if m: "signal_monitor c" for c
  proof (cases "p010_pool_acquire c")
    case (Some kb)
    then obtain k b1 where acq: "p010_pool_acquire c = Some (k, b1)" "signal_monitor b1"
      using m by (cases kb) (auto simp: p010_pool_acquire_def split: option.splits)
    obtain ok2 b2 where cv: "vdin1_vk_convert_sync (a_sub1 a) (a_wait a) (vdin1_bufs b1 ! i) k b1 = (ok2, b2)" by fastforce
    obtain t x where sub: "vdin1_vk_submit_async (a_sub1 a) (vdin1_bufs b1 ! i) k (vk_slot b1) b1 = (t, x)" by fastforce
    have "signal_monitor (snd (vdin1_vk_submit_async (a_sub1 a) (vdin1_bufs b1 ! i) k (vk_slot b1) b1))"
      using acq(2) by simp
    then have "signal_monitor b2"
      using cv by (auto simp: vdin1_vk_convert_sync_def vdin1_vk_wait_async_def sub split: if_splits)
    then show ?thesis
      using acq(1) cv second [of "count_frame (drv_qbuf (a_q1 a) i b2)"]
      by (simp add: create_prime_def Let_def count_frame_def)
  qed (simp add: create_prime_def)
  have c: "signal_monitor (drv_dqbuf i (b\<lparr>caps_set := x, vdin1_fmt_poll_counter := y\<rparr>))" for x y
    using assms(1) by simp
  show ?thesis
    using prime [OF c] assms(1)
    by (auto simp: gst_streambox_src_create_def create_path_b_def frame_ready_def vdin1_check_format_change_def Let_def
        split: option.split)
qed

lemma streambox_priming_event_lost_witness:
  "gst_streambox_src_create [frame_ready 0, \<lparr>t_others = [], t_poll = Poll_ret True (Some [Source_change 0]), t_dq = Dq_again\<rparr>]
     all_good demo_started =
   gst_streambox_src_create [frame_ready 0, \<lparr>t_others = [], t_poll = Poll_fail, t_dq = Dq_again\<rparr>] all_good demo_started"
  by (rule streambox_priming_event_lost)
     (simp_all add: demo_started_def handle_signal_event_def signal_event_step_def)

section \<open>Too many buffers\<close>

lemma alloc_overrun:
  assumes "\<forall>j. sa_alloc a j \<noteq> None" "8 < i + n" "i \<le> 8"
  shows "alloc_dmabufs_loop a n i b = Inl Vdin1_bufs_overrun"
  using assms(2,3)
proof (induction n arbitrary: i b)
  case (Suc n)
  obtain fd where "sa_alloc a i = Some fd" using assms(1) by blast
  then show ?case using Suc by (simp add: alloc_cma_dmabuf_def)
qed simp

text \<open>
  The number of buffers the driver grants is not checked against the array of eight: when the
  device grants more, which V4L2 allows, and the allocations succeed, \<open>start\<close> writes past its end.
\<close>

theorem streambox_grant_overruns:
  assumes "sa_pipe a" "sa_open a" "sa_querycap a" "sa_input a" "sa_s_fmt a" "sa_g_fmt a \<noteq> None"
    and "sa_reqbufs a (min (num_buffers b) 8) = Some n" "8 < n" "\<forall>j. sa_alloc a j \<noteq> None"
  shows "gst_streambox_src_start a b = Inl Vdin1_bufs_overrun"
proof -
  obtain w h pf where g: "sa_g_fmt a = Some (w, h, pf)" using assms(6) by auto
  have "start_buffers a c = Inl Vdin1_bufs_overrun" if "num_buffers c = num_buffers b" for c
    using assms(7,8) alloc_overrun [OF assms(9), of 0 n] that
    by (simp add: start_buffers_def vdin1_reqbufs_def vdin1_alloc_dmabufs_def)
  then show ?thesis
    using assms(1-5) g
    by (simp add: gst_streambox_src_start_def start_path_b_def vdin1_set_format_def Let_def split: prod.split)
qed

lemma streambox_grant_overruns_witness:
  "gst_streambox_src_start (demo_answers\<lparr>sa_reqbufs := (\<lambda>_. Some 9)\<rparr>) (box_init True 8 0) = Inl Vdin1_bufs_overrun"
  by (rule streambox_grant_overruns [where n = 9]) (simp_all add: demo_answers_def)

section \<open>A buffer kept across a restart\<close>

text \<open>A session in 8 bit: the first frame is lent, the source is stopped and started again.\<close>

definition nv21_answers :: start_answers where
  "nv21_answers = demo_answers\<lparr>sa_g_fmt := Some (1920, 1080, 0x3132564E)\<rparr>"

lemma nv21_buffers:
  assumes "num_buffers b = 3" "fdt b = Map.empty" "drvq b = Map.empty" "\<not> env_broke b" "\<not> vdin1_10bit b" "fresh b = n"
  shows "start_buffers nv21_answers b = Inr (True, b\<lparr>vdin1_bufs := [10, 11, 12], fdt := [10 \<mapsto> n, 11 \<mapsto> n + 1, 12 \<mapsto> n + 2],
    fresh := n + 3, drvq := [0 \<mapsto> n, 1 \<mapsto> n + 1, 2 \<mapsto> n + 2]\<rparr>)"
  using assms
  by (cases b) (simp add: start_buffers_def vdin1_reqbufs_def vdin1_alloc_dmabufs_def alloc_cma_dmabuf_def vdin1_qbuf_all_def
      drv_qbuf_def start_vulkan_def nv21_answers_def demo_answers_def eval_nat_numeral)

lemma nv21_start:
  assumes "num_buffers b = 3" "fdt b = Map.empty" "drvq b = Map.empty" "\<not> env_broke b" "fresh b = n" "color_mode b = 0"
  shows "\<exists>b'. gst_streambox_src_start nv21_answers b = Inr (True, b') \<and> streaming b' \<and> vdin1_fd b' \<and> \<not> flushing b' \<and>
    vdin1_bufs b' = [10, 11, 12] \<and> fdt b' = [10 \<mapsto> n, 11 \<mapsto> n + 1, 12 \<mapsto> n + 2] \<and> fresh b' = n + 3 \<and>
    drvq b' = [0 \<mapsto> n, 1 \<mapsto> n + 1, 2 \<mapsto> n + 2] \<and> \<not> vdin1_10bit b' \<and> vdin1_fmt_poll_counter b' = 0 \<and>
    down b' = down b \<and> flush_pipe b' = flush_pipe b \<and> \<not> env_broke b' \<and> gpu_timed_out b' = gpu_timed_out b \<and>
    num_buffers b' = 3 \<and> color_mode b' = 0 \<and> p010_out_fds b' = p010_out_fds b \<and> vk_initialized b' = vk_initialized b \<and>
    vk_async_pending b' = vk_async_pending b \<and> vk_output_pool_cache b' = vk_output_pool_cache b"
proof -
  have a: "sa_pipe nv21_answers" "sa_open nv21_answers" "sa_querycap nv21_answers" "sa_input nv21_answers" "sa_s_fmt nv21_answers"
    "sa_g_fmt nv21_answers = Some (1920, 1080, 0x3132564E)" "(0x3132564E :: u32) \<noteq> V4L2_PIX_FMT_AMLY"
    by (simp_all add: nv21_answers_def demo_answers_def V4L2_PIX_FMT_AMLY_def)
  show ?thesis
    using assms a
    by (simp add: gst_streambox_src_start_def start_path_b_def vdin1_set_format_def nv21_buffers Let_def split: prod.split)
qed

lemma nv21_create:
  assumes "streaming b" "vdin1_fd b" "\<not> flushing b" "\<not> flush_pipe b" "vdin1_bufs b = [10, 11, 12]"
    "fdt b 10 = Some n" "drvq b 0 = Some n" "\<not> vdin1_10bit b"
  shows "\<exists>b'. gst_streambox_src_create [frame_ready 0] all_good b = Some (Flow_ok, b') \<and> streaming b' \<and> vdin1_fd b' \<and>
    vdin1_bufs b' = vdin1_bufs b \<and> fdt b' = fdt b \<and> fresh b' = fresh b \<and> drvq b' = (drvq b)(0 := None) \<and>
    (\<exists>s. down b' = down b @ [\<lparr>l_kind = Vdin1_loan, l_index = 0, l_dmabuf = n, l_serial = s\<rparr>]) \<and>
    flush_pipe b' = flush_pipe b \<and> env_broke b' = env_broke b \<and> gpu_timed_out b' = gpu_timed_out b \<and>
    num_buffers b' = num_buffers b \<and> color_mode b' = color_mode b \<and> p010_out_fds b' = p010_out_fds b \<and>
    vk_initialized b' = vk_initialized b \<and> vk_async_pending b' = vk_async_pending b \<and>
    vk_output_pool_cache b' = vk_output_pool_cache b"
proof -
  have a: "a_fmt all_good = None" "a_dup all_good" "a_mem all_good" by (simp_all add: all_good_def)
  show ?thesis
    using assms a
    by (simp add: gst_streambox_src_create_def create_path_b_def vdin1_check_format_change_def frame_ready_def drv_dqbuf_def
        create_8bit_def push_buffer_def vdm_def Let_def)
qed

lemma nv21_stop:
  assumes "vdin1_fd b" "vdin1_bufs b = [10, 11, 12]" "dom (fdt b) = {10, 11, 12}" "p010_out_fds b = []" "\<not> vk_initialized b"
    "vk_output_pool_cache b = []"
  shows "\<exists>b'. gst_streambox_src_stop all_good b = Inr b' \<and> \<not> vdin1_fd b' \<and> fdt b' = Map.empty \<and> drvq b' = Map.empty \<and>
    fresh b' = fresh b \<and> down b' = down b \<and> flush_pipe b' = flush_pipe b \<and> env_broke b' = env_broke b \<and>
    gpu_timed_out b' = gpu_timed_out b \<and> num_buffers b' = num_buffers b \<and> color_mode b' = color_mode b \<and>
    p010_out_fds b' = [] \<and> \<not> vk_initialized b' \<and> vk_async_pending b' = vk_async_pending b"
proof -
  have "(fdt b)(10 := None, 11 := None, 12 := None) = Map.empty" using assms(3) by (auto simp: dom_def fun_eq_iff)
  then show ?thesis
    using assms by (simp add: gst_streambox_src_stop_def stop_path_b_def p010_pool_cleanup_def vdin1_vk_cleanup_def
        vdin1_streamoff_def vdin1_free_dmabufs_def close_fd_def close_vdin1_def)
qed

text \<open>
  C39: A buffer that downstream keeps across a restart is taken for the buffer of the same number of the
  new session. In this execution, in which the kernel and the GPU keep their contracts, the source is
  started, delivers a frame, is stopped, started again and delivers a frame; then downstream releases
  the first frame, and the source queues the buffer of the second one, which downstream still holds,
  to the driver.
\<close>

theorem streambox_stale_release:
  "\<exists>b. lts_run box_step (box_init False 3 0)
      [Op_start nv21_answers True, Op_create [frame_ready 0] all_good Flow_ok, Op_stop all_good,
       Op_start nv21_answers True, Op_create [frame_ready 0] all_good Flow_ok, Op_release 0 True] b \<and>
     \<not> env_broke b \<and> \<not> gpu_timed_out b \<and> (\<exists>l \<in> set (down b). drvq b 0 = Some (l_dmabuf l)) \<and> \<not> buffers_separate b"
proof -
  obtain b1 where b1: "gst_streambox_src_start nv21_answers (box_init False 3 0) = Inr (True, b1)"
    "streaming b1" "vdin1_fd b1" "\<not> flushing b1" "vdin1_bufs b1 = [10, 11, 12]" "fdt b1 = [10 \<mapsto> 0, 11 \<mapsto> 1, 12 \<mapsto> 2]"
    "fresh b1 = 3" "drvq b1 = [0 \<mapsto> 0, 1 \<mapsto> 1, 2 \<mapsto> 2]" "\<not> vdin1_10bit b1" "down b1 = []" "\<not> flush_pipe b1"
    "\<not> env_broke b1" "\<not> gpu_timed_out b1" "num_buffers b1 = 3" "color_mode b1 = 0" "p010_out_fds b1 = []"
    "\<not> vk_initialized b1" "\<not> vk_async_pending b1" "vk_output_pool_cache b1 = []"
    using nv21_start [of "box_init False 3 0" 0] by (auto simp: numeral_2_eq_2)
  obtain b2 s2 where b2: "gst_streambox_src_create [frame_ready 0] all_good b1 = Some (Flow_ok, b2)"
    "vdin1_fd b2" "vdin1_bufs b2 = [10, 11, 12]" "fdt b2 = [10 \<mapsto> 0, 11 \<mapsto> 1, 12 \<mapsto> 2]" "fresh b2 = 3"
    "down b2 = [\<lparr>l_kind = Vdin1_loan, l_index = 0, l_dmabuf = 0, l_serial = s2\<rparr>]" "\<not> flush_pipe b2" "\<not> env_broke b2"
    "\<not> gpu_timed_out b2" "num_buffers b2 = 3" "color_mode b2 = 0" "p010_out_fds b2 = []" "\<not> vk_initialized b2"
    "\<not> vk_async_pending b2" "vk_output_pool_cache b2 = []"
    using nv21_create [of b1 0] b1 by auto
  obtain b3 where b3: "gst_streambox_src_stop all_good b2 = Inr b3" "\<not> vdin1_fd b3" "fdt b3 = Map.empty"
    "drvq b3 = Map.empty" "fresh b3 = 3" "down b3 = down b2" "\<not> flush_pipe b3" "\<not> env_broke b3" "\<not> gpu_timed_out b3"
    "num_buffers b3 = 3" "color_mode b3 = 0" "p010_out_fds b3 = []" "\<not> vk_initialized b3" "\<not> vk_async_pending b3"
    using nv21_stop [of b2] b2 by auto
  obtain b4 where b4: "gst_streambox_src_start nv21_answers b3 = Inr (True, b4)"
    "streaming b4" "vdin1_fd b4" "\<not> flushing b4" "vdin1_bufs b4 = [10, 11, 12]" "fdt b4 = [10 \<mapsto> 3, 11 \<mapsto> 3 + 1, 12 \<mapsto> 3 + 2]"
    "drvq b4 = [0 \<mapsto> 3, 1 \<mapsto> 3 + 1, 2 \<mapsto> 3 + 2]" "\<not> vdin1_10bit b4" "down b4 = down b3" "\<not> flush_pipe b4"
    "\<not> env_broke b4" "\<not> gpu_timed_out b4"
    using nv21_start [of b3 3] b3 by auto
  obtain b5 s5 where b5: "gst_streambox_src_create [frame_ready 0] all_good b4 = Some (Flow_ok, b5)" "streaming b5"
    "vdin1_fd b5" "vdin1_bufs b5 = [10, 11, 12]" "fdt b5 = fdt b4" "drvq b5 = (drvq b4)(0 := None)"
    "down b5 = down b4 @ [\<lparr>l_kind = Vdin1_loan, l_index = 0, l_dmabuf = 3, l_serial = s5\<rparr>]" "\<not> env_broke b5"
    "\<not> gpu_timed_out b5"
    using nv21_create [of b4 3] b4 by auto
  let ?b6 = "release_loan 0 True b5"
  have b6: "down ?b6 = [\<lparr>l_kind = Vdin1_loan, l_index = 0, l_dmabuf = 3, l_serial = s5\<rparr>]" "drvq ?b6 0 = Some 3"
    using b5 b4 b3(6) b2(6)
    by (simp_all add: release_loan_def path_b_buf_release_def drv_qbuf_def vdm_def)
  have "\<not> env_broke ?b6" "\<not> gpu_timed_out ?b6" using b5 by simp_all
  moreover have "\<not> buffers_separate ?b6" using b6 by (auto simp: buffers_separate_def)
  moreover have "box_step (box_init False 3 0) (Op_start nv21_answers True) b1" "box_step b1 (Op_create [frame_ready 0] all_good Flow_ok) b2"
    "box_step b2 (Op_stop all_good) b3" "box_step b3 (Op_start nv21_answers True) b4"
    "box_step b4 (Op_create [frame_ready 0] all_good Flow_ok) b5" "box_step b5 (Op_release 0 True) ?b6"
    using b1(1) b2(1) b3(1,2) b4(1) b5(1) by (auto intro!: box_step.intros)
  then have "lts_run box_step (box_init False 3 0)
      [Op_start nv21_answers True, Op_create [frame_ready 0] all_good Flow_ok, Op_stop all_good,
       Op_start nv21_answers True, Op_create [frame_ready 0] all_good Flow_ok, Op_release 0 True] ?b6"
    by (blast intro: lts_run.intros)
  ultimately show ?thesis using b6 by (intro exI [of _ ?b6]) simp
qed

end
