(* ===== verification/Streambox_Path_A.thy ===== *)
theory Streambox_Path_A
  imports Vfmcap_Props Hdmirx
begin

text \<open>
  Path A of the capture source (\<open>gst_streambox_src.c\<close>): frames come from the capture library
  \<open>libvfmcap\<close>, are wrapped and lent downstream, and go back to the library when downstream drops them.
  The library is the model of \<open>Vfmcap_Model\<close> and \<open>Vfmcap_Acquire\<close>, its context and its world are part of
  the state.

  The answers of the other calls are arguments: whether \<open>unlock\<close> ran while the library waited for a
  frame, the text of the receiver's info file, and whether the descriptors were duplicated and
  wrapped (a duplicate belongs to its wrapper and is closed with it). A buffer handed downstream is the
  frame attached to it. Caps, time stamps and the layout of the planes are not modelled.
\<close>

section \<open>State\<close>

datatype out_fmt = OUTPUT_AUTO | OUTPUT_NV12 | OUTPUT_P010

datatype sig_state = State_idle | State_waiting | State_configure | State_streaming | State_draining | State_reconfigure

text \<open>Of the flush pipe and of the DMA heap the state keeps whether they are open.\<close>

record path_a =
  pa_ctx :: "vfmcap_ctx option"
  pa_output_fmt :: out_fmt
  pa_num_buffers :: u32
  pa_target :: "u32 \<times> u32 \<times> u64 option"
  pa_color_mode :: u32
  pa_width :: u32
  pa_height :: u32
  pa_fps :: "u32 \<times> u32"
  pa_colorimetry :: string
  pa_streaming :: bool
  pa_sig_state :: sig_state
  pa_pipe :: bool
  pa_heap :: bool
  pa_flushing :: bool
  pa_caps_set :: bool
  pa_frame_count :: u64
  pa_posts :: "(string \<times> hdmi_signal) list"

record start_a_answers =
  aa_pipe :: bool
  aa_open :: "errno + int"
  aa_querycap :: "bool option"
  aa_mem :: bool
  aa_device :: string
  aa_env :: "string \<Rightarrow> string option"
  aa_info :: "string option"
  aa_color :: "string option"

record create_a_answers =
  ca_unlock :: bool
  ca_info :: "string option"
  ca_dup :: bool
  ca_wrap :: bool
  ca_dup2 :: bool
  ca_wrap2 :: bool

section \<open>Starting and stopping\<close>

text \<open>The colour depth in the info file, 8 when it is not there.\<close>

primrec depth_loop :: "string list \<Rightarrow> u32" where
  "depth_loop [] = 8"
| "depth_loop (l # ls) = (case sscanf_u ''Color Depth: '' l of Some v \<Rightarrow> v | None \<Rightarrow> depth_loop ls)"

definition resolve_fmt :: "string option \<Rightarrow> out_fmt \<Rightarrow> out_fmt" where
  "resolve_fmt info fmt =
     (if fmt = OUTPUT_AUTO then
        let depth = (case info of None \<Rightarrow> 8 | Some t \<Rightarrow> depth_loop (info_lines t)) in
        if 8 < depth then OUTPUT_P010 else OUTPUT_NV12
      else fmt)"

definition path_a_config :: "path_a \<Rightarrow> config" where
  "path_a_config s = \<lparr>output_format = (if pa_output_fmt s = OUTPUT_P010 then FMT_P010 else FMT_NV12),
     target_width = fst (pa_target s), target_height = fst (snd (pa_target s)),
     target_interval_us = snd (snd (pa_target s)), color_mode = pa_color_mode s\<rparr>"

definition start_path_a :: "start_a_answers \<Rightarrow> path_a \<Rightarrow> world \<Rightarrow> bool \<times> path_a \<times> world" where
  "start_path_a a s w =
     (let s0 = s\<lparr>pa_output_fmt := resolve_fmt (aa_info a) (pa_output_fmt s)\<rparr> in
      case vfmcap_open (aa_open a) (aa_querycap a) (aa_mem a) (aa_device a) (Some (path_a_config s0)) w of
        (None, w1) \<Rightarrow> (False, s0\<lparr>pa_ctx := None\<rparr>, w1)
      | (Some c, w1) \<Rightarrow>
          let (st, c1, w2) = vfmcap_start (aa_env a) (pa_num_buffers s0) c w1 in
          if st \<noteq> VFMCAP_OK then (False, s0\<lparr>pa_ctx := None\<rparr>, vfmcap_close c1 w2)
          else let ((st2, f), c2, w3) = vfmcap_acquire_frame 3000 empty_frame c1 w2 in
          if st2 \<noteq> VFMCAP_OK then (False, s0\<lparr>pa_ctx := None\<rparr>, vfmcap_close c2 w3)
          else let (f', w4) = vfmcap_release_frame f c2 w3 in
          (True, s0\<lparr>pa_ctx := Some c2, pa_width := width f, pa_height := height f,
             pa_fps := (case hdmirx_get_source_framerate (aa_info a) of Some r \<Rightarrow> r | None \<Rightarrow> (60, 1)),
             pa_colorimetry := hdmirx_detect_colorimetry (aa_info a) (pa_color_mode s0) Source_vfmcap False (aa_color a),
             pa_streaming := True, pa_sig_state := State_streaming\<rparr>, w4))"

definition src_start_a :: "start_a_answers \<Rightarrow> path_a \<Rightarrow> world \<Rightarrow> bool \<times> path_a \<times> world" where
  "src_start_a a s w =
     (if \<not> pa_pipe s \<and> \<not> aa_pipe a then (False, s, w)
      else start_path_a a (s\<lparr>pa_pipe := True, pa_flushing := False, pa_frame_count := 0, pa_caps_set := False,
        pa_colorimetry := []\<rparr>) w)"

definition stop_path_a :: "path_a \<Rightarrow> world \<Rightarrow> path_a \<times> world" where
  "stop_path_a s w = (s\<lparr>pa_ctx := None, pa_heap := False\<rparr>,
     (case pa_ctx s of None \<Rightarrow> w | Some c \<Rightarrow> vfmcap_close c w))"

definition src_stop_a :: "path_a \<Rightarrow> world \<Rightarrow> path_a \<times> world" where
  "src_stop_a s w = (let (s1, w1) = stop_path_a s w in (s1\<lparr>pa_streaming := False, pa_caps_set := False, pa_sig_state := State_idle\<rparr>, w1))"

section \<open>Frames\<close>

text \<open>Downstream drops its last reference to a buffer.\<close>

definition patha_frame_release :: "frame \<Rightarrow> path_a \<Rightarrow> world \<Rightarrow> path_a \<times> world" where
  "patha_frame_release f s w = (case pa_ctx s of None \<Rightarrow> (s, w)
     | Some c \<Rightarrow> (s, snd (vfmcap_release_frame f c w)))"

definition post_a :: "string option \<Rightarrow> string \<Rightarrow> path_a \<Rightarrow> path_a" where
  "post_a info reason s = s\<lparr>pa_posts := pa_posts s @ [(reason, signal_change_info info)]\<rparr>"

text \<open>Wrapping: the second descriptor only for two planes.\<close>

definition wrapped :: "create_a_answers \<Rightarrow> frame \<Rightarrow> bool" where
  "wrapped a f \<longleftrightarrow> ca_dup a \<and> ca_wrap a \<and> (0 \<le> dmabuf_fd2 f \<longrightarrow> ca_dup2 a \<and> ca_wrap2 a)"

definition create_path_a :: "create_a_answers \<Rightarrow> path_a \<Rightarrow> world \<Rightarrow> (flow \<times> frame option) \<times> path_a \<times> world" where
  "create_path_a a s w = (case pa_ctx s of None \<Rightarrow> ((Flow_error, None), s, w)
     | Some c \<Rightarrow>
        let ((st, f), c1, w1) = vfmcap_acquire_frame 1000 empty_frame c w;
            s1 = s\<lparr>pa_caps_set := True, pa_ctx := Some c1, pa_flushing := (pa_flushing s \<or> ca_unlock a)\<rparr>;
            w2 = snd (vfmcap_release_frame f c1 w1) in
        if pa_flushing s1 then ((Flow_flushing, None), s1, w1)
        else if st = VFMCAP_ERR_TIMEOUT then ((Flow_error, None), s1, w1)
        else if st = VFMCAP_ERR_NOSIG then ((Flow_eos, None), post_a (ca_info a) ''signal-lost'' (s1\<lparr>pa_sig_state := State_waiting\<rparr>), w1)
        else if st = VFMCAP_RECONFIGURED then ((Flow_eos, None), post_a (ca_info a) ''signal-changed'' s1, w2)
        else if st \<noteq> VFMCAP_OK then ((Flow_error, None), s1, w1)
        else if width f \<noteq> pa_width s1 \<or> height f \<noteq> pa_height s1
          then ((Flow_eos, None), post_a (ca_info a) ''signal-changed'' s1, w2)
        else if \<not> wrapped a f then ((Flow_error, None), s1, w2)
        else ((Flow_ok, Some f), s1\<lparr>pa_frame_count := pa_frame_count s1 + 1\<rparr>, w1))"

definition src_create_a :: "create_a_answers \<Rightarrow> path_a \<Rightarrow> world \<Rightarrow> (flow \<times> frame option) \<times> path_a \<times> world" where
  "src_create_a a s w =
     (if \<not> pa_streaming s then ((Flow_error, None), s, w)
      else if pa_flushing s then ((Flow_flushing, None), s, w)
      else create_path_a a s w)"

definition src_unlock_a :: "path_a \<Rightarrow> path_a" where
  "src_unlock_a s = s\<lparr>pa_flushing := True\<rparr>"

definition src_unlock_stop_a :: "path_a \<Rightarrow> path_a" where
  "src_unlock_stop_a s = s\<lparr>pa_flushing := False\<rparr>"

section \<open>A session lends what it took\<close>

text \<open>
  The session as downstream sees it: a call of \<open>create\<close> during which nobody unlocks the source, and
  the release of a buffer.
\<close>

definition session_create :: "create_a_answers \<Rightarrow> path_a \<times> world \<Rightarrow> frame option \<times> path_a \<times> world" where
  "session_create a s = (let ((r, f), s') = src_create_a (a\<lparr>ca_unlock := False\<rparr>) (fst s) (snd s) in (f, s'))"

definition session_release :: "frame \<Rightarrow> path_a \<times> world \<Rightarrow> path_a \<times> world" where
  "session_release f s = patha_frame_release f (fst s) (snd s)"

definition lent_ok :: "path_a \<times> world \<Rightarrow> frame \<Rightarrow> bool" where
  "lent_ok s f \<longleftrightarrow> (\<exists>c. pa_ctx (fst s) = Some c \<and> frame_ok c f)"

text \<open>The account of one call that goes to the library.\<close>

lemma create_account:
  assumes c: "pa_ctx s = Some c" and r: "create_path_a a s w = ((r, x), s', w')"
    and nf: "\<not> pa_flushing s" "\<not> ca_unlock a"
  shows "\<exists>c1. pa_ctx s' = Some c1 \<and> same_setup c c1 \<and>
    (case x of None \<Rightarrow> r \<noteq> Flow_ok \<and> taken w' + given w = taken w + given w'
     | Some f \<Rightarrow> r = Flow_ok \<and> taken w' + given w = taken w + given w' + frame_holds f \<and> frame_ok c1 f \<and>
         width f = pa_width s \<and> height f = pa_height s)"
proof -
  obtain st f c1 w1 where ac: "vfmcap_acquire_frame 1000 empty_frame c w = ((st, f), c1, w1)"
    by (cases "vfmcap_acquire_frame 1000 empty_frame c w") force
  obtain f' w2 where rel: "vfmcap_release_frame f c1 w1 = (f', w2)" by fastforce
  have m: "same_setup c c1" "failed st \<Longrightarrow> taken w1 + given w = taken w + given w1"
    "\<not> failed st \<Longrightarrow> taken w1 + given w = taken w + given w1 + frame_holds f \<and> frame_ok c1 f"
    using acquire_frame_moved [OF ac] by (auto simp: moved_def)
  have undone: "taken w2 + given w = taken w + given w2" if "\<not> failed st"
    using release_frame_resources [OF rel] m(3) [OF that] by (simp add: ac_simps)
  show ?thesis
  proof (cases "failed st")
    case True
    then show ?thesis using r c ac nf m(1,2)
      by (auto simp: create_path_a_def post_a_def Let_def failed_def split: if_splits)
  next
    case False
    then have "st = VFMCAP_OK \<or> st = VFMCAP_RECONFIGURED" by (simp add: failed_def)
    then show ?thesis using r c ac rel nf m(1) m(3) [OF False] undone [OF False]
      by (auto simp: create_path_a_def post_a_def Let_def split: if_splits)
  qed
qed

lemma src_create_account:
  assumes "src_create_a a s w = ((r, x), s', w')" "\<not> ca_unlock a"
  shows "case pa_ctx s of
      None \<Rightarrow> x = None \<and> r \<noteq> Flow_ok \<and> s' = s \<and> w' = w
    | Some c \<Rightarrow> \<exists>c1. pa_ctx s' = Some c1 \<and> same_setup c c1 \<and>
        (case x of None \<Rightarrow> r \<noteq> Flow_ok \<and> taken w' + given w = taken w + given w'
         | Some f \<Rightarrow> r = Flow_ok \<and> taken w' + given w = taken w + given w' + frame_holds f \<and> frame_ok c1 f \<and>
             width f = pa_width s \<and> height f = pa_height s)"
proof (cases "pa_streaming s \<and> \<not> pa_flushing s")
  case False
  then show ?thesis using assms by (auto simp: src_create_a_def same_setup_def split: if_splits option.splits)
next
  case True
  then have cr: "create_path_a a s w = ((r, x), s', w')" using assms by (simp add: src_create_a_def)
  show ?thesis
  proof (cases "pa_ctx s")
    case None
    then show ?thesis using cr by (auto simp: create_path_a_def)
  next
    case (Some c)
    then show ?thesis using create_account [OF Some cr] True assms(2) by simp
  qed
qed

interpretation pa: lease session_create session_release "\<lambda>s. taken (snd s)" "\<lambda>s. given (snd s)" frame_holds lent_ok
proof
  fix t s s' x f g
  have acc: "case pa_ctx (fst s) of
      None \<Rightarrow> x = None \<and> s' = s
    | Some c \<Rightarrow> \<exists>c1. pa_ctx (fst s') = Some c1 \<and> same_setup c c1 \<and>
        (case x of None \<Rightarrow> taken (snd s') + given (snd s) = taken (snd s) + given (snd s')
         | Some f \<Rightarrow> taken (snd s') + given (snd s) = taken (snd s) + given (snd s') + frame_holds f \<and> frame_ok c1 f)"
    if "session_create t s = (x, s')" for x
  proof -
    obtain r y u where y: "src_create_a (t\<lparr>ca_unlock := False\<rparr>) (fst s) (snd s) = ((r, y), u)"
      by (metis surj_pair)
    then have "src_create_a (t\<lparr>ca_unlock := False\<rparr>) (fst s) (snd s) = ((r, x), fst s', snd s')"
      using that by (simp add: session_create_def)
    from src_create_account [OF this] show ?thesis by (auto simp: prod_eq_iff split: option.splits)
  qed
  show "session_create t s = (None, s') \<Longrightarrow> taken (snd s') + given (snd s) = taken (snd s) + given (snd s')"
    using acc [of None] by (auto split: option.splits)
  show "session_create t s = (Some f, s') \<Longrightarrow>
      taken (snd s') + given (snd s) = taken (snd s) + given (snd s') + frame_holds f"
    using acc [of "Some f"] by (auto split: option.splits)
  show "session_create t s = (Some f, s') \<Longrightarrow> lent_ok s' f"
    using acc [of "Some f"] by (auto simp: lent_ok_def split: option.splits)
  show "lent_ok s g \<Longrightarrow> session_create t s = (x, s') \<Longrightarrow> lent_ok s' g"
    using acc [of x] frame_ok_setup by (auto simp: lent_ok_def split: option.splits)
  show "lent_ok s f \<Longrightarrow> taken (snd (session_release f s)) = taken (snd s) \<and>
      given (snd (session_release f s)) = given (snd s) + frame_holds f"
  proof -
    assume "lent_ok s f"
    then obtain c where c: "pa_ctx (fst s) = Some c" "frame_ok c f" by (auto simp: lent_ok_def)
    obtain f' w' where "vfmcap_release_frame f c (snd s) = (f', w')" by fastforce
    from release_frame_resources [OF this c(2)] this show ?thesis
      by (simp add: session_release_def patha_frame_release_def c(1))
  qed
  show "lent_ok s g \<Longrightarrow> lent_ok (session_release f s) g"
    by (auto simp: lent_ok_def session_release_def patha_frame_release_def split: option.splits)
qed


section \<open>Calls\<close>

text \<open>
  C20: The contract of \<open>create\<close> on path A, in every state and for every behaviour of the library: a
  buffer comes with \<open>GST_FLOW_OK\<close> only and always, its size is the one the caps were made for, and
  nothing is posted then; \<open>GST_FLOW_EOS\<close> comes with exactly one message, that the signal was lost or
  has changed; every other result comes with neither.
\<close>

theorem path_a_create_result:
  assumes "src_create_a a s w = ((r, x), s', w')"
  shows "case r of
      Flow_ok \<Rightarrow> pa_posts s' = pa_posts s \<and> \<not> pa_flushing s' \<and> (\<exists>f. x = Some f \<and> width f = pa_width s \<and> height f = pa_height s)
    | Flow_eos \<Rightarrow> x = None \<and> (\<exists>reason \<in> {''signal-lost'', ''signal-changed''}.
        pa_posts s' = pa_posts s @ [(reason, signal_change_info (ca_info a))])
    | _ \<Rightarrow> x = None \<and> pa_posts s' = pa_posts s"
proof (cases "pa_streaming s \<and> \<not> pa_flushing s \<and> pa_ctx s \<noteq> None")
  case False
  then show ?thesis using assms by (auto simp: src_create_a_def create_path_a_def split: if_splits)
next
  case True
  then obtain c where c: "pa_ctx s = Some c" by blast
  obtain st f c1 w1 where ac: "vfmcap_acquire_frame 1000 empty_frame c w = ((st, f), c1, w1)"
    by (cases "vfmcap_acquire_frame 1000 empty_frame c w") force
  show ?thesis
    using assms True c ac by (auto simp: src_create_a_def create_path_a_def post_a_def Let_def split: if_splits)
qed

text \<open>A source with a running library that has a frame of 1920 by 1080 ready.\<close>

definition demo_a :: path_a where
  "demo_a = \<lparr>pa_ctx = Some ((plain_ctx (plain_config FMT_RAW))\<lparr>streaming := True\<rparr>), pa_output_fmt = OUTPUT_NV12,
     pa_num_buffers = 6, pa_target = (0, 0, None), pa_color_mode = 0, pa_width = 1920, pa_height = 1080,
     pa_fps = (60, 1), pa_colorimetry = ''bt709'', pa_streaming = True, pa_sig_state = State_streaming,
     pa_pipe = True, pa_heap = False, pa_flushing = False, pa_caps_set = True,
     pa_frame_count = 0, pa_posts = []\<rparr>"

definition demo_a_world :: world where
  "demo_a_world = idle_world\<lparr>k_clock := [0, 0], k_poll := [Poll_ready \<lparr>pollin = True, pollpri = False, pollerr = False\<rparr>],
     k_dqbuf := [Inr \<lparr>b_index = 2, b_sequence = 7, b_timestamp_us = 1000\<rparr>], k_dmabuf := [Inr (11, 4096)]\<rparr>"

definition demo_a_answers :: create_a_answers where
  "demo_a_answers = \<lparr>ca_unlock = False, ca_info = None, ca_dup = True, ca_wrap = True, ca_dup2 = True, ca_wrap2 = True\<rparr>"

lemma demo_a_acquire:
  "\<exists>f c1 w1. vfmcap_acquire_frame 1000 empty_frame ((plain_ctx (plain_config FMT_RAW))\<lparr>streaming := True\<rparr>) demo_a_world =
     ((VFMCAP_OK, f), c1, w1) \<and> width f = 1920 \<and> height f = 1080 \<and> dmabuf_fd2 f = - 1 \<and> index f = 2"
  by (simp add: demo_a_world_def acquire_eval wait_ready.simps s32_def)

lemma path_a_create_result_witness:
  "\<exists>f s' w'. src_create_a demo_a_answers demo_a demo_a_world = ((Flow_ok, Some f), s', w') \<and>
     width f = 1920 \<and> height f = 1080"
proof -
  obtain f c1 w1 where f: "vfmcap_acquire_frame 1000 empty_frame ((plain_ctx (plain_config FMT_RAW))\<lparr>streaming := True\<rparr>)
      demo_a_world = ((VFMCAP_OK, f), c1, w1)" "width f = 1920" "height f = 1080" "dmabuf_fd2 f = - 1"
    using demo_a_acquire by blast
  then obtain s' where s': "src_create_a demo_a_answers demo_a demo_a_world = ((Flow_ok, Some f), s', w1)"
    by (simp add: src_create_a_def create_path_a_def demo_a_def demo_a_answers_def wrapped_def)
  from path_a_create_result [OF this] s' show ?thesis by (auto simp: demo_a_def)
qed

text \<open>
  C40: A frame that arrives while somebody unlocks the source is lost: the call returns
  \<open>GST_FLOW_FLUSHING\<close> without a buffer and without a release, so that the frame's buffer, its
  descriptor and its GPU output stay taken and nobody holds them.
\<close>

theorem path_a_flush_leaks:
  assumes s: "pa_streaming s" "\<not> pa_flushing s" "pa_ctx s = Some c" "ca_unlock a"
    and ac: "vfmcap_acquire_frame 1000 empty_frame c w = ((st, f), c1, w1)" "\<not> failed st"
  shows "\<exists>s' w'. src_create_a a s w = ((Flow_flushing, None), s', w') \<and>
    taken w' + given w = taken w + given w' + frame_holds f \<and> Buffer (index f) \<in># frame_holds f"
proof -
  have "taken w1 + given w = taken w + given w1 + frame_holds f"
    using acquire_frame_moved [OF ac(1)] ac(2) by (simp add: moved_def)
  moreover have "Buffer (index f) \<in># frame_holds f"
    by (auto simp: frame_holds_def raw_holds_def split: option.split)
  moreover have "\<exists>s'. src_create_a a s w = ((Flow_flushing, None), s', w1)"
    using s ac(1) by (simp add: src_create_a_def create_path_a_def)
  ultimately show ?thesis by blast
qed

lemma path_a_flush_leaks_witness:
  "\<exists>s' w' f. src_create_a (demo_a_answers\<lparr>ca_unlock := True\<rparr>) demo_a demo_a_world = ((Flow_flushing, None), s', w') \<and>
     Buffer 2 \<in># frame_holds f \<and> taken w' + given demo_a_world = taken demo_a_world + given w' + frame_holds f"
proof -
  let ?c = "(plain_ctx (plain_config FMT_RAW))\<lparr>streaming := True\<rparr>"
  obtain f c1 w1 where f: "vfmcap_acquire_frame 1000 empty_frame ?c demo_a_world = ((VFMCAP_OK, f), c1, w1)" "index f = 2"
    using demo_a_acquire by blast
  have "pa_streaming demo_a" "\<not> pa_flushing demo_a" "pa_ctx demo_a = Some ?c" "ca_unlock (demo_a_answers\<lparr>ca_unlock := True\<rparr>)"
    by (simp_all add: demo_a_def)
  from path_a_flush_leaks [OF this f(1)] f(2) show ?thesis by auto
qed

section \<open>The start of a session\<close>

text \<open>Steps of the library that touch nothing the accounts count and keep the descriptor.\<close>

definition still_ctx :: "vfmcap_ctx \<times> world \<Rightarrow> vfmcap_ctx \<times> world \<Rightarrow> bool" where
  "still_ctx s s' \<longleftrightarrow> taken (snd s') = taken (snd s) \<and> given (snd s') = given (snd s) \<and>
     c_fd (fst s') = c_fd (fst s) \<and> reconfig_pending (fst s') = reconfig_pending (fst s)"

lemma still_ctx_trans: "still_ctx s t \<Longrightarrow> still_ctx t u \<Longrightarrow> still_ctx s u"
  by (simp add: still_ctx_def)

lemma still_ctx_calm: "calm w w' \<Longrightarrow> c_fd c' = c_fd c \<Longrightarrow> reconfig_pending c' = reconfig_pending c \<Longrightarrow> still_ctx (c, w) (c', w')"
  by (simp add: still_ctx_def calm_def)

lemma read_format_still: "read_format c w = (c', w') \<Longrightarrow> still_ctx (c, w) (c', w')"
  by (rule still_ctx_calm [OF calm_read_format])
     (auto simp: read_format_def ioctl_gfmt_def set_format_def split: prod.splits sum.splits)

lemma start_gpu_still:
  assumes "start_gpu env c w = (st, c', w')"
  shows "still_ctx (c, w) (c', w') \<and> signal_lost c' = signal_lost c \<and> streaming c' = streaming c"
proof (cases "needs_vulkan (cfg c) \<and> \<not> vk c \<and> c_width c > 0 \<and> c_height c > 0")
  case False
  then have "c' = c \<and> w' = w" using assms unfolding start_gpu_def by (simp only: if_False prod.inject)
  then show ?thesis by (simp add: still_ctx_def)
next
  case True
  obtain vok w1 where v: "vk_call (Vk_init (resolve_output_layout env (output_format (cfg c)) (layout c))) w = (vok, w1)"
    by force
  have "calm w w1" using calm_ioctl(4) [OF v] by simp
  then show ?thesis
    using assms [unfolded start_gpu_def if_P [OF True] v Let_def prod.case]
    by (auto simp: still_ctx_def calm_def split: if_splits)
qed

lemma vfmcap_start_still:
  assumes "vfmcap_start env nb c w = (st, c', w')" "\<not> streaming c"
  shows "still_ctx (c, w) (c', w') \<and> (st = VFMCAP_OK \<longrightarrow> \<not> signal_lost c' \<and> streaming c')"
proof (cases "output_format (cfg c) = FMT_VYUY_10BIT \<and> c_bitdepth c \<noteq> 10")
  case True
  then show ?thesis using assms by (auto simp: vfmcap_start_def Let_def still_ctx_def)
next
  case False
  define n where "n = (if VFMCAP_MAX_BUFFERS < (if nb < VFMCAP_MIN_BUFFERS then VFMCAP_MIN_BUFFERS else nb)
    then VFMCAP_MAX_BUFFERS else (if nb < VFMCAP_MIN_BUFFERS then VFMCAP_MIN_BUFFERS else nb))"
  obtain c1 w1 where 1: "read_format c w = (c1, w1)" by force
  obtain r w2 where 2: "ioctl_plain Subscribe w1 = (r, w2)" by force
  define w3 where "w3 = w2\<lparr>k_dqevent := drain_events (k_dqevent w2)\<rparr>"
  obtain rq w4 where 4: "ioctl_reqbufs n w3 = (rq, w4)" by force
  note step = assms(1) [unfolded vfmcap_start_def Let_def if_not_P [OF assms(2)] if_not_P [OF False]
      n_def [symmetric] 1 prod.case 2, folded w3_def, unfolded 4 prod.case]
  have "calm w1 w2" "calm w2 w3" "calm w3 w4"
    using calm_ioctl(1) [OF 2] calm_ioctl(2) [OF 4] by (simp_all add: w3_def calm_def taken_def given_def)
  then have s4: "still_ctx (c, w) (c1, w4)"
    using read_format_still [OF 1] by (simp add: still_ctx_def calm_def)
  show ?thesis
  proof (cases rq)
    case (Inl e)
    then show ?thesis using step s4 by (auto simp: still_ctx_def)
  next
    case (Inr m)
    obtain ok w5 where 5: "queue_buffers (unat m) 0 w4 = (ok, w5)" by force
    obtain ok2 w6 where 6: "ioctl_plain Streamon w5 = (ok2, w6)" by force
    have "calm w4 w5" "calm w5 w6" using calm_queue_buffers [OF 5] calm_ioctl(1) [OF 6] by simp_all
    then have s6: "still_ctx (c, w) (c1, w5)" "still_ctx (c, w) (c1, w6)"
      using s4 by (simp_all add: still_ctx_def calm_def)
    define c3 where "c3 = c1\<lparr>num_buffers := m, streaming := True, signal_lost := False\<rparr>"
    note step = step [unfolded Inr sum.case 5 6 prod.case]
    show ?thesis
    proof (cases "ok \<and> ok2")
      case True
      then have "start_gpu env c3 w6 = (st, c', w')" using step by (simp add: c3_def)
      then show ?thesis using start_gpu_still [of env c3 w6 st c' w'] s6 by (auto simp: c3_def still_ctx_def)
    next
      case False
      then show ?thesis using step s6 by (auto simp: still_ctx_def split: if_splits)
    qed
  qed
qed

lemma vfmcap_close_account:
  "taken (vfmcap_close c w) = taken w \<and> given w \<subseteq># given (vfmcap_close c w) \<and>
   (0 \<le> c_fd c \<longrightarrow> Fd (c_fd c) \<in># given (vfmcap_close c w))"
proof -
  define w1 where "w1 = (if vk c then log_call Vk_cleanup w else w)"
  obtain c2 w2 where st: "vfmcap_stop (c\<lparr>vk := False\<rparr>) w1 = (c2, w2)" by fastforce
  have "taken w2 = taken w \<and> given w2 = given w \<and> c_fd c2 = c_fd c"
  proof (cases "streaming c")
    case True
    obtain r1 v1 where 1: "ioctl_plain Streamoff w1 = (r1, v1)" by force
    obtain r2 v2 where 2: "ioctl_reqbufs 0 v1 = (r2, v2)" by force
    have "calm w1 v1" "calm v1 v2" using calm_ioctl(1) [OF 1] calm_ioctl(2) [OF 2] by simp_all
    then show ?thesis using st True 1 2 by (auto simp: vfmcap_stop_def calm_def w1_def)
  next
    case False
    then show ?thesis using st by (auto simp: vfmcap_stop_def w1_def)
  qed
  then show ?thesis using st by (simp add: vfmcap_close_def w1_def [symmetric] Let_def subset_mset.add_increasing2)
qed

lemma vfmcap_open_account:
  assumes "vfmcap_open opened cap mem dev conf w = (Some c, w1)"
  shows "\<exists>fd. opened = Inr fd \<and> c_fd c = fd \<and> \<not> streaming c \<and> \<not> reconfig_pending c \<and>
    taken w1 = taken w \<and> given w1 = given w"
proof -
  obtain fd where fd: "opened = Inr fd" using assms by (cases opened) (auto simp: vfmcap_open_def)
  obtain c0 where c0: "read_format c0 w = (c, w1)" "c_fd c0 = fd" "\<not> streaming c0" "\<not> reconfig_pending c0"
    using assms fd by (simp add: vfmcap_open_def Let_def split: if_splits prod.splits)
  then show ?thesis using read_format_still [OF c0(1)] read_format_trace [OF c0(1)] fd
    by (simp add: still_ctx_def same_setup_def)
qed

text \<open>
  C32: The start of path A. When it succeeds the library is open and streaming, without a recorded loss
  of signal, and everything the trial frame took has been given back. When it fails, at whatever
  step, the element holds no context, the device descriptor that was opened is closed, and nothing
  that was taken is outstanding. Without a flush pipe nothing is opened.
\<close>

theorem path_a_start_account:
  assumes st: "src_start_a a s w = (ok, s', w')" and stopped: "pa_ctx s = None"
  shows "if ok
    then (\<exists>c. pa_ctx s' = Some c \<and> streaming c \<and> \<not> signal_lost c \<and> \<not> reconfig_pending c) \<and> pa_streaming s' \<and>
      taken w' + given w = taken w + given w'
    else pa_ctx s' = None \<and> taken w' + given w \<subseteq># taken w + given w' \<and>
      (if \<not> pa_pipe s \<and> \<not> aa_pipe a then w' = w
       else case aa_open a of Inr fd \<Rightarrow> 0 \<le> fd \<longrightarrow> Fd fd \<in># given w' | Inl e \<Rightarrow> w' = w)"
proof (cases "\<not> pa_pipe s \<and> \<not> aa_pipe a")
  case True
  then show ?thesis using st stopped by (auto simp: src_start_a_def)
next
  case False
  then have piped: "pa_pipe s \<or> aa_pipe a" by simp
  define s1 where "s1 = s\<lparr>pa_pipe := True, pa_flushing := False, pa_frame_count := 0, pa_caps_set := False,
    pa_colorimetry := [], pa_output_fmt := resolve_fmt (aa_info a) (pa_output_fmt s)\<rparr>"
  obtain x w1 where op: "vfmcap_open (aa_open a) (aa_querycap a) (aa_mem a) (aa_device a) (Some (path_a_config s1)) w = (x, w1)"
    by fastforce
  have start: "start_path_a a (s\<lparr>pa_pipe := True, pa_flushing := False, pa_frame_count := 0, pa_caps_set := False,
      pa_colorimetry := []\<rparr>) w = (ok, s', w')" using st False by (simp add: src_start_a_def)
  show ?thesis
  proof (cases x)
    case None
    then have "ok = False" "pa_ctx s' = None" "w' = w1"
      using start op by (auto simp: start_path_a_def Let_def s1_def)
    then show ?thesis using op None piped
      by (auto simp: vfmcap_open_def Let_def split: sum.splits if_splits prod.splits)
  next
    case (Some c)
    then obtain fd where fd: "aa_open a = Inr fd" and c: "c_fd c = fd" "\<not> streaming c" "\<not> reconfig_pending c"
        "taken w1 = taken w" "given w1 = given w"
      using vfmcap_open_account [of "aa_open a"] op by blast
    obtain rc c1 w2 where rc: "vfmcap_start (aa_env a) (pa_num_buffers s1) c w1 = (rc, c1, w2)" by (metis surj_pair)
    note still = vfmcap_start_still [OF rc c(2)]
    have shut: ?thesis if "ok = False" "pa_ctx s' = None" "w' = vfmcap_close d v" "c_fd d = fd"
      "taken v + given w = taken w + given v" for d v
      using that vfmcap_close_account [of d v] fd piped
      by (auto simp: subset_mset.add_left_mono)
    show ?thesis
    proof (cases "rc = VFMCAP_OK")
      case False
      then have "(ok, s', w') = (False, s1\<lparr>pa_ctx := None\<rparr>, vfmcap_close c1 w2)"
        unfolding start [symmetric] using op Some rc by (simp add: start_path_a_def Let_def s1_def)
      then show ?thesis using still c by (intro shut [of c1 w2]) (simp_all add: still_ctx_def)
    next
      case True
      obtain st2 f c2 w3 where ac: "vfmcap_acquire_frame 3000 empty_frame c1 w2 = ((st2, f), c2, w3)" by (metis surj_pair)
      have fl: "\<not> signal_lost c1" "\<not> reconfig_pending c1" "streaming c1" "c_fd c1 = fd"
        using still True c by (simp_all add: still_ctx_def)
      have flags: "st2 \<noteq> VFMCAP_RECONFIGURED" "st2 = VFMCAP_OK \<Longrightarrow> \<not> signal_lost c2 \<and> \<not> reconfig_pending c2"
        using acquire_loop_flags [of 3000 empty_frame c1 w2 st2 f c2 w3] ac fl
        by (auto simp: vfmcap_acquire_frame_def)
      have m: "same_setup c1 c2" "failed st2 \<Longrightarrow> taken w3 + given w2 = taken w2 + given w3"
        "\<not> failed st2 \<Longrightarrow> taken w3 + given w2 = taken w2 + given w3 + frame_holds f \<and> frame_ok c2 f"
        using acquire_frame_moved [OF ac] by (auto simp: moved_def)
      have w2: "taken w2 = taken w" "given w2 = given w" using still c by (simp_all add: still_ctx_def)
      show ?thesis
      proof (cases "st2 = VFMCAP_OK")
        case False
        then have "failed st2" using flags(1) by (simp add: failed_def)
        moreover have "(ok, s', w') = (False, s1\<lparr>pa_ctx := None\<rparr>, vfmcap_close c2 w3)"
          unfolding start [symmetric] using op Some rc True ac False by (simp add: start_path_a_def Let_def s1_def)
        ultimately show ?thesis using m(1,2) fl(4) w2 by (intro shut [of c2 w3]) (simp_all add: same_setup_def)
      next
        case ok2: True
        obtain f' w4 where rel: "vfmcap_release_frame f c2 w3 = (f', w4)" by fastforce
        have "taken w4 + given w = taken w + given w4"
          using release_frame_resources [OF rel] m(3) w2 ok2 by (simp add: ac_simps)
        moreover have "ok = True" "pa_ctx s' = Some c2" "pa_streaming s'" "w' = w4"
          using start op Some rc True ac ok2 rel by (auto simp: start_path_a_def Let_def s1_def)
        moreover have "streaming c2" using m(1) fl(3) by (simp add: same_setup_def)
        ultimately show ?thesis using flags(2) ok2 by simp
      qed
    qed
  qed
qed

definition demo_a_idle :: path_a where
  "demo_a_idle = demo_a\<lparr>pa_ctx := None, pa_streaming := False\<rparr>"

definition demo_a_start :: start_a_answers where
  "demo_a_start = \<lparr>aa_pipe = True, aa_open = Inr 3, aa_querycap = None, aa_mem = True, aa_device = ''/dev/video_cap'',
     aa_env = (\<lambda>_. None), aa_info = None, aa_color = None\<rparr>"

lemma path_a_start_account_witness:
  "\<exists>s' w'. src_start_a demo_a_start demo_a_idle idle_world = (False, s', w') \<and> pa_ctx s' = None \<and> Fd 3 \<in># given w'"
proof -
  obtain s' w' where r: "src_start_a demo_a_start demo_a_idle idle_world = (False, s', w')"
    by (simp add: src_start_a_def start_path_a_def demo_a_start_def demo_a_idle_def demo_a_def vfmcap_open_def Let_def)
  have "pa_ctx demo_a_idle = None" by (simp add: demo_a_idle_def)
  from path_a_start_account [OF r this] show ?thesis using r by (simp add: demo_a_start_def demo_a_idle_def demo_a_def)
qed

end
