(* ===== verification/Vk_Model.thy ===== *)
theory Vk_Model
  imports Vfmcap_Model Fifo_Spec
begin

text \<open>
  The Vulkan back end of the capture library (\<open>vfmcap_vulkan.c\<close>): the caches of imported DMA buffers,
  the pools of output buffers, submission and waiting, the render entry points the library calls, and
  the change of pools when the signal changes.

  The GPU keeps what the rules of the Vulkan API speak about: which objects exist, which of them
  submitted work uses, and the state of each fence. A call that breaks a rule is recorded in
  \<open>misuses\<close>, and closing a descriptor that belongs to Vulkan in \<open>bad_closes\<close>. An imported object carries
  the DMA buffer it was made from (\<open>content\<close>) and the cache slot it was made for (\<open>owner\<close>), which the
  code does not see. An object stands for a buffer or image together with its memory and view. The
  recording of commands is one answer and the list of imported objects they name; the creation of
  pipelines and pool images is not modelled.

  The kernel enters as a record: the DMA buffer behind a descriptor at the time of a call, its inode,
  and whether \<open>fstat\<close> works. Every other reply is an answer of the call.
\<close>

section \<open>The GPU\<close>

datatype slot_id = Image_slot nat | Input_slot nat | Output_slot

datatype misuse = Destroyed_used nat | Destroyed_running nat | Fence_not_ready | Fence_reset_queued
  | Reset_running | Unbound_input | No_slot

datatype fence = Unsignaled | Signaled | Queued

record gpu =
  live :: "nat set"
  next_obj :: nat
  content :: "nat \<Rightarrow> nat"
  owner :: "nat \<Rightarrow> slot_id"
  own_fds :: "int set"
  running :: "nat set"
  fences :: "nat option \<Rightarrow> fence"
  misuses :: "misuse list"
  bad_closes :: "int list"

definition misused :: "misuse \<Rightarrow> gpu \<Rightarrow> gpu" where
  "misused m g = g\<lparr>misuses := misuses g @ [m]\<rparr>"

text \<open>Destroying an object that submitted work uses is a misuse.\<close>

definition destroy_obj :: "nat \<Rightarrow> gpu \<Rightarrow> gpu" where
  "destroy_obj ob g =
     (let g1 = (if ob \<in> running g then misused (Destroyed_running ob) g else g) in g1\<lparr>live := live g1 - {ob}\<rparr>)"

definition close_own :: "int \<Rightarrow> gpu \<Rightarrow> gpu" where
  "close_own fd g = (if fd \<in> own_fds g then g\<lparr>own_fds := own_fds g - {fd}\<rparr> else g\<lparr>bad_closes := bad_closes g @ [fd]\<rparr>)"

text \<open>\<open>None\<close> is the fence of the context, \<open>Some i\<close> that of slot \<open>i\<close> of the pipelined renderer.\<close>

definition reset_fence :: "nat option \<Rightarrow> gpu \<Rightarrow> gpu" where
  "reset_fence n g =
     (let g1 = (if fences g n = Queued then misused Fence_reset_queued g else g) in
      g1\<lparr>fences := (fences g1)(n := Unsignaled)\<rparr>)"

definition reset_commands :: "gpu \<Rightarrow> gpu" where
  "reset_commands g = (if running g \<noteq> {} then misused Reset_running g else g)"

text \<open>Commands that name an object which does not exist any more are a misuse.\<close>

definition record_commands :: "nat list \<Rightarrow> gpu \<Rightarrow> gpu" where
  "record_commands used g = g\<lparr>misuses := misuses g @ map Destroyed_used (filter (\<lambda>ob. ob \<notin> live g) used)\<rparr>"

definition queue_submit :: "nat option \<Rightarrow> nat list \<Rightarrow> gpu \<Rightarrow> gpu" where
  "queue_submit n used g =
     (let g1 = (if fences g n \<noteq> Unsignaled then misused Fence_not_ready g else g) in
      g1\<lparr>fences := (fences g1)(n := Queued), running := running g1 \<union> set used\<rparr>)"

text \<open>A wait that succeeds means that the work is done; one that fails leaves it running.\<close>

definition wait_fence :: "bool \<Rightarrow> nat option \<Rightarrow> gpu \<Rightarrow> gpu" where
  "wait_fence ok n g = (if ok then g\<lparr>fences := (fences g)(n := Signaled), running := {}\<rparr> else g)"

text \<open>Waiting for the device ends all work; every queued fence is signaled then.\<close>

definition wait_idle :: "gpu \<Rightarrow> gpu" where
  "wait_idle g = g\<lparr>running := {}, fences := (\<lambda>n. if fences g n = Queued then Signaled else fences g n)\<rparr>"

section \<open>Imports\<close>

record dma =
  behind :: "int \<Rightarrow> nat"
  inode_of :: "nat \<Rightarrow> u64"
  stats :: "int \<Rightarrow> bool"

definition get_fd_inode :: "dma \<Rightarrow> int \<Rightarrow> u64" where
  "get_fd_inode D fd = (if stats D fd then inode_of D (behind D fd) else 0)"

text \<open>\<open>No_binding\<close> also stands for a view that cannot be created.\<close>

datatype import_reply = Imported | No_object | No_memory_type | No_memory | No_binding

record import_answer =
  i_dup :: "int option"
  i_reply :: import_reply

text \<open>
  The descriptor passed in is a duplicate of our own. A successful import hands it over to Vulkan, which
  closes it with the memory.
\<close>

definition import_dmabuf :: "import_reply \<Rightarrow> slot_id \<Rightarrow> int \<Rightarrow> nat \<Rightarrow> gpu \<Rightarrow> nat option \<times> gpu" where
  "import_dmabuf r slot d b g = (case r of
     Imported \<Rightarrow> (Some (next_obj g), g\<lparr>live := insert (next_obj g) (live g), next_obj := Suc (next_obj g),
       content := (content g)(next_obj g := b), owner := (owner g)(next_obj g := slot), own_fds := own_fds g - {d}\<rparr>)
   | No_object \<Rightarrow> (None, close_own d g)
   | No_memory_type \<Rightarrow> (None, g)
   | No_memory \<Rightarrow> (None, close_own d g)
   | No_binding \<Rightarrow> (None, g\<lparr>own_fds := own_fds g - {d}\<rparr>))"

section \<open>The caches\<close>

definition DMABUF_CACHE_SIZE :: nat where
  "DMABUF_CACHE_SIZE = 2"

record 'k cache_entry =
  e_fd :: int
  e_fd_dup :: int
  e_inode :: u64
  e_obj :: nat
  e_key :: 'k
  e_valid :: bool
  e_last_used :: u64

record 'k cache =
  entries :: "'k cache_entry list"
  entry_count :: nat

text \<open>
  The caches of buffers and of images differ in their keys and in one point: destroying an image entry
  also closes the duplicate of the descriptor.
\<close>

definition cache_entry_destroy :: "bool \<Rightarrow> 'k cache_entry \<Rightarrow> gpu \<Rightarrow> 'k cache_entry \<times> gpu" where
  "cache_entry_destroy img e g =
     (if \<not> e_valid e then (e, g)
      else let g1 = destroy_obj (e_obj e) g;
               g2 = (if img \<and> 0 \<le> e_fd_dup e then close_own (e_fd_dup e) g1 else g1) in
           (e\<lparr>e_valid := False, e_fd := - 1, e_fd_dup := - 1\<rparr>, g2))"

fun cache_search :: "int \<Rightarrow> 'k \<Rightarrow> 'k cache_entry list \<Rightarrow> nat \<Rightarrow> nat option" where
  "cache_search fd k [] i = None"
| "cache_search fd k (e # es) i =
     (if e_valid e \<and> e_fd e = fd \<and> e_key e = k then Some i else cache_search fd k es (Suc i))"

fun least_recent :: "'k cache_entry list \<Rightarrow> u64 \<Rightarrow> nat option \<Rightarrow> nat \<Rightarrow> nat option" where
  "least_recent [] oldest slot i = slot"
| "least_recent (e # es) oldest slot i =
     (if e_last_used e < oldest then least_recent es (e_last_used e) (Some i) (Suc i)
      else least_recent es oldest slot (Suc i))"

text \<open>A fresh import into slot \<open>i\<close>; \<open>mk\<close> names the cache.\<close>

definition cache_import ::
    "(nat \<Rightarrow> slot_id) \<Rightarrow> dma \<Rightarrow> import_answer \<Rightarrow> u64 \<Rightarrow> int \<Rightarrow> 'k \<Rightarrow> nat \<Rightarrow> 'k cache \<Rightarrow> gpu \<Rightarrow> nat option \<times> 'k cache \<times> gpu" where
  "cache_import mk D a now fd k i c g = (case i_dup a of
     None \<Rightarrow> (None, c, g)
   | Some d \<Rightarrow>
       let (x, g1) = import_dmabuf (i_reply a) (mk i) d (behind D fd) (g\<lparr>own_fds := insert d (own_fds g)\<rparr>) in
       (case x of None \<Rightarrow> (None, c, g1)
        | Some ob \<Rightarrow> (Some ob, c\<lparr>entries := (entries c)[i := \<lparr>e_fd = fd, e_fd_dup = d,
            e_inode = get_fd_inode D fd, e_obj = ob, e_key = k, e_valid = True, e_last_used = now\<rparr>]\<rparr>, g1)))"

text \<open>Emptying slot \<open>i\<close> and importing into it.\<close>

definition cache_replace ::
    "bool \<Rightarrow> (nat \<Rightarrow> slot_id) \<Rightarrow> dma \<Rightarrow> import_answer \<Rightarrow> u64 \<Rightarrow> int \<Rightarrow> 'k \<Rightarrow> nat \<Rightarrow> 'k cache \<Rightarrow> gpu \<Rightarrow> nat option \<times> 'k cache \<times> gpu" where
  "cache_replace img mk D a now fd k i c g =
     (let (e, g1) = cache_entry_destroy img (entries c ! i) g in
      cache_import mk D a now fd k i (c\<lparr>entries := (entries c)[i := e]\<rparr>) g1)"

definition cache_get ::
    "bool \<Rightarrow> (nat \<Rightarrow> slot_id) \<Rightarrow> dma \<Rightarrow> import_answer \<Rightarrow> u64 \<Rightarrow> int \<Rightarrow> 'k \<Rightarrow> 'k cache \<Rightarrow> gpu \<Rightarrow> nat option \<times> 'k cache \<times> gpu" where
  "cache_get img mk D a now fd k c g =
     (case cache_search fd k (take (entry_count c) (entries c)) 0 of
        Some i \<Rightarrow>
          let e = entries c ! i; ino = get_fd_inode D fd in
          if ino \<noteq> 0 \<and> e_inode e \<noteq> 0 \<and> e_inode e \<noteq> ino then cache_replace img mk D a now fd k i c g
          else (Some (e_obj e), c\<lparr>entries := (entries c)[i := e\<lparr>e_last_used := now\<rparr>]\<rparr>, g)
      | None \<Rightarrow>
          if entry_count c < DMABUF_CACHE_SIZE
          then cache_import mk D a now fd k (entry_count c) (c\<lparr>entry_count := Suc (entry_count c)\<rparr>) g
          else (case least_recent (entries c) (- 1) None 0 of
                  None \<Rightarrow> (None, c, misused No_slot g)
                | Some i \<Rightarrow> cache_replace img mk D a now fd k i c g))"

text \<open>All entries in use are destroyed and the cache starts over.\<close>

fun destroy_entries :: "bool \<Rightarrow> nat \<Rightarrow> 'k cache_entry list \<Rightarrow> gpu \<Rightarrow> 'k cache_entry list \<times> gpu" where
  "destroy_entries img (Suc n) (e # es) g =
     (let (e', g1) = cache_entry_destroy img e g; (es', g2) = destroy_entries img n es g1 in (e' # es', g2))"
| "destroy_entries img n es g = (es, g)"

definition cache_clear :: "bool \<Rightarrow> 'k cache \<Rightarrow> gpu \<Rightarrow> 'k cache \<times> gpu" where
  "cache_clear img c g = (let (es, g1) = destroy_entries img (entry_count c) (entries c) g in
     (c\<lparr>entries := es, entry_count := 0\<rparr>, g1))"

section \<open>The context\<close>

datatype vk_format = R8_UNORM | R8G8_UNORM | R16_UNORM | R16G16_UNORM | G8_B8R8_2PLANE_420_UNORM

type_synonym image_key = "u32 \<times> u32 \<times> vk_format \<times> u64 \<times> u32"

record pool_entry =
  p_fd :: int
  p_in_use :: bool

datatype pool_id = Pool_nv12_y | Pool_nv12_uv | Pool_p010_y | Pool_p010_uv | Pool_nv12_afbc | Pool_a2b10g10r10_afbc

datatype sync = Sync_read | Sync_write

record vk_ctx =
  initialized :: bool
  vk_frame_count :: u64
  input_cache :: "u64 cache"
  cached_output :: "u64 cache_entry"
  image_cache :: "image_key cache"
  pools :: "pool_id \<Rightarrow> pool_entry list"
  pending_in_fd :: int
  pending_out_fd :: int
  pending_out_fd2 :: int
  has_pending :: bool
  pipeline_initialized :: bool
  output_layout :: output_layout
  gfx_input :: "nat option"
  device :: gpu
  syncs :: "(int \<times> sync) multiset"

definition on_gpu :: "(gpu \<Rightarrow> gpu) \<Rightarrow> vk_ctx \<Rightarrow> vk_ctx" where
  "on_gpu f s = s\<lparr>device := f (device s)\<rparr>"

definition sync_start :: "sync \<Rightarrow> int \<Rightarrow> vk_ctx \<Rightarrow> vk_ctx" where
  "sync_start m fd s = s\<lparr>syncs := add_mset (fd, m) (syncs s)\<rparr>"

definition sync_end :: "sync \<Rightarrow> int \<Rightarrow> vk_ctx \<Rightarrow> vk_ctx" where
  "sync_end m fd s = s\<lparr>syncs := syncs s - {#(fd, m)#}\<rparr>"

definition input_cache_get :: "dma \<Rightarrow> import_answer \<Rightarrow> int \<Rightarrow> u64 \<Rightarrow> vk_ctx \<Rightarrow> nat option \<times> vk_ctx" where
  "input_cache_get D a fd sz s =
     (let (x, c, g) = cache_get False Input_slot D a (vk_frame_count s) fd sz (input_cache s) (device s) in
      (x, s\<lparr>input_cache := c, device := g\<rparr>))"

definition image_cache_get :: "dma \<Rightarrow> import_answer \<Rightarrow> int \<Rightarrow> image_key \<Rightarrow> vk_ctx \<Rightarrow> nat option \<times> vk_ctx" where
  "image_cache_get D a fd k s =
     (let (x, c, g) = cache_get True Image_slot D a (vk_frame_count s) fd k (image_cache s) (device s) in
      (x, s\<lparr>image_cache := c, device := g\<rparr>))"

definition output_cache_get :: "dma \<Rightarrow> import_answer \<Rightarrow> int \<Rightarrow> u64 \<Rightarrow> vk_ctx \<Rightarrow> nat option \<times> vk_ctx" where
  "output_cache_get D a fd sz s =
     (let e = cached_output s; ino = get_fd_inode D fd in
      if e_valid e \<and> e_fd e = fd \<and> e_key e = sz \<and> (ino = 0 \<or> e_inode e = 0 \<or> ino = e_inode e)
      then (Some (e_obj e), s)
      else let (e1, g1) = cache_entry_destroy False e (device s); s1 = s\<lparr>cached_output := e1, device := g1\<rparr> in
      case i_dup a of None \<Rightarrow> (None, s1)
      | Some d \<Rightarrow>
          let (x, g2) = import_dmabuf (i_reply a) Output_slot d (behind D fd) (g1\<lparr>own_fds := insert d (own_fds g1)\<rparr>) in
          (case x of None \<Rightarrow> (None, s1\<lparr>device := g2\<rparr>)
           | Some ob \<Rightarrow> (Some ob, s1\<lparr>device := g2, cached_output := e1\<lparr>e_fd := fd, e_fd_dup := d,
               e_inode := get_fd_inode D fd, e_obj := ob, e_key := sz, e_valid := True\<rparr>\<rparr>)))"

section \<open>The pools\<close>

fun first_unused :: "pool_entry list \<Rightarrow> nat \<Rightarrow> nat option" where
  "first_unused [] i = None"
| "first_unused (e # es) i = (if p_in_use e then first_unused es (Suc i) else Some i)"

definition set_in_use :: "bool \<Rightarrow> pool_id \<Rightarrow> nat \<Rightarrow> vk_ctx \<Rightarrow> vk_ctx" where
  "set_in_use b p i s = s\<lparr>pools := (pools s)(p := (pools s p)[i := (pools s p ! i)\<lparr>p_in_use := b\<rparr>])\<rparr>"

definition output_pool_acquire :: "pool_id \<Rightarrow> vk_ctx \<Rightarrow> nat option \<times> vk_ctx" where
  "output_pool_acquire p s = (case first_unused (pools s p) 0 of
     None \<Rightarrow> (None, s) | Some i \<Rightarrow> (Some i, set_in_use True p i s))"

definition output_pool_release :: "pool_id \<Rightarrow> nat \<Rightarrow> vk_ctx \<Rightarrow> vk_ctx" where
  "output_pool_release p i s = (if i < length (pools s p) then set_in_use False p i s else s)"

text \<open>Clients release an output by its descriptor: the first entry in use that has it.\<close>

fun in_use_with :: "int \<Rightarrow> pool_entry list \<Rightarrow> nat \<Rightarrow> nat option" where
  "in_use_with fd [] i = None"
| "in_use_with fd (e # es) i = (if p_fd e = fd \<and> p_in_use e then Some i else in_use_with fd es (Suc i))"

definition release_fd :: "pool_id \<Rightarrow> int \<Rightarrow> vk_ctx \<Rightarrow> vk_ctx" where
  "release_fd p fd s = (case in_use_with fd (pools s p) 0 of None \<Rightarrow> s | Some i \<Rightarrow> set_in_use False p i s)"

fun plane_pools :: "vk_fmt \<Rightarrow> (pool_id \<times> pool_id) option" where
  "plane_pools VK_FMT_NV12 = Some (Pool_nv12_y, Pool_nv12_uv)"
| "plane_pools VK_FMT_NV21 = Some (Pool_nv12_y, Pool_nv12_uv)"
| "plane_pools VK_FMT_P010 = Some (Pool_p010_y, Pool_p010_uv)"
| "plane_pools _ = None"

definition vfmcap_vk_release_output :: "vk_fmt \<Rightarrow> int \<Rightarrow> int \<Rightarrow> vk_ctx \<Rightarrow> vk_ctx" where
  "vfmcap_vk_release_output fmt y uv s = (case plane_pools fmt of
     None \<Rightarrow> s | Some (py, puv) \<Rightarrow> release_fd puv uv (release_fd py y s))"

definition vfmcap_vk_release_afbc_output :: "vk_fmt \<Rightarrow> int \<Rightarrow> vk_ctx \<Rightarrow> vk_ctx" where
  "vfmcap_vk_release_afbc_output fmt fd s =
     (if fmt = VK_FMT_NV12_AFBC then release_fd Pool_nv12_afbc fd s
      else if fmt = VK_FMT_A2B10G10R10_AFBC then release_fd Pool_a2b10g10r10_afbc fd s else s)"

text \<open>
  One entry of the first pool and, unless the second pool is empty, one of the second; both or none.
\<close>

definition acquire_planes :: "pool_id \<Rightarrow> pool_id \<Rightarrow> vk_ctx \<Rightarrow> (nat \<times> nat option) option \<times> vk_ctx" where
  "acquire_planes py puv s =
     (let contiguous = (pools s puv = []); (y, s1) = output_pool_acquire py s;
          (uv, s2) = (if contiguous then (None, s1) else output_pool_acquire puv s1) in
      case y of
        None \<Rightarrow> (None, case uv of None \<Rightarrow> s2 | Some j \<Rightarrow> output_pool_release puv j s2)
      | Some i \<Rightarrow> if contiguous \<or> uv \<noteq> None then (Some (i, uv), s2) else (None, output_pool_release py i s2))"

definition release_planes :: "pool_id \<Rightarrow> pool_id \<Rightarrow> nat \<times> nat option \<Rightarrow> vk_ctx \<Rightarrow> vk_ctx" where
  "release_planes py puv e s = (let s1 = output_pool_release py (fst e) s in
     case snd e of None \<Rightarrow> s1 | Some j \<Rightarrow> output_pool_release puv j s1)"

text \<open>
  When the pool is exhausted the renderer polls for half a second. The releases clients make before
  each poll are a list.
\<close>

type_synonym output_ref = "vk_fmt \<times> int \<times> int"

definition release_ref :: "output_ref \<Rightarrow> vk_ctx \<Rightarrow> vk_ctx" where
  "release_ref r s = (case r of (fmt, y, uv) \<Rightarrow>
     if plane_pools fmt \<noteq> None then vfmcap_vk_release_output fmt y uv s else vfmcap_vk_release_afbc_output fmt y s)"

definition VFMCAP_OUTPUT_POOL_WAIT_MS :: nat where
  "VFMCAP_OUTPUT_POOL_WAIT_MS = 500"

primrec poll_planes ::
    "nat \<Rightarrow> (nat \<Rightarrow> output_ref list) \<Rightarrow> pool_id \<Rightarrow> pool_id \<Rightarrow> vk_ctx \<Rightarrow> (nat \<times> nat option) option \<times> vk_ctx" where
  "poll_planes 0 rel py puv s = (None, s)"
| "poll_planes (Suc n) rel py puv s =
     (case acquire_planes py puv (fold release_ref (rel 0) s) of
        (Some e, s1) \<Rightarrow> (Some e, s1)
      | (None, s1) \<Rightarrow> poll_planes n (\<lambda>i. rel (Suc i)) py puv s1)"

definition wait_planes ::
    "(nat \<Rightarrow> output_ref list) \<Rightarrow> pool_id \<Rightarrow> pool_id \<Rightarrow> vk_ctx \<Rightarrow> (nat \<times> nat option) option \<times> vk_ctx" where
  "wait_planes rel py puv s = (case acquire_planes py puv s of
     (Some e, s1) \<Rightarrow> (Some e, s1)
   | (None, s1) \<Rightarrow> poll_planes (VFMCAP_OUTPUT_POOL_WAIT_MS * 1000 div 500) rel py puv s1)"

section \<open>Submission and waiting\<close>

text \<open>The answers of the calls that reset and record commands, submit them and wait.\<close>

record work_answer =
  w_reset :: bool
  w_begin :: bool
  w_end :: bool
  w_submit :: bool
  w_wait :: bool

record convert_answer =
  c_in :: import_answer
  c_out :: import_answer
  c_out2 :: import_answer
  c_work :: work_answer

definition first_fence :: "vk_ctx \<Rightarrow> vk_ctx" where
  "first_fence s = (if vk_frame_count s = 0 then on_gpu (reset_fence None) s else s)"

text \<open>Resetting the command pool, recording, and submitting with a fence.\<close>

definition submit_work :: "work_answer \<Rightarrow> nat option \<Rightarrow> nat list \<Rightarrow> vk_ctx \<Rightarrow> bool \<times> vk_ctx" where
  "submit_work a n used s =
     (if \<not> w_reset a \<or> \<not> w_begin a then (False, on_gpu reset_commands s)
      else let s1 = on_gpu (record_commands used) (on_gpu reset_commands s) in
      if \<not> w_end a \<or> \<not> w_submit a then (False, s1)
      else (True, on_gpu (queue_submit n used) s1))"

text \<open>Writing the image the next draws sample from into the descriptor set.\<close>

definition bind_input :: "work_answer \<Rightarrow> nat \<Rightarrow> vk_ctx \<Rightarrow> vk_ctx" where
  "bind_input a im s = (if w_reset a \<and> w_begin a then s\<lparr>gfx_input := Some im\<rparr> else s)"

definition set_pending :: "int \<Rightarrow> int \<Rightarrow> int \<Rightarrow> vk_ctx \<Rightarrow> vk_ctx" where
  "set_pending i y uv s = s\<lparr>pending_in_fd := i, pending_out_fd := y, pending_out_fd2 := uv, has_pending := True\<rparr>"

definition input_size :: "u32 \<Rightarrow> u32 \<Rightarrow> u64" where
  "input_size w h = ucast w * ucast h * 5 div 2"

definition output_size :: "vk_fmt \<Rightarrow> u32 \<Rightarrow> u32 \<Rightarrow> u64" where
  "output_size fmt w h =
     (if fmt = VK_FMT_P010 then ucast w * ucast h * 2 + ucast w * ucast h
      else ucast w * ucast h + ucast w * ucast h div 2)"

definition vfmcap_vk_convert_submit ::
    "dma \<Rightarrow> convert_answer \<Rightarrow> int \<Rightarrow> int \<Rightarrow> u32 \<Rightarrow> u32 \<Rightarrow> vk_fmt \<Rightarrow> vk_ctx \<Rightarrow> bool \<times> vk_ctx" where
  "vfmcap_vk_convert_submit D a in_fd out_fd w h fmt s =
     (if \<not> initialized s then (False, s)
      else let (x, s1) = input_cache_get D (c_in a) in_fd (input_size w h) (first_fence s) in
      case x of None \<Rightarrow> (False, s1)
      | Some ib \<Rightarrow>
          let (y, s2) = output_cache_get D (c_out a) out_fd (output_size fmt w h) (sync_start Sync_read in_fd s1) in
          case y of None \<Rightarrow> (False, s2)
          | Some ob \<Rightarrow>
              let (ok, s3) = submit_work (c_work a) None [ib, ob] (sync_start Sync_write out_fd s2) in
              (ok, if ok then set_pending in_fd out_fd (- 1) s3 else s3))"

text \<open>The import of the input is destroyed after every conversion.\<close>

fun destroy_input :: "int \<Rightarrow> nat \<Rightarrow> 'k cache_entry list \<Rightarrow> gpu \<Rightarrow> 'k cache_entry list \<times> gpu" where
  "destroy_input fd (Suc n) (e # es) g =
     (if e_valid e \<and> e_fd e = fd then let (e', g1) = cache_entry_destroy False e g in (e' # es, g1)
      else let (es', g1) = destroy_input fd n es g in (e # es', g1))"
| "destroy_input fd n es g = (es, g)"

definition drop_input :: "vk_ctx \<Rightarrow> vk_ctx" where
  "drop_input s = (if 0 \<le> pending_in_fd s then
     (let c = input_cache s; (es, g) = destroy_input (pending_in_fd s) (entry_count c) (entries c) (device s) in
      (sync_end Sync_read (pending_in_fd s) s)\<lparr>input_cache := c\<lparr>entries := es\<rparr>, device := g\<rparr>)
     else s)"

definition end_outputs :: "vk_ctx \<Rightarrow> vk_ctx" where
  "end_outputs s =
     (let s1 = (if 0 \<le> pending_out_fd s then sync_end Sync_write (pending_out_fd s) s else s) in
      if 0 \<le> pending_out_fd2 s then sync_end Sync_write (pending_out_fd2 s) s1 else s1)"

definition vfmcap_vk_convert_wait :: "bool \<Rightarrow> vk_ctx \<Rightarrow> bool \<times> vk_ctx" where
  "vfmcap_vk_convert_wait ok s =
     (if \<not> initialized s then (False, s)
      else if \<not> has_pending s then (True, s)
      else let s1 = drop_input (on_gpu (wait_fence ok None) s);
               s2 = end_outputs (on_gpu wait_idle s1);
               s3 = s2\<lparr>has_pending := False, pending_in_fd := - 1, pending_out_fd := - 1, pending_out_fd2 := - 1\<rparr> in
           if \<not> ok then (False, s3)
           else (True, (on_gpu (reset_fence None) s3)\<lparr>vk_frame_count := vk_frame_count s3 + 1\<rparr>))"

definition vfmcap_vk_convert ::
    "dma \<Rightarrow> convert_answer \<Rightarrow> int \<Rightarrow> int \<Rightarrow> u32 \<Rightarrow> u32 \<Rightarrow> vk_fmt \<Rightarrow> vk_ctx \<Rightarrow> bool \<times> vk_ctx" where
  "vfmcap_vk_convert D a in_fd out_fd w h fmt s =
     (case vfmcap_vk_convert_submit D a in_fd out_fd w h fmt s of
        (False, s1) \<Rightarrow> (False, s1) | (True, s1) \<Rightarrow> vfmcap_vk_convert_wait (w_wait (c_work a)) s1)"

text \<open>Rendering into two planes: the input and both planes are imported as images.\<close>

fun plane_formats :: "vk_fmt \<Rightarrow> vk_format \<times> vk_format" where
  "plane_formats VK_FMT_P010 = (R16_UNORM, R16G16_UNORM)"
| "plane_formats _ = (R8_UNORM, R8G8_UNORM)"

definition vfmcap_vk_render_submit ::
    "dma \<Rightarrow> convert_answer \<Rightarrow> int \<Rightarrow> int \<Rightarrow> int \<Rightarrow> u32 \<times> u32 \<Rightarrow> u32 \<times> u32 \<Rightarrow> vk_fmt \<Rightarrow> vk_ctx \<Rightarrow> bool \<times> vk_ctx" where
  "vfmcap_vk_render_submit D a in_fd y_fd uv_fd src dst fmt s =
     (if \<not> initialized s \<or> plane_pools fmt = None then (False, s)
      else let (fy, fuv) = plane_formats fmt;
               (x, s1) = image_cache_get D (c_in a) in_fd (fst src, snd src, G8_B8R8_2PLANE_420_UNORM, 0, 0) s in
      case x of None \<Rightarrow> (False, s1)
      | Some im \<Rightarrow> let (y, s2) = image_cache_get D (c_out a) y_fd (fst dst, snd dst, fy, 0, 0) s1 in
      case y of None \<Rightarrow> (False, s2)
      | Some oy \<Rightarrow> let (z, s3) = image_cache_get D (c_out2 a) uv_fd (fst dst div 2, snd dst div 2, fuv, 0, 0) s2 in
      case z of None \<Rightarrow> (False, s3)
      | Some ouv \<Rightarrow>
          let s4 = sync_start Sync_write uv_fd (sync_start Sync_write y_fd (sync_start Sync_read in_fd (first_fence s3)));
              (ok, s5) = submit_work (c_work a) None [im, oy, ouv] (bind_input (c_work a) im s4) in
          (ok, if ok then set_pending in_fd y_fd uv_fd s5 else s5))"

section \<open>Rendering into pool buffers\<close>

text \<open>A successful render yields the descriptors of its planes, \<open>- 1\<close> for a plane that is not separate.\<close>

definition render_contiguous ::
    "dma \<Rightarrow> convert_answer \<Rightarrow> int \<Rightarrow> u32 \<times> u32 \<Rightarrow> pool_id \<Rightarrow> nat \<Rightarrow> vk_ctx \<Rightarrow> (int \<times> int) option \<times> vk_ctx" where
  "render_contiguous D a in_fd src py i s =
     (let (x, s1) = image_cache_get D (c_in a) in_fd (fst src, snd src, G8_B8R8_2PLANE_420_UNORM, 0, 0) s in
      case x of None \<Rightarrow> (None, output_pool_release py i s1)
      | Some im \<Rightarrow>
          let fd = p_fd (pools s1 py ! i);
              s2 = sync_start Sync_write fd (sync_start Sync_read in_fd (first_fence s1));
              (ok, s3) = submit_work (c_work a) None [im] (bind_input (c_work a) im s2) in
          if \<not> ok then (None, if w_reset (c_work a) \<and> w_begin (c_work a) \<and> w_end (c_work a)
                              then output_pool_release py i s3 else s3)
          else let (ok2, s4) = vfmcap_vk_convert_wait (w_wait (c_work a)) (set_pending in_fd fd (- 1) s3) in
          if \<not> ok2 then (None, output_pool_release py i s4) else (Some (fd, - 1), s4))"

definition vfmcap_vk_render_and_wait ::
    "dma \<Rightarrow> convert_answer \<Rightarrow> (nat \<Rightarrow> output_ref list) \<Rightarrow> int \<Rightarrow> u32 \<times> u32 \<Rightarrow> u32 \<times> u32 \<Rightarrow> vk_fmt \<Rightarrow> vk_ctx \<Rightarrow>
     (int \<times> int) option \<times> vk_ctx" where
  "vfmcap_vk_render_and_wait D a rel in_fd src dst fmt s =
     (if \<not> initialized s then (None, s)
      else case plane_pools fmt of None \<Rightarrow> (None, s)
      | Some (py, puv) \<Rightarrow>
          (case wait_planes rel py puv s of
             (None, s1) \<Rightarrow> (None, s1)
           | (Some (i, None), s1) \<Rightarrow> render_contiguous D a in_fd src py i s1
           | (Some (i, Some j), s1) \<Rightarrow>
               let y = p_fd (pools s1 py ! i); uv = p_fd (pools s1 puv ! j);
                   (ok, s2) = vfmcap_vk_render_submit D a in_fd y uv src dst fmt s1 in
               if \<not> ok then (None, release_planes py puv (i, Some j) s2)
               else let (ok2, s3) = vfmcap_vk_convert_wait (w_wait (c_work a)) s2 in
               if \<not> ok2 then (None, release_planes py puv (i, Some j) s3) else (Some (y, uv), s3)))"

text \<open>The compressed outputs wait without a limit and ignore the result of the wait.\<close>

definition finish_afbc :: "bool \<Rightarrow> int \<Rightarrow> int \<Rightarrow> vk_ctx \<Rightarrow> vk_ctx" where
  "finish_afbc ok in_fd fd s =
     (let s1 = on_gpu wait_idle (on_gpu (reset_fence None) (on_gpu (wait_fence ok None) s));
          s2 = sync_end Sync_write fd (sync_end Sync_read in_fd s1) in
      s2\<lparr>vk_frame_count := vk_frame_count s2 + 1\<rparr>)"

text \<open>
  This entry point binds the descriptor set without writing its input into it: the draws sample what
  an earlier call left there.
\<close>

definition vfmcap_vk_render_afbc_nv12_and_wait ::
    "dma \<Rightarrow> convert_answer \<Rightarrow> int \<Rightarrow> u32 \<times> u32 \<Rightarrow> vk_ctx \<Rightarrow> int option \<times> vk_ctx" where
  "vfmcap_vk_render_afbc_nv12_and_wait D a in_fd src s =
     (if \<not> initialized s then (None, s)
      else case output_pool_acquire Pool_nv12_afbc s of
        (None, s0) \<Rightarrow> (None, s0)
      | (Some i, s0) \<Rightarrow>
          let (x, s1) = image_cache_get D (c_in a) in_fd (fst src, snd src, G8_B8R8_2PLANE_420_UNORM, 0, 0) s0 in
          case x of None \<Rightarrow> (None, output_pool_release Pool_nv12_afbc i s1)
          | Some im \<Rightarrow>
              let fd = p_fd (pools s1 Pool_nv12_afbc ! i); s2 = first_fence s1 in
              if \<not> w_reset (c_work a) then (None, output_pool_release Pool_nv12_afbc i (on_gpu reset_commands s2))
              else let s2 = sync_start Sync_write fd (sync_start Sync_read in_fd s2);
                  (ok, s3) = (case gfx_input s2 of
                      None \<Rightarrow> submit_work (c_work a) None [im] (if w_begin (c_work a) then on_gpu (misused Unbound_input) s2 else s2)
                    | Some ob \<Rightarrow> submit_work (c_work a) None [im, ob] s2) in
              if \<not> ok then (None, output_pool_release Pool_nv12_afbc i s3)
              else (Some fd, finish_afbc (w_wait (c_work a)) in_fd fd s3))"

definition render_10bit_afbc ::
    "pool_id \<Rightarrow> dma \<Rightarrow> convert_answer \<Rightarrow> int \<Rightarrow> u32 \<times> u32 \<Rightarrow> vk_ctx \<Rightarrow> int option \<times> vk_ctx" where
  "render_10bit_afbc p D a in_fd src s =
     (if \<not> initialized s then (None, s)
      else case output_pool_acquire p s of
        (None, s0) \<Rightarrow> (None, s0)
      | (Some i, s0) \<Rightarrow>
          let (x, s1) = input_cache_get D (c_in a) in_fd (input_size (fst src) (snd src)) s0 in
          case x of None \<Rightarrow> (None, output_pool_release p i s1)
          | Some ib \<Rightarrow>
              let fd = p_fd (pools s1 p ! i);
                  s2 = first_fence (sync_start Sync_write fd (sync_start Sync_read in_fd s1));
                  (ok, s3) = submit_work (c_work a) None [ib] s2 in
              if \<not> ok then (None, if w_reset (c_work a) \<and> w_begin (c_work a) then output_pool_release p i s3 else s3)
              else (Some fd, finish_afbc (w_wait (c_work a)) in_fd fd s3))"

definition vfmcap_vk_render_10bit_afbc_nv12_and_wait ::
    "dma \<Rightarrow> convert_answer \<Rightarrow> int \<Rightarrow> u32 \<times> u32 \<Rightarrow> vk_ctx \<Rightarrow> int option \<times> vk_ctx" where
  "vfmcap_vk_render_10bit_afbc_nv12_and_wait = render_10bit_afbc Pool_nv12_afbc"

definition vfmcap_vk_render_10bit_afbc_a2b10g10r10_and_wait ::
    "dma \<Rightarrow> convert_answer \<Rightarrow> int \<Rightarrow> u32 \<times> u32 \<Rightarrow> vk_ctx \<Rightarrow> int option \<times> vk_ctx" where
  "vfmcap_vk_render_10bit_afbc_a2b10g10r10_and_wait = render_10bit_afbc Pool_a2b10g10r10_afbc"

text \<open>
  Ten bit input: the pipelined renderer with one fence per slot, set up by the first call.
\<close>

definition VFMCAP_OUTPUT_POOL_CAPACITY :: nat where
  "VFMCAP_OUTPUT_POOL_CAPACITY = 8"

record ten_answer =
  t_in :: import_answer
  t_pipeline :: bool
  t_fence :: bool
  t_work :: work_answer

definition pipeline_init :: "bool \<Rightarrow> vk_ctx \<Rightarrow> bool \<times> vk_ctx" where
  "pipeline_init ok s =
     (if pipeline_initialized s then (True, s)
      else if \<not> ok then (False, s)
      else (True, (on_gpu (\<lambda>g. g\<lparr>fences := (\<lambda>n. if n = None then fences g None else Signaled)\<rparr>) s)
              \<lparr>pipeline_initialized := True\<rparr>))"

definition sync_planes :: "(sync \<Rightarrow> int \<Rightarrow> vk_ctx \<Rightarrow> vk_ctx) \<Rightarrow> int \<Rightarrow> int option \<Rightarrow> vk_ctx \<Rightarrow> vk_ctx" where
  "sync_planes f y uv s = (case uv of None \<Rightarrow> f Sync_write y s | Some fd \<Rightarrow> f Sync_write fd (f Sync_write y s))"

definition vfmcap_vk_render_10bit_and_wait ::
    "dma \<Rightarrow> ten_answer \<Rightarrow> int \<Rightarrow> u32 \<times> u32 \<Rightarrow> vk_fmt \<Rightarrow> vk_ctx \<Rightarrow> (int \<times> int) option \<times> vk_ctx" where
  "vfmcap_vk_render_10bit_and_wait D a in_fd src fmt s =
     (if \<not> initialized s then (None, s)
      else case plane_pools fmt of None \<Rightarrow> (None, s)
      | Some (py, puv) \<Rightarrow>
          let (x, s1) = input_cache_get D (t_in a) in_fd (input_size (fst src) (snd src)) s in
          case x of None \<Rightarrow> (None, s1)
          | Some ib \<Rightarrow>
          (case acquire_planes py puv (sync_start Sync_read in_fd s1) of
             (None, s2) \<Rightarrow> (None, s2)
           | (Some e, s2) \<Rightarrow>
              let y = p_fd (pools s2 py ! fst e); uv = map_option (\<lambda>j. p_fd (pools s2 puv ! j)) (snd e);
                  (ok, s3) = pipeline_init (t_pipeline a) s2;
                  slot = Some (unat (vk_frame_count s3) mod VFMCAP_OUTPUT_POOL_CAPACITY);
                  s4 = on_gpu reset_commands s3; w = t_work a in
              if \<not> ok then (None, release_planes py puv e s3)
              else if \<not> w_reset w then (None, release_planes py puv e s4)
              else if \<not> t_fence a then (None, release_planes py puv e s4)
              else let s5 = on_gpu (reset_fence slot) s4 in
              if \<not> w_begin w then (None, s5)
              else let s6 = on_gpu (record_commands [ib]) s5 in
              if \<not> w_end w then (None, s6)
              else let s7 = sync_planes sync_start y uv s6 in
              if \<not> w_submit w then (None, release_planes py puv e s7)
              else let s8 = on_gpu (wait_fence (w_wait w) slot) (on_gpu (queue_submit slot [ib]) s7) in
              if \<not> w_wait w then (None, release_planes py puv e s8)
              else let s9 = sync_planes sync_end y uv (on_gpu wait_idle s8) in
              (Some (y, case uv of None \<Rightarrow> - 1 | Some fd \<Rightarrow> fd), s9\<lparr>vk_frame_count := vk_frame_count s9 + 1\<rparr>)))"

section \<open>Changing the pools\<close>

text \<open>
  The strategies for the outputs in two planes, each with the descriptors it yields when it works: one
  buffer for both planes, one buffer per plane, and one per plane filled by a copy.
\<close>

record pool_replies =
  r_contiguous :: "int list option"
  r_separate :: "(int list \<times> int list) option"
  r_copyout :: "(int list \<times> int list) option"

definition output_pool_create_linear_yuv ::
    "output_layout \<Rightarrow> bool \<Rightarrow> bool \<Rightarrow> pool_replies \<Rightarrow> (int list \<times> int list) option" where
  "output_pool_create_linear_yuv lay copyout_only separate_env r =
     (let separate_only = (lay = LAYOUT_TWO_DMABUF \<or> separate_env); single_only = (lay = LAYOUT_SINGLE_DMABUF) in
      if \<not> copyout_only \<and> \<not> separate_only \<and> r_contiguous r \<noteq> None then Some (the (r_contiguous r), [])
      else if \<not> copyout_only \<and> \<not> separate_only \<and> single_only then None
      else if \<not> copyout_only \<and> r_separate r \<noteq> None then r_separate r
      else if \<not> copyout_only \<and> separate_only then None
      else if single_only then None
      else r_copyout r)"

definition pool_of :: "int list \<Rightarrow> pool_entry list" where
  "pool_of fds = map (\<lambda>fd. \<lparr>p_fd = fd, p_in_use = False\<rparr>) fds"

record reconfig_answer =
  g_copyout :: bool
  g_separate :: bool
  g_pools :: pool_replies
  g_afbc :: "int list option"
  g_middle :: bool

definition recreate_pools :: "vk_fmt \<Rightarrow> reconfig_answer \<Rightarrow> vk_ctx \<Rightarrow> bool \<times> vk_ctx" where
  "recreate_pools fmt a s = (case plane_pools fmt of
     Some (py, puv) \<Rightarrow>
       (case output_pool_create_linear_yuv (output_layout s) (py = Pool_p010_y \<and> g_copyout a) (g_separate a) (g_pools a) of
          None \<Rightarrow> (False, s)
        | Some (ys, uvs) \<Rightarrow> (True, s\<lparr>pools := (pools s)(py := pool_of ys, puv := pool_of uvs)\<rparr>))
   | None \<Rightarrow>
       if fmt = VK_FMT_NV12_AFBC then
         (case g_afbc a of None \<Rightarrow> (False, s) | Some fds \<Rightarrow> (True, s\<lparr>pools := (pools s)(Pool_nv12_afbc := pool_of fds)\<rparr>))
       else (True, s))"

definition vfmcap_vk_reconfig_pools :: "vk_fmt \<Rightarrow> reconfig_answer \<Rightarrow> vk_ctx \<Rightarrow> bool \<times> vk_ctx" where
  "vfmcap_vk_reconfig_pools fmt a s =
     (if \<not> initialized s then (False, s)
      else let (ic, g1) = cache_clear False (input_cache s) (wait_idle (device s));
               (mc, g2) = cache_clear True (image_cache s) g1;
               (oc, g3) = cache_entry_destroy False (cached_output s) g2;
               s1 = s\<lparr>input_cache := ic, image_cache := mc, cached_output := oc, device := g3, pools := (\<lambda>_. [])\<rparr>;
               (ok, s2) = recreate_pools fmt a s1 in
           if \<not> ok \<or> \<not> g_middle a then (False, s2) else (True, s2\<lparr>vk_frame_count := 0\<rparr>))"

end
