(* ===== verification/Vk_Caches.thy ===== *)
theory Vk_Caches
  imports Vk_Model
begin

text \<open>
  The caches of imported DMA buffers. What one lookup does to the objects and to the slots of its
  cache is \<open>cache_get_account\<close>; from it follow that a hit is never stale as long as inodes tell buffers apart,
  and that two slots are not enough for the three images of a render into two planes.
\<close>

section \<open>Steps that touch one part of the context\<close>

lemma sync_start_fields [simp]:
  "device (sync_start m fd s) = device s"
  "image_cache (sync_start m fd s) = image_cache s"
  "input_cache (sync_start m fd s) = input_cache s"
  "cached_output (sync_start m fd s) = cached_output s"
  "pools (sync_start m fd s) = pools s"
  "vk_frame_count (sync_start m fd s) = vk_frame_count s"
  "has_pending (sync_start m fd s) = has_pending s"
  "initialized (sync_start m fd s) = initialized s"
  "output_layout (sync_start m fd s) = output_layout s"
  "pipeline_initialized (sync_start m fd s) = pipeline_initialized s"
  "gfx_input (sync_start m fd s) = gfx_input s"
  "pending_in_fd (sync_start m fd s) = pending_in_fd s"
  "pending_out_fd (sync_start m fd s) = pending_out_fd s"
  "pending_out_fd2 (sync_start m fd s) = pending_out_fd2 s"
  by (simp_all add: sync_start_def)

lemma sync_end_fields [simp]:
  "device (sync_end m fd s) = device s"
  "image_cache (sync_end m fd s) = image_cache s"
  "input_cache (sync_end m fd s) = input_cache s"
  "cached_output (sync_end m fd s) = cached_output s"
  "pools (sync_end m fd s) = pools s"
  "vk_frame_count (sync_end m fd s) = vk_frame_count s"
  "has_pending (sync_end m fd s) = has_pending s"
  "initialized (sync_end m fd s) = initialized s"
  "output_layout (sync_end m fd s) = output_layout s"
  "pipeline_initialized (sync_end m fd s) = pipeline_initialized s"
  "gfx_input (sync_end m fd s) = gfx_input s"
  "pending_in_fd (sync_end m fd s) = pending_in_fd s"
  "pending_out_fd (sync_end m fd s) = pending_out_fd s"
  "pending_out_fd2 (sync_end m fd s) = pending_out_fd2 s"
  by (simp_all add: sync_end_def)

lemma bind_input_fields [simp]:
  "device (bind_input a im s) = device s"
  "image_cache (bind_input a im s) = image_cache s"
  "input_cache (bind_input a im s) = input_cache s"
  "cached_output (bind_input a im s) = cached_output s"
  "pools (bind_input a im s) = pools s"
  "vk_frame_count (bind_input a im s) = vk_frame_count s"
  "has_pending (bind_input a im s) = has_pending s"
  "initialized (bind_input a im s) = initialized s"
  "output_layout (bind_input a im s) = output_layout s"
  "pipeline_initialized (bind_input a im s) = pipeline_initialized s"
  "syncs (bind_input a im s) = syncs s"
  "pending_in_fd (bind_input a im s) = pending_in_fd s"
  by (simp_all add: bind_input_def)

lemma set_pending_fields [simp]:
  "device (set_pending i y uv s) = device s"
  "image_cache (set_pending i y uv s) = image_cache s"
  "input_cache (set_pending i y uv s) = input_cache s"
  "cached_output (set_pending i y uv s) = cached_output s"
  "pools (set_pending i y uv s) = pools s"
  "vk_frame_count (set_pending i y uv s) = vk_frame_count s"
  "initialized (set_pending i y uv s) = initialized s"
  "output_layout (set_pending i y uv s) = output_layout s"
  "pipeline_initialized (set_pending i y uv s) = pipeline_initialized s"
  "syncs (set_pending i y uv s) = syncs s"
  by (simp_all add: set_pending_def)

lemma on_gpu_fields [simp]:
  "image_cache (on_gpu f s) = image_cache s"
  "input_cache (on_gpu f s) = input_cache s"
  "cached_output (on_gpu f s) = cached_output s"
  "pools (on_gpu f s) = pools s"
  "vk_frame_count (on_gpu f s) = vk_frame_count s"
  "has_pending (on_gpu f s) = has_pending s"
  "initialized (on_gpu f s) = initialized s"
  "output_layout (on_gpu f s) = output_layout s"
  "pipeline_initialized (on_gpu f s) = pipeline_initialized s"
  "syncs (on_gpu f s) = syncs s"
  "gfx_input (on_gpu f s) = gfx_input s"
  "pending_in_fd (on_gpu f s) = pending_in_fd s"
  "pending_out_fd (on_gpu f s) = pending_out_fd s"
  "pending_out_fd2 (on_gpu f s) = pending_out_fd2 s"
  by (simp_all add: on_gpu_def)

lemma set_in_use_fields [simp]:
  "device (set_in_use b p i s) = device s"
  "image_cache (set_in_use b p i s) = image_cache s"
  "input_cache (set_in_use b p i s) = input_cache s"
  "cached_output (set_in_use b p i s) = cached_output s"
  "vk_frame_count (set_in_use b p i s) = vk_frame_count s"
  "has_pending (set_in_use b p i s) = has_pending s"
  "initialized (set_in_use b p i s) = initialized s"
  "output_layout (set_in_use b p i s) = output_layout s"
  "pipeline_initialized (set_in_use b p i s) = pipeline_initialized s"
  "syncs (set_in_use b p i s) = syncs s"
  "gfx_input (set_in_use b p i s) = gfx_input s"
  "pending_in_fd (set_in_use b p i s) = pending_in_fd s"
  by (simp_all add: set_in_use_def)

lemma device_on_gpu [simp]: "device (on_gpu f s) = f (device s)"
  by (simp add: on_gpu_def)

lemma first_fence_fields [simp]:
  "image_cache (first_fence s) = image_cache s" "input_cache (first_fence s) = input_cache s"
  "cached_output (first_fence s) = cached_output s" "pools (first_fence s) = pools s"
  "vk_frame_count (first_fence s) = vk_frame_count s" "has_pending (first_fence s) = has_pending s"
  "initialized (first_fence s) = initialized s" "output_layout (first_fence s) = output_layout s"
  "pipeline_initialized (first_fence s) = pipeline_initialized s" "syncs (first_fence s) = syncs s"
  by (simp_all add: first_fence_def)

lemma first_fence_device:
  "live (device (first_fence s)) = live (device s) \<and> (\<exists>ms. misuses (device (first_fence s)) = misuses (device s) @ ms)"
  by (simp add: first_fence_def reset_fence_def misused_def Let_def)

section \<open>What a lookup does\<close>

text \<open>Steps that leave the objects, the work and the fences alone.\<close>

definition same_objs :: "gpu \<Rightarrow> gpu \<Rightarrow> bool" where
  "same_objs g g' \<longleftrightarrow> live g' = live g \<and> next_obj g' = next_obj g \<and> content g' = content g \<and> owner g' = owner g \<and>
     running g' = running g \<and> fences g' = fences g \<and> misuses g' = misuses g"

lemma same_objs_refl [simp]: "same_objs g g"
  by (simp add: same_objs_def)

lemma same_objs_close [simp]: "same_objs g (close_own fd g)"
  by (simp add: same_objs_def close_own_def)

lemma same_objs_fds [simp]: "same_objs g (g\<lparr>own_fds := F\<rparr>)"
  by (simp add: same_objs_def)

lemma same_objs_trans: "same_objs g h \<Longrightarrow> same_objs h k \<Longrightarrow> same_objs g k"
  by (simp add: same_objs_def)

text \<open>The new object of a successful import.\<close>

definition adds_obj :: "slot_id \<Rightarrow> nat \<Rightarrow> gpu \<Rightarrow> gpu \<Rightarrow> bool" where
  "adds_obj \<sigma> b g g' \<longleftrightarrow> live g' = insert (next_obj g) (live g) \<and> next_obj g' = Suc (next_obj g) \<and>
     content g' = (content g)(next_obj g := b) \<and> owner g' = (owner g)(next_obj g := \<sigma>) \<and>
     running g' = running g \<and> fences g' = fences g \<and> misuses g' = misuses g"

lemma import_dmabuf_account:
  assumes "import_dmabuf r \<sigma> d b g = (x, g')"
  shows "case x of None \<Rightarrow> same_objs g g' | Some ob \<Rightarrow> ob = next_obj g \<and> adds_obj \<sigma> b g g'"
  using assms by (auto simp: import_dmabuf_def adds_obj_def split: import_reply.splits)

lemma destroy_obj_account:
  "live (destroy_obj ob g) = live g - {ob} \<and> next_obj (destroy_obj ob g) = next_obj g \<and>
   content (destroy_obj ob g) = content g \<and> owner (destroy_obj ob g) = owner g \<and>
   running (destroy_obj ob g) = running g \<and> fences (destroy_obj ob g) = fences g \<and>
   misuses (destroy_obj ob g) = misuses g @ (if ob \<in> running g then [Destroyed_running ob] else [])"
  by (simp add: destroy_obj_def misused_def Let_def)

text \<open>What an entry holds before it is emptied.\<close>

definition obj_of :: "'k cache_entry \<Rightarrow> nat set" where
  "obj_of e = (if e_valid e then {e_obj e} else {})"

definition drops_objs :: "nat set \<Rightarrow> gpu \<Rightarrow> gpu \<Rightarrow> bool" where
  "drops_objs X g g' \<longleftrightarrow> live g' = live g - X \<and> next_obj g' = next_obj g \<and> content g' = content g \<and> owner g' = owner g \<and>
     running g' = running g \<and> fences g' = fences g \<and> (X \<inter> running g = {} \<longrightarrow> misuses g' = misuses g) \<and>
     (\<exists>ms. misuses g' = misuses g @ ms)"

lemma entry_destroy_account:
  assumes "cache_entry_destroy img e g = (e', g')"
  shows "\<not> e_valid e' \<and> drops_objs (obj_of e) g g' \<and> e_last_used e' = e_last_used e"
proof (cases "e_valid e")
  case False
  then show ?thesis using assms by (auto simp: cache_entry_destroy_def drops_objs_def obj_of_def)
next
  case True
  let ?g1 = "destroy_obj (e_obj e) g"
  have e': "e' = e\<lparr>e_valid := False, e_fd := - 1, e_fd_dup := - 1\<rparr>"
    and g': "g' = (if img \<and> 0 \<le> e_fd_dup e then close_own (e_fd_dup e) ?g1 else ?g1)"
    using assms True by (simp_all add: cache_entry_destroy_def Let_def)
  have "same_objs ?g1 g'" unfolding g' by simp
  then have "drops_objs (obj_of e) g g'"
    using destroy_obj_account [of "e_obj e" g] True by (simp add: drops_objs_def obj_of_def same_objs_def)
  then show ?thesis unfolding e' by simp
qed

text \<open>
  What a lookup may do to slot \<open>i\<close> of its cache and to the objects: find the import there, empty the
  slot or find it empty and fail to fill it, or fill it.
\<close>

definition slot_hit :: "dma \<Rightarrow> int \<Rightarrow> 'k \<Rightarrow> u64 \<Rightarrow> nat \<Rightarrow> 'k cache \<Rightarrow> gpu \<Rightarrow> nat \<Rightarrow> 'k cache \<Rightarrow> gpu \<Rightarrow> bool" where
  "slot_hit D fd k now i c g ob c' g' \<longleftrightarrow> e_valid (entries c ! i) \<and> e_fd (entries c ! i) = fd \<and> e_key (entries c ! i) = k \<and>
     (get_fd_inode D fd = 0 \<or> e_inode (entries c ! i) = 0 \<or> e_inode (entries c ! i) = get_fd_inode D fd) \<and>
     ob = e_obj (entries c ! i) \<and> g' = g \<and> c' = c\<lparr>entries := (entries c)[i := (entries c ! i)\<lparr>e_last_used := now\<rparr>]\<rparr>"

definition slot_fail :: "nat \<Rightarrow> 'k cache \<Rightarrow> gpu \<Rightarrow> 'k cache \<Rightarrow> gpu \<Rightarrow> bool" where
  "slot_fail i c g c' g' \<longleftrightarrow> (\<exists>e. entries c' = (entries c)[i := e] \<and>
     (if e_valid (entries c ! i) then \<not> e_valid e else e = entries c ! i) \<and> e_last_used e = e_last_used (entries c ! i)) \<and>
     drops_objs (obj_of (entries c ! i)) g g'"

definition slot_fill ::
    "(nat \<Rightarrow> slot_id) \<Rightarrow> dma \<Rightarrow> int \<Rightarrow> 'k \<Rightarrow> u64 \<Rightarrow> nat \<Rightarrow> 'k cache \<Rightarrow> gpu \<Rightarrow> nat \<Rightarrow> 'k cache \<Rightarrow> gpu \<Rightarrow> bool" where
  "slot_fill mk D fd k now i c g ob c' g' \<longleftrightarrow> ob = next_obj g \<and>
     (\<exists>e h. entries c' = (entries c)[i := e] \<and> e_valid e \<and> e_fd e = fd \<and> e_key e = k \<and> e_obj e = ob \<and>
        e_inode e = get_fd_inode D fd \<and> e_last_used e = now \<and>
        drops_objs (obj_of (entries c ! i)) g h \<and> adds_obj (mk i) (behind D fd) h g')"

lemma drops_objs_same: "drops_objs X g h \<Longrightarrow> same_objs h h' \<Longrightarrow> drops_objs X g h'"
  by (simp add: drops_objs_def same_objs_def)

lemma adds_obj_same: "same_objs h h' \<Longrightarrow> adds_obj \<sigma> b h' g \<Longrightarrow> adds_obj \<sigma> b h g"
  by (simp add: adds_obj_def same_objs_def)

lemma cache_import_account:
  assumes im: "cache_import mk D a now fd k i c1 g1 = (x, c', g')"
    and c1: "entries c1 = (entries c)[i := e]" "if e_valid (entries c ! i) then \<not> e_valid e else e = entries c ! i"
      "e_last_used e = e_last_used (entries c ! i)"
    and g1: "drops_objs (obj_of (entries c ! i)) g g1"
  shows "entry_count c' = entry_count c1 \<and> (case x of
      None \<Rightarrow> slot_fail i c g c' g' | Some ob \<Rightarrow> slot_fill mk D fd k now i c g ob c' g')"
proof (cases "i_dup a")
  case None
  then show ?thesis using im c1 g1 by (auto simp: cache_import_def slot_fail_def)
next
  case (Some d)
  let ?h = "g1\<lparr>own_fds := insert d (own_fds g1)\<rparr>"
  obtain y g2 where imp: "import_dmabuf (i_reply a) (mk i) d (behind D fd) ?h = (y, g2)" by fastforce
  have h: "drops_objs (obj_of (entries c ! i)) g ?h" by (rule drops_objs_same [OF g1]) simp
  show ?thesis
  proof (cases y)
    case None
    then have "drops_objs (obj_of (entries c ! i)) g g2"
      using import_dmabuf_account [OF imp] drops_objs_same [OF h] by simp
    then show ?thesis using im Some imp None c1 by (auto simp: cache_import_def slot_fail_def)
  next
    case (Some ob)
    then have "ob = next_obj ?h" "adds_obj (mk i) (behind D fd) ?h g2"
      using import_dmabuf_account [OF imp] by simp_all
    moreover have "next_obj ?h = next_obj g" using h by (simp add: drops_objs_def)
    moreover from im \<open>i_dup a = _\<close> imp Some c1(1) have "x = Some ob" "g' = g2" "entry_count c' = entry_count c1"
        "entries c' = (entries c)[i := \<lparr>e_fd = fd, e_fd_dup = d, e_inode = get_fd_inode D fd, e_obj = ob, e_key = k,
           e_valid = True, e_last_used = now\<rparr>]"
      by (auto simp: cache_import_def)
    ultimately show ?thesis using h unfolding slot_fill_def
      by (auto intro!: exI [of _ "\<lparr>e_fd = fd, e_fd_dup = d, e_inode = get_fd_inode D fd, e_obj = ob, e_key = k,
           e_valid = True, e_last_used = now\<rparr>"])
  qed
qed

lemma cache_replace_account:
  assumes "cache_replace img mk D a now fd k i c g = (x, c', g')"
  shows "entry_count c' = entry_count c \<and> (case x of
      None \<Rightarrow> slot_fail i c g c' g' | Some ob \<Rightarrow> slot_fill mk D fd k now i c g ob c' g')"
proof -
  obtain e g1 where d: "cache_entry_destroy img (entries c ! i) g = (e, g1)" by fastforce
  have "e = entries c ! i" if "\<not> e_valid (entries c ! i)" using d that by (simp add: cache_entry_destroy_def)
  then show ?thesis
    using cache_import_account [of mk D a now fd k i "c\<lparr>entries := (entries c)[i := e]\<rparr>" g1 x c' g' c e g] assms d entry_destroy_account [OF d]
    by (auto simp: cache_replace_def)
qed

text \<open>A well-formed cache: every valid entry holds a live object made for its slot.\<close>

definition entry_ok :: "(nat \<Rightarrow> u64) \<Rightarrow> slot_id \<Rightarrow> 'k cache_entry \<Rightarrow> gpu \<Rightarrow> bool" where
  "entry_ok ino \<sigma> e g \<longleftrightarrow> (e_valid e \<longrightarrow> e_obj e \<in> live g \<and> e_obj e < next_obj g \<and> owner g (e_obj e) = \<sigma> \<and>
     (e_inode e = 0 \<or> e_inode e = ino (content g (e_obj e))))"

definition cache_ok :: "(nat \<Rightarrow> u64) \<Rightarrow> (nat \<Rightarrow> slot_id) \<Rightarrow> 'k cache \<Rightarrow> gpu \<Rightarrow> bool" where
  "cache_ok ino mk c g \<longleftrightarrow> length (entries c) = DMABUF_CACHE_SIZE \<and> entry_count c \<le> DMABUF_CACHE_SIZE \<and>
     (\<forall>i < DMABUF_CACHE_SIZE. entry_ok ino (mk i) (entries c ! i) g \<and> (e_valid (entries c ! i) \<longrightarrow> i < entry_count c))"

lemma cache_search_Some:
  "cache_search fd k es n = Some i \<Longrightarrow>
   \<exists>j < length es. i = n + j \<and> e_valid (es ! j) \<and> e_fd (es ! j) = fd \<and> e_key (es ! j) = k"
proof (induction fd k es n rule: cache_search.induct)
  case (2 fd k e es n)
  show ?case
  proof (cases "e_valid e \<and> e_fd e = fd \<and> e_key e = k")
    case True
    then show ?thesis using 2(2) by (intro exI [of _ 0]) auto
  next
    case False
    then obtain j where "j < length es" "i = Suc n + j" "e_valid (es ! j)" "e_fd (es ! j) = fd" "e_key (es ! j) = k"
      using 2 by (auto split: if_splits)
    then show ?thesis by (intro exI [of _ "Suc j"]) simp
  qed
qed simp

lemma cache_search_None:
  "cache_search fd k es n = None \<longleftrightarrow> (\<forall>e \<in> set es. \<not> (e_valid e \<and> e_fd e = fd \<and> e_key e = k))"
  by (induction fd k es n rule: cache_search.induct) auto

lemma least_recent_Some:
  "least_recent es b slot n = Some i \<Longrightarrow> (n \<le> i \<and> i < n + length es) \<or> slot = Some i"
proof (induction es b slot n rule: least_recent.induct)
  case (2 e es b slot n)
  then show ?case by (fastforce split: if_splits)
qed simp

lemma least_recent_None: "least_recent es b slot n = None \<Longrightarrow> slot = None \<and> (\<forall>e \<in> set es. b \<le> e_last_used e)"
proof (induction es b slot n rule: least_recent.induct)
  case (2 e es b slot n)
  then show ?case by (auto simp: not_less split: if_splits)
qed simp

lemma cache_get_account:
  assumes g: "cache_get img mk D a now fd k c g = (x, c', g')" and ok: "cache_ok ino mk c g"
  shows "(\<exists>i < DMABUF_CACHE_SIZE. entry_count c \<le> entry_count c' \<and> entry_count c' \<le> DMABUF_CACHE_SIZE \<and> i < entry_count c' \<and>
      (case x of None \<Rightarrow> slot_fail i c g c' g'
       | Some ob \<Rightarrow> slot_hit D fd k now i c g ob c' g' \<or> slot_fill mk D fd k now i c g ob c' g'))
    \<or> (x = None \<and> c' = c \<and> g' = misused No_slot g \<and> (\<forall>e \<in> set (entries c). e_last_used e = - 1))"
proof -
  have len: "length (entries c) = DMABUF_CACHE_SIZE" "entry_count c \<le> DMABUF_CACHE_SIZE" using ok by (simp_all add: cache_ok_def)
  let ?s = "cache_search fd k (take (entry_count c) (entries c)) 0"
  consider (found) i where "?s = Some i" | (room) "?s = None" "entry_count c < DMABUF_CACHE_SIZE"
    | (full) "?s = None" "entry_count c = DMABUF_CACHE_SIZE" using len(2) by (cases ?s) fastforce+
  then show ?thesis
  proof cases
    case found
    then have i: "i < entry_count c" "e_valid (entries c ! i)" "e_fd (entries c ! i) = fd" "e_key (entries c ! i) = k"
      using cache_search_Some [OF found] len by auto
    show ?thesis
    proof (cases "get_fd_inode D fd \<noteq> 0 \<and> e_inode (entries c ! i) \<noteq> 0 \<and> e_inode (entries c ! i) \<noteq> get_fd_inode D fd")
      case True
      then have "cache_replace img mk D a now fd k i c g = (x, c', g')" using g found by (simp add: cache_get_def Let_def)
      from cache_replace_account [OF this] i len show ?thesis by (intro disjI1 exI [of _ i]) (auto split: option.splits)
    next
      case False
      then have "slot_hit D fd k now i c g (e_obj (entries c ! i)) c' g'" "x = Some (e_obj (entries c ! i))"
        using g found i by (auto simp: cache_get_def Let_def slot_hit_def)
      then show ?thesis using i len by (intro disjI1 exI [of _ i]) (auto simp: slot_hit_def)
    qed
  next
    case room
    let ?i = "entry_count c"
    have inv: "\<not> e_valid (entries c ! ?i)" using ok room(2) by (auto simp: cache_ok_def)
    have "cache_import mk D a now fd k ?i (c\<lparr>entry_count := Suc ?i\<rparr>) g = (x, c', g')"
      using g room by (simp add: cache_get_def)
    from cache_import_account [OF this, of c "entries c ! ?i" g] inv room len show ?thesis
      by (intro disjI1 exI [of _ ?i]) (auto simp: obj_of_def drops_objs_def split: option.splits)
  next
    case full
    show ?thesis
    proof (cases "least_recent (entries c) (- 1) None 0")
      case None
      then have "x = None \<and> c' = c \<and> g' = misused No_slot g" using g full by (simp add: cache_get_def)
      moreover have "\<forall>e \<in> set (entries c). e_last_used e = - 1"
        using least_recent_None [OF None] by (auto simp: word_order.extremum_unique)
      ultimately show ?thesis by blast
    next
      case (Some i)
      then have i: "i < DMABUF_CACHE_SIZE" using least_recent_Some [OF Some] len by auto
      have "cache_replace img mk D a now fd k i c g = (x, c', g')" using g full Some by (simp add: cache_get_def)
      from cache_replace_account [OF this] i full show ?thesis by (intro disjI1 exI [of _ i]) (auto split: option.splits)
    qed
  qed
qed

lemma cache_get_cases:
  assumes "cache_get img mk D a now fd k c g = (x, c', g')" "cache_ok ino mk c g"
  obtains (hit) i ob where "x = Some ob" "slot_hit D fd k now i c g ob c' g'"
      "i < DMABUF_CACHE_SIZE" "i < entry_count c'" "entry_count c \<le> entry_count c'" "entry_count c' \<le> DMABUF_CACHE_SIZE"
  | (fill) i ob where "x = Some ob" "slot_fill mk D fd k now i c g ob c' g'"
      "i < DMABUF_CACHE_SIZE" "i < entry_count c'" "entry_count c \<le> entry_count c'" "entry_count c' \<le> DMABUF_CACHE_SIZE"
  | (fail) i where "x = None" "slot_fail i c g c' g'"
      "i < DMABUF_CACHE_SIZE" "i < entry_count c'" "entry_count c \<le> entry_count c'" "entry_count c' \<le> DMABUF_CACHE_SIZE"
  | (wrapped) "x = None" "c' = c" "g' = misused No_slot g" "\<forall>e \<in> set (entries c). e_last_used e = - 1"
  using cache_get_account [OF assms] by (cases x) auto

section \<open>Caches stay well formed\<close>

text \<open>The objects of other caches stay as they are.\<close>

definition grown :: "slot_id set \<Rightarrow> gpu \<Rightarrow> gpu \<Rightarrow> bool" where
  "grown K g g' \<longleftrightarrow> next_obj g \<le> next_obj g' \<and> running g' = running g \<and> fences g' = fences g \<and>
     (\<forall>ob < next_obj g. owner g' ob = owner g ob \<and> content g' ob = content g ob \<and> (ob \<in> live g' \<longrightarrow> ob \<in> live g) \<and>
        (ob \<in> live g \<longrightarrow> ob \<in> live g' \<or> owner g ob \<in> K))"

lemma grown_refl [simp]: "grown K g g"
  by (simp add: grown_def)

lemma grown_trans: "grown K g h \<Longrightarrow> grown K h k \<Longrightarrow> grown K g k"
  unfolding grown_def by (metis (no_types, lifting) order_less_le_trans order_trans)

lemma grown_mono: "grown K g h \<Longrightarrow> K \<subseteq> K' \<Longrightarrow> grown K' g h"
  unfolding grown_def by blast

lemma entry_ok_grown: "entry_ok ino \<sigma> e g \<Longrightarrow> grown K g g' \<Longrightarrow> \<sigma> \<notin> K \<Longrightarrow> entry_ok ino \<sigma> e g'"
  unfolding entry_ok_def grown_def by (metis order_less_le_trans)

lemma cache_ok_grown: "cache_ok ino mk c g \<Longrightarrow> grown K g g' \<Longrightarrow> range mk \<inter> K = {} \<Longrightarrow> cache_ok ino mk c g'"
  unfolding cache_ok_def using entry_ok_grown by blast

lemma drops_objs_grown:
  assumes "drops_objs (obj_of e) g g'" "entry_ok ino \<sigma> e g"
  shows "grown {\<sigma>} g g'"
  using assms by (auto simp: drops_objs_def grown_def obj_of_def entry_ok_def split: if_splits)

lemma adds_obj_grown: "adds_obj \<sigma> b g g' \<Longrightarrow> grown {} g g'"
  by (auto simp: adds_obj_def grown_def)

lemma slot_grown:
  assumes "entry_ok ino (mk i) (entries c ! i) g"
  shows "slot_fail i c g c' g' \<Longrightarrow> grown {mk i} g g'" and "slot_fill mk D fd k now i c g ob c' g' \<Longrightarrow> grown {mk i} g g'"
proof -
  show "slot_fail i c g c' g' \<Longrightarrow> grown {mk i} g g'" using drops_objs_grown [OF _ assms] by (auto simp: slot_fail_def)
  assume "slot_fill mk D fd k now i c g ob c' g'"
  then obtain h where h: "drops_objs (obj_of (entries c ! i)) g h" "adds_obj (mk i) (behind D fd) h g'"
    by (auto simp: slot_fill_def)
  show "grown {mk i} g g'"
    using grown_trans [OF drops_objs_grown [OF h(1) assms]] grown_mono [OF adds_obj_grown [OF h(2)]] by blast
qed

lemma cache_get_grown:
  assumes g: "cache_get img mk D a now fd k c g = (x, c', g')" and ok: "cache_ok ino mk c g"
  shows "grown (range mk) g g'"
proof -
  have at: "entry_ok ino (mk i) (entries c ! i) g" if "i < DMABUF_CACHE_SIZE" for i using ok that by (simp add: cache_ok_def)
  have sub: "grown {mk i} g g' \<Longrightarrow> grown (range mk) g g'" for i by (erule grown_mono) auto
  from g ok show ?thesis
  proof (cases rule: cache_get_cases)
    case hit
    then show ?thesis by (simp add: slot_hit_def)
  next
    case fill
    show ?thesis by (rule sub [OF slot_grown(2) [OF at [OF fill(3)] fill(2)]])
  next
    case fail
    show ?thesis by (rule sub [OF slot_grown(1) [of ino mk, OF at [OF fail(3)] fail(2)]])
  next
    case wrapped
    then show ?thesis by (simp add: misused_def grown_def)
  qed
qed

lemma cache_ok_slot:
  assumes ok: "cache_ok ino mk c g" and gr: "grown {mk i} g g'" and inj: "inj mk" and i: "i < DMABUF_CACHE_SIZE" "i < n"
    and c': "entries c' = (entries c)[i := e]" "entry_count c' = n" "entry_count c \<le> n" "n \<le> DMABUF_CACHE_SIZE"
    and e: "entry_ok ino (mk i) e g'"
  shows "cache_ok ino mk c' g'"
proof -
  have "entry_ok ino (mk j) (entries c' ! j) g' \<and> (e_valid (entries c' ! j) \<longrightarrow> j < n)" if "j < DMABUF_CACHE_SIZE" for j
  proof (cases "j = i")
    case True
    then show ?thesis using c' e i ok by (simp add: cache_ok_def)
  next
    case False
    then have "mk j \<notin> {mk i}" using inj by (auto dest: injD)
    then show ?thesis using ok that False c' entry_ok_grown [OF _ gr, of ino "mk j"]
      by (fastforce simp: cache_ok_def)
  qed
  then show ?thesis using c' ok by (simp add: cache_ok_def)
qed

lemma cache_get_ok:
  assumes g: "cache_get img mk D a now fd k c g = (x, c', g')" and ok: "cache_ok ino mk c g"
    and inj: "inj mk" and ino: "inode_of D = ino"
  shows "cache_ok ino mk c' g'"
proof -
  have at: "entry_ok ino (mk i) (entries c ! i) g" if "i < DMABUF_CACHE_SIZE" for i using ok that by (simp add: cache_ok_def)
  from g ok show ?thesis
  proof (cases rule: cache_get_cases)
    case (hit i ob)
    then show ?thesis using at [OF hit(3)]
      by (intro cache_ok_slot [OF ok _ inj hit(3,4) _ refl hit(5,6)]) (auto simp: slot_hit_def entry_ok_def)
  next
    case (fill i ob)
    then obtain e h where e: "entries c' = (entries c)[i := e]" "e_obj e = next_obj g" "e_inode e = get_fd_inode D fd"
      "drops_objs (obj_of (entries c ! i)) g h" "adds_obj (mk i) (behind D fd) h g'" by (auto simp: slot_fill_def)
    have "entry_ok ino (mk i) e g'"
      using e ino by (auto simp: entry_ok_def adds_obj_def drops_objs_def get_fd_inode_def)
    then show ?thesis
      by (rule cache_ok_slot [OF ok slot_grown(2) [OF at [OF fill(3)] fill(2)] inj fill(3,4) e(1) refl fill(5,6)])
  next
    case (fail i)
    then obtain e where e: "entries c' = (entries c)[i := e]"
        "if e_valid (entries c ! i) then \<not> e_valid e else e = entries c ! i" by (auto simp: slot_fail_def)
    then have "entry_ok ino (mk i) e g'" by (auto simp: entry_ok_def split: if_splits)
    then show ?thesis
      by (rule cache_ok_slot [OF ok slot_grown(1) [of ino mk, OF at [OF fail(3)] fail(2)] inj fail(3,4) e(1) refl fail(5,6)])
  next
    case wrapped
    then show ?thesis using cache_ok_grown [OF ok, of "{}" g'] by (simp add: grown_def misused_def)
  qed
qed

text \<open>Nothing is misused when no work is running and the clock of the cache has not wrapped.\<close>

definition aged :: "'k cache \<Rightarrow> bool" where
  "aged c \<longleftrightarrow> (\<forall>e \<in> set (entries c). e_last_used e \<noteq> - 1)"

lemma cache_get_unmisused:
  assumes g: "cache_get img mk D a now fd k c g = (x, c', g')" and ok: "cache_ok ino mk c g"
    and idle: "running g = {}" and ag: "aged c" and now: "now \<noteq> - 1"
  shows "misuses g' = misuses g \<and> aged c'"
proof -
  have len: "length (entries c) = 2" using ok by (simp add: cache_ok_def DMABUF_CACHE_SIZE_def)
  then have ne: "entries c ! 0 \<in> set (entries c)" by (intro nth_mem) simp
  have upd: "aged c'" if "entries c' = (entries c)[i := e]" "e_last_used e \<noteq> - 1" for i e
    using ag that set_update_subset_insert [of "entries c" i e] by (auto simp: aged_def)
  have at: "e_last_used (entries c ! i) \<noteq> - 1" if "i < DMABUF_CACHE_SIZE" for i
    using ag that len by (auto simp: aged_def DMABUF_CACHE_SIZE_def)
  from g ok show ?thesis
  proof (cases rule: cache_get_cases)
    case (hit i ob)
    then show ?thesis using upd now by (auto simp: slot_hit_def)
  next
    case (fill i ob)
    then show ?thesis using idle upd now by (auto simp: slot_fill_def drops_objs_def adds_obj_def)
  next
    case (fail i)
    then show ?thesis using idle upd at by (auto simp: slot_fail_def drops_objs_def)
  next
    case wrapped
    then show ?thesis using ne ag by (auto simp: aged_def)
  qed
qed

section \<open>A hit is current\<close>

text \<open>The kernel numbers the buffers that exist apart, and \<open>fstat\<close> works.\<close>

definition inodes_tell :: "dma \<Rightarrow> int \<Rightarrow> gpu \<Rightarrow> bool" where
  "inodes_tell D fd g \<longleftrightarrow> stats D fd \<and> inode_of D (behind D fd) \<noteq> 0 \<and>
     (\<forall>ob \<in> live g. inode_of D (content g ob) = inode_of D (behind D fd) \<longrightarrow> content g ob = behind D fd)"

definition known :: "'k cache_entry \<Rightarrow> bool" where
  "known e \<longleftrightarrow> (e_valid e \<longrightarrow> e_inode e \<noteq> 0)"

lemma cache_get_current:
  assumes g: "cache_get img mk D a now fd k c g = (Some ob, c', g')" and ok: "cache_ok (inode_of D) mk c g"
    and D: "inodes_tell D fd g" and known: "\<forall>e \<in> set (entries c). known e"
  shows "ob \<in> live g' \<and> content g' ob = behind D fd \<and> (\<forall>e \<in> set (entries c'). known e)"
proof -
  have len: "length (entries c) = DMABUF_CACHE_SIZE" using ok by (simp add: cache_ok_def)
  have upd: "\<forall>e \<in> set (entries c'). known e" if "entries c' = (entries c)[i := e]" "known e" for i e
    using known that set_update_subset_insert [of "entries c" i e] by auto
  have ino: "get_fd_inode D fd = inode_of D (behind D fd)" "get_fd_inode D fd \<noteq> 0"
    using D by (simp_all add: inodes_tell_def get_fd_inode_def)
  from g ok show ?thesis
  proof (cases rule: cache_get_cases)
    case (hit i ob')
    then have ob: "ob = e_obj (entries c ! i)" "e_valid (entries c ! i)" "g' = g"
        "e_inode (entries c ! i) = 0 \<or> e_inode (entries c ! i) = get_fd_inode D fd"
      using ino by (auto simp: slot_hit_def)
    have kn: "known (entries c ! i)" using known hit(3) len by simp
    moreover have "entry_ok (inode_of D) (mk i) (entries c ! i) g" using ok hit(3) by (simp add: cache_ok_def)
    ultimately have "ob \<in> live g" "inode_of D (content g ob) = inode_of D (behind D fd)"
      using ob ino by (auto simp: entry_ok_def known_def)
    then show ?thesis using D ob(3) hit(2) upd kn by (auto simp: inodes_tell_def slot_hit_def known_def)
  next
    case (fill i ob')
    then obtain e h where e: "entries c' = (entries c)[i := e]" "e_inode e = get_fd_inode D fd"
        "next_obj h = next_obj g" "adds_obj (mk i) (behind D fd) h g'" "ob = next_obj g"
      by (auto simp: slot_fill_def drops_objs_def)
    then show ?thesis using upd ino(2) by (auto simp: adds_obj_def known_def)
  qed simp_all
qed

lemma output_cache_get_current:
  assumes g: "output_cache_get D a fd sz s = (Some ob, s')" and ok: "entry_ok (inode_of D) Output_slot (cached_output s) (device s)"
    and D: "inodes_tell D fd (device s)" and kn: "known (cached_output s)"
  shows "ob \<in> live (device s') \<and> content (device s') ob = behind D fd \<and> known (cached_output s')"
proof -
  have ino: "get_fd_inode D fd = inode_of D (behind D fd)" "get_fd_inode D fd \<noteq> 0"
    using D by (simp_all add: inodes_tell_def get_fd_inode_def)
  let ?e = "cached_output s"
  show ?thesis
  proof (cases "e_valid ?e \<and> e_fd ?e = fd \<and> e_key ?e = sz \<and>
      (get_fd_inode D fd = 0 \<or> e_inode ?e = 0 \<or> get_fd_inode D fd = e_inode ?e)")
    case True
    then have "ob = e_obj ?e" "s' = s" using g by (auto simp: output_cache_get_def Let_def)
    then show ?thesis using True ok D kn ino by (auto simp: entry_ok_def known_def inodes_tell_def)
  next
    case False
    obtain e1 g1 where d: "cache_entry_destroy False ?e (device s) = (e1, g1)" by fastforce
    note step = g [unfolded output_cache_get_def Let_def if_not_P [OF False] d prod.case]
    obtain n where n: "i_dup a = Some n" using step by (cases "i_dup a") auto
    obtain x g2 where im: "import_dmabuf (i_reply a) Output_slot n (behind D fd) (g1\<lparr>own_fds := insert n (own_fds g1)\<rparr>) = (x, g2)"
      by fastforce
    have x: "x = Some ob" and s': "device s' = g2" "e_inode (cached_output s') = get_fd_inode D fd"
      using step n im by (auto split: option.splits)
    show ?thesis using import_dmabuf_account [OF im] x s' ino(2) by (auto simp: adds_obj_def known_def)
  qed
qed

lemma image_cache_getE:
  assumes "image_cache_get D a fd k s = (x, s')"
  obtains c g where "cache_get True Image_slot D a (vk_frame_count s) fd k (image_cache s) (device s) = (x, c, g)"
    "s' = s\<lparr>image_cache := c, device := g\<rparr>"
proof -
  obtain y c g where "cache_get True Image_slot D a (vk_frame_count s) fd k (image_cache s) (device s) = (y, c, g)"
    by (metis surj_pair)
  with assms that show ?thesis by (simp add: image_cache_get_def)
qed

lemma input_cache_getE:
  assumes "input_cache_get D a fd k s = (x, s')"
  obtains c g where "cache_get False Input_slot D a (vk_frame_count s) fd k (input_cache s) (device s) = (x, c, g)"
    "s' = s\<lparr>input_cache := c, device := g\<rparr>"
proof -
  obtain y c g where "cache_get False Input_slot D a (vk_frame_count s) fd k (input_cache s) (device s) = (y, c, g)"
    by (metis surj_pair)
  with assms that show ?thesis by (simp add: input_cache_get_def)
qed

lemma inj_slots [simp]: "inj Image_slot" "inj Input_slot"
  by (simp_all add: inj_def)

lemma image_cache_get_current:
  assumes g: "image_cache_get D a fd k s = (Some ob, s')" and ok: "cache_ok (inode_of D) Image_slot (image_cache s) (device s)"
    and D: "inodes_tell D fd (device s)" and kn: "\<forall>e \<in> set (entries (image_cache s)). known e"
  shows "ob \<in> live (device s') \<and> content (device s') ob = behind D fd \<and>
    cache_ok (inode_of D) Image_slot (image_cache s') (device s') \<and> (\<forall>e \<in> set (entries (image_cache s')). known e)"
proof -
  from g obtain c h where c: "cache_get True Image_slot D a (vk_frame_count s) fd k (image_cache s) (device s) = (Some ob, c, h)"
    "s' = s\<lparr>image_cache := c, device := h\<rparr>" by (rule image_cache_getE)
  show ?thesis using cache_get_current [OF c(1) ok D kn] cache_get_ok [OF c(1) ok] c(2) by simp
qed

lemma input_cache_get_current:
  assumes g: "input_cache_get D a fd k s = (Some ob, s')" and ok: "cache_ok (inode_of D) Input_slot (input_cache s) (device s)"
    and D: "inodes_tell D fd (device s)" and kn: "\<forall>e \<in> set (entries (input_cache s)). known e"
  shows "ob \<in> live (device s') \<and> content (device s') ob = behind D fd \<and>
    cache_ok (inode_of D) Input_slot (input_cache s') (device s') \<and> (\<forall>e \<in> set (entries (input_cache s')). known e)"
proof -
  from g obtain c h where c: "cache_get False Input_slot D a (vk_frame_count s) fd k (input_cache s) (device s) = (Some ob, c, h)"
    "s' = s\<lparr>input_cache := c, device := h\<rparr>" by (rule input_cache_getE)
  show ?thesis using cache_get_current [OF c(1) ok D kn] cache_get_ok [OF c(1) ok] c(2) by simp
qed

text \<open>
  C15: The caches of imports are never stale. As long as \<open>fstat\<close> works and inodes tell the existing
  buffers apart, a lookup that succeeds, in the cache of images, of inputs or of the output, returns an
  existing import of the very buffer that is behind the descriptor now, also when the number of the
  descriptor was used for another buffer before; and the cache stays such that this holds again.
\<close>

theorem vk_import_current:
  assumes "cache_ok (inode_of D) Image_slot (image_cache s) (device s)" "cache_ok (inode_of D) Input_slot (input_cache s) (device s)"
      "entry_ok (inode_of D) Output_slot (cached_output s) (device s)" "inodes_tell D fd (device s)"
      "\<forall>e \<in> set (entries (image_cache s)). known e" "\<forall>e \<in> set (entries (input_cache s)). known e" "known (cached_output s)"
    and "(image_cache_get D a fd k s = (Some ob, s') \<or> input_cache_get D a fd sz s = (Some ob, s') \<or>
      output_cache_get D a fd sz s = (Some ob, s'))"
  shows "ob \<in> live (device s') \<and> content (device s') ob = behind D fd \<and>
    (\<forall>e \<in> set (entries (image_cache s')) . known e) \<and> (\<forall>e \<in> set (entries (input_cache s')). known e) \<and> known (cached_output s')"
  using assms(8)
proof (elim disjE)
  assume g: "image_cache_get D a fd k s = (Some ob, s')"
  then show ?thesis using image_cache_get_current [OF g assms(1,4,5)] assms(6,7) by (auto elim: image_cache_getE)
next
  assume g: "input_cache_get D a fd sz s = (Some ob, s')"
  then show ?thesis using input_cache_get_current [OF g assms(2,4,6)] assms(5,7) by (auto elim: input_cache_getE)
next
  assume g: "output_cache_get D a fd sz s = (Some ob, s')"
  moreover have "image_cache s' = image_cache s" "input_cache s' = input_cache s"
    using g by (auto simp: output_cache_get_def Let_def split: if_splits prod.splits option.splits)
  ultimately show ?thesis using output_cache_get_current [OF g assms(3,4,7)] assms(5,6) by simp
qed

text \<open>Descriptor 5 had been buffer 1 when it was imported and is buffer 2 now.\<close>

definition reused_dma :: dma where
  "reused_dma = \<lparr>behind = (\<lambda>fd. if fd = 5 then 2 else 3), inode_of = of_nat, stats = (\<lambda>_. True)\<rparr>"

definition blank_entry :: "'k \<Rightarrow> 'k cache_entry" where
  "blank_entry k = \<lparr>e_fd = 0, e_fd_dup = 0, e_inode = 0, e_obj = 0, e_key = k, e_valid = False, e_last_used = 0\<rparr>"

definition demo_gpu :: gpu where
  "demo_gpu = \<lparr>live = {0}, next_obj = 1, content = (\<lambda>_. 1), owner = (\<lambda>_. Image_slot 0), own_fds = {}, running = {},
     fences = (\<lambda>_. Signaled), misuses = [], bad_closes = []\<rparr>"

definition demo_key :: image_key where
  "demo_key = (1920, 1080, G8_B8R8_2PLANE_420_UNORM, 0, 0)"

definition demo_vk :: vk_ctx where
  "demo_vk = \<lparr>initialized = True, vk_frame_count = 0, input_cache = \<lparr>entries = [blank_entry 0, blank_entry 0], entry_count = 0\<rparr>,
     cached_output = blank_entry 0,
     image_cache = \<lparr>entries = [\<lparr>e_fd = 5, e_fd_dup = 9, e_inode = 1, e_obj = 0, e_key = demo_key, e_valid = True, e_last_used = 0\<rparr>,
       blank_entry demo_key], entry_count = 1\<rparr>,
     pools = (\<lambda>p. if p = Pool_nv12_y then pool_of [30, 31] else []), pending_in_fd = - 1, pending_out_fd = - 1,
     pending_out_fd2 = - 1, has_pending = False, pipeline_initialized = False, output_layout = LAYOUT_SINGLE_DMABUF,
     gfx_input = None, device = demo_gpu, syncs = {#}\<rparr>"

lemma demo_vk_ok:
  "cache_ok of_nat Image_slot (image_cache demo_vk) (device demo_vk)" "cache_ok of_nat Input_slot (input_cache demo_vk) (device demo_vk)"
  "entry_ok of_nat Output_slot (cached_output demo_vk) (device demo_vk)"
  by (simp_all add: demo_vk_def demo_gpu_def cache_ok_def entry_ok_def blank_entry_def DMABUF_CACHE_SIZE_def less_2_cases_iff all_conj_distrib)

theorem vk_import_current_witness:
  "\<exists>s'. image_cache_get reused_dma \<lparr>i_dup = Some 10, i_reply = Imported\<rparr> 5 demo_key demo_vk = (Some 1, s') \<and>
     content (device s') 1 = 2"
proof -
  let ?a = "\<lparr>i_dup = Some 10, i_reply = Imported\<rparr>"
  obtain s' where g: "image_cache_get reused_dma ?a 5 demo_key demo_vk = (Some 1, s')"
    by (simp add: image_cache_get_def cache_get_def cache_replace_def cache_entry_destroy_def cache_import_def import_dmabuf_def
        demo_vk_def demo_gpu_def get_fd_inode_def reused_dma_def destroy_obj_def close_own_def Let_def)
  have "inodes_tell reused_dma 5 (device demo_vk)" by (simp add: inodes_tell_def reused_dma_def demo_vk_def demo_gpu_def)
  moreover have "\<forall>e \<in> set (entries (image_cache demo_vk)). known e" "\<forall>e \<in> set (entries (input_cache demo_vk)). known e"
      "known (cached_output demo_vk)" by (simp_all add: demo_vk_def known_def blank_entry_def)
  moreover have "inode_of reused_dma = of_nat" "behind reused_dma 5 = 2" by (simp_all add: reused_dma_def)
  ultimately show ?thesis
    using vk_import_current [of reused_dma demo_vk 5 ?a demo_key 1 s' 0] g demo_vk_ok by auto
qed

section \<open>Two slots for three images\<close>

lemma image_cache_get_slot:
  assumes g: "image_cache_get D a fd k s = (Some ob, s')" and ok: "cache_ok (inode_of D) Image_slot (image_cache s) (device s)"
  obtains i where "i < DMABUF_CACHE_SIZE"
    "e_valid (entries (image_cache s') ! i)" "e_key (entries (image_cache s') ! i) = k" "e_obj (entries (image_cache s') ! i) = ob"
    "\<forall>j. j \<noteq> i \<longrightarrow> entries (image_cache s') ! j = entries (image_cache s) ! j"
    "e_valid (entries (image_cache s) ! i) \<and> e_key (entries (image_cache s) ! i) \<noteq> k \<longrightarrow>
       e_obj (entries (image_cache s) ! i) \<notin> live (device s')"
proof -
  from g obtain c h where c: "cache_get True Image_slot D a (vk_frame_count s) fd k (image_cache s) (device s) = (Some ob, c, h)"
    "s' = s\<lparr>image_cache := c, device := h\<rparr>" by (rule image_cache_getE)
  have len: "length (entries (image_cache s)) = DMABUF_CACHE_SIZE" using ok by (simp add: cache_ok_def)
  from c(1) ok show ?thesis
  proof (cases rule: cache_get_cases)
    case (hit i ob')
    then show ?thesis using that [of i] c(2) len by (auto simp: slot_hit_def)
  next
    case (fill i ob')
    then obtain e m where e: "entries c = (entries (image_cache s))[i := e]" "e_valid e" "e_key e = k" "e_obj e = ob"
        "drops_objs (obj_of (entries (image_cache s) ! i)) (device s) m" "adds_obj (Image_slot i) (behind D fd) m h"
      by (auto simp: slot_fill_def)
    have "e_obj (entries (image_cache s) ! i) \<notin> live h" if "e_valid (entries (image_cache s) ! i)"
      using that e(5,6) ok fill(3) by (auto simp: drops_objs_def adds_obj_def obj_of_def cache_ok_def entry_ok_def)
    then show ?thesis using that [of i] e c(2) len fill(3) by simp
  qed simp_all
qed

lemma image_cache_get_device:
  assumes g: "image_cache_get D a fd k s = (x, s')" and ok: "cache_ok (inode_of D) Image_slot (image_cache s) (device s)"
  shows "grown (range Image_slot) (device s) (device s')" "cache_ok (inode_of D) Image_slot (image_cache s') (device s')"
    "\<exists>ms. misuses (device s') = misuses (device s) @ ms"
proof -
  from g obtain c h where c: "cache_get True Image_slot D a (vk_frame_count s) fd k (image_cache s) (device s) = (x, c, h)"
    "s' = s\<lparr>image_cache := c, device := h\<rparr>" by (rule image_cache_getE)
  show "grown (range Image_slot) (device s) (device s')" using cache_get_grown [OF c(1) ok] c(2) by simp
  show "cache_ok (inode_of D) Image_slot (image_cache s') (device s')" using cache_get_ok [OF c(1) ok] c(2) by simp
  from c(1) ok show "\<exists>ms. misuses (device s') = misuses (device s) @ ms"
    by (cases rule: cache_get_cases)
       (auto simp: c(2) slot_hit_def slot_fill_def slot_fail_def drops_objs_def adds_obj_def misused_def)
qed

lemma three_images:
  assumes ok: "cache_ok (inode_of D) Image_slot (image_cache s) (device s)"
    and g1: "image_cache_get D a1 f1 k1 s = (Some o1, s1)" and g2: "image_cache_get D a2 f2 k2 s1 = (Some o2, s2)"
    and g3: "image_cache_get D a3 f3 k3 s2 = (Some o3, s3)" and k: "k1 \<noteq> k2" "k1 \<noteq> k3" "k2 \<noteq> k3"
  shows "o1 \<notin> live (device s3) \<or> o2 \<notin> live (device s3)"
proof -
  note ok1 = image_cache_get_device(2) [OF g1 ok]
  note ok2 = image_cache_get_device(2) [OF g2 ok1]
  obtain i1 where 1: "i1 < DMABUF_CACHE_SIZE" "e_valid (entries (image_cache s1) ! i1)" "e_key (entries (image_cache s1) ! i1) = k1"
    "e_obj (entries (image_cache s1) ! i1) = o1" using image_cache_get_slot [OF g1 ok] by metis
  obtain i2 where 2: "i2 < DMABUF_CACHE_SIZE" "e_valid (entries (image_cache s2) ! i2)" "e_key (entries (image_cache s2) ! i2) = k2"
    "e_obj (entries (image_cache s2) ! i2) = o2" "i1 \<noteq> i2 \<longrightarrow> entries (image_cache s2) ! i1 = entries (image_cache s1) ! i1"
    "i1 = i2 \<longrightarrow> o1 \<notin> live (device s2)"
    using image_cache_get_slot [OF g2 ok1] 1 k(1) by metis
  obtain i3 where 3: "i3 < DMABUF_CACHE_SIZE" "e_valid (entries (image_cache s2) ! i3) \<and> e_key (entries (image_cache s2) ! i3) \<noteq> k3 \<longrightarrow>
    e_obj (entries (image_cache s2) ! i3) \<notin> live (device s3)" using image_cache_get_slot [OF g3 ok2] by metis
  show ?thesis
  proof (cases "i1 = i2")
    case True
    have "o1 < next_obj (device s1)" using ok1 1 by (auto simp: cache_ok_def entry_ok_def)
    then have "o1 \<notin> live (device s3)"
      using 2(6) True image_cache_get_device(1) [OF g2 ok1] image_cache_get_device(1) [OF g3 ok2]
      by (meson grown_def order_less_le_trans)
    then show ?thesis ..
  next
    case False
    then have "i3 = i1 \<or> i3 = i2" using 1(1) 2(1) 3(1) by (auto simp: DMABUF_CACHE_SIZE_def less_2_cases_iff)
    then show ?thesis using 1 2 3 k False by auto
  qed
qed

text \<open>
  C35: Rendering into two separate planes always draws with a destroyed image. The call imports the
  input and both planes through a cache of two slots, so that one of the lookups destroys an image that
  an earlier lookup of the same call returned; whenever the submission succeeds, the commands it
  recorded name an image that does not exist any more.
\<close>

theorem vk_two_planes_dangling:
  assumes ok: "cache_ok (inode_of D) Image_slot (image_cache s) (device s)"
    and r: "vfmcap_vk_render_submit D a in_fd y_fd uv_fd src dst fmt s = (True, s')"
  shows "\<exists>ms ob. misuses (device s') = misuses (device s) @ ms \<and> Destroyed_used ob \<in> set ms \<and> ob \<in> running (device s')"
proof -
  obtain fy fuv where pf: "plane_formats fmt = (fy, fuv)" "G8_B8R8_2PLANE_420_UNORM \<notin> {fy, fuv}" "fy \<noteq> fuv"
    by (cases fmt) simp_all
  define k1 k2 k3 where k: "k1 = (fst src, snd src, G8_B8R8_2PLANE_420_UNORM, 0 :: u64, 0 :: u32)"
    "k2 = (fst dst, snd dst, fy, 0 :: u64, 0 :: u32)" "k3 = (fst dst div 2, snd dst div 2, fuv, 0 :: u64, 0 :: u32)"
  have init: "initialized s" "plane_pools fmt \<noteq> None" using r by (auto simp: vfmcap_vk_render_submit_def split: if_splits)
  then have "\<not> (\<not> initialized s \<or> plane_pools fmt = None)" by simp
  note step = r [unfolded vfmcap_vk_render_submit_def if_not_P [OF this] pf(1) Let_def prod.case, folded k]
  obtain x s1 where g1: "image_cache_get D (c_in a) in_fd k1 s = (x, s1)" by fastforce
  obtain im where x: "x = Some im" using step g1 by (cases x) auto
  note step = step [unfolded g1 prod.case x option.case]
  obtain y s2 where g2: "image_cache_get D (c_out a) y_fd k2 s1 = (y, s2)" by fastforce
  obtain oy where y: "y = Some oy" using step g2 by (cases y) auto
  note step = step [unfolded g2 prod.case y option.case]
  obtain z s3 where g3: "image_cache_get D (c_out2 a) uv_fd k3 s2 = (z, s3)" by fastforce
  obtain ouv where z: "z = Some ouv" using step g3 by (cases z) auto
  note step = step [unfolded g3 prod.case z option.case]
  define s4 where "s4 = bind_input (c_work a) im (sync_start Sync_write uv_fd (sync_start Sync_write y_fd (sync_start Sync_read in_fd (first_fence s3))))"
  obtain ok4 s5 where w: "submit_work (c_work a) None [im, oy, ouv] s4 = (ok4, s5)" by fastforce
  have s': "ok4" "s' = set_pending in_fd y_fd uv_fd s5" using step w by (auto simp: s4_def)
  have k_ne: "k1 \<noteq> k2" "k1 \<noteq> k3" "k2 \<noteq> k3" using pf by (auto simp: k)
  note ok1 = image_cache_get_device(2) [OF g1 ok] and ok2 = image_cache_get_device(2) [OF g2 image_cache_get_device(2) [OF g1 ok]]
  obtain ob where ob: "ob \<in> {im, oy}" "ob \<notin> live (device s3)"
    using three_images [OF ok g1 [unfolded x] g2 [unfolded y] g3 [unfolded z] k_ne] by blast
  obtain ms where ms: "misuses (device s3) = misuses (device s) @ ms"
    using image_cache_get_device(3) [OF g1 ok] image_cache_get_device(3) [OF g2 ok1] image_cache_get_device(3) [OF g3 ok2] by auto
  obtain ms2 where s4: "live (device s4) = live (device s3)" "misuses (device s4) = misuses (device s3) @ ms2"
    using first_fence_device [of s3] by (auto simp: s4_def)
  have "\<exists>ms'. misuses (device s5) = misuses (device s4) @ ms' \<and> Destroyed_used ob \<in> set ms' \<and> ob \<in> running (device s5)"
    using w s'(1) ob s4(1) unfolding submit_work_def on_gpu_def reset_commands_def record_commands_def queue_submit_def misused_def
    by (auto simp: Let_def split: if_splits)
  then show ?thesis using ms s4 s'(2) by (auto simp: set_pending_def)
qed

definition good_work :: work_answer where
  "good_work = \<lparr>w_reset = True, w_begin = True, w_end = True, w_submit = True, w_wait = True\<rparr>"

definition good_convert :: convert_answer where
  "good_convert = \<lparr>c_in = \<lparr>i_dup = Some 10, i_reply = Imported\<rparr>, c_out = \<lparr>i_dup = Some 11, i_reply = Imported\<rparr>,
     c_out2 = \<lparr>i_dup = Some 12, i_reply = Imported\<rparr>, c_work = good_work\<rparr>"

text \<open>A lookup whose imports work succeeds.\<close>

lemma cache_get_succeeds:
  assumes "i_dup a = Some d" "i_reply a = Imported" "aged c" "entries c \<noteq> []"
  shows "\<exists>ob c' g'. cache_get img mk D a now fd k c g = (Some ob, c', g')"
proof -
  have im: "\<exists>ob c' g'. cache_import mk D a now fd k i c g = (Some ob, c', g')" for i c g
    using assms(1,2) by (simp add: cache_import_def import_dmabuf_def)
  have re: "\<exists>ob c' g'. cache_replace img mk D a now fd k i c g = (Some ob, c', g')" for i c g
    using im by (simp add: cache_replace_def split: prod.split)
  obtain e where "e \<in> set (entries c)" "e_last_used e \<noteq> - 1" using assms(3,4) by (cases "entries c") (auto simp: aged_def)
  then have "least_recent (entries c) (- 1) None 0 \<noteq> None"
    using least_recent_None [of "entries c" "- 1" None 0] by (auto simp: word_order.extremum_unique)
  then show ?thesis using im re by (auto simp: cache_get_def Let_def split: option.split)
qed

lemma image_cache_get_succeeds:
  assumes "i_dup a = Some d" "i_reply a = Imported" "cache_ok (inode_of D) Image_slot (image_cache s) (device s)"
    "aged (image_cache s)" "running (device s) = {}" "vk_frame_count s \<noteq> - 1"
  shows "\<exists>ob s'. image_cache_get D a fd k s = (Some ob, s') \<and> cache_ok (inode_of D) Image_slot (image_cache s') (device s') \<and>
    aged (image_cache s') \<and> running (device s') = {} \<and> vk_frame_count s' \<noteq> - 1"
proof -
  have ne: "entries (image_cache s) \<noteq> []" using assms(3) by (auto simp: cache_ok_def DMABUF_CACHE_SIZE_def)
  obtain ob c g where c: "cache_get True Image_slot D a (vk_frame_count s) fd k (image_cache s) (device s) = (Some ob, c, g)"
    using cache_get_succeeds [OF assms(1,2,4) ne] by blast
  show ?thesis using c cache_get_ok [OF c assms(3)] cache_get_unmisused [OF c assms(3,5,4,6)] cache_get_grown [OF c assms(3)] assms(5,6)
    by (auto simp: image_cache_get_def grown_def)
qed

theorem vk_two_planes_dangling_witness:
  "\<exists>s' ms ob. vfmcap_vk_render_submit reused_dma good_convert 5 30 31 (1920, 1080) (1920, 1080) VK_FMT_NV12 demo_vk = (True, s') \<and>
     misuses (device s') = ms \<and> Destroyed_used ob \<in> set ms"
proof -
  have ok: "cache_ok (inode_of reused_dma) Image_slot (image_cache demo_vk) (device demo_vk)"
    using demo_vk_ok by (simp add: reused_dma_def)
  let ?k1 = "(1920, 1080, G8_B8R8_2PLANE_420_UNORM, 0, 0)" and ?k2 = "(1920, 1080, R8_UNORM, 0, 0)" and ?k3 = "(960, 540, R8G8_UNORM, 0, 0)"
  have demo: "aged (image_cache demo_vk)" "running (device demo_vk) = {}" "vk_frame_count demo_vk \<noteq> - 1" "initialized demo_vk"
    by (simp_all add: demo_vk_def demo_gpu_def aged_def blank_entry_def)
  obtain o1 s1 where g1: "image_cache_get reused_dma (c_in good_convert) 5 ?k1 demo_vk = (Some o1, s1)"
    "cache_ok (inode_of reused_dma) Image_slot (image_cache s1) (device s1)" "aged (image_cache s1)" "running (device s1) = {}"
    "vk_frame_count s1 \<noteq> - 1"
    using image_cache_get_succeeds [of "c_in good_convert" 10 reused_dma demo_vk 5 ?k1] ok demo by (auto simp: good_convert_def)
  obtain o2 s2 where g2: "image_cache_get reused_dma (c_out good_convert) 30 ?k2 s1 = (Some o2, s2)"
    "cache_ok (inode_of reused_dma) Image_slot (image_cache s2) (device s2)" "aged (image_cache s2)" "running (device s2) = {}"
    "vk_frame_count s2 \<noteq> - 1"
    using image_cache_get_succeeds [of "c_out good_convert" 11 reused_dma s1 30 ?k2] g1(2-5) by (auto simp: good_convert_def)
  obtain o3 s3 where g3: "image_cache_get reused_dma (c_out2 good_convert) 31 ?k3 s2 = (Some o3, s3)"
    using image_cache_get_succeeds [of "c_out2 good_convert" 12 reused_dma s2 31 ?k3] g2(2-5) by (auto simp: good_convert_def)
  obtain s' where r: "vfmcap_vk_render_submit reused_dma good_convert 5 30 31 (1920, 1080) (1920, 1080) VK_FMT_NV12 demo_vk = (True, s')"
  proof -
    have half: "(1920 :: u32) div 2 = 960" "(1080 :: u32) div 2 = 540" by simp_all
    have work: "\<exists>s'. submit_work (c_work good_convert) None us t = (True, s')" for us t
      by (simp add: submit_work_def good_convert_def good_work_def Let_def)
    let ?t = "bind_input (c_work good_convert) o1 (sync_start Sync_write 31 (sync_start Sync_write 30 (sync_start Sync_read 5 (first_fence s3))))"
    obtain t where t: "submit_work (c_work good_convert) None [o1, o2, o3] ?t = (True, t)" using work by blast
    have "vfmcap_vk_render_submit reused_dma good_convert 5 30 31 (1920, 1080) (1920, 1080) VK_FMT_NV12 demo_vk =
        (True, set_pending 5 30 31 t)"
      unfolding vfmcap_vk_render_submit_def by (simp only: g1(1) g2(1) g3 t demo(4) half Let_def prod.case option.case
          plane_formats.simps plane_pools.simps fst_conv snd_conv simp_thms if_True if_False option.distinct)
    then show ?thesis by (rule that)
  qed
  obtain ms ob where "misuses (device s') = ms" "Destroyed_used ob \<in> set ms"
    using vk_two_planes_dangling [OF ok r] by (auto simp: demo_vk_def demo_gpu_def)
  then show ?thesis by (intro exI [of _ s'] exI [of _ ms] exI [of _ ob] conjI r)
qed

end
