(* ===== verification/Vk_Session.thy ===== *)
theory Vk_Session
  imports Vk_Caches "HOL-Library.Multiset"
begin

text \<open>
  Sessions with the Vulkan back end: any sequence of conversions, renders, releases and changes of the
  pools, together with the outputs the clients hold. That no output is lent twice is an invariant of
  every session (\<open>vkx\<close>, an interpretation of \<open>invariant_system\<close>).
\<close>

section \<open>Sessions\<close>

datatype vk_op =
    Op_submit dma convert_answer int int u32 u32 vk_fmt
  | Op_wait bool
  | Op_render dma convert_answer int "u32 \<times> u32" "u32 \<times> u32" vk_fmt
  | Op_afbc dma convert_answer int "u32 \<times> u32"
  | Op_afbc_10bit bool dma convert_answer int "u32 \<times> u32"
  | Op_render_10bit dma ten_answer int "u32 \<times> u32" vk_fmt
  | Op_release nat
  | Op_reconfig vk_fmt reconfig_answer

type_synonym vk_session = "vk_ctx \<times> output_ref list"

definition lend :: "output_ref option \<Rightarrow> output_ref list \<Rightarrow> output_ref list" where
  "lend x lent = (case x of None \<Rightarrow> lent | Some r \<Rightarrow> lent @ [r])"

text \<open>
  Clients release between the calls. A change of the pools ends the session of the outputs lent before it.
\<close>

fun vk_apply :: "vk_op \<Rightarrow> vk_session \<Rightarrow> vk_session" where
  "vk_apply (Op_submit D a i out w h fmt) (s, lent) = (snd (vfmcap_vk_convert_submit D a i out w h fmt s), lent)"
| "vk_apply (Op_wait ok) (s, lent) = (snd (vfmcap_vk_convert_wait ok s), lent)"
| "vk_apply (Op_render D a i src dst fmt) (s, lent) =
     (let (x, s') = vfmcap_vk_render_and_wait D a (\<lambda>_. []) i src dst fmt s in
      (s', lend (map_option (\<lambda>(y, uv). (fmt, y, uv)) x) lent))"
| "vk_apply (Op_afbc D a i src) (s, lent) =
     (let (x, s') = vfmcap_vk_render_afbc_nv12_and_wait D a i src s in
      (s', lend (map_option (\<lambda>fd. (VK_FMT_NV12_AFBC, fd, - 1)) x) lent))"
| "vk_apply (Op_afbc_10bit nv12 D a i src) (s, lent) =
     (let (x, s') = (if nv12 then vfmcap_vk_render_10bit_afbc_nv12_and_wait D a i src s
                     else vfmcap_vk_render_10bit_afbc_a2b10g10r10_and_wait D a i src s) in
      (s', lend (map_option (\<lambda>fd. (if nv12 then VK_FMT_NV12_AFBC else VK_FMT_A2B10G10R10_AFBC, fd, - 1)) x) lent))"
| "vk_apply (Op_render_10bit D a i src fmt) (s, lent) =
     (let (x, s') = vfmcap_vk_render_10bit_and_wait D a i src fmt s in
      (s', lend (map_option (\<lambda>(y, uv). (fmt, y, uv)) x) lent))"
| "vk_apply (Op_release k) (s, lent) =
     (if k < length lent then (release_ref (lent ! k) s, take k lent @ drop (Suc k) lent) else (s, lent))"
| "vk_apply (Op_reconfig fmt a) (s, lent) = (snd (vfmcap_vk_reconfig_pools fmt a s), [])"

text \<open>New pools consist of open descriptors, no two of them alike.\<close>

definition open_fds :: "int list \<Rightarrow> bool" where
  "open_fds fds \<longleftrightarrow> distinct fds \<and> (\<forall>fd \<in> set fds. 0 \<le> fd)"

definition planes_open :: "(int list \<times> int list) option \<Rightarrow> bool" where
  "planes_open x \<longleftrightarrow> (case x of None \<Rightarrow> True | Some (ys, uvs) \<Rightarrow> open_fds ys \<and> open_fds uvs)"

fun pools_open :: "vk_op \<Rightarrow> bool" where
  "pools_open (Op_reconfig fmt a) \<longleftrightarrow> (\<forall>ys. r_contiguous (g_pools a) = Some ys \<longrightarrow> open_fds ys) \<and>
     planes_open (r_separate (g_pools a)) \<and> planes_open (r_copyout (g_pools a)) \<and> (\<forall>fds. g_afbc a = Some fds \<longrightarrow> open_fds fds)"
| "pools_open _ \<longleftrightarrow> True"

definition vk_step :: "vk_session \<Rightarrow> vk_op \<Rightarrow> vk_session \<Rightarrow> bool" where
  "vk_step t l t' \<longleftrightarrow> pools_open l \<and> t' = vk_apply l t"

section \<open>What the calls do to the pools\<close>

lemma cache_get_pools:
  "image_cache_get D a fd k s = (x, s') \<Longrightarrow> pools s' = pools s"
  "input_cache_get D a fd sz s = (x, s') \<Longrightarrow> pools s' = pools s"
  "output_cache_get D a fd sz s = (x, s') \<Longrightarrow> pools s' = pools s"
  by (auto elim: image_cache_getE input_cache_getE simp: output_cache_get_def Let_def split: if_splits prod.splits option.splits)

lemma submit_work_pools: "submit_work a n used s = (ok, s') \<Longrightarrow> pools s' = pools s"
  by (auto simp: submit_work_def Let_def split: if_splits)

lemma end_outputs_pools [simp]: "pools (end_outputs s) = pools s"
  by (simp add: end_outputs_def Let_def)

lemma drop_input_pools [simp]: "pools (drop_input s) = pools s"
  by (simp add: drop_input_def Let_def split: prod.split)

lemma convert_wait_pools: "vfmcap_vk_convert_wait ok s = (r, s') \<Longrightarrow> pools s' = pools s"
  by (auto simp: vfmcap_vk_convert_wait_def Let_def split: if_splits)

lemma finish_afbc_pools [simp]: "pools (finish_afbc ok i fd s) = pools s"
  by (simp add: finish_afbc_def Let_def)

lemma convert_submit_pools: "vfmcap_vk_convert_submit D a i out w h fmt s = (ok, s') \<Longrightarrow> pools s' = pools s"
  by (auto simp: vfmcap_vk_convert_submit_def Let_def split: if_splits prod.splits option.splits
      dest!: cache_get_pools submit_work_pools)

lemma render_submit_pools: "vfmcap_vk_render_submit D a i y uv src dst fmt s = (ok, s') \<Longrightarrow> pools s' = pools s"
  by (auto simp: vfmcap_vk_render_submit_def Let_def split: if_splits prod.splits option.splits
      dest!: cache_get_pools submit_work_pools)

text \<open>
  A call that renders only adds entries in use, and those it reports were free before.
\<close>

definition pool_le :: "(pool_id \<Rightarrow> pool_entry list) \<Rightarrow> (pool_id \<Rightarrow> pool_entry list) \<Rightarrow> bool" where
  "pool_le P P' \<longleftrightarrow> (\<forall>p. map p_fd (P' p) = map p_fd (P p) \<and> (\<forall>i < length (P p). p_in_use (P p ! i) \<longrightarrow> p_in_use (P' p ! i)))"

definition unused :: "(pool_id \<Rightarrow> pool_entry list) \<Rightarrow> pool_id \<Rightarrow> nat \<Rightarrow> bool" where
  "unused P p i \<longleftrightarrow> i < length (P p) \<and> \<not> p_in_use (P p ! i)"

definition in_use :: "(pool_id \<Rightarrow> pool_entry list) \<Rightarrow> pool_id \<Rightarrow> nat \<Rightarrow> bool" where
  "in_use P p i \<longleftrightarrow> i < length (P p) \<and> p_in_use (P p ! i)"

lemma pool_le_refl [simp]: "pool_le P P"
  by (simp add: pool_le_def)

lemma pool_le_length: "pool_le P P' \<Longrightarrow> length (P' p) = length (P p)"
  unfolding pool_le_def by (metis length_map)

lemma pool_le_fd: "pool_le P P' \<Longrightarrow> i < length (P p) \<Longrightarrow> p_fd (P' p ! i) = p_fd (P p ! i)"
  unfolding pool_le_def by (metis length_map nth_map)

lemma pool_le_in_use: "pool_le P P' \<Longrightarrow> in_use P p i \<Longrightarrow> in_use P' p i"
  using pool_le_length [of P P' p] by (auto simp: in_use_def pool_le_def)

lemma set_in_use_le:
  assumes "pool_le (pools s) (pools t)" "unused (pools s) p i"
  shows "pool_le (pools s) (pools (set_in_use b p i t))"
proof -
  have len: "length (pools t q) = length (pools s q)" for q using pool_le_length [OF assms(1)] .
  have "map p_fd ((pools t p)[i := (pools t p ! i)\<lparr>p_in_use := b\<rparr>]) = map p_fd (pools t p)"
    using len [of p] assms(2) by (simp add: map_update unused_def) (metis length_map list_update_id nth_map)
  then show ?thesis using assms len by (auto simp: pool_le_def set_in_use_def unused_def nth_list_update)
qed

lemma release_le:
  "pool_le (pools s) (pools t) \<Longrightarrow> unused (pools s) p i \<Longrightarrow> pool_le (pools s) (pools (output_pool_release p i t))"
  using set_in_use_le [of s t p i False] by (simp add: output_pool_release_def)

lemma first_unused_Some: "first_unused es n = Some i \<Longrightarrow> \<exists>j < length es. i = n + j \<and> \<not> p_in_use (es ! j)"
proof (induction es n rule: first_unused.induct)
  case (2 e es n)
  show ?case
  proof (cases "p_in_use e")
    case True
    then obtain j where "j < length es" "i = Suc n + j" "\<not> p_in_use (es ! j)" using 2 by auto
    then show ?thesis by (intro exI [of _ "Suc j"]) simp
  next
    case False
    then show ?thesis using 2(2) by (intro exI [of _ 0]) simp
  qed
qed simp

lemma acquire_account:
  assumes "output_pool_acquire p s = (x, s')"
  shows "pool_le (pools s) (pools s') \<and> (case x of None \<Rightarrow> s' = s
    | Some i \<Rightarrow> unused (pools s) p i \<and> in_use (pools s') p i \<and> s' = set_in_use True p i s)"
proof (cases "first_unused (pools s p) 0")
  case None
  then show ?thesis using assms by (auto simp: output_pool_acquire_def)
next
  case (Some i)
  then have un: "unused (pools s) p i" using first_unused_Some [OF Some] by (auto simp: unused_def)
  have x: "x = Some i" "s' = set_in_use True p i s" using Some assms by (simp_all add: output_pool_acquire_def)
  have "in_use (pools s') p i" using un by (simp add: x(2) unused_def in_use_def set_in_use_def)
  then show ?thesis using x un set_in_use_le [of s s p i True] by simp
qed

lemma acquire_planes_account:
  assumes "acquire_planes py puv s = (x, s')" "py \<noteq> puv"
  shows "pool_le (pools s) (pools s') \<and> (case x of None \<Rightarrow> True | Some (i, uv) \<Rightarrow> unused (pools s) py i \<and> in_use (pools s') py i \<and>
    (case uv of None \<Rightarrow> pools s puv = [] | Some j \<Rightarrow> unused (pools s) puv j \<and> in_use (pools s') puv j))"
proof -
  obtain y s1 where y: "output_pool_acquire py s = (y, s1)" by fastforce
  obtain uv s2 where uv: "(if pools s puv = [] then (None, s1) else output_pool_acquire puv s1) = (uv, s2)" by fastforce
  note ay = acquire_account [OF y]
  have puv: "pools s1 puv = pools s puv" using ay assms(2) by (cases y) (auto simp: set_in_use_def)
  have le2: "pool_le (pools s) (pools s2)" and j: "\<And>j. uv = Some j \<Longrightarrow> unused (pools s) puv j \<and> in_use (pools s2) puv j"
    and keep: "\<And>i. in_use (pools s1) py i \<Longrightarrow> in_use (pools s2) py i"
  proof -
    have "pool_le (pools s) (pools s2) \<and> (\<forall>j. uv = Some j \<longrightarrow> unused (pools s) puv j \<and> in_use (pools s2) puv j) \<and>
        (\<forall>i. in_use (pools s1) py i \<longrightarrow> in_use (pools s2) py i)"
    proof (cases "pools s puv = []")
      case True
      then show ?thesis using uv ay by auto
    next
      case False
      then have a2: "output_pool_acquire puv s1 = (uv, s2)" using uv by simp
      note acc = acquire_account [OF a2]
      show ?thesis
      proof (cases uv)
        case None
        then show ?thesis using acc ay by simp
      next
        case (Some j)
        then have un: "unused (pools s) puv j" using acc puv by (simp add: unused_def)
        then show ?thesis using acc Some set_in_use_le [of s s1 puv j True] ay pool_le_in_use [of "pools s1" "pools s2"] by auto
      qed
    qed
    then show "pool_le (pools s) (pools s2)" "\<And>j. uv = Some j \<Longrightarrow> unused (pools s) puv j \<and> in_use (pools s2) puv j"
      "\<And>i. in_use (pools s1) py i \<Longrightarrow> in_use (pools s2) py i" by blast+
  qed
  show ?thesis
  proof (cases y)
    case None
    then show ?thesis using assms(1) y uv le2 j release_le [of s s2 puv]
      by (auto simp: acquire_planes_def split: option.splits prod.splits)
  next
    case (Some i)
    then show ?thesis using assms(1) y uv le2 j ay keep release_le [of s s2 py i]
      by (auto simp: acquire_planes_def split: option.splits prod.splits if_splits)
  qed
qed

lemma pool_le_trans: "pool_le P Q \<Longrightarrow> pool_le Q R \<Longrightarrow> pool_le P R"
  unfolding pool_le_def by (metis length_map)

lemma pool_le_unused: "pool_le P Q \<Longrightarrow> unused Q p i \<Longrightarrow> unused P p i"
  using pool_le_length [of P Q p] by (auto simp: unused_def pool_le_def)

definition planes_taken :: "pool_id \<Rightarrow> pool_id \<Rightarrow> vk_ctx \<Rightarrow> (nat \<times> nat option) option \<Rightarrow> vk_ctx \<Rightarrow> bool" where
  "planes_taken py puv s x s' \<longleftrightarrow> pool_le (pools s) (pools s') \<and> (case x of None \<Rightarrow> True | Some (i, uv) \<Rightarrow>
     unused (pools s) py i \<and> in_use (pools s') py i \<and>
     (case uv of None \<Rightarrow> pools s puv = [] | Some j \<Rightarrow> unused (pools s) puv j \<and> in_use (pools s') puv j))"

lemma planes_taken_trans:
  assumes "pool_le (pools s) (pools t)" "planes_taken py puv t x s'"
  shows "planes_taken py puv s x s'"
proof -
  have "pools s puv = []" if "pools t puv = []" using pool_le_length [OF assms(1), of puv] that by simp
  then show ?thesis using assms pool_le_trans [OF assms(1)] pool_le_unused [OF assms(1)]
    by (auto simp: planes_taken_def split: option.splits)
qed

lemma poll_planes_account:
  "py \<noteq> puv \<Longrightarrow> poll_planes n (\<lambda>_. []) py puv s = (x, s') \<Longrightarrow> planes_taken py puv s x s'"
proof (induction n arbitrary: s)
  case 0
  then show ?case by (auto simp: planes_taken_def)
next
  case (Suc n)
  obtain y t where a: "acquire_planes py puv s = (y, t)" by fastforce
  note acc = acquire_planes_account [OF a Suc.prems(1), folded planes_taken_def]
  show ?case
  proof (cases y)
    case None
    then have "poll_planes n (\<lambda>_. []) py puv t = (x, s')" using Suc.prems(2) a by simp
    moreover have "pool_le (pools s) (pools t)" using acc by (simp add: planes_taken_def)
    ultimately show ?thesis using planes_taken_trans Suc.IH [OF Suc.prems(1)] by blast
  next
    case (Some e)
    then show ?thesis using Suc.prems(2) a acc by simp
  qed
qed

lemma wait_planes_account:
  assumes "wait_planes (\<lambda>_. []) py puv s = (x, s')" "py \<noteq> puv"
  shows "planes_taken py puv s x s'"
proof -
  obtain y t where a: "acquire_planes py puv s = (y, t)" by fastforce
  note acc = acquire_planes_account [OF a assms(2), folded planes_taken_def]
  show ?thesis
  proof (cases y)
    case None
    then have "poll_planes (VFMCAP_OUTPUT_POOL_WAIT_MS * 1000 div 500) (\<lambda>_. []) py puv t = (x, s')"
      using assms(1) a by (simp add: wait_planes_def)
    moreover have "pool_le (pools s) (pools t)" using acc by (simp add: planes_taken_def)
    ultimately show ?thesis using planes_taken_trans poll_planes_account [OF assms(2)] by blast
  next
    case (Some e)
    then show ?thesis using assms(1) a acc by (simp add: wait_planes_def)
  qed
qed

lemma plane_pools_ne: "plane_pools fmt = Some (py, puv) \<Longrightarrow> py \<noteq> puv"
  by (cases fmt) auto

text \<open>The entries of a pool a lent output stands for.\<close>

fun afbc_pool :: "vk_fmt \<Rightarrow> pool_id option" where
  "afbc_pool VK_FMT_NV12_AFBC = Some Pool_nv12_afbc"
| "afbc_pool VK_FMT_A2B10G10R10_AFBC = Some Pool_a2b10g10r10_afbc"
| "afbc_pool _ = None"

definition ref_fds :: "pool_id \<Rightarrow> output_ref \<Rightarrow> int list" where
  "ref_fds p r = (case r of (fmt, y, uv) \<Rightarrow>
     (case plane_pools fmt of
        Some (py, puv) \<Rightarrow> if p = py then [y] else if p = puv \<and> uv \<noteq> - 1 then [uv] else []
      | None \<Rightarrow> if afbc_pool fmt = Some p then [y] else []))"

definition lends_new :: "vk_ctx \<Rightarrow> output_ref option \<Rightarrow> vk_ctx \<Rightarrow> bool" where
  "lends_new s x s' \<longleftrightarrow> pool_le (pools s) (pools s') \<and> (case x of None \<Rightarrow> True | Some r \<Rightarrow>
     (\<forall>p. \<forall>fd \<in> set (ref_fds p r). \<exists>i. unused (pools s) p i \<and> in_use (pools s') p i \<and> p_fd (pools s p ! i) = fd))"

lemma release_planes_le:
  assumes "planes_taken py puv s (Some e) t" "pool_le (pools s) (pools u)"
  shows "pool_le (pools s) (pools (release_planes py puv e u))"
proof -
  have 1: "pool_le (pools s) (pools (output_pool_release py (fst e) u))"
    using assms by (intro release_le) (auto simp: planes_taken_def split: prod.splits)
  show ?thesis
  proof (cases "snd e")
    case None
    then show ?thesis using 1 by (simp add: release_planes_def)
  next
    case (Some j)
    then show ?thesis using 1 assms(1) release_le [OF 1, of puv j]
      by (auto simp: release_planes_def planes_taken_def split: prod.splits)
  qed
qed

lemma render_contiguous_account:
  assumes r: "render_contiguous D a fd src py i t = (x, s')" and le: "pool_le (pools s) (pools t)"
    and un: "unused (pools s) py i" and use: "in_use (pools t) py i"
  shows "pool_le (pools s) (pools s') \<and> (case x of None \<Rightarrow> True
    | Some (y, uv) \<Rightarrow> uv = - 1 \<and> y = p_fd (pools s py ! i) \<and> in_use (pools s') py i)"
proof -
  obtain im t1 where g: "image_cache_get D (c_in a) fd (fst src, snd src, G8_B8R8_2PLANE_420_UNORM, 0, 0) t = (im, t1)" by fastforce
  have t1: "pools t1 = pools t" using cache_get_pools(1) [OF g] .
  have rel: "pool_le (pools s) (pools (output_pool_release py i v))" if "pools v = pools t" for v
    using release_le [of s v py i] le un that by simp
  show ?thesis
  proof (cases im)
    case None
    then show ?thesis using r g rel t1 by (auto simp: render_contiguous_def)
  next
    case (Some ob)
    define fd' t2 where "fd' = p_fd (pools t1 py ! i)" "t2 = sync_start Sync_write fd' (sync_start Sync_read fd (first_fence t1))"
    obtain ok t3 where w: "submit_work (c_work a) None [ob] (bind_input (c_work a) ob t2) = (ok, t3)" by fastforce
    obtain ok2 t4 where v: "vfmcap_vk_convert_wait (w_wait (c_work a)) (set_pending fd fd' (- 1) t3) = (ok2, t4)" by fastforce
    have t34: "pools t3 = pools t" "pools t4 = pools t"
      using submit_work_pools [OF w] convert_wait_pools [OF v] t1 by (simp_all add: fd'_t2_def)
    have "fd' = p_fd (pools s py ! i)" using pool_le_fd [OF le, of i py] un t1 by (simp add: fd'_t2_def unused_def)
    then show ?thesis using r g Some w v t34 rel le use
      by (auto simp: render_contiguous_def fd'_t2_def Let_def split: if_splits)
  qed
qed

lemma render_account:
  assumes r: "vfmcap_vk_render_and_wait D a (\<lambda>_. []) fd src dst fmt s = (x, s')"
  shows "lends_new s (map_option (\<lambda>(y, uv). (fmt, y, uv)) x) s'"
proof (cases "initialized s \<and> plane_pools fmt \<noteq> None")
  case False
  then show ?thesis using r by (auto simp: vfmcap_vk_render_and_wait_def lends_new_def split: option.splits if_splits)
next
  case True
  then obtain py puv where pp: "plane_pools fmt = Some (py, puv)" by auto
  obtain e t where w: "wait_planes (\<lambda>_. []) py puv s = (e, t)" by fastforce
  note acc = wait_planes_account [OF w plane_pools_ne [OF pp]]
  have le: "pool_le (pools s) (pools t)" using acc by (simp add: planes_taken_def)
  consider (none) "e = None" | (one) i where "e = Some (i, None)" | (two) i j where "e = Some (i, Some j)"
    by (metis option.exhaust surj_pair)
  then show ?thesis
  proof cases
    case none
    then show ?thesis using r True pp w le by (auto simp: vfmcap_vk_render_and_wait_def lends_new_def)
  next
    case one
    then have "render_contiguous D a fd src py i t = (x, s')" using r True pp w by (simp add: vfmcap_vk_render_and_wait_def)
    from render_contiguous_account [OF this le] acc one show ?thesis
      by (auto simp: lends_new_def planes_taken_def ref_fds_def pp split: option.splits if_splits)
  next
    case two
    have un: "unused (pools s) py i" "unused (pools s) puv j" "in_use (pools t) py i" "in_use (pools t) puv j"
      using acc two by (simp_all add: planes_taken_def)
    define y uv where "y = p_fd (pools t py ! i)" "uv = p_fd (pools t puv ! j)"
    have fds: "y = p_fd (pools s py ! i)" "uv = p_fd (pools s puv ! j)"
      using un pool_le_fd [OF le] by (simp_all add: y_uv_def unused_def)
    obtain ok t2 where sub: "vfmcap_vk_render_submit D a fd y uv src dst fmt t = (ok, t2)" by fastforce
    obtain ok2 t3 where v: "vfmcap_vk_convert_wait (w_wait (c_work a)) t2 = (ok2, t3)" by fastforce
    have t: "pools t2 = pools t" "pools t3 = pools t" using render_submit_pools [OF sub] convert_wait_pools [OF v] by simp_all
    have rel: "pool_le (pools s) (pools (release_planes py puv (i, Some j) v))" if "pools v = pools t" for v
      using release_planes_le [of py puv s "(i, Some j)" t v] acc two le that by simp
    have "(x, s') = (if \<not> ok then (None, release_planes py puv (i, Some j) t2)
        else if \<not> ok2 then (None, release_planes py puv (i, Some j) t3) else (Some (y, uv), t3))"
      using r True pp w two sub v by (auto simp: vfmcap_vk_render_and_wait_def Let_def y_uv_def split: if_splits)
    then show ?thesis using t rel le un fds
      by (auto simp: lends_new_def ref_fds_def pp split: if_splits)
  qed
qed

lemma afbc_account:
  assumes r: "vfmcap_vk_render_afbc_nv12_and_wait D a fd src s = (x, s')"
  shows "lends_new s (map_option (\<lambda>y. (VK_FMT_NV12_AFBC, y, - 1)) x) s'"
proof (cases "initialized s")
  case False
  then show ?thesis using r by (auto simp: vfmcap_vk_render_afbc_nv12_and_wait_def lends_new_def)
next
  case True
  let ?p = Pool_nv12_afbc
  obtain e t where q: "output_pool_acquire ?p s = (e, t)" by fastforce
  note acc = acquire_account [OF q]
  show ?thesis
  proof (cases e)
    case None
    then show ?thesis using r True q acc by (auto simp: vfmcap_vk_render_afbc_nv12_and_wait_def lends_new_def)
  next
    case (Some i)
    have un: "unused (pools s) ?p i" "in_use (pools t) ?p i" and le: "pool_le (pools s) (pools t)" 
      using acc [unfolded Some option.case] by blast+
    have rel: "pool_le (pools s) (pools (output_pool_release ?p i v))" if "pools v = pools t" for v
      using release_le [of s v ?p i] le un that by simp
    obtain im t1 where g: "image_cache_get D (c_in a) fd (fst src, snd src, G8_B8R8_2PLANE_420_UNORM, 0, 0) t = (im, t1)" by fastforce
    have t1: "pools t1 = pools t" using cache_get_pools(1) [OF g] .
    have "pools s' = pools t \<and> x = Some (p_fd (pools t ?p ! i)) \<or> x = None \<and> pool_le (pools s) (pools s')"
    proof (cases im)
      case None
      then show ?thesis using r True q Some g t1 by (auto simp: vfmcap_vk_render_afbc_nv12_and_wait_def intro!: rel)
    next
      case im: (Some ob)
      define fd' t2 where "fd' = p_fd (pools t1 ?p ! i)" "t2 = sync_start Sync_write fd' (sync_start Sync_read fd (first_fence t1))"
      obtain ok t3 where w: "(case gfx_input t2 of
          None \<Rightarrow> submit_work (c_work a) None [ob] (if w_begin (c_work a) then on_gpu (misused Unbound_input) t2 else t2)
        | Some o2 \<Rightarrow> submit_work (c_work a) None [ob, o2] t2) = (ok, t3)" by fastforce
      have t3: "pools t3 = pools t" using w t1 by (auto simp: fd'_t2_def split: option.splits if_splits dest!: submit_work_pools)
      have "(x, s') = (if \<not> w_reset (c_work a) then (None, output_pool_release ?p i (on_gpu reset_commands (first_fence t1)))
          else if \<not> ok then (None, output_pool_release ?p i t3) else (Some fd', finish_afbc (w_wait (c_work a)) fd fd' t3))"
        unfolding r [symmetric] vfmcap_vk_render_afbc_nv12_and_wait_def
        using True by (simp only: q Some g im fd'_t2_def [symmetric] w Let_def prod.case option.case simp_thms if_False)
      moreover have "pools (on_gpu reset_commands (first_fence t1)) = pools t" using t1 by simp
      ultimately show ?thesis using t1 t3 by (auto simp: fd'_t2_def split: if_splits intro!: rel)
    qed
    moreover have "p_fd (pools t ?p ! i) = p_fd (pools s ?p ! i)" using pool_le_fd [OF le] un by (simp add: unused_def)
    ultimately show ?thesis using rel le un by (auto simp: lends_new_def ref_fds_def)
  qed
qed

lemma afbc_10bit_account:
  assumes r: "render_10bit_afbc p D a fd src s = (x, s')" and p: "afbc_pool fmt = Some p"
  shows "lends_new s (map_option (\<lambda>y. (fmt, y, - 1)) x) s'"
proof (cases "initialized s")
  case False
  then show ?thesis using r by (auto simp: render_10bit_afbc_def lends_new_def)
next
  case True
  have fmt: "plane_pools fmt = None" using p by (cases fmt) auto
  obtain e t where q: "output_pool_acquire p s = (e, t)" by fastforce
  note acc = acquire_account [OF q]
  show ?thesis
  proof (cases e)
    case None
    then show ?thesis using r True q acc by (auto simp: render_10bit_afbc_def lends_new_def)
  next
    case (Some i)
    have un: "unused (pools s) p i" "in_use (pools t) p i" and le: "pool_le (pools s) (pools t)"
      using acc [unfolded Some option.case] by blast+
    have rel: "pool_le (pools s) (pools (output_pool_release p i v))" if "pools v = pools t" for v
      using release_le [of s v p i] le un that by simp
    obtain im t1 where g: "input_cache_get D (c_in a) fd (input_size (fst src) (snd src)) t = (im, t1)" by fastforce
    have t1: "pools t1 = pools t" using cache_get_pools(2) [OF g] .
    have "pools s' = pools t \<and> (x = None \<or> x = Some (p_fd (pools t p ! i))) \<or>
        x = None \<and> pool_le (pools s) (pools s')"
    proof (cases im)
      case None
      then show ?thesis using r True q Some g t1 by (auto simp: render_10bit_afbc_def intro!: rel)
    next
      case im: (Some ob)
      show ?thesis
        using r True q Some g im t1
        by (auto simp: render_10bit_afbc_def Let_def split: if_splits prod.splits dest!: submit_work_pools intro!: rel)
    qed
    moreover have "p_fd (pools t p ! i) = p_fd (pools s p ! i)" using pool_le_fd [OF le] un by (simp add: unused_def)
    ultimately show ?thesis using rel le un p fmt by (auto simp: lends_new_def ref_fds_def)
  qed
qed

lemma pipeline_init_pools: "pipeline_init ok s = (r, s') \<Longrightarrow> pools s' = pools s"
  by (auto simp: pipeline_init_def split: if_splits)

lemma sync_planes_pools [simp]:
  "pools (sync_planes sync_start y uv s) = pools s" "pools (sync_planes sync_end y uv s) = pools s"
  by (simp_all add: sync_planes_def split: option.split)

lemma render_10bit_account:
  assumes r: "vfmcap_vk_render_10bit_and_wait D a fd src fmt s = (x, s')"
  shows "lends_new s (map_option (\<lambda>(y, uv). (fmt, y, uv)) x) s'"
proof (cases "initialized s \<and> plane_pools fmt \<noteq> None")
  case False
  then show ?thesis using r by (auto simp: vfmcap_vk_render_10bit_and_wait_def lends_new_def split: option.splits if_splits)
next
  case True
  then obtain py puv where pp: "plane_pools fmt = Some (py, puv)" by auto
  obtain im s1 where g: "input_cache_get D (t_in a) fd (input_size (fst src) (snd src)) s = (im, s1)" by fastforce
  have s1: "pools s1 = pools s" using cache_get_pools(2) [OF g] .
  show ?thesis
  proof (cases im)
    case None
    then show ?thesis using r True pp g s1 by (auto simp: vfmcap_vk_render_10bit_and_wait_def lends_new_def)
  next
    case im: (Some ib)
    obtain e t where q: "acquire_planes py puv (sync_start Sync_read fd s1) = (e, t)" by fastforce
    have acc: "planes_taken py puv s e t"
      using acquire_planes_account [OF q plane_pools_ne [OF pp], folded planes_taken_def] s1
      by (intro planes_taken_trans [of s "sync_start Sync_read fd s1"]) simp_all
    have le: "pool_le (pools s) (pools t)" using acc by (simp add: planes_taken_def)
    show ?thesis
    proof (cases e)
      case None
      then show ?thesis using r True pp g im q le by (auto simp: vfmcap_vk_render_10bit_and_wait_def lends_new_def)
    next
      case (Some ij)
      obtain i uv where ij: "ij = (i, uv)" by fastforce
      define y u where "y = p_fd (pools t py ! i)" "u = map_option (\<lambda>j. p_fd (pools t puv ! j)) uv"
      have rel: "pool_le (pools s) (pools (release_planes py puv ij v))" if "pools v = pools t" for v
        using release_planes_le [of py puv s ij t v] acc Some le that by simp
      obtain ok t2 where pi: "pipeline_init (t_pipeline a) t = (ok, t2)" by fastforce
      have t2: "pools t2 = pools t" using pipeline_init_pools [OF pi] .
      have "pools s' = pools t \<and> (x = None \<or> x = Some (y, case u of None \<Rightarrow> - 1 | Some v \<Rightarrow> v)) \<or>
          x = None \<and> pool_le (pools s) (pools s')"
        using r True pp g im q Some ij pi t2
        by (auto simp: vfmcap_vk_render_10bit_and_wait_def Let_def y_u_def split: if_splits intro!: rel [unfolded ij])
      moreover have un: "unused (pools s) py i" "in_use (pools t) py i"
          "\<And>j. uv = Some j \<Longrightarrow> unused (pools s) puv j \<and> in_use (pools t) puv j" using acc Some ij by (auto simp: planes_taken_def)
      moreover have "y = p_fd (pools s py ! i)" "\<And>j. uv = Some j \<Longrightarrow> u = Some (p_fd (pools s puv ! j))" "uv = None \<Longrightarrow> u = None"
        using un pool_le_fd [OF le] by (auto simp: y_u_def unused_def)
      ultimately show ?thesis using rel le by (cases uv) (auto simp: lends_new_def ref_fds_def pp split: if_splits)
    qed
  qed
qed

section \<open>No output is lent twice\<close>

definition lent_fds :: "pool_id \<Rightarrow> output_ref list \<Rightarrow> int list" where
  "lent_fds p lent = concat (map (ref_fds p) lent)"

definition exclusive :: "vk_session \<Rightarrow> bool" where
  "exclusive t \<longleftrightarrow> (\<forall>p. open_fds (map p_fd (pools (fst t) p)) \<and> distinct (lent_fds p (snd t)) \<and>
     (\<forall>fd \<in> set (lent_fds p (snd t)). \<exists>i. in_use (pools (fst t)) p i \<and> p_fd (pools (fst t) p ! i) = fd))"

lemma ref_fds_cases: "ref_fds p r = [] \<or> (\<exists>fd. ref_fds p r = [fd])"
  by (auto simp: ref_fds_def split: prod.split option.split)

lemma exclusive_lend:
  assumes ex: "exclusive (s, lent)" and new: "lends_new s x s'"
  shows "exclusive (s', lend x lent)"
proof -
  have le: "pool_le (pools s) (pools s')" using new by (simp add: lends_new_def)
  have "open_fds (map p_fd (pools s' p)) \<and> distinct (lent_fds p (lend x lent)) \<and>
      (\<forall>fd \<in> set (lent_fds p (lend x lent)). \<exists>i. in_use (pools s') p i \<and> p_fd (pools s' p ! i) = fd)" for p
  proof -
    have fds: "map p_fd (pools s' p) = map p_fd (pools s p)" using le by (simp add: pool_le_def)
    have op: "open_fds (map p_fd (pools s p))" and di: "distinct (lent_fds p lent)"
      and us: "\<And>fd. fd \<in> set (lent_fds p lent) \<Longrightarrow> \<exists>i. in_use (pools s) p i \<and> p_fd (pools s p ! i) = fd"
      using ex by (auto simp: exclusive_def)
    have kept: "\<exists>i. in_use (pools s') p i \<and> p_fd (pools s' p ! i) = fd" if l: "fd \<in> set (lent_fds p lent)" for fd
    proof -
      obtain i where i: "in_use (pools s) p i" "p_fd (pools s p ! i) = fd" using us [OF l] by blast
      then show ?thesis using pool_le_in_use [OF le i(1)] pool_le_fd [OF le, of i p] by (auto simp: in_use_def)
    qed
    show ?thesis
    proof (cases x)
      case None
      then show ?thesis using op di kept fds by (simp add: lend_def)
    next
      case (Some r)
      have nw: "\<exists>i. unused (pools s) p i \<and> in_use (pools s') p i \<and> p_fd (pools s p ! i) = fd" if "fd \<in> set (ref_fds p r)" for fd
        using new Some that by (simp add: lends_new_def)
      have "fd \<notin> set (lent_fds p lent)" if "fd \<in> set (ref_fds p r)" for fd
      proof
        assume "fd \<in> set (lent_fds p lent)"
        from us [OF this] nw [OF that] obtain i j where ij: "in_use (pools s) p i" "unused (pools s) p j"
          "map p_fd (pools s p) ! i = map p_fd (pools s p) ! j" by (auto simp: in_use_def unused_def)
        have "distinct (map p_fd (pools s p))" using op by (simp add: open_fds_def)
        then have "i = j" using ij by (metis in_use_def unused_def length_map nth_eq_iff_index_eq)
        then show False using ij by (simp add: in_use_def unused_def)
      qed
      then have "distinct (lent_fds p (lend x lent))"
        using di ref_fds_cases [of p r] Some by (auto simp: lend_def lent_fds_def)
      moreover have "\<exists>i. in_use (pools s') p i \<and> p_fd (pools s' p ! i) = fd" if "fd \<in> set (ref_fds p r)" for fd
        using nw [OF that] pool_le_fd [OF le] by (auto simp: unused_def)
      ultimately show ?thesis using Some kept op fds by (auto simp: lend_def lent_fds_def)
    qed
  qed
  then show ?thesis by (simp add: exclusive_def)
qed

lemma in_use_with_Some:
  "in_use_with fd es n = Some i \<Longrightarrow> \<exists>j < length es. i = n + j \<and> p_fd (es ! j) = fd \<and> p_in_use (es ! j)"
proof (induction fd es n rule: in_use_with.induct)
  case (2 fd e es n)
  show ?case
  proof (cases "p_fd e = fd \<and> p_in_use e")
    case True
    then show ?thesis using 2(2) by (intro exI [of _ 0]) auto
  next
    case False
    then obtain j where "j < length es" "i = Suc n + j" "p_fd (es ! j) = fd" "p_in_use (es ! j)" using 2 by auto
    then show ?thesis by (intro exI [of _ "Suc j"]) simp
  qed
qed simp

lemma release_fd_account:
  "map p_fd (pools (release_fd q fd s) p) = map p_fd (pools s p) \<and>
   (in_use (pools s) p i \<and> (p = q \<longrightarrow> p_fd (pools s p ! i) \<noteq> fd) \<longrightarrow> in_use (pools (release_fd q fd s)) p i)"
proof (cases "in_use_with fd (pools s q) 0")
  case None
  then show ?thesis by (simp add: release_fd_def)
next
  case (Some j)
  have j: "j < length (pools s q)" "p_fd (pools s q ! j) = fd" using in_use_with_Some [OF Some] by auto
  have "map p_fd ((pools s q)[j := (pools s q ! j)\<lparr>p_in_use := False\<rparr>]) = map p_fd (pools s q)"
    using j by (simp add: map_update) (metis length_map list_update_id nth_map)
  then show ?thesis using Some j by (auto simp: release_fd_def set_in_use_def in_use_def nth_list_update)
qed

lemma map_fd_nth: "map p_fd P = map p_fd Q \<Longrightarrow> i < length P \<Longrightarrow> p_fd (P ! i) = p_fd (Q ! i)"
  by (metis length_map nth_map)

lemma release_ref_account:
  assumes op: "open_fds (map p_fd (pools s p))" and i: "in_use (pools s) p i" and fd: "p_fd (pools s p ! i) \<notin> set (ref_fds p r)"
  shows "map p_fd (pools (release_ref r s) p) = map p_fd (pools s p) \<and> in_use (pools (release_ref r s)) p i"
proof -
  obtain fmt y uv where r: "r = (fmt, y, uv)" by (metis surj_pair)
  have "0 \<le> map p_fd (pools s p) ! i" using op i unfolding open_fds_def in_use_def by (metis length_map nth_mem)
  then have nn: "p_fd (pools s p ! i) \<noteq> - 1" using i by (auto simp: in_use_def)
  show ?thesis
  proof (cases "plane_pools fmt")
    case None
    then show ?thesis
      using release_fd_account [of Pool_nv12_afbc y s p i] release_fd_account [of Pool_a2b10g10r10_afbc y s p i] i fd
      by (cases fmt) (auto simp: r release_ref_def vfmcap_vk_release_afbc_output_def ref_fds_def)
  next
    case (Some pq)
    obtain py puv where pq: "pq = (py, puv)" by fastforce
    let ?t = "release_fd py y s"
    have ne: "py \<noteq> puv" using plane_pools_ne Some pq by blast
    have 1: "map p_fd (pools ?t p) = map p_fd (pools s p)" "in_use (pools ?t) p i"
      using release_fd_account [of py y s p i] i fd by (auto simp: r ref_fds_def Some pq)
    have "p_fd (pools ?t p ! i) = p_fd (pools s p ! i)" using map_fd_nth [OF 1(1)] 1(2) by (simp add: in_use_def)
    then have "p = puv \<longrightarrow> p_fd (pools ?t p ! i) \<noteq> uv" using fd nn ne by (auto simp: r ref_fds_def Some pq split: if_splits)
    then show ?thesis using release_fd_account [of puv uv ?t p i] 1
      by (simp add: r release_ref_def vfmcap_vk_release_output_def Some pq)
  qed
qed

lemma release_ref_fds: "map p_fd (pools (release_ref r s) p) = map p_fd (pools s p)"
proof -
  obtain fmt y uv where r: "r = (fmt, y, uv)" by (metis surj_pair)
  show ?thesis using release_fd_account
    by (cases fmt) (simp_all add: r release_ref_def vfmcap_vk_release_output_def vfmcap_vk_release_afbc_output_def)
qed

lemma exclusive_release:
  assumes ex: "exclusive (s, lent)" and k: "k < length lent"
  shows "exclusive (release_ref (lent ! k) s, take k lent @ drop (Suc k) lent)"
proof -
  have "open_fds (map p_fd (pools (release_ref (lent ! k) s) p)) \<and> distinct (lent_fds p (take k lent @ drop (Suc k) lent)) \<and>
      (\<forall>fd \<in> set (lent_fds p (take k lent @ drop (Suc k) lent)).
        \<exists>i. in_use (pools (release_ref (lent ! k) s)) p i \<and> p_fd (pools (release_ref (lent ! k) s) p ! i) = fd)" for p
  proof -
    have op: "open_fds (map p_fd (pools s p))" and di: "distinct (lent_fds p lent)"
      and us: "\<And>fd. fd \<in> set (lent_fds p lent) \<Longrightarrow> \<exists>i. in_use (pools s) p i \<and> p_fd (pools s p ! i) = fd"
      using ex by (auto simp: exclusive_def)
    have split: "lent_fds p lent = lent_fds p (take k lent) @ ref_fds p (lent ! k) @ lent_fds p (drop (Suc k) lent)"
      using arg_cong [OF id_take_nth_drop [OF k], of "lent_fds p"] by (simp add: lent_fds_def)
    have app: "lent_fds p (take k lent @ drop (Suc k) lent) = lent_fds p (take k lent) @ lent_fds p (drop (Suc k) lent)"
      by (simp add: lent_fds_def)
    have "\<exists>i. in_use (pools (release_ref (lent ! k) s)) p i \<and> p_fd (pools (release_ref (lent ! k) s) p ! i) = fd"
      if "fd \<in> set (lent_fds p (take k lent @ drop (Suc k) lent))" for fd
    proof -
      have "fd \<in> set (lent_fds p lent)" "fd \<notin> set (ref_fds p (lent ! k))" using that di split app by auto
      then obtain i where i: "in_use (pools s) p i" "p_fd (pools s p ! i) = fd" using us by blast
      from release_ref_account [OF op i(1)] i(2) \<open>fd \<notin> _\<close>
      have "in_use (pools (release_ref (lent ! k) s)) p i" by simp
      moreover have "p_fd (pools (release_ref (lent ! k) s) p ! i) = fd"
        using map_fd_nth [OF release_ref_fds] i(2) calculation by (metis in_use_def)
      ultimately show ?thesis by blast
    qed
    then show ?thesis using op di split app by (auto simp: release_ref_fds)
  qed
  then show ?thesis by (simp add: exclusive_def)
qed

lemma exclusive_pools: "exclusive (s, lent) \<Longrightarrow> pools s' = pools s \<Longrightarrow> exclusive (s', lent)"
  by (simp add: exclusive_def)

lemma linear_yuv_open:
  assumes "output_pool_create_linear_yuv lay c sep r = Some (ys, uvs)" "\<forall>ys. r_contiguous r = Some ys \<longrightarrow> open_fds ys"
    "planes_open (r_separate r)" "planes_open (r_copyout r)"
  shows "open_fds ys \<and> open_fds uvs"
  using assms by (auto simp: output_pool_create_linear_yuv_def Let_def planes_open_def open_fds_def split: if_splits)

lemma map_fd_pool_of [simp]: "map p_fd (pool_of fds) = fds"
  by (simp add: pool_of_def comp_def)

lemma exclusive_reconfig:
  assumes ex: "exclusive (s, lent)" and po: "pools_open (Op_reconfig fmt a)"
  shows "exclusive (snd (vfmcap_vk_reconfig_pools fmt a s), [])"
proof (cases "initialized s")
  case False
  then show ?thesis using ex by (simp add: vfmcap_vk_reconfig_pools_def exclusive_def lent_fds_def)
next
  case True
  have empty: "open_fds []" by (simp add: open_fds_def)
  have rec: "open_fds (map p_fd (pools s2 p))" if "recreate_pools fmt a s1 = (ok, s2)" "pools s1 = (\<lambda>_. [])" for s1 s2 ok p
    using that po empty linear_yuv_open
    by (fastforce simp: recreate_pools_def split: option.splits prod.splits if_splits)
  show ?thesis using True rec
    by (auto simp: vfmcap_vk_reconfig_pools_def exclusive_def lent_fds_def Let_def split: prod.splits)
qed

interpretation vkx: invariant_system vk_step exclusive
proof
  fix t l t'
  assume st: "vk_step t l t'" and ex: "exclusive t"
  obtain s lent where t: "t = (s, lent)" by fastforce
  show "exclusive t'"
  proof (cases l)
    case (Op_submit D a i out w h fmt)
    then show ?thesis using st ex exclusive_pools convert_submit_pools
      by (auto simp: t vk_step_def) (metis prod.collapse)
  next
    case (Op_wait ok)
    then show ?thesis using st ex exclusive_pools convert_wait_pools by (auto simp: t vk_step_def) (metis prod.collapse)
  next
    case (Op_render D a i src dst fmt)
    then show ?thesis using st ex exclusive_lend [OF _ render_account] by (auto simp: t vk_step_def split: prod.splits)
  next
    case (Op_afbc D a i src)
    then show ?thesis using st ex exclusive_lend [OF _ afbc_account] by (auto simp: t vk_step_def split: prod.splits)
  next
    case (Op_afbc_10bit nv12 D a i src)
    then show ?thesis using st ex exclusive_lend [OF _ afbc_10bit_account]
      by (auto simp: t vk_step_def vfmcap_vk_render_10bit_afbc_nv12_and_wait_def vfmcap_vk_render_10bit_afbc_a2b10g10r10_and_wait_def
          split: prod.splits if_splits)
  next
    case (Op_render_10bit D a i src fmt)
    then show ?thesis using st ex exclusive_lend [OF _ render_10bit_account] by (auto simp: t vk_step_def split: prod.splits)
  next
    case (Op_release k)
    then show ?thesis using st ex exclusive_release by (auto simp: t vk_step_def)
  next
    case (Op_reconfig fmt a)
    then show ?thesis using st ex exclusive_reconfig by (auto simp: t vk_step_def)
  qed
qed


text \<open>A first render in the example context.\<close>

lemmas render_eval = image_cache_get_def cache_get_def cache_replace_def cache_entry_destroy_def cache_import_def import_dmabuf_def
  get_fd_inode_def destroy_obj_def close_own_def Let_def submit_work_def on_gpu_def reset_commands_def record_commands_def
  queue_submit_def misused_def first_fence_def reset_fence_def bind_input_def sync_start_def set_pending_def DMABUF_CACHE_SIZE_def
  good_convert_def good_work_def vfmcap_vk_render_and_wait_def wait_planes_def acquire_planes_def output_pool_acquire_def
  set_in_use_def render_contiguous_def vfmcap_vk_convert_wait_def drop_input_def wait_fence_def wait_idle_def end_outputs_def
  sync_end_def pool_of_def
lemmas demo_eval = demo_vk_def demo_gpu_def reused_dma_def demo_key_def blank_entry_def

definition demo_op :: vk_op where
  "demo_op = Op_render reused_dma good_convert 5 (1920, 1080) (1920, 1080) VK_FMT_NV12"

lemma demo_render:
  "\<exists>s'. vk_apply demo_op (demo_vk, []) = (s', [(VK_FMT_NV12, 30, - 1)])"
  by (simp add: demo_op_def render_eval demo_eval lend_def)

lemma demo_pools_open: "open_fds (map p_fd (pools demo_vk p))"
  by (simp add: demo_vk_def pool_of_def open_fds_def)


end
