(* ===== verification/Vk_Props.thy ===== *)
theory Vk_Props
  imports Vk_Session
begin

text \<open>
  Sessions of a careful client keep the rules of the Vulkan API (\<open>vkc\<close>, an interpretation of
  \<open>invariant_system\<close>): the lookups in an idle context, what each call leaves behind, and the invariant.
\<close>

section \<open>Careful clients\<close>

text \<open>
  The client waits for a conversion before it starts other work, its waits succeed, it stays with one
  family of entry points (\<open>ten\<close>: the pipelined renderer for ten bit input), outputs are single buffers, and
  there are fewer than \<open>2^64 - 1\<close> frames. The compressed output for 8 bit input is left out, see
  \<open>vk_afbc_unbound\<close>.
\<close>

fun careful :: "bool \<Rightarrow> (nat \<Rightarrow> u64) \<Rightarrow> vk_ctx \<Rightarrow> vk_op \<Rightarrow> bool" where
  "careful ten ino s (Op_submit D a i out w h fmt) \<longleftrightarrow>
     \<not> ten \<and> \<not> has_pending s \<and> inode_of D = ino \<and> vk_frame_count s \<noteq> - 1"
| "careful ten ino s (Op_wait ok) \<longleftrightarrow> ok"
| "careful ten ino s (Op_render D a i src dst fmt) \<longleftrightarrow>
     \<not> ten \<and> \<not> has_pending s \<and> inode_of D = ino \<and> vk_frame_count s \<noteq> - 1 \<and> w_wait (c_work a)"
| "careful ten ino s (Op_afbc D a i src) \<longleftrightarrow> False"
| "careful ten ino s (Op_afbc_10bit nv12 D a i src) \<longleftrightarrow>
     \<not> ten \<and> \<not> has_pending s \<and> inode_of D = ino \<and> vk_frame_count s \<noteq> - 1 \<and> w_wait (c_work a)"
| "careful ten ino s (Op_render_10bit D a i src fmt) \<longleftrightarrow>
     ten \<and> \<not> has_pending s \<and> inode_of D = ino \<and> vk_frame_count s \<noteq> - 1 \<and> w_wait (t_work a)"
| "careful ten ino s (Op_release k) \<longleftrightarrow> True"
| "careful ten ino s (Op_reconfig fmt a) \<longleftrightarrow> \<not> has_pending s \<and> \<not> g_separate a \<and> \<not> g_copyout a"

definition careful_step :: "bool \<Rightarrow> (nat \<Rightarrow> u64) \<Rightarrow> vk_session \<Rightarrow> vk_op \<Rightarrow> vk_session \<Rightarrow> bool" where
  "careful_step ten ino t l t' \<longleftrightarrow> vk_step t l t' \<and> careful ten ino (fst t) l"

definition caches_ok :: "(nat \<Rightarrow> u64) \<Rightarrow> vk_ctx \<Rightarrow> bool" where
  "caches_ok ino s \<longleftrightarrow> cache_ok ino Image_slot (image_cache s) (device s) \<and> cache_ok ino Input_slot (input_cache s) (device s) \<and>
     entry_ok ino Output_slot (cached_output s) (device s) \<and> aged (image_cache s) \<and> aged (input_cache s)"

definition single_outputs :: "vk_ctx \<Rightarrow> bool" where
  "single_outputs s \<longleftrightarrow> output_layout s = LAYOUT_SINGLE_DMABUF \<and> pools s Pool_nv12_uv = [] \<and> pools s Pool_p010_uv = []"

text \<open>Nothing is running, nothing was misused; \<open>ready\<close> is the fence of the context.\<close>

definition idle :: "(nat \<Rightarrow> u64) \<Rightarrow> vk_ctx \<Rightarrow> bool" where
  "idle ino s \<longleftrightarrow> caches_ok ino s \<and> misuses (device s) = [] \<and> running (device s) = {} \<and>
     (\<forall>n. fences (device s) n \<noteq> Queued) \<and> \<not> has_pending s"

definition ready :: "bool \<Rightarrow> vk_ctx \<Rightarrow> bool" where
  "ready ten s \<longleftrightarrow> ten \<or> vk_frame_count s = 0 \<or> fences (device s) None = Unsignaled"

definition busy :: "(nat \<Rightarrow> u64) \<Rightarrow> vk_ctx \<Rightarrow> bool" where
  "busy ino s \<longleftrightarrow> caches_ok ino s \<and> misuses (device s) = [] \<and> fences (device s) None = Queued \<and>
     (\<forall>n. n \<noteq> None \<longrightarrow> fences (device s) n \<noteq> Queued) \<and> has_pending s"

definition clean :: "bool \<Rightarrow> (nat \<Rightarrow> u64) \<Rightarrow> vk_session \<Rightarrow> bool" where
  "clean ten ino t \<longleftrightarrow> single_outputs (fst t) \<and> (idle ino (fst t) \<and> ready ten (fst t) \<or> busy ino (fst t) \<and> \<not> ten)"

lemma idle_simple [simp]:
  "idle ino (sync_start m fd s) = idle ino s" "idle ino (sync_end m fd s) = idle ino s"
  "idle ino (bind_input a im s) = idle ino s" "idle ino (set_in_use b p i s) = idle ino s"
  by (simp_all add: idle_def caches_ok_def)

lemma single_simple [simp]:
  "single_outputs (sync_start m fd s) = single_outputs s" "single_outputs (sync_end m fd s) = single_outputs s"
  "single_outputs (bind_input a im s) = single_outputs s" "single_outputs (on_gpu f s) = single_outputs s"
  "single_outputs (set_pending i y uv s) = single_outputs s"
  by (simp_all add: single_outputs_def)

lemma slots_apart [simp]:
  "range Image_slot \<inter> range Input_slot = {}" "range Input_slot \<inter> range Image_slot = {}"
  "Output_slot \<notin> range Image_slot" "Output_slot \<notin> range Input_slot"
  by auto

lemma others_grown:
  assumes "caches_ok ino s" "grown K (device s) g"
  shows "K \<inter> range Image_slot = {} \<Longrightarrow> cache_ok ino Image_slot (image_cache s) g"
    and "K \<inter> range Input_slot = {} \<Longrightarrow> cache_ok ino Input_slot (input_cache s) g"
    and "Output_slot \<notin> K \<Longrightarrow> entry_ok ino Output_slot (cached_output s) g"
proof -
  have ok: "cache_ok ino Image_slot (image_cache s) (device s)" "cache_ok ino Input_slot (input_cache s) (device s)"
      "entry_ok ino Output_slot (cached_output s) (device s)" using assms(1) by (simp_all add: caches_ok_def)
  show "K \<inter> range Image_slot = {} \<Longrightarrow> cache_ok ino Image_slot (image_cache s) g"
    by (rule cache_ok_grown [OF ok(1) assms(2)]) (simp add: Int_commute)
  show "K \<inter> range Input_slot = {} \<Longrightarrow> cache_ok ino Input_slot (input_cache s) g"
    by (rule cache_ok_grown [OF ok(2) assms(2)]) (simp add: Int_commute)
  show "Output_slot \<notin> K \<Longrightarrow> entry_ok ino Output_slot (cached_output s) g" by (rule entry_ok_grown [OF ok(3) assms(2)])
qed

text \<open>Lookups in an idle context.\<close>

lemma image_get_idle:
  assumes g: "image_cache_get D a fd k s = (x, s')" and id: "idle (inode_of D) s" and fc: "vk_frame_count s \<noteq> - 1"
  shows "idle (inode_of D) s' \<and> fences (device s') = fences (device s) \<and> vk_frame_count s' = vk_frame_count s \<and>
    output_layout s' = output_layout s \<and> (\<forall>ob. x = Some ob \<longrightarrow> ob \<in> live (device s'))"
proof -
  from g obtain c h where c: "cache_get True Image_slot D a (vk_frame_count s) fd k (image_cache s) (device s) = (x, c, h)"
    "s' = s\<lparr>image_cache := c, device := h\<rparr>" by (rule image_cache_getE)
  have ok: "cache_ok (inode_of D) Image_slot (image_cache s) (device s)" "running (device s) = {}" "aged (image_cache s)"
    using id by (simp_all add: idle_def caches_ok_def)
  note gr = cache_get_grown [OF c(1) ok(1)] and un = cache_get_unmisused [OF c(1) ok fc]
    and ok' = cache_get_ok [OF c(1) ok(1)]
  have "cache_ok (inode_of D) Input_slot (input_cache s) h" "entry_ok (inode_of D) Output_slot (cached_output s) h"
    using others_grown [OF _ gr] id by (simp_all add: idle_def)
  moreover have "ob \<in> live h" if "x = Some ob" for ob
    using c(1) ok(1)
  proof (cases rule: cache_get_cases)
    case (hit i ob')
    then show ?thesis using that ok(1) by (auto simp: slot_hit_def cache_ok_def entry_ok_def)
  next
    case (fill i ob')
    then show ?thesis using that by (auto simp: slot_fill_def adds_obj_def drops_objs_def)
  qed (use that in auto)
  ultimately show ?thesis using id c(2) gr un ok' by (auto simp: idle_def caches_ok_def grown_def)
qed

lemma input_get_idle:
  assumes g: "input_cache_get D a fd k s = (x, s')" and id: "idle (inode_of D) s" and fc: "vk_frame_count s \<noteq> - 1"
  shows "idle (inode_of D) s' \<and> fences (device s') = fences (device s) \<and> vk_frame_count s' = vk_frame_count s \<and>
    output_layout s' = output_layout s \<and>
    (\<forall>ob. x = Some ob \<longrightarrow> ob \<in> live (device s') \<and> ob < next_obj (device s') \<and> owner (device s') ob \<in> range Input_slot)"
proof -
  from g obtain c h where c: "cache_get False Input_slot D a (vk_frame_count s) fd k (input_cache s) (device s) = (x, c, h)"
    "s' = s\<lparr>input_cache := c, device := h\<rparr>" by (rule input_cache_getE)
  have ok: "cache_ok (inode_of D) Input_slot (input_cache s) (device s)" "running (device s) = {}" "aged (input_cache s)"
    using id by (simp_all add: idle_def caches_ok_def)
  note gr = cache_get_grown [OF c(1) ok(1)] and un = cache_get_unmisused [OF c(1) ok fc]
    and ok' = cache_get_ok [OF c(1) ok(1)]
  have "cache_ok (inode_of D) Image_slot (image_cache s) h" "entry_ok (inode_of D) Output_slot (cached_output s) h"
    using others_grown [OF _ gr] id by (simp_all add: idle_def)
  moreover have "ob \<in> live h \<and> ob < next_obj h \<and> owner h ob \<in> range Input_slot" if "x = Some ob" for ob
    using c(1) ok(1)
  proof (cases rule: cache_get_cases)
    case (hit i ob')
    then show ?thesis using that ok(1) by (auto simp: slot_hit_def cache_ok_def entry_ok_def)
  next
    case (fill i ob')
    then show ?thesis using that by (auto simp: slot_fill_def adds_obj_def drops_objs_def)
  qed (use that in auto)
  ultimately show ?thesis using id c(2) gr un ok' by (auto simp: idle_def caches_ok_def grown_def)
qed

lemma output_get_idle:
  assumes g: "output_cache_get D a fd sz s = (x, s')" and id: "idle (inode_of D) s"
  shows "idle (inode_of D) s' \<and> fences (device s') = fences (device s) \<and> vk_frame_count s' = vk_frame_count s \<and>
    output_layout s' = output_layout s \<and> (\<forall>ob. x = Some ob \<longrightarrow> ob \<in> live (device s')) \<and> grown {Output_slot} (device s) (device s')"
proof (cases "e_valid (cached_output s) \<and> e_fd (cached_output s) = fd \<and> e_key (cached_output s) = sz \<and>
    (get_fd_inode D fd = 0 \<or> e_inode (cached_output s) = 0 \<or> get_fd_inode D fd = e_inode (cached_output s))")
  case True
  then have "x = Some (e_obj (cached_output s))" "s' = s" using g by (auto simp: output_cache_get_def Let_def)
  then show ?thesis using True id by (auto simp: idle_def caches_ok_def entry_ok_def)
next
  case False
  obtain e1 g1 where d: "cache_entry_destroy False (cached_output s) (device s) = (e1, g1)" by fastforce
  have drop: "drops_objs (obj_of (cached_output s)) (device s) g1" "\<not> e_valid e1" using entry_destroy_account [OF d] by simp_all
  have ok: "entry_ok (inode_of D) Output_slot (cached_output s) (device s)" "caches_ok (inode_of D) s"
    using id by (simp_all add: idle_def caches_ok_def)
  have gr1: "grown {Output_slot} (device s) g1" by (rule drops_objs_grown [OF drop(1) ok(1)])
  have keep: "idle (inode_of D) (s\<lparr>cached_output := e, device := h\<rparr>)"
    if "grown {Output_slot} (device s) h" "entry_ok (inode_of D) Output_slot e h" "misuses h = []" for e h
    using others_grown [OF ok(2) that(1)] that id by (auto simp: idle_def caches_ok_def grown_def)
  have mis: "misuses g1 = []" using drop(1) id by (simp add: drops_objs_def idle_def)
  have bad: "entry_ok (inode_of D) Output_slot e1 h" for h using drop(2) by (simp add: entry_ok_def)
  note step = g [unfolded output_cache_get_def Let_def if_not_P [OF False] d prod.case]
  show ?thesis
  proof (cases "i_dup a")
    case None
    then show ?thesis using step keep [OF gr1 bad mis] gr1 by (auto simp: grown_def)
  next
    case (Some n)
    let ?h = "g1\<lparr>own_fds := insert n (own_fds g1)\<rparr>"
    obtain y g2 where im: "import_dmabuf (i_reply a) Output_slot n (behind D fd) ?h = (y, g2)" by fastforce
    have grh: "grown {Output_slot} (device s) ?h" using gr1 by (simp add: grown_def)
    show ?thesis
    proof (cases y)
      case None
      then have so: "same_objs ?h g2" using import_dmabuf_account [OF im] by simp
      then have gr2: "grown {Output_slot} (device s) g2" "misuses g2 = []"
        using grh mis by (simp_all add: same_objs_def grown_def)
      show ?thesis using step Some im None keep [OF gr2(1) bad gr2(2)] gr2 by (auto simp: grown_def)
    next
      case (Some ob)
      have ad: "ob = next_obj ?h" "adds_obj Output_slot (behind D fd) ?h g2" using import_dmabuf_account [OF im] Some by simp_all
      have gr2: "grown {Output_slot} (device s) g2"
        using grown_trans [OF grh grown_mono [OF adds_obj_grown [OF ad(2)]]] by blast
      define e2 where "e2 = e1\<lparr>e_fd := fd, e_fd_dup := n, e_inode := get_fd_inode D fd, e_obj := ob, e_key := sz, e_valid := True\<rparr>"
      have ok2: "entry_ok (inode_of D) Output_slot e2 g2" using ad by (auto simp: e2_def entry_ok_def adds_obj_def get_fd_inode_def)
      have m2: "misuses g2 = []" using ad(2) mis by (simp add: adds_obj_def)
      have "x = Some ob" "s' = s\<lparr>cached_output := e2, device := g2\<rparr>" using step \<open>i_dup a = _\<close> im Some by (auto simp: e2_def)
      then show ?thesis using keep [OF gr2 ok2 m2] gr2 ad by (auto simp: grown_def adds_obj_def)
    qed
  qed
qed

section \<open>Work\<close>

lemma first_fence_idle:
  assumes "idle ino s" "ready False s"
  shows "idle ino (first_fence s) \<and> fences (device (first_fence s)) None = Unsignaled"
proof -
  have nq: "fences (device s) None \<noteq> Queued" using assms(1) by (simp add: idle_def)
  have "device (first_fence s) = (if vk_frame_count s = 0 then (device s)\<lparr>fences := (fences (device s))(None := Unsignaled)\<rparr> else device s)"
    using nq by (simp add: first_fence_def reset_fence_def Let_def)
  then show ?thesis using assms by (auto simp: idle_def caches_ok_def cache_ok_def entry_ok_def ready_def)
qed

lemma caches_ok_device:
  assumes "caches_ok ino s" "live g = live (device s)" "next_obj g = next_obj (device s)" "owner g = owner (device s)"
    "content g = content (device s)"
  shows "caches_ok ino (s\<lparr>device := g\<rparr>)"
  using assms by (simp add: caches_ok_def cache_ok_def entry_ok_def)

lemma caches_ok_on_gpu:
  assumes "caches_ok ino s" "live (f (device s)) = live (device s)" "next_obj (f (device s)) = next_obj (device s)"
    "owner (f (device s)) = owner (device s)" "content (f (device s)) = content (device s)"
  shows "caches_ok ino (on_gpu f s)"
  unfolding on_gpu_def using assms by (rule caches_ok_device)

lemma submit_work_idle:
  assumes w: "submit_work a None used s = (ok, s')" and id: "idle ino s" and f: "fences (device s) None = Unsignaled"
    and used: "set used \<subseteq> live (device s)"
  shows "if ok then busy ino (set_pending i y uv s') else idle ino s' \<and> fences (device s') None = Unsignaled"
proof -
  have run: "running (device s) = {}" using id by (simp add: idle_def)
  have rc: "reset_commands (device s) = device s" using run by (simp add: reset_commands_def)
  have fl: "filter (\<lambda>ob. ob \<notin> live (device s)) used = []" using used by (auto simp: filter_empty_conv)
  have rec: "record_commands used (device s) = device s" unfolding record_commands_def fl by simp
  let ?g = "(device s)\<lparr>fences := (fences (device s))(None := Queued), running := set used\<rparr>"
  have sub: "queue_submit None used (device s) = ?g" using run f by (simp add: queue_submit_def Let_def)
  have "caches_ok ino (s\<lparr>device := ?g\<rparr>)" using id by (intro caches_ok_device) (simp_all add: idle_def)
  then show ?thesis using w id f
    by (auto simp: submit_work_def on_gpu_def rc rec sub Let_def busy_def idle_def caches_ok_def set_pending_def split: if_splits)
qed

lemma destroy_input_account:
  assumes "destroy_input fd n es g = (es', g')" "running g = {}" "n \<le> length es"
    "\<forall>i < length es. entry_ok ino (mk (m + i)) (es ! i) g" "inj mk"
  shows "length es' = length es \<and> (\<forall>i < length es. entry_ok ino (mk (m + i)) (es' ! i) g' \<and>
      (e_valid (es' ! i) \<longrightarrow> e_valid (es ! i)) \<and> e_last_used (es' ! i) = e_last_used (es ! i)) \<and>
    grown (mk ` {m ..< m + length es}) g g' \<and> misuses g' = misuses g"
  using assms
proof (induction fd n es g arbitrary: es' g' m rule: destroy_input.induct)
  case (1 fd n e es g)
  note ok0 = 1(5) [rule_format, of 0, simplified]
  have ok: "\<forall>i < length es. entry_ok ino (mk (Suc m + i)) (es ! i) g" using 1(5) by force
  show ?case
  proof (cases "e_valid e \<and> e_fd e = fd")
    case True
    obtain e2 g2 where d: "cache_entry_destroy False e g = (e2, g2)" by fastforce
    have eq: "es' = e2 # es" "g' = g2" using 1(2) True d by auto
    have acc: "\<not> e_valid e2" "drops_objs (obj_of e) g g2" "e_last_used e2 = e_last_used e" using entry_destroy_account [OF d] by simp_all
    have gr: "grown {mk m} g g2" by (rule drops_objs_grown [OF acc(2) ok0])
    have "entry_ok ino (mk (m + i)) ((e2 # es) ! i) g2" if "i < Suc (length es)" for i
    proof (cases i)
      case 0
      then show ?thesis using acc(1) by (simp add: entry_ok_def)
    next
      case (Suc j)
      then have "mk (m + i) \<notin> {mk m}" using 1(6) by (auto dest: injD)
      then show ?thesis using entry_ok_grown [of ino "mk (m + i)" "es ! j" g, OF _ gr] ok that Suc by simp
    qed
    moreover have "grown (mk ` {m ..< m + length (e # es)}) g g2" by (rule grown_mono [OF gr]) auto
    moreover have "misuses g2 = misuses g" using acc(2) 1(3) by (simp add: drops_objs_def)
    ultimately show ?thesis using acc eq by (auto simp: nth_Cons split: nat.splits)
  next
    case False
    obtain es2 g2 where d: "destroy_input fd n es g = (es2, g2)" by fastforce
    have eq: "es' = e # es2" "g' = g2" using 1(2) False d by auto
    have len: "n \<le> length es" using 1(4) by simp
    note ih = 1(1) [OF False d 1(3) len ok 1(6)]
    have gr: "grown (mk ` {Suc m ..< Suc m + length es}) g g2" using ih by simp
    have "mk m \<notin> mk ` {Suc m ..< Suc m + length es}" using 1(6) by (auto dest: injD)
    then have "entry_ok ino (mk m) e g2" using entry_ok_grown [OF ok0 gr] by simp
    moreover have "grown (mk ` {m ..< m + length (e # es)}) g g2" by (rule grown_mono [OF gr]) auto
    ultimately show ?thesis using ih eq by (auto simp: nth_Cons split: nat.splits)
  qed
qed auto

lemma caches_ok_pending [simp]:
  "caches_ok ino (s\<lparr>has_pending := b, pending_in_fd := i, pending_out_fd := y, pending_out_fd2 := z\<rparr>) = caches_ok ino s"
  "caches_ok ino (s\<lparr>vk_frame_count := n\<rparr>) = caches_ok ino s" "caches_ok ino (sync_end m fd s) = caches_ok ino s"
  by (simp_all add: caches_ok_def)

lemma end_outputs_fields [simp]:
  "device (end_outputs s) = device s" "caches_ok ino (end_outputs s) = caches_ok ino s" "output_layout (end_outputs s) = output_layout s"
  "vk_frame_count (end_outputs s) = vk_frame_count s" "initialized (end_outputs s) = initialized s"
  by (simp_all add: end_outputs_def Let_def)

lemma drop_input_account:
  assumes ok: "caches_ok ino s" and run: "running (device s) = {}"
  shows "caches_ok ino (drop_input s) \<and> misuses (device (drop_input s)) = misuses (device s) \<and>
    running (device (drop_input s)) = {} \<and> fences (device (drop_input s)) = fences (device s) \<and>
    output_layout (drop_input s) = output_layout s \<and> vk_frame_count (drop_input s) = vk_frame_count s"
proof (cases "0 \<le> pending_in_fd s")
  case False
  then show ?thesis using assms by (simp add: drop_input_def)
next
  case True
  let ?c = "input_cache s"
  obtain es g where d: "destroy_input (pending_in_fd s) (entry_count ?c) (entries ?c) (device s) = (es, g)" by fastforce
  have c: "length (entries ?c) = DMABUF_CACHE_SIZE" "entry_count ?c \<le> DMABUF_CACHE_SIZE"
      "\<forall>i < DMABUF_CACHE_SIZE. entry_ok ino (Input_slot (0 + i)) (entries ?c ! i) (device s) \<and> (e_valid (entries ?c ! i) \<longrightarrow> i < entry_count ?c)"
    using ok by (simp_all add: caches_ok_def cache_ok_def)
  note acc = destroy_input_account [OF d run, of ino Input_slot 0]
  have acc: "length es = DMABUF_CACHE_SIZE" "\<forall>i < DMABUF_CACHE_SIZE. entry_ok ino (Input_slot i) (es ! i) g \<and>
      (e_valid (es ! i) \<longrightarrow> e_valid (entries ?c ! i)) \<and> e_last_used (es ! i) = e_last_used (entries ?c ! i)"
      "grown (Input_slot ` {0 ..< DMABUF_CACHE_SIZE}) (device s) g" "misuses g = misuses (device s)"
    using acc c by simp_all
  have gr: "grown (range Input_slot) (device s) g" by (rule grown_mono [OF acc(3)]) auto
  have "aged (?c\<lparr>entries := es\<rparr>)"
    using ok acc(1,2) c(1) nth_mem [of _ "entries ?c"] by (fastforce simp: caches_ok_def aged_def in_set_conv_nth)
  moreover have "cache_ok ino Input_slot (?c\<lparr>entries := es\<rparr>) g" using acc(1,2) c by (simp add: cache_ok_def)
  ultimately have "caches_ok ino ((sync_end Sync_read (pending_in_fd s) s)\<lparr>input_cache := ?c\<lparr>entries := es\<rparr>, device := g\<rparr>)"
    using others_grown [OF ok gr] ok by (simp add: caches_ok_def)
  then show ?thesis using True d acc(4) gr run by (simp add: drop_input_def Let_def grown_def)
qed

lemma convert_wait_busy:
  assumes b: "busy ino s" and i: "initialized s" and w: "vfmcap_vk_convert_wait True s = (ok, s')"
  shows "idle ino s' \<and> fences (device s') None = Unsignaled \<and> output_layout s' = output_layout s \<and> ok"
proof -
  let ?s1 = "on_gpu (wait_fence True None) s"
  have "caches_ok ino ?s1" using b by (intro caches_ok_on_gpu) (simp_all add: busy_def wait_fence_def)
  then have d: "caches_ok ino (drop_input ?s1)" "misuses (device (drop_input ?s1)) = []" "running (device (drop_input ?s1)) = {}"
      "fences (device (drop_input ?s1)) = (fences (device s))(None := Signaled)" "output_layout (drop_input ?s1) = output_layout s"
    using drop_input_account [of ino ?s1] b by (simp_all add: wait_fence_def busy_def)
  define s2 where "s2 = on_gpu wait_idle (drop_input ?s1)"
  have s2: "caches_ok ino s2" unfolding s2_def using d(1) by (intro caches_ok_on_gpu) (simp_all add: wait_idle_def)
  have f2: "fences (device s2) None = Signaled" "\<forall>n. fences (device s2) n \<noteq> Queued" "misuses (device s2) = []"
      "running (device s2) = {}" "output_layout s2 = output_layout s"
    using d b by (simp_all add: s2_def wait_idle_def busy_def)
  define s3 where "s3 = (end_outputs s2)\<lparr>has_pending := False, pending_in_fd := - 1, pending_out_fd := - 1, pending_out_fd2 := - 1\<rparr>"
  have s3: "caches_ok ino s3" "device s3 = device s2" "output_layout s3 = output_layout s2" "\<not> has_pending s3"
    using s2 by (simp_all add: s3_def)
  have s': "ok" "s' = (on_gpu (reset_fence None) s3)\<lparr>vk_frame_count := vk_frame_count s3 + 1\<rparr>"
    using w i b by (simp_all add: vfmcap_vk_convert_wait_def Let_def busy_def s2_def s3_def)
  have rf: "reset_fence None (device s2) = (device s2)\<lparr>fences := (fences (device s2))(None := Unsignaled)\<rparr>"
    using f2(1) by (simp add: reset_fence_def Let_def)
  have "caches_ok ino (on_gpu (reset_fence None) s3)" using s3 by (intro caches_ok_on_gpu) (simp_all add: rf)
  then show ?thesis using s' f2 s3 by (simp add: idle_def rf)
qed

section \<open>Clearing the caches\<close>

lemma destroy_entries_account:
  assumes "destroy_entries img n es g = (es', g')" "running g = {}" "n \<le> length es"
    "\<forall>i < length es. entry_ok ino (mk (m + i)) (es ! i) g \<and> (e_valid (es ! i) \<longrightarrow> i < n)" "inj mk"
  shows "length es' = length es \<and> (\<forall>e \<in> set es'. \<not> e_valid e) \<and> map e_last_used es' = map e_last_used es \<and>
    grown (mk ` {m ..< m + length es}) g g' \<and> misuses g' = misuses g"
  using assms
proof (induction img n es g arbitrary: es' g' m rule: destroy_entries.induct)
  case (1 img n e es g)
  obtain e2 g1 where d: "cache_entry_destroy img e g = (e2, g1)" by fastforce
  obtain es2 g2 where ds: "destroy_entries img n es g1 = (es2, g2)" by fastforce
  have eq: "es' = e2 # es2" "g' = g2" using 1(2) d ds by auto
  have acc: "\<not> e_valid e2" "drops_objs (obj_of e) g g1" "e_last_used e2 = e_last_used e" using entry_destroy_account [OF d] by simp_all
  have gr: "grown {mk m} g g1" using drops_objs_grown [OF acc(2)] 1(5) by force
  have rest: "\<forall>i < length es. entry_ok ino (mk (Suc m + i)) (es ! i) g1 \<and> (e_valid (es ! i) \<longrightarrow> i < n)"
  proof (intro allI impI)
    fix i assume i: "i < length es"
    have "mk (Suc m + i) \<notin> {mk m}" using 1(6) by (auto dest: injD)
    moreover have "entry_ok ino (mk (Suc m + i)) (es ! i) g" "e_valid (es ! i) \<longrightarrow> i < n" using 1(5) i by force+
    ultimately show "entry_ok ino (mk (Suc m + i)) (es ! i) g1 \<and> (e_valid (es ! i) \<longrightarrow> i < n)"
      using entry_ok_grown [of ino "mk (Suc m + i)" "es ! i" g, OF _ gr] by blast
  qed
  have run: "running g1 = {}" and mis: "misuses g1 = misuses g" using acc(2) 1(3) by (simp_all add: drops_objs_def)
  have len: "n \<le> length es" using 1(4) by simp
  note ih = 1(1) [OF d [symmetric] refl ds run len rest 1(6)]
  have gr2: "grown (mk ` {Suc m ..< Suc m + length es}) g1 g2" using ih by simp
  have "grown (mk ` {m ..< m + length (e # es)}) g g1" by (rule grown_mono [OF gr]) auto
  moreover have "grown (mk ` {m ..< m + length (e # es)}) g1 g2" by (rule grown_mono [OF gr2]) auto
  ultimately have "grown (mk ` {m ..< m + length (e # es)}) g g2" by (rule grown_trans)
  then show ?case using ih eq acc mis by simp
qed (auto simp: in_set_conv_nth)

lemma cache_clear_account:
  assumes cl: "cache_clear img c g = (c', g')" and ok: "cache_ok ino mk c g" and run: "running g = {}" and inj: "inj mk" and ag: "aged c"
  shows "cache_ok ino mk c' h \<and> aged c' \<and> grown (range mk) g g' \<and> misuses g' = misuses g"
proof -
  obtain es g1 where d: "destroy_entries img (entry_count c) (entries c) g = (es, g1)" by fastforce
  have eq: "c' = c\<lparr>entries := es, entry_count := 0\<rparr>" "g' = g1" using cl d by (simp_all add: cache_clear_def)
  have acc: "length es = length (entries c)" "\<forall>e \<in> set es. \<not> e_valid e" "map e_last_used es = map e_last_used (entries c)"
      "grown (mk ` {0 ..< length (entries c)}) g g1" "misuses g1 = misuses g"
    using destroy_entries_account [OF d run, of ino mk 0] ok inj by (auto simp: cache_ok_def)
  have "cache_ok ino mk c' h" using acc ok by (auto simp: cache_ok_def eq entry_ok_def)
  moreover have "aged c'" using ag arg_cong [OF acc(3), of set] by (force simp: aged_def eq)
  moreover have "grown (range mk) g g'" unfolding eq by (rule grown_mono [OF acc(4)]) auto
  ultimately show ?thesis using acc(5) eq by simp
qed

section \<open>Calls of a careful client\<close>

text \<open>What a finished call leaves: an idle context whose fence is ready.\<close>

definition settled :: "bool \<Rightarrow> (nat \<Rightarrow> u64) \<Rightarrow> vk_ctx \<Rightarrow> bool" where
  "settled ten ino s \<longleftrightarrow> idle ino s \<and> ready ten s"

lemma settled_simple [simp]:
  "settled ten ino (sync_start m fd s) = settled ten ino s" "settled ten ino (sync_end m fd s) = settled ten ino s"
  "settled ten ino (bind_input a im s) = settled ten ino s" "settled ten ino (set_in_use b p i s) = settled ten ino s"
  by (simp_all add: settled_def ready_def)

lemma settled_release [simp]:
  "settled ten ino (output_pool_release p i s) = settled ten ino s" "settled ten ino (release_planes py puv e s) = settled ten ino s"
  by (simp_all add: output_pool_release_def release_planes_def Let_def split: option.split)

lemma settled_unsignaled: "idle ino s \<Longrightarrow> fences (device s) None = Unsignaled \<Longrightarrow> settled ten ino s"
  by (simp add: settled_def ready_def)

lemma get_settled:
  "image_cache_get D a fd k s = (x, s') \<Longrightarrow> settled ten (inode_of D) s \<Longrightarrow> vk_frame_count s \<noteq> - 1 \<Longrightarrow>
   settled ten (inode_of D) s' \<and> vk_frame_count s' = vk_frame_count s \<and> (\<forall>ob. x = Some ob \<longrightarrow> ob \<in> live (device s'))"
  "input_cache_get D a fd sz s = (x, s') \<Longrightarrow> settled ten (inode_of D) s \<Longrightarrow> vk_frame_count s \<noteq> - 1 \<Longrightarrow>
   settled ten (inode_of D) s' \<and> vk_frame_count s' = vk_frame_count s \<and>
   (\<forall>ob. x = Some ob \<longrightarrow> ob \<in> live (device s') \<and> ob < next_obj (device s') \<and> owner (device s') ob \<in> range Input_slot)"
  using image_get_idle [of D a fd k s x s'] input_get_idle [of D a fd sz s x s'] by (auto simp: settled_def ready_def)

lemma first_fence_live [simp]: "live (device (first_fence s)) = live (device s)"
  using first_fence_device by blast

lemma fence_idle:
  assumes "settled False ino s"
  shows "idle ino (first_fence s)" "fences (device (first_fence s)) None = Unsignaled"
  using first_fence_idle [of ino s] assms by (auto simp: settled_def)

lemma convert_submit_clean:
  assumes r: "vfmcap_vk_convert_submit D a fd out w h fmt s = (ok, s')" and st: "settled False (inode_of D) s"
    and fc: "vk_frame_count s \<noteq> - 1"
  shows "if ok then busy (inode_of D) s' else settled False (inode_of D) s'"
proof (cases "initialized s")
  case False
  then show ?thesis using r st by (auto simp: vfmcap_vk_convert_submit_def)
next
  case True
  let ?s0 = "first_fence s"
  note f0 = fence_idle [OF st]
  have fc0: "vk_frame_count ?s0 \<noteq> - 1" using fc by simp
  obtain x s1 where g1: "input_cache_get D (c_in a) fd (input_size w h) ?s0 = (x, s1)" by fastforce
  note 1 = input_get_idle [OF g1 f0(1) fc0]
  have u1: "fences (device s1) None = Unsignaled" using 1 f0(2) by simp
  have i1: "idle (inode_of D) (sync_start Sync_read fd s1)" using 1 by simp
  obtain y s2 where g2: "output_cache_get D (c_out a) out (output_size fmt w h) (sync_start Sync_read fd s1) = (y, s2)" by fastforce
  note 2 = output_get_idle [OF g2 i1]
  have u2: "fences (device s2) None = Unsignaled" using 2 u1 by simp
  note step = r [unfolded vfmcap_vk_convert_submit_def Let_def g1 prod.case]
  show ?thesis
  proof (cases x)
    case None
    then show ?thesis using step True 1 u1 by (auto intro: settled_unsignaled)
  next
    case x: (Some ib)
    show ?thesis
    proof (cases y)
      case None
      then show ?thesis using step True x g2 2 u2 by (auto intro: settled_unsignaled)
    next
      case y: (Some ob)
      have "ib \<in> live (device s1)" "ib < next_obj (device s1)" "owner (device s1) ib \<in> range Input_slot" using 1 x by auto
      then have "ib \<in> live (device s2)" using 2 unfolding grown_def by auto
      then have used: "set [ib, ob] \<subseteq> live (device (sync_start Sync_write out s2))" using 2 y by simp
      obtain ok2 s3 where w: "submit_work (c_work a) None [ib, ob] (sync_start Sync_write out s2) = (ok2, s3)" by fastforce
      have "if ok2 then busy (inode_of D) (set_pending fd out (- 1) s3) else settled False (inode_of D) s3"
        using submit_work_idle [OF w _ _ used, of "inode_of D" fd out "- 1"] 2 u2 by (auto intro: settled_unsignaled split: if_splits)
      then show ?thesis using step True x g2 y w by (auto split: if_splits)
    qed
  qed
qed

lemma render_contiguous_clean:
  assumes r: "render_contiguous D a fd src py i s = (x, s')" and st: "settled False (inode_of D) s"
    and fc: "vk_frame_count s \<noteq> - 1" and wt: "w_wait (c_work a)" and ini: "initialized s"
  shows "settled False (inode_of D) s'"
proof -
  obtain im s1 where g: "image_cache_get D (c_in a) fd (fst src, snd src, G8_B8R8_2PLANE_420_UNORM, 0, 0) s = (im, s1)" by fastforce
  note 1 = get_settled(1) [OF g st fc]
  have ini1: "initialized s1" using g ini by (auto elim: image_cache_getE)
  show ?thesis
  proof (cases im)
    case None
    then show ?thesis using r g 1 by (auto simp: render_contiguous_def)
  next
    case (Some ob)
    have st1: "settled False (inode_of D) s1" using 1 by simp
    define fd' s2 where "fd' = p_fd (pools s1 py ! i)"
      "s2 = bind_input (c_work a) ob (sync_start Sync_write fd' (sync_start Sync_read fd (first_fence s1)))"
    have s2: "idle (inode_of D) s2" "fences (device s2) None = Unsignaled" "set [ob] \<subseteq> live (device s2)" "initialized s2"
      using fence_idle [OF st1] 1 Some ini1 by (simp_all add: fd'_s2_def)
    obtain ok s3 where w: "submit_work (c_work a) None [ob] s2 = (ok, s3)" by fastforce
    obtain ok2 s4 where v: "vfmcap_vk_convert_wait True (set_pending fd fd' (- 1) s3) = (ok2, s4)" by fastforce
    have ini3: "initialized (set_pending fd fd' (- 1) s3)" using w s2(4) by (auto simp: submit_work_def Let_def split: if_splits)
    note sub = submit_work_idle [OF w s2(1-3), of fd fd' "- 1"]
    have eq: "(x, s') = (if \<not> ok then (None, if w_reset (c_work a) \<and> w_begin (c_work a) \<and> w_end (c_work a)
          then output_pool_release py i s3 else s3)
        else if \<not> ok2 then (None, output_pool_release py i s4) else (Some (fd', - 1), s4))"
      using r g Some w v wt by (auto simp: render_contiguous_def Let_def fd'_s2_def split: if_splits)
    show ?thesis
    proof (cases ok)
      case False
      then have "settled False (inode_of D) s3" using sub by (auto intro: settled_unsignaled)
      then show ?thesis using eq False by (auto split: if_splits)
    next
      case True
      then have "settled False (inode_of D) s4" using convert_wait_busy [OF _ ini3 v] sub by (auto intro: settled_unsignaled)
      then show ?thesis using eq True by (auto split: if_splits)
    qed
  qed
qed

text \<open>Taking entries of the pools touches nothing else.\<close>

definition same_but_pools :: "vk_ctx \<Rightarrow> vk_ctx \<Rightarrow> bool" where
  "same_but_pools s s' \<longleftrightarrow> (\<exists>P. s' = s\<lparr>pools := P\<rparr>)"

lemma same_but_pools_refl [simp]: "same_but_pools s s"
  unfolding same_but_pools_def by (rule exI [of _ "pools s"]) simp

lemma same_but_pools_update [simp]: "same_but_pools s (s\<lparr>pools := P\<rparr>)"
  by (auto simp: same_but_pools_def)

lemma same_but_pools_trans: "same_but_pools s t \<Longrightarrow> same_but_pools t u \<Longrightarrow> same_but_pools s u"
  by (auto simp: same_but_pools_def)

lemma same_but_pools_set [simp]: "same_but_pools s (set_in_use b p i s)"
  by (auto simp: same_but_pools_def set_in_use_def)

lemma same_but_pools_release: "same_but_pools s t \<Longrightarrow> same_but_pools s (output_pool_release p i t)"
  using same_but_pools_trans [OF _ same_but_pools_set] by (simp add: output_pool_release_def)

lemma same_but_pools_acquire: "output_pool_acquire p s = (x, s') \<Longrightarrow> same_but_pools s s'"
  by (auto simp: output_pool_acquire_def split: option.splits)

lemma same_but_pools_planes:
  assumes "acquire_planes py puv s = (x, s')"
  shows "same_but_pools s s'"
proof -
  obtain y s1 where y: "output_pool_acquire py s = (y, s1)" by fastforce
  obtain uv s2 where uv: "(if pools s puv = [] then (None, s1) else output_pool_acquire puv s1) = (uv, s2)" by fastforce
  have "same_but_pools s1 s2" using uv by (auto dest: same_but_pools_acquire split: if_splits)
  then have "same_but_pools s s2" by (rule same_but_pools_trans [OF same_but_pools_acquire [OF y]])
  then show ?thesis using assms y uv
    by (auto simp: acquire_planes_def intro: same_but_pools_release split: option.splits prod.splits if_splits)
qed

lemma same_but_pools_poll: "poll_planes n (\<lambda>_. []) py puv s = (x, s') \<Longrightarrow> same_but_pools s s'"
proof (induction n arbitrary: s)
  case (Suc n)
  obtain y t where a: "acquire_planes py puv s = (y, t)" by fastforce
  have st: "same_but_pools s t" by (rule same_but_pools_planes [OF a])
  show ?case
  proof (cases y)
    case None
    then have "same_but_pools t s'" using Suc a by simp
    then show ?thesis by (rule same_but_pools_trans [OF st])
  next
    case (Some e)
    then show ?thesis using Suc.prems a st by simp
  qed
qed simp

lemma same_but_pools_wait:
  assumes "wait_planes (\<lambda>_. []) py puv s = (x, s')"
  shows "same_but_pools s s'"
proof -
  obtain y t where a: "acquire_planes py puv s = (y, t)" by fastforce
  have st: "same_but_pools s t" by (rule same_but_pools_planes [OF a])
  show ?thesis
  proof (cases y)
    case None
    then have "same_but_pools t s'" using assms a same_but_pools_poll by (simp add: wait_planes_def)
    then show ?thesis by (rule same_but_pools_trans [OF st])
  next
    case (Some e)
    then show ?thesis using assms a st by (simp add: wait_planes_def)
  qed
qed

lemma same_but_pools_settled:
  assumes "same_but_pools s s'"
  shows "settled ten ino s' = settled ten ino s" "vk_frame_count s' = vk_frame_count s" "initialized s' = initialized s"
    "output_layout s' = output_layout s" "has_pending s' = has_pending s" "busy ino s' = busy ino s"
  using assms by (auto simp: same_but_pools_def settled_def ready_def idle_def busy_def caches_ok_def)

lemma render_clean:
  assumes r: "vfmcap_vk_render_and_wait D a (\<lambda>_. []) fd src dst fmt s = (x, s')" and st: "settled False (inode_of D) s"
    and fc: "vk_frame_count s \<noteq> - 1" and wt: "w_wait (c_work a)" and so: "single_outputs s"
  shows "settled False (inode_of D) s'"
proof (cases "initialized s \<and> plane_pools fmt \<noteq> None")
  case False
  then show ?thesis using r st by (auto simp: vfmcap_vk_render_and_wait_def split: option.splits if_splits)
next
  case True
  then obtain py puv where pp: "plane_pools fmt = Some (py, puv)" by auto
  obtain e t where w: "wait_planes (\<lambda>_. []) py puv s = (e, t)" by fastforce
  note same = same_but_pools_settled [OF same_but_pools_wait [OF w]]
  have empty: "pools s puv = []" using so pp by (cases fmt) (auto simp: single_outputs_def)
  show ?thesis
  proof (cases e)
    case None
    then show ?thesis using r True pp w same(1) st by (auto simp: vfmcap_vk_render_and_wait_def)
  next
    case (Some ij)
    obtain i uv where ij: "ij = (i, uv)" by fastforce
    have "uv = None" using wait_planes_account [OF w plane_pools_ne [OF pp]] Some ij empty
      by (cases uv) (auto simp: planes_taken_def unused_def)
    then have "render_contiguous D a fd src py i t = (x, s')" using r True pp w Some ij by (simp add: vfmcap_vk_render_and_wait_def)
    from render_contiguous_clean [OF this _ _ wt] show ?thesis using same st fc True by simp
  qed
qed

lemma finish_afbc_settled:
  assumes b: "busy ino (set_pending i y uv s)" and p: "\<not> has_pending s"
  shows "settled ten ino (finish_afbc True fd fd' s)"
proof -
  have s: "caches_ok ino s" "misuses (device s) = []" "fences (device s) None = Queued"
      "\<forall>n. n \<noteq> None \<longrightarrow> fences (device s) n \<noteq> Queued" using b by (simp_all add: busy_def caches_ok_def)
  let ?g1 = "wait_fence True None (device s)"
  define g where "g = wait_idle (reset_fence None ?g1)"
  have g: "live g = live (device s)" "next_obj g = next_obj (device s)" "owner g = owner (device s)" "content g = content (device s)"
      "running g = {}" "misuses g = []" "fences g None = Unsignaled" "\<forall>n. fences g n \<noteq> Queued"
    using s by (simp_all add: g_def wait_fence_def reset_fence_def wait_idle_def Let_def)
  have d: "device (finish_afbc True fd fd' s) = g" by (simp add: finish_afbc_def Let_def g_def)
  have "caches_ok ino (s\<lparr>device := g\<rparr>)" by (rule caches_ok_device [OF s(1) g(1-4)])
  then have "caches_ok ino (finish_afbc True fd fd' s)" using d by (simp add: caches_ok_def finish_afbc_def Let_def)
  moreover have "\<not> has_pending (finish_afbc True fd fd' s)" using p by (simp add: finish_afbc_def Let_def)
  ultimately show ?thesis using g d by (simp add: settled_def idle_def ready_def)
qed

lemma afbc_10bit_clean:
  assumes r: "render_10bit_afbc p D a fd src s = (x, s')" and st: "settled False (inode_of D) s"
    and fc: "vk_frame_count s \<noteq> - 1" and wt: "w_wait (c_work a)"
  shows "settled False (inode_of D) s'"
proof (cases "initialized s")
  case False
  then show ?thesis using r st by (auto simp: render_10bit_afbc_def)
next
  case True
  obtain e t where q: "output_pool_acquire p s = (e, t)" by fastforce
  note same = same_but_pools_settled [OF same_but_pools_acquire [OF q]]
  show ?thesis
  proof (cases e)
    case None
    then show ?thesis using r True q same(1) st by (auto simp: render_10bit_afbc_def)
  next
    case (Some i)
    obtain im s1 where g: "input_cache_get D (c_in a) fd (input_size (fst src) (snd src)) t = (im, s1)" by fastforce
    have st': "settled False (inode_of D) t" "vk_frame_count t \<noteq> - 1" using same st fc by simp_all
    note 1 = get_settled(2) [OF g st']
    show ?thesis
    proof (cases im)
      case None
      then show ?thesis using r True q Some g 1 by (auto simp: render_10bit_afbc_def)
    next
      case im: (Some ib)
      define fd' s2 where "fd' = p_fd (pools s1 p ! i)" "s2 = first_fence (sync_start Sync_write fd' (sync_start Sync_read fd s1))"
      have st1: "settled False (inode_of D) (sync_start Sync_write fd' (sync_start Sync_read fd s1))" using 1 by simp
      have s2: "idle (inode_of D) s2" "fences (device s2) None = Unsignaled" "set [ib] \<subseteq> live (device s2)"
        using fence_idle [OF st1] 1 im by (simp_all add: fd'_s2_def)
      obtain ok s3 where w: "submit_work (c_work a) None [ib] s2 = (ok, s3)" by fastforce
      note sub = submit_work_idle [OF w s2, of fd fd' "- 1"]
      have np: "\<not> has_pending s3" using s2(1) w by (auto simp: idle_def submit_work_def Let_def split: if_splits)
      have eq: "(x, s') = (if \<not> ok then (None, if w_reset (c_work a) \<and> w_begin (c_work a) then output_pool_release p i s3 else s3)
          else (Some fd', finish_afbc True fd fd' s3))"
        using r True q Some g im w wt by (auto simp: render_10bit_afbc_def Let_def fd'_s2_def split: if_splits)
      show ?thesis
      proof (cases ok)
        case False
        then have "settled False (inode_of D) s3" using sub by (auto intro: settled_unsignaled)
        then show ?thesis using eq False by (auto split: if_splits)
      next
        case True
        then show ?thesis using eq finish_afbc_settled [OF _ np] sub by auto
      qed
    qed
  qed
qed

lemma idle_on_gpu:
  assumes "idle ino s" "live (f (device s)) = live (device s)" "next_obj (f (device s)) = next_obj (device s)"
    "owner (f (device s)) = owner (device s)" "content (f (device s)) = content (device s)" "running (f (device s)) = {}"
    "misuses (f (device s)) = []" "\<forall>n. fences (f (device s)) n \<noteq> Queued"
  shows "idle ino (on_gpu f s)"
  using assms caches_ok_on_gpu [of ino s f] by (simp add: idle_def)

lemma pipeline_init_idle:
  assumes "pipeline_init ok s = (r, s')" "idle ino s"
  shows "idle ino s' \<and> live (device s') = live (device s)"
  using assms idle_on_gpu [OF assms(2), of "\<lambda>g. g\<lparr>fences := (\<lambda>n. if n = None then fences g None else Signaled)\<rparr>"]
  by (auto simp: pipeline_init_def idle_def caches_ok_def split: if_splits)

lemma idle_release [simp]:
  "idle ino (output_pool_release p i s) = idle ino s" "idle ino (release_planes py puv e s) = idle ino s"
  by (simp_all add: output_pool_release_def release_planes_def Let_def split: option.split)

lemma idle_sync_planes [simp]:
  "idle ino (sync_planes sync_start y uv s) = idle ino s" "idle ino (sync_planes sync_end y uv s) = idle ino s"
  by (simp_all add: sync_planes_def split: option.split)

lemma device_sync_planes [simp]:
  "device (sync_planes sync_start y uv s) = device s" "device (sync_planes sync_end y uv s) = device s"
  by (simp_all add: sync_planes_def split: option.split)

lemma slot_work_idle:
  assumes id: "idle ino s" and ib: "ib \<in> live (device s)" and f: "fences (device s) slot = Unsignaled"
  shows "idle ino (sync_planes sync_end y uv
    (on_gpu wait_idle (on_gpu (wait_fence True slot) (on_gpu (queue_submit slot [ib]) (sync_planes sync_start y uv s)))))"
proof -
  let ?f = "\<lambda>g. wait_idle (wait_fence True slot (queue_submit slot [ib] g))"
  have comp: "on_gpu wait_idle (on_gpu (wait_fence True slot) (on_gpu (queue_submit slot [ib]) t)) = on_gpu ?f t" for t
    by (simp add: on_gpu_def)
  have g: "misuses (device s) = []" "\<forall>n. fences (device s) n \<noteq> Queued" using id by (simp_all add: idle_def)
  have "idle ino (sync_planes sync_start y uv s)" using id by simp
  then have "idle ino (on_gpu ?f (sync_planes sync_start y uv s))"
    by (rule idle_on_gpu) (simp_all add: g f wait_idle_def wait_fence_def queue_submit_def Let_def)
  then show ?thesis by (simp add: comp)
qed

lemma render_10bit_clean:
  assumes r: "vfmcap_vk_render_10bit_and_wait D a fd src fmt s = (x, s')" and id: "idle (inode_of D) s"
    and fc: "vk_frame_count s \<noteq> - 1" and wt: "w_wait (t_work a)"
  shows "idle (inode_of D) s'"
proof (cases "initialized s \<and> plane_pools fmt \<noteq> None")
  case False
  then show ?thesis using r id by (auto simp: vfmcap_vk_render_10bit_and_wait_def split: option.splits if_splits)
next
  case True
  then obtain py puv where pp: "plane_pools fmt = Some (py, puv)" by auto
  obtain im s1 where g: "input_cache_get D (t_in a) fd (input_size (fst src) (snd src)) s = (im, s1)" by fastforce
  note 1 = input_get_idle [OF g id fc]
  show ?thesis
  proof (cases im)
    case None
    then show ?thesis using r True pp g 1 by (auto simp: vfmcap_vk_render_10bit_and_wait_def)
  next
    case im: (Some ib)
    obtain e t where q: "acquire_planes py puv (sync_start Sync_read fd s1) = (e, t)" by fastforce
    have same: "same_but_pools (sync_start Sync_read fd s1) t" by (rule same_but_pools_planes [OF q])
    then have t: "idle (inode_of D) t" "live (device t) = live (device s1)" using 1
      by (auto simp: same_but_pools_def idle_def caches_ok_def)
    show ?thesis
    proof (cases e)
      case None
      then show ?thesis using r True pp g im q t by (auto simp: vfmcap_vk_render_10bit_and_wait_def)
    next
      case (Some ij)
      obtain ok t2 where pi: "pipeline_init (t_pipeline a) t = (ok, t2)" by fastforce
      note t2 = pipeline_init_idle [OF pi t(1)]
      define slot where "slot = Some (unat (vk_frame_count t2) mod VFMCAP_OUTPUT_POOL_CAPACITY)"
      have rc: "reset_commands (device t2) = device t2" using t2 by (simp add: idle_def reset_commands_def)
      have ib: "ib \<in> live (device t2)" using t2 t 1 im by simp
      have t4: "on_gpu reset_commands t2 = t2" by (simp add: on_gpu_def rc)
      define t5 where "t5 = on_gpu (reset_fence slot) t2"
      have g2: "misuses (device t2) = []" "running (device t2) = {}" "\<forall>n. fences (device t2) n \<noteq> Queued"
        using t2 by (simp_all add: idle_def)
      have "idle (inode_of D) t5" unfolding t5_def
        by (rule idle_on_gpu [OF conjunct1 [OF t2]]) (simp_all add: g2 reset_fence_def Let_def)
      then have t5: "idle (inode_of D) t5" "fences (device t5) slot = Unsignaled" "ib \<in> live (device t5)"
        using ib g2 by (simp_all add: t5_def reset_fence_def Let_def)
      have t6: "on_gpu (record_commands [ib]) t5 = t5" using t5(3) by (simp add: on_gpu_def record_commands_def)
      define y uv where "y = p_fd (pools t py ! fst ij)" "uv = map_option (\<lambda>j. p_fd (pools t puv ! j)) (snd ij)"
      define t9 where "t9 = sync_planes sync_end y uv
        (on_gpu wait_idle (on_gpu (wait_fence True slot) (on_gpu (queue_submit slot [ib]) (sync_planes sync_start y uv t5))))"
      have "(x, s') = (if \<not> ok then (None, release_planes py puv ij t2)
          else if \<not> w_reset (t_work a) then (None, release_planes py puv ij t2)
          else if \<not> t_fence a then (None, release_planes py puv ij t2)
          else if \<not> w_begin (t_work a) then (None, t5)
          else if \<not> w_end (t_work a) then (None, t5)
          else if \<not> w_submit (t_work a) then (None, release_planes py puv ij (sync_planes sync_start y uv t5))
          else (Some (y, case uv of None \<Rightarrow> - 1 | Some fd \<Rightarrow> fd), t9\<lparr>vk_frame_count := vk_frame_count t9 + 1\<rparr>))"
        unfolding r [symmetric] vfmcap_vk_render_10bit_and_wait_def
        using True by (simp only: pp g im q Some pi wt t4 y_uv_def [symmetric] slot_def [symmetric] t5_def [symmetric] t6 t9_def [symmetric]
            Let_def prod.case option.case simp_thms if_True if_False)
      moreover have "idle (inode_of D) t9" unfolding t9_def by (rule slot_work_idle [OF t5(1,3,2)])
      then have "idle (inode_of D) (t9\<lparr>vk_frame_count := vk_frame_count t9 + 1\<rparr>)" by (simp add: idle_def)
      ultimately show ?thesis using t2 t5(1) by (auto split: if_splits)
    qed
  qed
qed

lemma single_set_in_use [simp]: "single_outputs (set_in_use b p i s) = single_outputs s"
  by (auto simp: single_outputs_def set_in_use_def)

lemma lends_new_single: "lends_new s x s' \<Longrightarrow> single_outputs s \<Longrightarrow> output_layout s' = output_layout s \<Longrightarrow> single_outputs s'"
  using pool_le_length [of "pools s" "pools s'" Pool_nv12_uv] pool_le_length [of "pools s" "pools s'" Pool_p010_uv]
  by (simp add: lends_new_def single_outputs_def)

lemma reconfig_clean:
  assumes st: "settled ten ino s" and so: "single_outputs s" and a: "\<not> g_separate a" "\<not> g_copyout a"
    and r: "vfmcap_vk_reconfig_pools fmt a s = (ok, s')"
  shows "settled ten ino s' \<and> single_outputs s'"
proof (cases "initialized s")
  case False
  then show ?thesis using st so r by (simp add: vfmcap_vk_reconfig_pools_def)
next
  case True
  have id: "caches_ok ino s" "misuses (device s) = []" "running (device s) = {}" "\<forall>n. fences (device s) n \<noteq> Queued" "\<not> has_pending s"
    using st by (simp_all add: settled_def idle_def)
  have wi: "wait_idle (device s) = device s" using id(3,4) by (simp add: wait_idle_def)
  obtain ic g1 where 1: "cache_clear False (input_cache s) (device s) = (ic, g1)" by fastforce
  obtain mc g2 where 2: "cache_clear True (image_cache s) g1 = (mc, g2)" by fastforce
  obtain oc g3 where 3: "cache_entry_destroy False (cached_output s) g2 = (oc, g3)" by fastforce
  have ok: "cache_ok ino Input_slot (input_cache s) (device s)" "aged (input_cache s)" "aged (image_cache s)"
    using id(1) by (simp_all add: caches_ok_def)
  note a1 = cache_clear_account [OF 1 ok(1) id(3) _ ok(2), simplified]
  have gr1: "grown (range Input_slot) (device s) g1" using a1 by blast
  have run1: "running g1 = {}" using gr1 id(3) by (simp add: grown_def)
  have im1: "cache_ok ino Image_slot (image_cache s) g1" and out1: "entry_ok ino Output_slot (cached_output s) g1"
    using others_grown [OF id(1) gr1] by simp_all
  note a2 = cache_clear_account [OF 2 im1 run1 _ ok(3), simplified]
  have gr2: "grown (range Image_slot) g1 g2" using a2 by blast
  have "entry_ok ino Output_slot (cached_output s) g2" by (rule entry_ok_grown [OF out1 gr2]) auto
  then have d3: "drops_objs (obj_of (cached_output s)) g2 g3" "\<not> e_valid oc" using entry_destroy_account [OF 3] by simp_all
  have g3: "running g3 = {}" "fences g3 = fences (device s)" "misuses g3 = []"
    using d3(1) gr1 gr2 a1 a2 id by (simp_all add: drops_objs_def grown_def)
  define s1 where "s1 = s\<lparr>input_cache := ic, image_cache := mc, cached_output := oc, device := g3, pools := (\<lambda>_. [])\<rparr>"
  have st1: "settled ten ino s1"
    using st a1 a2 d3(2) g3 id by (simp add: settled_def idle_def ready_def caches_ok_def s1_def entry_ok_def)
  have so1: "output_layout s1 = LAYOUT_SINGLE_DMABUF" "pools s1 = (\<lambda>_. [])" using so by (simp_all add: s1_def single_outputs_def)
  obtain ok2 s2 where 4: "recreate_pools fmt a s1 = (ok2, s2)" by fastforce
  have yuv: "output_pool_create_linear_yuv LAYOUT_SINGLE_DMABUF False False rr = Some (ys, uvs) \<Longrightarrow> uvs = []" for rr ys uvs
    by (auto simp: output_pool_create_linear_yuv_def Let_def split: if_splits)
  have so2: "single_outputs s2"
    using 4 so1 a yuv by (cases fmt) (auto simp: recreate_pools_def single_outputs_def pool_of_def split: option.splits if_splits prod.splits)
  have "same_but_pools s1 s2"
    using 4 by (auto simp: recreate_pools_def split: option.splits if_splits prod.splits)
  then have st2: "settled ten ino s2" using same_but_pools_settled(1) st1 by blast
  have "s' = s2 \<or> s' = s2\<lparr>vk_frame_count := 0\<rparr>"
    using r True 1 2 3 4 by (auto simp: vfmcap_vk_reconfig_pools_def Let_def wi s1_def split: if_splits)
  then show ?thesis using st2 so2 by (auto simp: settled_def idle_def ready_def caches_ok_def single_outputs_def)
qed

text \<open>The layout is chosen once.\<close>

lemma get_layout:
  "image_cache_get D a fd k s = (x, s') \<Longrightarrow> output_layout s' = output_layout s"
  "input_cache_get D a fd sz s = (x, s') \<Longrightarrow> output_layout s' = output_layout s"
  "output_cache_get D a fd sz s = (x, s') \<Longrightarrow> output_layout s' = output_layout s"
  by (auto elim: image_cache_getE input_cache_getE simp: output_cache_get_def Let_def split: if_splits prod.splits option.splits)

lemma drop_input_layout [simp]: "output_layout (drop_input s) = output_layout s"
  by (simp add: drop_input_def Let_def split: prod.split)

lemma work_layout:
  "submit_work a n used s = (ok, s') \<Longrightarrow> output_layout s' = output_layout s"
  "vfmcap_vk_convert_wait b s = (ok, s') \<Longrightarrow> output_layout s' = output_layout s"
  by (auto simp: submit_work_def vfmcap_vk_convert_wait_def Let_def split: if_splits)

lemma release_layout [simp]:
  "output_layout (output_pool_release p i s) = output_layout s" "output_layout (release_planes py puv e s) = output_layout s"
  by (simp_all add: output_pool_release_def release_planes_def Let_def split: option.split)

lemma sync_planes_layout [simp]:
  "output_layout (sync_planes sync_start y uv s) = output_layout s" "output_layout (sync_planes sync_end y uv s) = output_layout s"
  by (simp_all add: sync_planes_def split: option.split)

lemma finish_afbc_layout [simp]: "output_layout (finish_afbc ok i fd s) = output_layout s"
  by (simp add: finish_afbc_def Let_def)

lemma submit_layout:
  "vfmcap_vk_convert_submit D a i out w h fmt s = (ok, s') \<Longrightarrow> output_layout s' = output_layout s"
  "vfmcap_vk_render_submit D a i y uv src dst fmt s = (ok, s') \<Longrightarrow> output_layout s' = output_layout s"
  by (auto simp: vfmcap_vk_convert_submit_def vfmcap_vk_render_submit_def Let_def split: if_splits prod.splits option.splits
      dest!: get_layout work_layout)

lemma render_layout:
  assumes "vfmcap_vk_render_and_wait D a (\<lambda>_. []) i src dst fmt s = (x, s')"
  shows "output_layout s' = output_layout s"
proof -
  have rc: "render_contiguous D a i src py j t = (x, u) \<Longrightarrow> output_layout u = output_layout t" for py j t u
    by (auto simp: render_contiguous_def Let_def split: if_splits prod.splits option.splits dest!: get_layout work_layout)
  have wp: "wait_planes (\<lambda>_. []) py puv s = (e, t) \<Longrightarrow> output_layout t = output_layout s" for py puv e t
    using same_but_pools_settled(4) [OF same_but_pools_wait] .
  show ?thesis using assms
    by (auto simp: vfmcap_vk_render_and_wait_def Let_def split: if_splits prod.splits option.splits dest!: rc wp submit_layout work_layout)
qed

lemma ten_layout:
  "render_10bit_afbc p D a i src s = (x, s') \<Longrightarrow> output_layout s' = output_layout s"
  "vfmcap_vk_render_10bit_and_wait D b i src fmt s = (z, s') \<Longrightarrow> output_layout s' = output_layout s"
proof -
  have aq: "output_pool_acquire p s = (e, t) \<Longrightarrow> output_layout t = output_layout s" for p s e t
    using same_but_pools_settled(4) [OF same_but_pools_acquire] .
  have ap: "acquire_planes py puv s = (e, t) \<Longrightarrow> output_layout t = output_layout s" for py puv s e t
    using same_but_pools_settled(4) [OF same_but_pools_planes] .
  have pi: "pipeline_init ok s = (r, t) \<Longrightarrow> output_layout t = output_layout s" for ok s r t
    by (auto simp: pipeline_init_def split: if_splits)
  show "render_10bit_afbc p D a i src s = (x, s') \<Longrightarrow> output_layout s' = output_layout s"
    by (auto simp: render_10bit_afbc_def Let_def split: if_splits prod.splits option.splits dest!: get_layout work_layout aq)
  show "vfmcap_vk_render_10bit_and_wait D b i src fmt s = (z, s') \<Longrightarrow> output_layout s' = output_layout s"
    by (auto simp: vfmcap_vk_render_10bit_and_wait_def Let_def split: if_splits prod.splits option.splits dest!: get_layout ap pi)
qed

lemma release_ref_same: "same_but_pools s (release_ref r s)"
proof -
  have rf: "same_but_pools t (release_fd p fd t)" for p fd t by (simp add: release_fd_def split: option.split)
  show ?thesis using rf same_but_pools_trans [OF rf rf]
    by (simp add: release_ref_def vfmcap_vk_release_output_def vfmcap_vk_release_afbc_output_def split: prod.split option.split)
qed

lemma release_ref_single: "single_outputs s \<Longrightarrow> single_outputs (release_ref r s)"
  using release_ref_fds [of r s Pool_nv12_uv] release_ref_fds [of r s Pool_p010_uv] same_but_pools_settled(4) [OF release_ref_same [of s r]]
  by (simp add: single_outputs_def)

interpretation vkc: invariant_system "careful_step ten ino" "clean ten ino" for ten ino
proof
  fix t l t'
  assume st: "careful_step ten ino t l t'" and cl: "clean ten ino t"
  obtain s lent where t: "t = (s, lent)" by fastforce
  have so: "single_outputs s" and c: "settled ten ino s \<or> busy ino s \<and> \<not> ten" using cl by (auto simp: t clean_def settled_def)
  have care: "careful ten ino s l" and t': "t' = vk_apply l (s, lent)" using st by (simp_all add: t careful_step_def vk_step_def)
  have fin: "clean ten ino t'" if "fst t' = s'" "single_outputs s'" "settled ten ino s' \<or> busy ino s' \<and> \<not> ten" for s'
    using that by (auto simp: clean_def settled_def)
  show "clean ten ino t'"
  proof (cases l)
    case (Op_submit D a i out w h fmt)
    obtain ok s' where r: "vfmcap_vk_convert_submit D a i out w h fmt s = (ok, s')" by fastforce
    have "settled False ino s" "inode_of D = ino" using c care Op_submit by (auto simp: busy_def)
    then have "if ok then busy ino s' else settled False ino s'" using convert_submit_clean [OF r] care Op_submit by auto
    moreover have "single_outputs s'" using so convert_submit_pools [OF r] submit_layout(1) [OF r] by (simp add: single_outputs_def)
    ultimately show ?thesis using care Op_submit r t' by (intro fin [of s']) (auto split: if_splits)
  next
    case (Op_wait ok)
    obtain rr s' where r: "vfmcap_vk_convert_wait ok s = (rr, s')" by fastforce
    have "settled ten ino s' \<or> busy ino s' \<and> \<not> ten"
    proof (cases "has_pending s \<and> initialized s")
      case True
      then have "busy ino s" using c by (auto simp: settled_def idle_def)
      then show ?thesis using convert_wait_busy [of ino s rr s'] r True care Op_wait by (auto intro: settled_unsignaled)
    next
      case False
      then have "s' = s" using r by (auto simp: vfmcap_vk_convert_wait_def split: if_splits)
      then show ?thesis using c by simp
    qed
    moreover have "single_outputs s'" using so convert_wait_pools [OF r] work_layout(2) [OF r] by (simp add: single_outputs_def)
    ultimately show ?thesis using Op_wait r t' by (intro fin [of s']) auto
  next
    case (Op_render D a i src dst fmt)
    obtain x s' where r: "vfmcap_vk_render_and_wait D a (\<lambda>_. []) i src dst fmt s = (x, s')" by fastforce
    have "settled False ino s" "inode_of D = ino" using c care Op_render by (auto simp: busy_def)
    then have "settled False ino s'" using render_clean [OF r] care Op_render so by auto
    moreover have "single_outputs s'" by (rule lends_new_single [OF render_account [OF r] so render_layout [OF r]])
    ultimately show ?thesis using care Op_render r t' by (intro fin [of s']) auto
  next
    case (Op_afbc D a i src)
    then show ?thesis using care by simp
  next
    case (Op_afbc_10bit nv12 D a i src)
    let ?p = "if nv12 then Pool_nv12_afbc else Pool_a2b10g10r10_afbc"
    obtain x s' where r: "render_10bit_afbc ?p D a i src s = (x, s')" by fastforce
    have "settled False ino s" "inode_of D = ino" using c care Op_afbc_10bit by (auto simp: busy_def)
    then have "settled False ino s'" using afbc_10bit_clean [OF r] care Op_afbc_10bit by auto
    moreover have "afbc_pool (if nv12 then VK_FMT_NV12_AFBC else VK_FMT_A2B10G10R10_AFBC) = Some ?p" by simp
    then have "single_outputs s'" using lends_new_single [OF afbc_10bit_account [OF r] so ten_layout(1) [OF r]] by blast
    moreover have "fst t' = s'" using t' Op_afbc_10bit r
      by (auto simp: vfmcap_vk_render_10bit_afbc_nv12_and_wait_def vfmcap_vk_render_10bit_afbc_a2b10g10r10_and_wait_def split: if_splits)
    ultimately show ?thesis using care Op_afbc_10bit by (intro fin [of s']) auto
  next
    case (Op_render_10bit D a i src fmt)
    obtain x s' where r: "vfmcap_vk_render_10bit_and_wait D a i src fmt s = (x, s')" by fastforce
    have "idle ino s" "inode_of D = ino" using c care Op_render_10bit by (auto simp: busy_def settled_def)
    then have "idle ino s'" using render_10bit_clean [OF r] care Op_render_10bit by auto
    then have "settled ten ino s'" using care Op_render_10bit by (simp add: settled_def ready_def)
    moreover have "single_outputs s'" by (rule lends_new_single [OF render_10bit_account [OF r] so ten_layout(2) [OF r]])
    ultimately show ?thesis using Op_render_10bit r t' by (intro fin [of s']) auto
  next
    case (Op_release k)
    show ?thesis
    proof (cases "k < length lent")
      case True
      let ?s' = "release_ref (lent ! k) s"
      note same = same_but_pools_settled [OF release_ref_same [of s "lent ! k"]]
      show ?thesis using c release_ref_single [OF so, of "lent ! k"] t' Op_release True same(1,6) by (intro fin [of ?s']) auto
    next
      case False
      then show ?thesis using c so t' Op_release by (intro fin [of s]) auto
    qed
  next
    case (Op_reconfig fmt a)
    obtain ok s' where r: "vfmcap_vk_reconfig_pools fmt a s = (ok, s')" by fastforce
    have "settled ten ino s" using c care Op_reconfig by (auto simp: busy_def)
    then have "settled ten ino s' \<and> single_outputs s'" using reconfig_clean [OF _ so _ _ r] care Op_reconfig by auto
    then show ?thesis using t' Op_reconfig r by (intro fin [of s']) auto
  qed
qed


lemma demo_idle: "single_outputs demo_vk" "idle of_nat demo_vk" "ready ten demo_vk"
proof -
  have "aged (image_cache demo_vk)" "aged (input_cache demo_vk)" by (simp_all add: demo_vk_def aged_def blank_entry_def)
  then show "idle of_nat demo_vk" using demo_vk_ok by (auto simp: idle_def caches_ok_def demo_vk_def demo_gpu_def)
qed (simp_all add: single_outputs_def ready_def demo_vk_def)


section \<open>Renders deliver\<close>

lemma image_get_keeps:
  "image_cache_get D a fd k s = (x, s') \<Longrightarrow> initialized s' = initialized s \<and> vk_frame_count s' = vk_frame_count s"
  by (auto elim!: image_cache_getE)

lemma convert_wait_good:
  "initialized s \<Longrightarrow> has_pending s \<Longrightarrow> \<exists>s'. vfmcap_vk_convert_wait True s = (True, s') \<and> initialized s' = initialized s \<and>
     vk_frame_count s' = vk_frame_count s + 1"
  by (simp add: vfmcap_vk_convert_wait_def Let_def drop_input_def split: prod.split)

lemma submit_work_good:
  "\<exists>s'. submit_work good_work n used s = (True, s') \<and> initialized s' = initialized s \<and> vk_frame_count s' = vk_frame_count s"
  by (simp add: submit_work_def good_work_def Let_def)

lemma render_works:
  assumes st: "settled False (inode_of D) s" and ini: "initialized s" and fc: "vk_frame_count s \<noteq> - 1"
    and pp: "plane_pools fmt = Some (py, puv)" "pools s puv = []" "first_unused (pools s py) 0 = Some i"
    and a: "i_dup (c_in a) = Some d" "i_reply (c_in a) = Imported" "c_work a = good_work"
  shows "\<exists>s'. vfmcap_vk_render_and_wait D a (\<lambda>_. []) fd src dst fmt s = (Some (p_fd (pools s py ! i), - 1), s') \<and>
    pools s' = pools (set_in_use True py i s) \<and> initialized s' \<and> vk_frame_count s' = vk_frame_count s + 1"
proof -
  have i: "i < length (pools s py)" using first_unused_Some [OF pp(3)] by auto
  have ne: "py \<noteq> puv" by (rule plane_pools_ne [OF pp(1)])
  define s1 where "s1 = set_in_use True py i s"
  have w: "wait_planes (\<lambda>_. []) py puv s = (Some (i, None), s1)"
    using pp by (simp add: wait_planes_def acquire_planes_def output_pool_acquire_def s1_def)
  have s1: "settled False (inode_of D) s1" "initialized s1" "vk_frame_count s1 \<noteq> - 1" using st ini fc by (simp_all add: s1_def)
  have fd1: "p_fd (pools s1 py ! i) = p_fd (pools s py ! i)" using i by (simp add: s1_def set_in_use_def)
  let ?k = "(fst src, snd src, G8_B8R8_2PLANE_420_UNORM, 0, 0)"
  obtain im s2 where g: "image_cache_get D (c_in a) fd ?k s1 = (Some im, s2)"
    using image_cache_get_succeeds [OF a(1,2), of D s1 fd ?k] s1 by (auto simp: settled_def idle_def caches_ok_def)
  have s2: "pools s2 = pools s1" "initialized s2" "vk_frame_count s2 = vk_frame_count s"
    using cache_get_pools(1) [OF g] image_get_keeps [OF g] s1(2) by (simp_all add: s1_def)
  define y where "y = p_fd (pools s2 py ! i)"
  obtain s3 where sw: "submit_work good_work None [im] (bind_input good_work im (sync_start Sync_write y (sync_start Sync_read fd (first_fence s2)))) = (True, s3)"
      "initialized s3" "vk_frame_count s3 = vk_frame_count s"
    using submit_work_good [of None "[im]" "bind_input good_work im (sync_start Sync_write y (sync_start Sync_read fd (first_fence s2)))"] s2(2,3)
    by auto
  have "initialized (set_pending fd y (- 1) s3)" "has_pending (set_pending fd y (- 1) s3)" using sw(2) by (simp_all add: set_pending_def)
  then obtain s4 where cw: "vfmcap_vk_convert_wait True (set_pending fd y (- 1) s3) = (True, s4)" "initialized s4"
      "vk_frame_count s4 = vk_frame_count s + 1"
    using convert_wait_good [of "set_pending fd y (- 1) s3"] sw(2,3) by auto
  have p4: "pools s4 = pools s1" using convert_wait_pools [OF cw(1)] submit_work_pools [OF sw(1)] s2(1) by simp
  have gw: "w_wait good_work" by (simp add: good_work_def)
  have "render_contiguous D a fd src py i s1 = (Some (y, - 1), s4)" unfolding render_contiguous_def
    by (simp only: g y_def [symmetric] a(3) gw sw(1) cw(1) Let_def prod.case option.case simp_thms if_False)
  then have "vfmcap_vk_render_and_wait D a (\<lambda>_. []) fd src dst fmt s = (Some (y, - 1), s4)"
    using ini by (simp add: vfmcap_vk_render_and_wait_def pp(1) w)
  then show ?thesis using p4 cw(2,3) fd1 s2(1) by (simp add: y_def s1_def)
qed

lemma first_unused_exists: "\<exists>e \<in> set es. \<not> p_in_use e \<Longrightarrow> \<exists>i. first_unused es n = Some i"
  by (induction es n rule: first_unused.induct) auto

text \<open>
  C16: A careful client gets an output whenever one is free. After any careful session, if no conversion
  is pending and some buffer of the format's pool is not in use, then a render whose own calls all
  succeed returns a buffer; nothing that failed before can stand in its way.
\<close>

theorem vk_render_delivers:
  assumes run: "lts_run (careful_step False (inode_of D)) (s, []) ls (s', lent)"
    and start: "single_outputs s" "idle (inode_of D) s" "ready False s"
    and now: "initialized s'" "\<not> has_pending s'" "vk_frame_count s' \<noteq> - 1"
    and free: "plane_pools fmt = Some (py, puv)" "\<exists>e \<in> set (pools s' py). \<not> p_in_use e"
    and good: "i_dup (c_in a) = Some d" "i_reply (c_in a) = Imported" "c_work a = good_work"
  shows "\<exists>y s''. vfmcap_vk_render_and_wait D a (\<lambda>_. []) fd src dst fmt s' = (Some (y, - 1), s'')"
proof -
  have "clean False (inode_of D) (s, [])" using start by (simp add: clean_def)
  then have cl: "clean False (inode_of D) (s', lent)" by (rule vkc.run_inv [OF run])
  then have st: "settled False (inode_of D) s'" using now(2) by (auto simp: clean_def settled_def busy_def)
  have "pools s' puv = []" using cl free(1) by (cases fmt) (auto simp: clean_def single_outputs_def)
  moreover obtain i where "first_unused (pools s' py) 0 = Some i" using first_unused_exists [OF free(2)] by blast
  ultimately show ?thesis using render_works [OF st now(1,3) free(1) _ _ good, of i fd src dst] by auto
qed

theorem vk_render_delivers_witness:
  "\<exists>y s'. vfmcap_vk_render_and_wait reused_dma good_convert (\<lambda>_. []) 5 (1920, 1080) (1920, 1080) VK_FMT_NV12 demo_vk = (Some (y, - 1), s')"
proof -
  have "inode_of reused_dma = of_nat" by (simp add: reused_dma_def)
  then have run: "lts_run (careful_step False (inode_of reused_dma)) (demo_vk, []) [] (demo_vk, [])"
      "single_outputs demo_vk" "idle (inode_of reused_dma) demo_vk" "ready False demo_vk"
    using demo_idle by (simp_all add: run_nil)
  show ?thesis
    by (rule vk_render_delivers [OF run, of VK_FMT_NV12 Pool_nv12_y Pool_nv12_uv _ 10])
      (simp_all add: good_convert_def demo_vk_def pool_of_def)
qed

end
