(* ===== verification/Vk_Faults.thy ===== *)
theory Vk_Faults
  imports Vk_Props
begin

text \<open>
  How the kernel's brackets around the GPU's accesses are kept, and the ways in which calls of the Vulkan
  back end go wrong: a bracket left open, a wait that times out, an input that is never bound, and pools
  that a change of the signal loses or mixes up.
\<close>

section \<open>Brackets\<close>

lemma get_syncs:
  "image_cache_get D a fd k s = (x, s') \<Longrightarrow> syncs s' = syncs s"
  "input_cache_get D a fd sz s = (x, s') \<Longrightarrow> syncs s' = syncs s"
  "output_cache_get D a fd sz s = (x, s') \<Longrightarrow> syncs s' = syncs s"
  by (auto elim: image_cache_getE input_cache_getE simp: output_cache_get_def Let_def split: if_splits prod.splits option.splits)

lemma get_keeps:
  "input_cache_get D a fd sz s = (x, s') \<Longrightarrow> initialized s' = initialized s \<and> vk_frame_count s' = vk_frame_count s"
  "output_cache_get D a fd sz s = (x, s') \<Longrightarrow> initialized s' = initialized s \<and> vk_frame_count s' = vk_frame_count s \<and>
     input_cache s' = input_cache s"
  by (auto elim: image_cache_getE input_cache_getE simp: output_cache_get_def Let_def split: if_splits prod.splits option.splits)

lemma submit_work_keeps:
  assumes "submit_work a n used s = (True, s')"
  shows "initialized s' = initialized s" "vk_frame_count s' = vk_frame_count s" "input_cache s' = input_cache s"
    "set used \<subseteq> running (device s')"
  using assms by (auto simp: submit_work_def queue_submit_def misused_def Let_def split: if_splits)

lemma sync_syncs [simp]:
  "syncs (sync_start m fd s) = add_mset (fd, m) (syncs s)" "syncs (sync_end m fd s) = syncs s - {#(fd, m)#}"
  by (simp_all add: sync_start_def sync_end_def)

lemma submit_work_syncs: "submit_work a n used s = (ok, s') \<Longrightarrow> syncs s' = syncs s"
  by (auto simp: submit_work_def Let_def split: if_splits)

lemma drop_input_fields [simp]:
  "syncs (drop_input s) = (if 0 \<le> pending_in_fd s then syncs s - {#(pending_in_fd s, Sync_read)#} else syncs s)"
  "pending_out_fd (drop_input s) = pending_out_fd s" "pending_out_fd2 (drop_input s) = pending_out_fd2 s"
  "vk_frame_count (drop_input s) = vk_frame_count s"
  by (simp_all add: drop_input_def Let_def split: prod.split)

lemma end_outputs_syncs [simp]:
  "syncs (end_outputs s) = syncs s - (if 0 \<le> pending_out_fd s then {#(pending_out_fd s, Sync_write)#} else {#})
     - (if 0 \<le> pending_out_fd2 s then {#(pending_out_fd2 s, Sync_write)#} else {#})"
  by (simp add: end_outputs_def Let_def)

lemma convert_submitE:
  assumes "vfmcap_vk_convert_submit D a i out w h fmt s = (True, s')"
  obtains ib ob s1 s2 s3 where "initialized s"
    "input_cache_get D (c_in a) i (input_size w h) (first_fence s) = (Some ib, s1)"
    "output_cache_get D (c_out a) out (output_size fmt w h) (sync_start Sync_read i s1) = (Some ob, s2)"
    "submit_work (c_work a) None [ib, ob] (sync_start Sync_write out s2) = (True, s3)" "s' = set_pending i out (- 1) s3"
  using assms by (auto simp: vfmcap_vk_convert_submit_def Let_def split: if_splits prod.splits option.splits)

text \<open>
  A conversion leaves the kernel's cache brackets as it found them. Every \<open>DMA_BUF_SYNC_START\<close> a
  successful conversion issues on its input and its output is closed by the matching
  \<open>DMA_BUF_SYNC_END\<close> before the call returns.
\<close>

theorem vk_convert_balanced:
  assumes r: "vfmcap_vk_convert D a i out w h fmt s = (True, s')" and fds: "0 \<le> i" "0 \<le> out"
  shows "syncs s' = syncs s"
proof -
  obtain s4 where s4: "vfmcap_vk_convert_submit D a i out w h fmt s = (True, s4)"
      "vfmcap_vk_convert_wait (w_wait (c_work a)) s4 = (True, s')"
    using r by (auto simp: vfmcap_vk_convert_def split: prod.splits bool.splits)
  from s4(1) obtain ib ob s1 s2 s3 where ini: "initialized s" and
      g: "input_cache_get D (c_in a) i (input_size w h) (first_fence s) = (Some ib, s1)"
      "output_cache_get D (c_out a) out (output_size fmt w h) (sync_start Sync_read i s1) = (Some ob, s2)"
      "submit_work (c_work a) None [ib, ob] (sync_start Sync_write out s2) = (True, s3)" "s4 = set_pending i out (- 1) s3"
    by (rule convert_submitE)
  have "syncs s4 = syncs s + {#(i, Sync_read), (out, Sync_write)#}"
    using get_syncs(2) [OF g(1)] get_syncs(3) [OF g(2)] submit_work_syncs [OF g(3)] g(4) by simp
  moreover have "pending_in_fd s4 = i" "pending_out_fd s4 = out" "pending_out_fd2 s4 = - 1" "has_pending s4"
    using g(4) by (simp_all add: set_pending_def)
  ultimately show ?thesis using s4(2) fds by (auto simp: vfmcap_vk_convert_wait_def Let_def split: if_splits)
qed

lemmas convert_eval = vfmcap_vk_convert_def vfmcap_vk_convert_submit_def input_cache_get_def output_cache_get_def input_size_def
  output_size_def render_eval demo_eval

theorem vk_convert_balanced_witness:
  "\<exists>s'. vfmcap_vk_convert reused_dma good_convert 6 7 64 32 VK_FMT_NV12 demo_vk = (True, s') \<and> syncs s' = {#}"
proof -
  obtain s' where r: "vfmcap_vk_convert reused_dma good_convert 6 7 64 32 VK_FMT_NV12 demo_vk = (True, s')"
    by (simp add: convert_eval)
  have "syncs s' = {#}" using vk_convert_balanced [OF r] by (simp add: demo_vk_def)
  then show ?thesis by (intro exI [of _ s'] conjI r)
qed

lemma sync_planes_syncs:
  "syncs (sync_planes sync_end y uv s) = syncs s - (add_mset (y, Sync_write) (case uv of None \<Rightarrow> {#} | Some fd \<Rightarrow> {#(fd, Sync_write)#}))"
  "syncs (sync_planes sync_start y uv s) = syncs s + (add_mset (y, Sync_write) (case uv of None \<Rightarrow> {#} | Some fd \<Rightarrow> {#(fd, Sync_write)#}))"
  by (auto simp: sync_planes_def add_mset_commute split: option.split)

lemma same_but_pools_syncs: "same_but_pools s t \<Longrightarrow> syncs t = syncs s"
  by (auto simp: same_but_pools_def)

text \<open>
  C38: The renderer for ten bit input leaves a bracket open on every frame. It starts the read access
  to its input and never ends it: after a successful call one more \<open>DMA_BUF_SYNC_START\<close> for reading is
  outstanding on the input's descriptor than before.
\<close>

theorem vk_10bit_bracket:
  assumes r: "vfmcap_vk_render_10bit_and_wait D a i src fmt s = (Some x, s')"
  shows "syncs s' = add_mset (i, Sync_read) (syncs s)"
proof -
  obtain py puv where pp: "initialized s" "plane_pools fmt = Some (py, puv)"
    using r by (auto simp: vfmcap_vk_render_10bit_and_wait_def split: if_splits option.splits)
  obtain y s1 where g: "input_cache_get D (t_in a) i (input_size (fst src) (snd src)) s = (y, s1)" by fastforce
  obtain e s2 where q: "acquire_planes py puv (sync_start Sync_read i s1) = (e, s2)" by fastforce
  have s2: "syncs s2 = add_mset (i, Sync_read) (syncs s)"
    using same_but_pools_syncs [OF same_but_pools_planes [OF q]] get_syncs(2) [OF g] by simp
  obtain ok s3 where p: "pipeline_init (t_pipeline a) s2 = (ok, s3)" by fastforce
  have s3: "syncs s3 = syncs s2" using p by (auto simp: pipeline_init_def split: if_splits)
  show ?thesis using r pp g q p s2 s3 sync_planes_syncs
    by (auto simp: vfmcap_vk_render_10bit_and_wait_def Let_def split: if_splits option.splits prod.splits)
qed

theorem vk_10bit_bracket_witness:
  "\<exists>s'. vfmcap_vk_render_10bit_and_wait reused_dma \<lparr>t_in = c_in good_convert, t_pipeline = True, t_fence = True, t_work = good_work\<rparr>
       6 (64, 32) VK_FMT_NV12 demo_vk = (Some (30, - 1), s') \<and> syncs s' = {#(6, Sync_read)#}"
proof -
  let ?a = "\<lparr>t_in = c_in good_convert, t_pipeline = True, t_fence = True, t_work = good_work\<rparr>"
  obtain s' where r: "vfmcap_vk_render_10bit_and_wait reused_dma ?a 6 (64, 32) VK_FMT_NV12 demo_vk = (Some (30, - 1), s')"
    by (simp add: vfmcap_vk_render_10bit_and_wait_def pipeline_init_def sync_planes_def VFMCAP_OUTPUT_POOL_CAPACITY_def convert_eval)
  have "syncs s' = {#(6, Sync_read)#}" using vk_10bit_bracket [OF r] by (simp add: demo_vk_def)
  then show ?thesis by (intro exI [of _ s'] conjI r)
qed

section \<open>Waits that time out\<close>

lemma destroy_input_first:
  assumes "j < n" "j < length es" "e_valid (es ! j)" "e_fd (es ! j) = fd" "\<forall>k < j. \<not> (e_valid (es ! k) \<and> e_fd (es ! k) = fd)"
  shows "snd (destroy_input fd n es g) = snd (cache_entry_destroy False (es ! j) g)"
  using assms
proof (induction es arbitrary: n j)
  case (Cons e es)
  obtain m where n: "n = Suc m" using Cons.prems(1) by (cases n) auto
  show ?case
  proof (cases j)
    case 0
    then show ?thesis using Cons.prems n by (simp split: prod.split)
  next
    case (Suc j')
    have "\<not> (e_valid e \<and> e_fd e = fd)" using Cons.prems(5) Suc by fastforce
    moreover have "snd (destroy_input fd m es g) = snd (cache_entry_destroy False (es ! j') g)"
      using Cons.prems Suc n by (intro Cons.IH) auto
    ultimately show ?thesis using Suc n by (auto simp: Let_def split: prod.split)
  qed
qed simp

text \<open>
  C36: A wait that times out destroys the import the GPU still reads. When a conversion was submitted
  and the wait for its fence fails, the wait still destroys the cached import of the input before it
  waits for the device, while the submitted work uses it.
\<close>

theorem vk_timeout_destroys_running:
  assumes r: "vfmcap_vk_convert_submit D a i out w h fmt s = (True, s')" and st: "settled False (inode_of D) s"
    and fresh: "\<forall>e \<in> set (entries (input_cache s)). e_valid e \<longrightarrow> e_fd e \<noteq> i" and fd: "0 \<le> i"
    and t: "vfmcap_vk_convert_wait False s' = (ok, s'')"
  shows "\<exists>ob \<in> running (device s'). Destroyed_running ob \<in> set (misuses (device s''))"
proof -
  from r obtain ib ob s1 s2 s3 where g: "initialized s" "input_cache_get D (c_in a) i (input_size w h) (first_fence s) = (Some ib, s1)"
      "output_cache_get D (c_out a) out (output_size fmt w h) (sync_start Sync_read i s1) = (Some ob, s2)"
      "submit_work (c_work a) None [ib, ob] (sync_start Sync_write out s2) = (True, s3)" "s' = set_pending i out (- 1) s3"
    by (rule convert_submitE)
  have ok0: "cache_ok (inode_of D) Input_slot (input_cache (first_fence s)) (device (first_fence s))"
    using fence_idle(1) [OF st] by (simp add: idle_def caches_ok_def)
  obtain c g' where c: "cache_get False Input_slot D (c_in a) (vk_frame_count (first_fence s)) i (input_size w h)
        (input_cache (first_fence s)) (device (first_fence s)) = (Some ib, c, g')" "s1 = (first_fence s)\<lparr>input_cache := c, device := g'\<rparr>"
    using g(2) by (rule input_cache_getE)
  obtain j where j: "j < entry_count c" "j < length (entries c)" "e_valid (entries c ! j)" "e_fd (entries c ! j) = i" "e_obj (entries c ! j) = ib"
      "\<forall>k < j. \<not> (e_valid (entries c ! k) \<and> e_fd (entries c ! k) = i)"
    using c(1) ok0
  proof (cases rule: cache_get_cases)
    case (hit j ob')
    then show ?thesis using fresh ok0 nth_mem [of j "entries (input_cache s)"] by (auto simp: slot_hit_def cache_ok_def)
  next
    case (fill j ob')
    then obtain e where e: "entries c = (entries (input_cache s))[j := e]" "e_valid e" "e_fd e = i" "e_obj e = ib"
      by (auto simp: slot_fill_def)
    moreover have len: "length (entries (input_cache s)) = DMABUF_CACHE_SIZE" using ok0 by (simp add: cache_ok_def)
    ultimately show ?thesis using fill fresh nth_mem [of _ "entries (input_cache s)"] by (intro that [of j]) auto
  qed auto
  have s3: "input_cache s3 = c" "ib \<in> running (device s3)" "initialized s3"
    using submit_work_keeps [OF g(4)] get_keeps(2) [OF g(3)] get_keeps(1) [OF g(2)] g(1) c(2) by simp_all
  have s': "pending_in_fd s' = i" "input_cache s' = c" "device s' = device s3" "has_pending s'" "initialized s'"
    unfolding g(5) by (simp_all add: set_pending_def s3)
  have "snd (destroy_input i (entry_count c) (entries c) (device s3)) = destroy_obj ib (device s3)"
    using destroy_input_first [OF j(1,2,3,4,6)] j(3,5) by (simp add: cache_entry_destroy_def Let_def)
  then have "device (drop_input s') = destroy_obj ib (device s3)"
    using s' fd by (simp add: drop_input_def Let_def case_prod_beta)
  then have "Destroyed_running ib \<in> set (misuses (device (drop_input s')))" using destroy_obj_account [of ib "device s3"] s3(2) by simp
  moreover have "misuses (device s'') = misuses (device (drop_input (on_gpu (wait_fence False None) s')))"
    using t s' by (auto simp: vfmcap_vk_convert_wait_def Let_def wait_idle_def)
  moreover have "on_gpu (wait_fence False None) s' = s'" by (simp add: on_gpu_def wait_fence_def)
  ultimately show ?thesis using s3(2) s'(3) by auto
qed

lemma demo_settled: "settled False (inode_of reused_dma) demo_vk"
  using demo_idle by (simp add: settled_def reused_dma_def)

theorem vk_timeout_destroys_running_witness:
  "\<exists>s1 s2 ok ob. vfmcap_vk_convert_submit reused_dma good_convert 6 7 64 32 VK_FMT_NV12 demo_vk = (True, s1) \<and>
     vfmcap_vk_convert_wait False s1 = (ok, s2) \<and> Destroyed_running ob \<in> set (misuses (device s2))"
proof -
  obtain s1 where r: "vfmcap_vk_convert_submit reused_dma good_convert 6 7 64 32 VK_FMT_NV12 demo_vk = (True, s1)"
    by (simp add: convert_eval)
  obtain ok s2 where t: "vfmcap_vk_convert_wait False s1 = (ok, s2)" by fastforce
  have "\<forall>e \<in> set (entries (input_cache demo_vk)). e_valid e \<longrightarrow> e_fd e \<noteq> 6" by (simp add: demo_vk_def blank_entry_def)
  then obtain ob where "Destroyed_running ob \<in> set (misuses (device s2))"
    using vk_timeout_destroys_running [OF r demo_settled _ _ t] by auto
  then show ?thesis by (intro exI [of _ s1] exI [of _ s2] exI [of _ ok] exI [of _ ob] conjI r t)
qed

text \<open>No lookup and no destruction of an entry touches a fence.\<close>

lemma entry_destroy_fences: "cache_entry_destroy img e g = (e', g') \<Longrightarrow> fences g' = fences g"
  using entry_destroy_account [of img e g e' g'] by (simp add: drops_objs_def)

lemma entry_destroy_fences_snd: "fences (snd (cache_entry_destroy img e g)) = fences g"
  using entry_destroy_fences [OF prod.collapse [symmetric]] .

lemma import_fences: "import_dmabuf r slot d b g = (x, g') \<Longrightarrow> fences g' = fences g"
  using import_dmabuf_account [of r slot d b g x g'] by (auto simp: same_objs_def adds_obj_def split: option.splits)

lemma cache_get_fences:
  assumes "cache_get img mk D a now fd k c g = (x, c', g')"
  shows "fences g' = fences g"
proof -
  have im: "fences g' = fences g" if "cache_import mk D a now fd k i c g = (x, c', g')" for i c g x c' g'
    using that by (auto simp: cache_import_def Let_def split: option.splits prod.splits dest!: import_fences)
  have re: "fences g' = fences g" if "cache_replace img mk D a now fd k i c g = (x, c', g')" for i c g x c' g'
    using that by (auto simp: cache_replace_def split: prod.splits dest!: im entry_destroy_fences)
  show ?thesis using assms by (auto simp: cache_get_def misused_def Let_def split: option.splits if_splits dest!: im re)
qed

lemma get_fences:
  "input_cache_get D a fd sz s = (x, s') \<Longrightarrow> fences (device s') = fences (device s)"
  "output_cache_get D a fd sz s = (x, s') \<Longrightarrow> fences (device s') = fences (device s)"
  by (auto elim!: input_cache_getE dest!: cache_get_fences import_fences entry_destroy_fences
      simp: output_cache_get_def Let_def split: if_splits prod.splits option.splits)

lemma destroy_input_fences: "fences (snd (destroy_input fd n es g)) = fences g"
  by (induction fd n es g rule: destroy_input.induct) (simp_all add: Let_def case_prod_beta entry_destroy_fences_snd)

lemma drop_input_fences [simp]: "fences (device (drop_input s)) = fences (device s)"
  by (simp add: drop_input_def Let_def case_prod_beta destroy_input_fences)

text \<open>
  After a wait that timed out the next conversion breaks the rules again. The wait returns early
  and does not reset the fence, the device signals it afterwards, and the next submission hands the
  signaled fence to the queue, unless it is the very first frame.
\<close>

theorem vk_timeout_fence:
  assumes r: "vfmcap_vk_convert_submit D a i out w h fmt s = (True, s1)" and st: "settled False (inode_of D) s"
    and fc: "vk_frame_count s \<noteq> 0" "vk_frame_count s \<noteq> - 1"
    and t: "vfmcap_vk_convert_wait False s1 = (ok, s2)"
    and r2: "vfmcap_vk_convert_submit D' a' i' out' w' h' fmt' s2 = (True, s3)"
  shows "Fence_not_ready \<in> set (misuses (device s3))"
proof -
  have b: "has_pending s1" "fences (device s1) None = Queued" using convert_submit_clean [OF r st fc(2)] by (simp_all add: busy_def)
  from r obtain ib ob t1 t2 t3 where g: "initialized s" "input_cache_get D (c_in a) i (input_size w h) (first_fence s) = (Some ib, t1)"
      "output_cache_get D (c_out a) out (output_size fmt w h) (sync_start Sync_read i t1) = (Some ob, t2)"
      "submit_work (c_work a) None [ib, ob] (sync_start Sync_write out t2) = (True, t3)" "s1 = set_pending i out (- 1) t3"
    by (rule convert_submitE)
  have s1: "vk_frame_count s1 \<noteq> 0" "initialized s1"
    unfolding g(5) using submit_work_keeps [OF g(4)] get_keeps(2) [OF g(3)] get_keeps(1) [OF g(2)] g(1) fc by simp_all
  then have s2: "fences (device s2) None = Signaled" "vk_frame_count s2 \<noteq> 0"
    using t b by (auto simp: vfmcap_vk_convert_wait_def Let_def wait_idle_def wait_fence_def)
  from r2 obtain ib' ob' u1 u2 u3 where g': "initialized s2"
      "input_cache_get D' (c_in a') i' (input_size w' h') (first_fence s2) = (Some ib', u1)"
      "output_cache_get D' (c_out a') out' (output_size fmt' w' h') (sync_start Sync_read i' u1) = (Some ob', u2)"
      "submit_work (c_work a') None [ib', ob'] (sync_start Sync_write out' u2) = (True, u3)" "s3 = set_pending i' out' (- 1) u3"
    by (rule convert_submitE)
  have "first_fence s2 = s2" using s2(2) by (simp add: first_fence_def)
  then have "fences (device u2) None = Signaled" using get_fences(1) [OF g'(2)] get_fences(2) [OF g'(3)] s2(1) by simp
  then have "Fence_not_ready \<in> set (misuses (device u3))" using g'(4)
    by (auto simp: submit_work_def queue_submit_def misused_def record_commands_def reset_commands_def Let_def split: if_splits)
  then show ?thesis unfolding g'(5) by simp
qed

definition later_vk :: vk_ctx where
  "later_vk = demo_vk\<lparr>vk_frame_count := 9, device := demo_gpu\<lparr>fences := (\<lambda>_. Unsignaled)\<rparr>\<rparr>"

lemma later_settled: "settled False (inode_of reused_dma) later_vk"
proof -
  have dev: "device demo_vk = demo_gpu" by (simp add: demo_vk_def)
  have "caches_ok of_nat demo_vk" using demo_idle(2) by (simp add: idle_def)
  then have "caches_ok of_nat later_vk" unfolding later_vk_def by (intro caches_ok_device) (simp_all add: dev)
  then show ?thesis by (simp add: settled_def idle_def ready_def reused_dma_def) (simp add: later_vk_def demo_gpu_def demo_vk_def)
qed

theorem vk_timeout_fence_witness:
  "\<exists>s1 s2 s3. vfmcap_vk_convert_submit reused_dma good_convert 6 7 64 32 VK_FMT_NV12 later_vk = (True, s1) \<and>
     vfmcap_vk_convert_wait False s1 = (False, s2) \<and>
     vfmcap_vk_convert_submit reused_dma good_convert 6 7 64 32 VK_FMT_NV12 s2 = (True, s3) \<and>
     Fence_not_ready \<in> set (misuses (device s3))"
proof -
  have "\<exists>s1 s2 s3. vfmcap_vk_convert_submit reused_dma good_convert 6 7 64 32 VK_FMT_NV12 later_vk = (True, s1) \<and>
     vfmcap_vk_convert_wait False s1 = (False, s2) \<and>
     vfmcap_vk_convert_submit reused_dma good_convert 6 7 64 32 VK_FMT_NV12 s2 = (True, s3)"
    by (simp add: later_vk_def convert_eval)
  then obtain s1 s2 s3 where r: "vfmcap_vk_convert_submit reused_dma good_convert 6 7 64 32 VK_FMT_NV12 later_vk = (True, s1)"
      and t: "vfmcap_vk_convert_wait False s1 = (False, s2)"
      and r2: "vfmcap_vk_convert_submit reused_dma good_convert 6 7 64 32 VK_FMT_NV12 s2 = (True, s3)" by (elim exE conjE) (rule that)
  have "Fence_not_ready \<in> set (misuses (device s3))"
    by (rule vk_timeout_fence [OF r later_settled _ _ t r2]) (simp_all add: later_vk_def)
  then show ?thesis by (intro exI [of _ s1] exI [of _ s2] exI [of _ s3] conjI r t r2)
qed

section \<open>An input that is never bound\<close>

lemma submit_work_misuses: "submit_work a n used s = (ok, s') \<Longrightarrow> set (misuses (device s)) \<subseteq> set (misuses (device s'))"
  by (auto simp: submit_work_def queue_submit_def misused_def record_commands_def reset_commands_def Let_def split: if_splits)

lemma finish_afbc_misuses: "set (misuses (device s)) \<subseteq> set (misuses (device (finish_afbc ok i fd s)))"
  by (auto simp: finish_afbc_def Let_def wait_idle_def reset_fence_def misused_def wait_fence_def)

lemma bound_keeps [simp]:
  "image_cache_get D a fd k s = (x, s') \<Longrightarrow> gfx_input s' = gfx_input s"
  "output_pool_acquire p s = (y, s') \<Longrightarrow> gfx_input s' = gfx_input s"
  "submit_work b n used s = (ok, s') \<Longrightarrow> gfx_input s' = gfx_input s"
  "gfx_input (first_fence s) = gfx_input s" "gfx_input (finish_afbc b2 i fd s) = gfx_input s"
  by (auto elim!: image_cache_getE simp: output_pool_acquire_def submit_work_def first_fence_def finish_afbc_def Let_def
      split: option.splits if_splits)



section \<open>Pools and changes of the signal\<close>

text \<open>
  A change of the signal loses the pool of ten bit compressed outputs. The change destroys it and
  recreates the pool of every other format, but not this one: from then on every render into it fails,
  whatever the GPU and the kernel answer.
\<close>

theorem vk_reconfig_loses_pool:
  assumes "vfmcap_vk_reconfig_pools VK_FMT_A2B10G10R10_AFBC a s = (ok, s')" "initialized s"
  shows "vfmcap_vk_render_10bit_afbc_a2b10g10r10_and_wait D b i src s' = (None, s')"
proof -
  have "pools s' Pool_a2b10g10r10_afbc = []"
    using assms by (auto simp: vfmcap_vk_reconfig_pools_def recreate_pools_def Let_def split: prod.splits if_splits)
  then show ?thesis
    by (simp add: vfmcap_vk_render_10bit_afbc_a2b10g10r10_and_wait_def render_10bit_afbc_def output_pool_acquire_def)
qed

definition demo_reconfig :: reconfig_answer where
  "demo_reconfig = \<lparr>g_copyout = False, g_separate = False,
     g_pools = \<lparr>r_contiguous = Some [30, 31], r_separate = None, r_copyout = None\<rparr>, g_afbc = None, g_middle = True\<rparr>"

theorem vk_reconfig_loses_pool_witness:
  "\<exists>s' ok. vfmcap_vk_reconfig_pools VK_FMT_A2B10G10R10_AFBC demo_reconfig demo_vk = (ok, s') \<and>
     vfmcap_vk_render_10bit_afbc_a2b10g10r10_and_wait reused_dma good_convert 5 (64, 32) s' = (None, s')"
proof -
  obtain ok s' where r: "vfmcap_vk_reconfig_pools VK_FMT_A2B10G10R10_AFBC demo_reconfig demo_vk = (ok, s')" by fastforce
  have "initialized demo_vk" by (simp add: demo_vk_def)
  from vk_reconfig_loses_pool [OF r this]
  have "vfmcap_vk_render_10bit_afbc_a2b10g10r10_and_wait reused_dma good_convert 5 (64, 32) s' = (None, s')" .
  then show ?thesis by (intro exI [of _ s'] exI [of _ ok] conjI r)
qed

text \<open>A change to pools of one buffer per output, and a release.\<close>

lemma reconfig_works:
  assumes "initialized s" "output_layout s = LAYOUT_SINGLE_DMABUF"
  shows "\<exists>s'. vfmcap_vk_reconfig_pools VK_FMT_NV12 demo_reconfig s = (True, s') \<and>
    pools s' = (\<lambda>_. [])(Pool_nv12_y := pool_of [30, 31]) \<and> initialized s' \<and> vk_frame_count s' = 0"
  using assms by (simp add: vfmcap_vk_reconfig_pools_def recreate_pools_def output_pool_create_linear_yuv_def demo_reconfig_def
      Let_def pool_of_def case_prod_beta) (simp add: fun_eq_iff)

text \<open>
  An output lent before a change of the signal can release one that was lent after it. Releases go
  by the number of the descriptor, which the kernel gives to a new buffer once the old pool is
  destroyed: after a render, a change of the pools, a second render and the late release of the first
  output, a third render hands out the buffer that the second client still holds.
\<close>

theorem vk_stale_release:
  "\<exists>s1 s2 s3 s4.
     vfmcap_vk_render_and_wait reused_dma good_convert (\<lambda>_. []) 5 (1920, 1080) (1920, 1080) VK_FMT_NV12 demo_vk = (Some (30, - 1), s1) \<and>
     vfmcap_vk_reconfig_pools VK_FMT_NV12 demo_reconfig s1 = (True, s2) \<and>
     vfmcap_vk_render_and_wait reused_dma good_convert (\<lambda>_. []) 5 (1920, 1080) (1920, 1080) VK_FMT_NV12 s2 = (Some (30, - 1), s3) \<and>
     vfmcap_vk_render_and_wait reused_dma good_convert (\<lambda>_. []) 5 (1920, 1080) (1920, 1080) VK_FMT_NV12
       (vfmcap_vk_release_output VK_FMT_NV12 30 (- 1) s3) = (Some (30, - 1), s4)"
proof -
  let ?r = "vfmcap_vk_render_and_wait reused_dma good_convert (\<lambda>_. []) 5 (1920, 1080) (1920, 1080) VK_FMT_NV12"
  let ?P = "(\<lambda>_. [])(Pool_nv12_y := pool_of [30, 31])"
  have good: "i_dup (c_in good_convert) = Some 10" "i_reply (c_in good_convert) = Imported" "c_work good_convert = good_work"
      "w_wait (c_work good_convert)" by (simp_all add: good_convert_def good_work_def)
  have step: "\<exists>s'. ?r s = (Some (30, - 1), s') \<and> pools s' = pools (set_in_use True Pool_nv12_y 0 s) \<and> initialized s' \<and>
      vk_frame_count s' = vk_frame_count s + 1"
    if "settled False (inode_of reused_dma) s" "initialized s" "vk_frame_count s \<noteq> - 1" "pools s = ?P" for s
    using render_works [OF that(1-3) _ _ _ good(1-3), of VK_FMT_NV12 Pool_nv12_y Pool_nv12_uv 0 5 "(1920, 1080)" "(1920, 1080)"] that(4)
    by (simp add: pool_of_def)
  have P0: "pools demo_vk = ?P" by (auto simp: demo_vk_def)
  obtain s1 where 1: "?r demo_vk = (Some (30, - 1), s1)" "initialized s1"
    using step [OF demo_settled _ _ P0] by (auto simp: demo_vk_def)
  have so: "single_outputs s1" by (rule lends_new_single [OF render_account [OF 1(1)] demo_idle(1) render_layout [OF 1(1)]])
  have st1: "settled False (inode_of reused_dma) s1"
    by (rule render_clean [OF 1(1) demo_settled _ good(4) demo_idle(1)]) (simp add: demo_vk_def)
  obtain s2 where 2: "vfmcap_vk_reconfig_pools VK_FMT_NV12 demo_reconfig s1 = (True, s2)" "pools s2 = ?P" "initialized s2" "vk_frame_count s2 = 0"
    using reconfig_works [of s1] 1(2) so by (auto simp: single_outputs_def)
  have st2: "settled False (inode_of reused_dma) s2" "single_outputs s2"
    using reconfig_clean [OF st1 so _ _ 2(1)] by (simp_all add: demo_reconfig_def)
  obtain s3 where 3: "?r s2 = (Some (30, - 1), s3)" "pools s3 = pools (set_in_use True Pool_nv12_y 0 s2)" "initialized s3"
      "vk_frame_count s3 = vk_frame_count s2 + 1"
    using step [OF st2(1) 2(3) _ 2(2)] 2(4) by auto
  let ?s = "vfmcap_vk_release_output VK_FMT_NV12 30 (- 1) s3"
  have rel: "?s = release_ref (VK_FMT_NV12, 30, - 1) s3" by (simp add: release_ref_def)
  note same = same_but_pools_settled [OF release_ref_same [of s3 "(VK_FMT_NV12, 30, - 1)"], folded rel]
  have "settled False (inode_of reused_dma) s3"
    by (rule render_clean [OF 3(1) st2(1) _ good(4) st2(2)]) (simp add: 2(4))
  moreover have "pools ?s = ?P"
    by (auto simp: vfmcap_vk_release_output_def release_fd_def 3(2) 2(2) set_in_use_def pool_of_def)
  moreover have "vk_frame_count s3 \<noteq> - 1" using 3(4) 2(4) by simp
  ultimately obtain s4 where "?r ?s = (Some (30, - 1), s4)" using step [of ?s] same 3(3) by auto
  then show ?thesis by (intro exI [of _ s1] exI [of _ s2] exI [of _ s3] exI [of _ s4] conjI 1(1) 2(1) 3(1))
qed

end
