(* ===== verification/Spec2Isabelle.thy ===== *)
theory Spec2Isabelle
  imports Player_Queue Stream_Feed Adpcm_Stream Vfmcap_Props Pipeline_Reset Decode_Display
    Streambox_Faults Streambox_Path_A Vk_Faults
begin

text \<open>
  Verification of the multimedia components of the aml-streambox repository: the C code that the
  repository itself adds around vendored decoders, GStreamer, V4L2, DRM and Vulkan.

  \<^bold>\<open>Parts and how they interact.\<close>

  \<^item> The video test \<open>v4l2-uvm-test\<close> is a pipeline. \<open>demux.c\<close> reads packets from libavformat, turns the
    configuration record of the stream and the length-prefixed units of each packet into start-code
    form and writes the pieces to the decoder client \<open>v4l2-dec.c\<close>. The client collects the pieces of a
    frame in an output buffer (\<open>v4l2_dec_write_es\<close>) and queues it to the driver
    (\<open>v4l2_dec_frame_done\<close>); VP9 frames first pass through \<open>vp9.c\<close>. The first frame sets the capture
    port up and starts the decoder thread, which takes decoded buffers from the driver and shows them
    with \<open>drm.c\<close>. Its display thread puts them on the screen and leaves them in a ring, its recycle
    thread takes them out and calls \<open>capture_buffer_recycle\<close>, which queues them to the driver again.
  \<^item> The capture library \<open>libvfmcap\<close> (\<open>vfmcap.c\<close>) lends frames of the HDMI input to its client, with
    signal loss, recovery, frame-rate reduction and GPU conversion. Its Vulkan back end
    (\<open>vfmcap_vulkan.c\<close>) imports captured buffers through small caches, renders them into a pool of output
    buffers and lends those until the client releases them.
  \<^item> The GStreamer source \<open>streamboxsrc\<close> (\<open>gst_streambox_src.c\<close>) has two paths. Path A takes frames from
    \<open>libvfmcap\<close> and lends them downstream. Path B captures from the device \<open>vdin1\<close> itself: it lends capture
    buffers downstream, or converts them on the GPU into a pool of output buffers, one conversion in
    flight while downstream works on the frame before it. Both read the state of the input from the info
    file of the HDMI receiver.
  \<^item> The player \<open>amlplay\<close> passes messages between its threads through \<open>fsl_player_queue.c\<close>.
  \<^item> \<open>libadpcm\<close> decodes IMA and Microsoft ADPCM, A-law, u-law and PCM from a stream callback.
  \<^item> \<open>pipeline-reset\<close> brings a stuck capture device and encoder back.

  \<^bold>\<open>Theories.\<close> The source files are under \<open>src/\<close>; operations keep their C names.

  \<^item> \<open>Prelude\<close>: machine types, fallible steps (\<open>rbind\<close>, \<open>need\<close>, the collection \<open>result_simps\<close>), buffer
    accesses that fail outside of the buffer, linked chains in a heap.
  \<^item> \<open>Fifo_Spec\<close>: labelled runs (\<open>lts_run\<close>), the locale \<open>invariant_system\<close> and its extension
    \<open>fifo_system\<close>, the contract of a queue. \<open>Lease_Spec\<close>: the locale \<open>lease\<close>, the contract of a
    component that lends resources.
  \<^item> \<open>Player_Queue\<close> (\<open>fsl_player_queue.c\<close>, \<open>fsl_player_ui_message.c\<close>): the queue as nodes in a heap with a
    mutex and two conditions; \<open>queue_step\<close> interleaves put, get, waits and wake-ups of any threads. It
    interprets \<open>fifo_system\<close> (\<open>pq\<close>): messages are delivered in order, none is lost or doubled. Every
    branch of put, get and flush is specified; a put of NULL keeps the mutex.
  \<^item> \<open>Annexb_Demux\<close> (\<open>demux.c\<close>): header parsing, packets, key frames, codec dispatch, reading thread.
    Parsing a well-formed avcC or hvcC record yields its parameter sets; a packet yields its units in
    start-code form. Lengths of 3 bytes and a missing header are shown to go wrong.
  \<^item> \<open>Vp9_Frames\<close> (\<open>vp9.c\<close>) and \<open>Es_Output\<close> (output side of \<open>v4l2-dec.c\<close>): the superframe splitter, whose
    sizes stay inside the packet whatever the index says, the layout in secure memory, the collection
    of a frame and its submission as one buffer.
  \<^item> \<open>Stream_Feed\<close>: \<open>Annexb_Demux\<close> and \<open>Es_Output\<close> composed by the callbacks of \<open>test.c\<close>. A stream of packets
    reaches the driver as one buffer per packet, in order, with its units in start-code form.
  \<^item> \<open>Capture_Port\<close> (capture side of \<open>v4l2-dec.c\<close>): buffers in a heap, owned by the driver, the display or
    nobody. \<open>cap_step\<close> gives turns to the decoder thread and the display's callback. Three
    interpretations of \<open>invariant_system\<close> (\<open>cg\<close>, \<open>cb\<close>, \<open>cs\<close>) show that no freed buffer is touched, that
    changes of resolution leak nothing, and that a buffer lost at the end of a sequence stays lost.
  \<^item> \<open>Display_Ring\<close> (\<open>drm.c\<close>): the ring refines a queue when its operations are atomic (\<open>rq\<close>), and every
    frame shown is given back once; split into loads and stores, the unlocked count is shown to race.
  \<^item> \<open>Decode_Display\<close>: \<open>Capture_Port\<close> and \<open>Display_Ring\<close> composed, with the sync library between them. What
    \<open>Capture_Port\<close> assumes of the display, that it hands back only what it was shown, is proved of it;
    every shown buffer is in exactly one place, and the pipeline drains without leaving a buffer behind.
  \<^item> \<open>Adpcm_Core\<close>, \<open>Adpcm_Stream\<close> (\<open>adpcm_decode.c\<close>): the block decoders equal one-channel reference
    decoders and stay in their tables and in 16 bits; the entry points consume exactly a block. Refill
    with time stamps and sync headers is shown to go wrong in named cases.
  \<^item> \<open>Vfmcap_Model\<close>, \<open>Vfmcap_Acquire\<close>, \<open>Vfmcap_Props\<close> (\<open>vfmcap.c\<close>, \<open>vfmcap.h\<close>): the context as a record, one
    definition per entry point. It interprets \<open>lease\<close> (\<open>vf\<close>): buffers, descriptors and GPU outputs not
    given back are those of the frames the client holds. Also the start sequence, the protocol of
    signal loss, the pacing of frames, and the branches that differ from the documentation.
  \<^item> \<open>Vk_Model\<close> (\<open>vfmcap_vulkan.c\<close>): import caches, output pools, submission, waiting, the renders and the
    change of pools, on a GPU that records every breach of the rules of the Vulkan API. \<open>Vk_Caches\<close>: what
    a lookup does, that it never returns a stale import, and that two slots are too few for a render into
    two planes. \<open>Vk_Session\<close>: any sequence of calls; it interprets \<open>invariant_system\<close> (\<open>vkx\<close>): no output is
    lent twice. \<open>Vk_Props\<close>: a second interpretation (\<open>vkc\<close>): a client that waits before it starts other
    work never breaks a rule, and gets an output whenever one is free. \<open>Vk_Faults\<close>: the kernel's access
    brackets, waits that time out, an input that is never bound, pools that a change of the signal
    loses or mixes up.
  \<^item> \<open>C_Strings\<close>: lines, \<open>sscanf\<close> conversions and decimals of C. \<open>Hdmirx\<close>: the readers of the receiver's info
    file, inverse to its layout, and the fraction chosen for a frame rate.
  \<^item> \<open>Streambox_Model\<close> (path B of \<open>gst_streambox_src.c\<close>): the element, the driver, the GPU and downstream as
    one record, one definition per operation, and \<open>box_step\<close>, any sequence of their calls.
    \<open>Streambox_Inv\<close>, \<open>Streambox_Ops\<close> and \<open>Streambox_Session\<close> prove an invariant that says where every buffer
    is and which frame it holds, of the steps, of \<open>create\<close>, and of \<open>start\<close> and \<open>stop\<close>.
    \<open>Streambox_Example\<close> evaluates a session. \<open>Streambox_Props\<close> interprets \<open>invariant_system\<close> (\<open>box\<close>): the
    buffers of driver, GPU, pool and downstream are disjoint and frames arrive unchanged and in order.
    \<open>Streambox_Calls\<close>: what single calls deliver, that they return, how the stream ends.
    \<open>Streambox_Faults\<close>: a second interpretation (\<open>fds\<close>) shows that a stopped element has closed its
    descriptors; then what goes wrong, an event lost while priming, a driver that grants more buffers than
    asked for, a buffer kept across a restart.
  \<^item> \<open>Streambox_Path_A\<close> (path A): the element on top of \<open>Vfmcap_Model\<close> and \<open>Vfmcap_Acquire\<close>. It interprets
    \<open>lease\<close> again (\<open>pa\<close>): what the library lends goes downstream and back through it without loss, except for
    a frame that arrives while the source is unlocked. Also the contract of \<open>create\<close> and the accounts of
    a start that succeeds or fails.
  \<^item> \<open>Pipeline_Reset\<close> (\<open>pipeline-reset.c\<close>): the whole tool over an arbitrary operating system. Descriptors
    are closed and used only while open, a dry run changes nothing, exactly the stray pipelines are
    killed.

  \<^bold>\<open>Environment and termination.\<close> The driver, the GPU library, the operating system, libavformat and
  the allocators are arguments: a function from the calls made so far, a script of answers, or a reply
  record per operation. Theorems quantify over all of them, and hypotheses name the documented
  behaviour they use: the allocator returns unused addresses, the driver hands out only buffers it
  holds, the sync library pops and drops only frames it holds. Loops of the code over its own data are total
  functions. A loop that waits for the environment consumes the script of answers, so it ends for
  every finite script, and what it does when the script runs out is a result of its own
  (\<open>vfmcap_acquire_frame\<close>), or it is a step relation without bound on the steps (\<open>queue_step\<close>,
  \<open>cap_step\<close>). The packet loop of the demultiplexer, the sample loops of the ADPCM decoders and the
  loop of flush are partial functions whose value \<open>None\<close> is not returning; that they return is
  proved, except for the packet loop without a codec header, which is proved not to. The only fuel is
  the 20 decimal digits \<open>Pipeline_Reset\<close> prints a process id with, enough for 64 bits.

  \<^bold>\<open>Not modelled.\<close> Of the Vulkan back end: its initialisation, pipelines, the contents of command
  buffers, the creation of pool images, the renders of compressed input and in two passes, the clean-up;
  and the HDR tables (floating-point tables). In \<open>Vfmcap_Model\<close> the back end is an environment.
  Of the GStreamer source: properties, caps, time stamps and the creation of Vulkan objects. The older
  source \<open>gstvfmcapsrc.c\<close>, which the Makefile does not build and which does not fit the library's interface.
  The player application but for its queue (glue of a framework outside of the repository), the
  set-up of DRM devices, secure memory services, the set-up of the output port and
  \<open>destroy_capture_port\<close>, the vendored audio decoders (libmad, FAAD, Helix AAC, FLAC), the C++ services,
  and all console output. Interleavings inside a change of resolution are not modelled, and threads
  are sequentially consistent.
\<close>

end
